(* ===== verification/Prelude.thy ===== *)
theory Prelude
  imports
    Main
    "HOL-Library.Word"
    "HOL-Library.Char_ord"
    "HOL-Library.List_Lexorder"
    "HOL-Library.Product_Lexorder"
begin

text \<open>
  Shared vocabulary of the development: the width-64 integer operations of the Rust source, the
  \<open>Result\<close> operators, searching and updating a \<open>Vec\<close>, the ordered map \<open>BTreeMap\<close>, and runs of
  fallible step functions.

  A \<open>u64\<close> (and a \<open>usize\<close>, on the 64-bit targets the program supports) is a \<^typ>\<open>nat\<close> on which every
  operation of the source is written with its behaviour at the width: \<open>+\<close> wraps (the package
  defines no build profile, so the release build has no overflow checks), \<open>saturating_add\<close> and
  \<open>saturating_sub\<close> clamp, \<open>checked_add\<close> gives \<^const>\<open>None\<close>.  Strings are UTF-8 byte strings, one
  \<^typ>\<open>char\<close> per byte, so \<^const>\<open>length\<close> is Rust's \<open>str::len\<close>.
\<close>

named_theorems u64_defs \<open>definitions of the width-64 operations\<close>
named_theorems res_simps \<open>inversion of the Result operators\<close>

section \<open>Integers of width 64\<close>

type_synonym u64 = nat

abbreviation u64_modulus :: nat where
  "u64_modulus \<equiv> 18446744073709551616"

abbreviation u64_max :: nat where
  "u64_max \<equiv> 18446744073709551615"

definition add64 :: "u64 \<Rightarrow> u64 \<Rightarrow> u64" where
  "add64 a b = (a + b) mod u64_modulus"

definition sub64 :: "u64 \<Rightarrow> u64 \<Rightarrow> u64" where
  "sub64 a b = (if b \<le> a then a - b else (a + u64_modulus - b) mod u64_modulus)"

definition saturating_add :: "u64 \<Rightarrow> u64 \<Rightarrow> u64" where
  "saturating_add a b = min (a + b) u64_max"

definition saturating_sub :: "u64 \<Rightarrow> u64 \<Rightarrow> u64" where
  "saturating_sub a b = a - b"

definition checked_add :: "u64 \<Rightarrow> u64 \<Rightarrow> u64 option" where
  "checked_add a b = (if a + b < u64_modulus then Some (a + b) else None)"

definition sum64 :: "u64 list \<Rightarrow> u64" where
  "sum64 xs = foldl add64 0 xs"

lemmas [u64_defs] = add64_def sub64_def saturating_add_def saturating_sub_def checked_add_def

lemma add64_exact [simp]: "a + b < u64_modulus \<Longrightarrow> add64 a b = a + b"
  by (simp add: add64_def)

lemma sub64_exact [simp]: "b \<le> a \<Longrightarrow> sub64 a b = a - b"
  by (simp add: sub64_def)

lemma foldl_add64: "foldl add64 (a mod u64_modulus) xs = (a + sum_list xs) mod u64_modulus"
proof (induction xs arbitrary: a)
  case (Cons x xs)
  have "add64 (a mod u64_modulus) x = (a + x) mod u64_modulus"
    by (simp add: add64_def mod_simps)
  then show ?case
    using Cons.IH [of "a + x"] by (simp add: add.assoc)
qed simp

lemma sum64_mod: "sum64 xs = sum_list xs mod u64_modulus"
  using foldl_add64 [of 0 xs] by (simp add: sum64_def)

lemma sum64_exact [simp]: "sum_list xs < u64_modulus \<Longrightarrow> sum64 xs = sum_list xs"
  by (simp add: sum64_mod)

lemma checked_add_Some [simp]: "checked_add a b = Some c \<longleftrightarrow> c = a + b \<and> a + b < u64_modulus"
  by (auto simp: checked_add_def)

lemma checked_add_None [simp]: "checked_add a b = None \<longleftrightarrow> u64_modulus \<le> a + b"
  by (auto simp: checked_add_def)

section \<open>Results\<close>

text \<open>
  \<open>Result<T, E>\<close> is \<open>'e + 'a\<close> with \<^const>\<open>Inl\<close> the error.  \<open>res_bind\<close> is the \<open>?\<close> operator,
  \<open>map_err\<close> and \<open>ok_or\<close> are the library functions of those names, and \<open>ensure\<close> is the early return
  \<open>if !c { return Err(e) }\<close>.
\<close>

fun res_bind :: "'e + 'a \<Rightarrow> ('a \<Rightarrow> 'e + 'b) \<Rightarrow> 'e + 'b" where
  "res_bind (Inl e) f = Inl e"
| "res_bind (Inr x) f = f x"

fun map_err :: "('e \<Rightarrow> 'f) \<Rightarrow> 'e + 'a \<Rightarrow> 'f + 'a" where
  "map_err f (Inl e) = Inl (f e)"
| "map_err f (Inr x) = Inr x"

fun ok_or :: "'a option \<Rightarrow> 'e \<Rightarrow> 'e + 'a" where
  "ok_or None e = Inl e"
| "ok_or (Some x) e = Inr x"

definition ensure :: "bool \<Rightarrow> 'e \<Rightarrow> 'e + unit" where
  "ensure c e = (if c then Inr () else Inl e)"

fun is_ok :: "'e + 'a \<Rightarrow> bool" where
  "is_ok (Inl e) = False"
| "is_ok (Inr x) = True"

lemma res_bind_Inr [simp, res_simps]:
  "res_bind m f = Inr y \<longleftrightarrow> (\<exists>x. m = Inr x \<and> f x = Inr y)"
  by (cases m) auto

lemma res_bind_Inl [res_simps]:
  "res_bind m f = Inl e \<longleftrightarrow> m = Inl e \<or> (\<exists>x. m = Inr x \<and> f x = Inl e)"
  by (cases m) auto

lemma map_err_Inr [simp, res_simps]: "map_err f m = Inr y \<longleftrightarrow> m = Inr y"
  by (cases m) auto

lemma map_err_Inl [res_simps]: "map_err f m = Inl e \<longleftrightarrow> (\<exists>e'. m = Inl e' \<and> e = f e')"
  by (cases m) auto

lemma ok_or_Inr [simp, res_simps]: "ok_or m e = Inr y \<longleftrightarrow> m = Some y"
  by (cases m) auto

lemma ok_or_Inl [simp, res_simps]: "ok_or m e = Inl e' \<longleftrightarrow> m = None \<and> e' = e"
  by (cases m) auto

lemma ensure_Inr [simp, res_simps]: "ensure c e = Inr u \<longleftrightarrow> c"
  by (simp add: ensure_def)

lemma ensure_Inl [simp, res_simps]: "ensure c e = Inl e' \<longleftrightarrow> \<not> c \<and> e' = e"
  by (auto simp: ensure_def)

lemma ensure_eval [simp]: "ensure True e = Inr ()" "ensure False e = Inl e"
  by (simp_all add: ensure_def)

lemma is_ok_iff: "is_ok m \<longleftrightarrow> (\<exists>x. m = Inr x)"
  by (cases m) auto

section \<open>Vectors\<close>

text \<open>\<open>update_first\<close> is \<open>iter_mut().find(p)\<close> followed by an assignment through the reference.\<close>

fun update_first :: "('a \<Rightarrow> bool) \<Rightarrow> ('a \<Rightarrow> 'a) \<Rightarrow> 'a list \<Rightarrow> 'a list" where
  "update_first P f [] = []"
| "update_first P f (x # xs) = (if P x then f x # xs else x # update_first P f xs)"

lemma update_first_absent [simp]: "(\<And>x. x \<in> set xs \<Longrightarrow> \<not> P x) \<Longrightarrow> update_first P f xs = xs"
  by (induction xs) auto

lemma length_update_first [simp]: "length (update_first P f xs) = length xs"
  by (induction xs) auto

lemma map_update_first [simp]:
  "(\<And>x. P x \<Longrightarrow> g (f x) = g x) \<Longrightarrow> map g (update_first P f xs) = map g xs"
  by (induction xs) auto

lemma update_first_key:
  assumes "distinct (map g xs)"
  shows "update_first (\<lambda>x. g x = k) f xs = map (\<lambda>x. if g x = k then f x else x) xs"
  using assms
proof (induction xs)
  case (Cons x xs)
  show ?case
  proof (cases "g x = k")
    case True
    with Cons.prems have "\<And>y. y \<in> set xs \<Longrightarrow> g y \<noteq> k" by (auto simp: rev_image_eqI)
    then have "map (\<lambda>x. if g x = k then f x else x) xs = xs" by (auto intro: map_idI)
    with True show ?thesis by simp
  next
    case False
    with Cons show ?thesis by simp
  qed
qed simp

lemma find_eq_Some_key:
  assumes "distinct (map g xs)"
  shows "find (\<lambda>x. g x = k) xs = Some y \<longleftrightarrow> y \<in> set xs \<and> g y = k"
  using assms by (induction xs) (auto simp: rev_image_eqI)

lemma find_SomeD: "find P xs = Some x \<Longrightarrow> x \<in> set xs \<and> P x"
  by (induction xs) (auto split: if_splits)

lemma find_None [simp]: "find P xs = None \<longleftrightarrow> (\<forall>x \<in> set xs. \<not> P x)"
  by (induction xs) auto

section \<open>Runs of fallible step functions\<close>

text \<open>
  A component whose operations return \<open>Result\<close> is a step function; \<open>run_steps\<close> applies a sequence
  of operations and stops at the first refusal.  The contract \<open>guarded_machine\<close> is what every such
  component promises: its invariant survives every accepted operation.
\<close>

fun run_steps :: "('s \<Rightarrow> 'c \<Rightarrow> 'e + 's) \<Rightarrow> 's \<Rightarrow> 'c list \<Rightarrow> 'e + 's" where
  "run_steps step s [] = Inr s"
| "run_steps step s (c # cs) = res_bind (step s c) (\<lambda>s'. run_steps step s' cs)"

lemma run_steps_append:
  "run_steps step s (cs @ ds) = res_bind (run_steps step s cs) (\<lambda>s'. run_steps step s' ds)"
proof (induction cs arbitrary: s)
  case (Cons c cs)
  then show ?case by (cases "step s c") simp_all
qed simp

locale guarded_machine =
  fixes step :: "'s \<Rightarrow> 'c \<Rightarrow> 'e + 's"
    and invariant :: "'s \<Rightarrow> bool"
  assumes step_keeps: "invariant s \<Longrightarrow> step s c = Inr s' \<Longrightarrow> invariant s'"
begin

lemma run_keeps: "invariant s \<Longrightarrow> run_steps step s cs = Inr s' \<Longrightarrow> invariant s'"
  by (induction cs arbitrary: s) (auto dest: step_keeps)

lemma run_prefix_keeps:
  assumes "invariant s" and "run_steps step s (cs @ ds) = Inr s'"
  obtains m where "run_steps step s cs = Inr m" and "invariant m" and "run_steps step m ds = Inr s'"
  using assms by (auto simp: run_steps_append intro: run_keeps)

end

text \<open>A machine with a measure that no accepted operation decreases: the measure of a run's end
  bounds the measure of its start.\<close>

locale monotone_machine =
  fixes step :: "'s \<Rightarrow> 'c \<Rightarrow> 'e + 's"
    and below :: "'s \<Rightarrow> 's \<Rightarrow> bool"
  assumes below_refl: "below s s"
    and below_trans: "below s t \<Longrightarrow> below t u \<Longrightarrow> below s u"
    and step_below: "step s c = Inr s' \<Longrightarrow> below s s'"
begin

lemma run_below: "run_steps step s cs = Inr s' \<Longrightarrow> below s s'"
  by (induction cs arbitrary: s) (auto intro: below_refl below_trans dest: step_below)

end

end
