(* ===== verification/Ranges.thy ===== *)
theory Ranges
  imports Prelude
begin

text \<open>
  Byte ranges of the store spine: the range part of \<^verbatim>\<open>src/context_kernel/ir.rs\<close> (\<open>StoreRange\<close>,
  \<open>normalize\<close>, \<open>covered_units\<close>, \<open>enclosing\<close>, \<open>slice_into\<close>, \<open>covers_exactly\<close>).
  The specification of a range list is the set of byte positions it denotes.  The lemmas show that
  \<open>normalize\<close> is the canonical form of that set, that \<open>covered_units\<close> counts it, that \<open>covers_exactly\<close>
  decides "same bytes, no overlap", and that \<open>slice_into\<close> partitions it, all for ranges that end
  below \<open>2 ^ 64\<close>.
\<close>

record store_range =
  sr_offset :: u64
  sr_length :: u64

section \<open>Definitions\<close>

definition sr_end :: "store_range \<Rightarrow> u64" where
  "sr_end r = add64 (sr_offset r) (sr_length r)"

definition merge_step :: "store_range list \<Rightarrow> store_range \<Rightarrow> store_range list" where
  "merge_step merged r =
     (if merged \<noteq> [] \<and> sr_offset r \<le> sr_end (last merged)
      then if sr_end (last merged) < sr_end r
           then butlast merged @
             [(last merged)\<lparr>sr_length := sub64 (sr_end r) (sr_offset (last merged))\<rparr>]
           else merged
      else merged @ [r])"

definition normalize :: "store_range list \<Rightarrow> store_range list" where
  "normalize ranges =
     foldl merge_step []
       (sort_key (\<lambda>r. (sr_offset r, sr_end r)) (filter (\<lambda>r. 0 < sr_length r) ranges))"

definition covered_units :: "store_range list \<Rightarrow> u64" where
  "covered_units ranges = sum64 (map sr_length (normalize ranges))"

definition enclosing :: "store_range list \<Rightarrow> store_range" where
  "enclosing ranges =
     (case normalize ranges of
        [] \<Rightarrow> \<lparr>sr_offset = 0, sr_length = 0\<rparr>
      | first # rest \<Rightarrow>
          \<lparr>sr_offset = sr_offset first,
           sr_length = sub64 (foldl (\<lambda>e r. if e < sr_end r then sr_end r else e) (sr_end first) rest)
             (sr_offset first)\<rparr>)"

text \<open>
  \<open>slice_piece\<close> is the inner loop of \<open>slice_into\<close>: it takes \<open>target\<close> bytes from the ranges that are
  left (\<open>ranges[index..]\<close>), of whose first one \<open>consumed\<close> bytes are already taken, and returns the
  piece, the ranges left and the bytes consumed of their first.  Where the current range is not
  exhausted the loop has taken all of its target, so its guard fails and the loop ends.
\<close>

fun slice_piece :: "store_range list \<Rightarrow> u64 \<Rightarrow> u64 \<Rightarrow> store_range list \<times> store_range list \<times> u64" where
  "slice_piece [] consumed target = ([], [], consumed)"
| "slice_piece (current # rest) consumed target =
     (if target = 0 then ([], current # rest, consumed)
      else
        let available = sr_length current - consumed;
            taken = min available target;
            part = \<lparr>sr_offset = add64 (sr_offset current) consumed, sr_length = taken\<rparr>
        in if consumed + taken = sr_length current
           then let (piece, left, c) = slice_piece rest 0 (target - taken) in (part # piece, left, c)
           else ([part], current # rest, consumed + taken))"

fun slice_parts :: "u64 \<Rightarrow> u64 \<Rightarrow> nat \<Rightarrow> nat \<Rightarrow> store_range list \<Rightarrow> u64 \<Rightarrow> store_range list list" where
  "slice_parts base extra part 0 left consumed = []"
| "slice_parts base extra part (Suc n) left consumed =
     (let target = (if part < extra then base + 1 else base);
          (piece, left', consumed') = slice_piece left consumed target
      in piece # slice_parts base extra (Suc part) n left' consumed')"

definition slice_into :: "store_range list \<Rightarrow> nat \<Rightarrow> store_range list list" where
  "slice_into ranges parts =
     (if parts = 0 then []
      else let total = sum64 (map sr_length ranges)
           in slice_parts (total div parts) (total mod parts) 0 parts ranges 0)"

definition covers_exactly :: "store_range list \<Rightarrow> store_range list \<Rightarrow> bool" where
  "covers_exactly children parent \<longleftrightarrow>
     sum64 (map sr_length children) = covered_units parent \<and> normalize children = normalize parent"

section \<open>The bytes a range list denotes\<close>

definition range_bytes :: "store_range \<Rightarrow> nat set" where
  "range_bytes r = {sr_offset r ..< sr_offset r + sr_length r}"

definition bytes_of :: "store_range list \<Rightarrow> nat set" where
  "bytes_of rs = (\<Union>r \<in> set rs. range_bytes r)"

definition fits :: "store_range \<Rightarrow> bool" where
  "fits r \<longleftrightarrow> sr_offset r + sr_length r < u64_modulus"

definition gapped :: "store_range list \<Rightarrow> bool" where
  "gapped rs \<longleftrightarrow>
     (\<forall>r \<in> set rs. 0 < sr_length r \<and> fits r) \<and>
     sorted_wrt (\<lambda>a b. sr_offset a + sr_length a < sr_offset b) rs"

fun disjoint_ranges :: "store_range list \<Rightarrow> bool" where
  "disjoint_ranges [] = True"
| "disjoint_ranges (r # rs) = (range_bytes r \<inter> bytes_of rs = {} \<and> disjoint_ranges rs)"

lemma sr_end_fits [simp]: "fits r \<Longrightarrow> sr_end r = sr_offset r + sr_length r"
  by (simp add: fits_def sr_end_def)

lemma bytes_of_simps [simp]:
  "bytes_of [] = {}"
  "bytes_of (r # rs) = range_bytes r \<union> bytes_of rs"
  "bytes_of (rs @ rs') = bytes_of rs \<union> bytes_of rs'"
  by (auto simp: bytes_of_def)

lemma finite_range_bytes [simp]: "finite (range_bytes r)"
  by (simp add: range_bytes_def)

lemma finite_bytes_of [simp]: "finite (bytes_of rs)"
  by (simp add: bytes_of_def)

lemma card_range_bytes [simp]: "card (range_bytes r) = sr_length r"
  by (simp add: range_bytes_def)

lemma range_bytes_empty [simp]: "range_bytes r = {} \<longleftrightarrow> sr_length r = 0"
  by (simp add: range_bytes_def)

lemma bytes_of_positive: "bytes_of (filter (\<lambda>r. 0 < sr_length r) rs) = bytes_of rs"
  by (induction rs) (auto simp: range_bytes_def)

lemma bytes_of_cong_set: "set rs = set rs' \<Longrightarrow> bytes_of rs = bytes_of rs'"
  by (simp add: bytes_of_def)

section \<open>Merging\<close>

lemma gapped_Nil [simp]: "gapped []"
  by (simp add: gapped_def)

lemma gapped_append:
  "gapped (rs @ rs') \<longleftrightarrow> gapped rs \<and> gapped rs' \<and>
     (\<forall>a \<in> set rs. \<forall>b \<in> set rs'. sr_offset a + sr_length a < sr_offset b)"
  by (auto simp: gapped_def sorted_wrt_append)

lemma gapped_Cons:
  "gapped (r # rs) \<longleftrightarrow> 0 < sr_length r \<and> fits r \<and> gapped rs \<and>
     (\<forall>b \<in> set rs. sr_offset r + sr_length r < sr_offset b)"
  by (auto simp: gapped_def)

text \<open>One merge: the range either extends the last one of the cover or starts a new one after a gap.\<close>

lemma merge_step_correct:
  assumes acc: "gapped acc" and r: "0 < sr_length r" "fits r"
    and order: "acc \<noteq> [] \<Longrightarrow> sr_offset (last acc) \<le> sr_offset r"
  shows "gapped (merge_step acc r)"
    and "bytes_of (merge_step acc r) = bytes_of acc \<union> range_bytes r"
    and "sr_offset (last (merge_step acc r)) \<le> sr_offset r"
    and "merge_step acc r \<noteq> []"
proof -
  have "gapped (merge_step acc r) \<and> bytes_of (merge_step acc r) = bytes_of acc \<union> range_bytes r \<and>
    sr_offset (last (merge_step acc r)) \<le> sr_offset r \<and> merge_step acc r \<noteq> []"
  proof (cases "acc = []")
    case True
    with r show ?thesis by (simp add: merge_step_def gapped_def)
  next
    case False
    then obtain as l where as: "acc = as @ [l]" by (metis append_butlast_last_id)
    from acc have l: "gapped as" "0 < sr_length l" "fits l"
      and gap: "\<forall>a \<in> set as. sr_offset a + sr_length a < sr_offset l"
      by (auto simp: as gapped_append gapped_Cons)
    from order as have le: "sr_offset l \<le> sr_offset r" by simp
    show ?thesis
    proof (cases "sr_offset r \<le> sr_end l")
      case touching: True
      show ?thesis
      proof (cases "sr_end l < sr_end r")
        case True
        let ?m = "l\<lparr>sr_length := sub64 (sr_end r) (sr_offset l)\<rparr>"
        from r le l True have m: "sr_length ?m = sr_offset r + sr_length r - sr_offset l"
          by simp
        with r le have "0 < sr_length ?m" "fits ?m" by (auto simp: fits_def)
        moreover have "range_bytes ?m = range_bytes l \<union> range_bytes r"
          using m le touching True l r by (auto simp: range_bytes_def)
        ultimately show ?thesis
          using touching True l gap le by (auto simp: merge_step_def as gapped_append gapped_Cons)
      next
        case inside: False
        with l r le have "range_bytes r \<subseteq> range_bytes l" by (auto simp: range_bytes_def)
        with touching inside acc le show ?thesis by (auto simp: merge_step_def as)
      qed
    next
      case apart: False
      with l gap r le acc show ?thesis
        by (auto simp: merge_step_def as gapped_append gapped_Cons)
    qed
  qed
  then show "gapped (merge_step acc r)"
    and "bytes_of (merge_step acc r) = bytes_of acc \<union> range_bytes r"
    and "sr_offset (last (merge_step acc r)) \<le> sr_offset r"
    and "merge_step acc r \<noteq> []" by simp_all
qed

lemma foldl_merge_correct:
  assumes "gapped acc" and "\<forall>r \<in> set rs. 0 < sr_length r \<and> fits r"
    and "sorted (map sr_offset rs)"
    and "acc \<noteq> [] \<longrightarrow> (\<forall>r \<in> set rs. sr_offset (last acc) \<le> sr_offset r)"
  shows "gapped (foldl merge_step acc rs) \<and>
    bytes_of (foldl merge_step acc rs) = bytes_of acc \<union> bytes_of rs"
  using assms
proof (induction rs arbitrary: acc)
  case (Cons r rs)
  have step: "gapped (merge_step acc r)"
      "bytes_of (merge_step acc r) = bytes_of acc \<union> range_bytes r"
      "sr_offset (last (merge_step acc r)) \<le> sr_offset r"
    using merge_step_correct [of acc r] Cons.prems by auto
  moreover have "\<forall>r' \<in> set rs. sr_offset (last (merge_step acc r)) \<le> sr_offset r'"
    using step(3) Cons.prems(3) by fastforce
  ultimately show ?case
    using Cons.IH [of "merge_step acc r"] Cons.prems by auto
qed simp


section \<open>The canonical form\<close>

lemma normalize_correct:
  assumes "\<forall>r \<in> set rs. fits r"
  shows normalize_gapped: "gapped (normalize rs)"
    and normalize_bytes: "bytes_of (normalize rs) = bytes_of rs"
proof -
  let ?key = "\<lambda>r. (sr_offset r, sr_end r)"
  let ?pos = "filter (\<lambda>r. 0 < sr_length r) rs"
  have "sorted (map ?key (sort_key ?key ?pos))" by (rule sorted_sort_key)
  then have "sorted (map sr_offset (sort_key ?key ?pos))"
    by (auto simp: sorted_wrt_map intro: sorted_wrt_mono_rel [rotated])
  with assms have "gapped (normalize rs) \<and> bytes_of (normalize rs) = bytes_of (sort_key ?key ?pos)"
    unfolding normalize_def using foldl_merge_correct [of "[]" "sort_key ?key ?pos"] by auto
  moreover have "bytes_of (sort_key ?key ?pos) = bytes_of ?pos"
    by (rule bytes_of_cong_set) simp
  ultimately show "gapped (normalize rs)" "bytes_of (normalize rs) = bytes_of rs"
    by (simp_all add: bytes_of_positive)
qed

lemma gapped_Cons_bytes:
  assumes "gapped (r # rs)"
  shows "sr_offset r \<in> bytes_of (r # rs)"
    and "b \<in> bytes_of (r # rs) \<Longrightarrow> sr_offset r \<le> b"
    and "sr_offset r + sr_length r \<notin> bytes_of (r # rs)"
    and "range_bytes r \<inter> bytes_of rs = {}"
  using assms by (fastforce simp: gapped_Cons bytes_of_def range_bytes_def)+

text \<open>A cover with gaps is determined by its bytes: its first range starts at the least byte and
  ends at the least position after it that is not a byte.\<close>

lemma gapped_first_le:
  assumes "gapped (r # rs)" and "gapped (r' # rs')"
    and "bytes_of (r # rs) = bytes_of (r' # rs')"
  shows "sr_offset r' \<le> sr_offset r" and "sr_offset r = sr_offset r' \<Longrightarrow> sr_length r' \<le> sr_length r"
proof -
  from gapped_Cons_bytes(1) [OF assms(1)] assms(3) gapped_Cons_bytes(2) [OF assms(2)]
  show "sr_offset r' \<le> sr_offset r" by metis
next
  assume eq: "sr_offset r = sr_offset r'"
  show "sr_length r' \<le> sr_length r"
  proof (rule ccontr)
    assume "\<not> sr_length r' \<le> sr_length r"
    with eq have "sr_offset r + sr_length r \<in> range_bytes r'" by (simp add: range_bytes_def)
    then have "sr_offset r + sr_length r \<in> bytes_of (r # rs)" using assms(3) by simp
    with gapped_Cons_bytes(3) [OF assms(1)] show False by simp
  qed
qed

lemma gapped_unique:
  assumes "gapped rs" and "gapped rs'" and "bytes_of rs = bytes_of rs'"
  shows "rs = rs'"
  using assms
proof (induction rs arbitrary: rs')
  case Nil
  then show ?case by (cases rs') (auto simp: gapped_Cons)
next
  case (Cons r rs)
  from Cons.prems have "bytes_of rs' \<noteq> {}" by (auto simp: gapped_Cons)
  then obtain r' rs'' where rs': "rs' = r' # rs''" by (cases rs') auto
  note facts = Cons.prems(1) Cons.prems(2) [unfolded rs'] Cons.prems(3) [unfolded rs']
  have "sr_offset r = sr_offset r'"
    using gapped_first_le(1) [OF facts] gapped_first_le(1) [OF facts(2,1) facts(3) [symmetric]] by simp
  moreover from this have "sr_length r = sr_length r'"
    using gapped_first_le(2) [OF facts] gapped_first_le(2) [OF facts(2,1) facts(3) [symmetric]] by simp
  ultimately have r: "r = r'" by (cases r; cases r') simp
  then have "bytes_of rs = bytes_of rs''"
    using facts(3) gapped_Cons_bytes(4) [OF facts(1)] gapped_Cons_bytes(4) [OF facts(2)] by auto
  with Cons.IH [of rs''] facts r rs' show ?case by (simp add: gapped_Cons)
qed

lemma normalize_eq_iff:
  assumes "\<forall>r \<in> set rs. fits r" and "\<forall>r \<in> set rs'. fits r"
  shows "normalize rs = normalize rs' \<longleftrightarrow> bytes_of rs = bytes_of rs'"
  using assms gapped_unique [of "normalize rs" "normalize rs'"]
  by (metis normalize_bytes normalize_gapped)

lemma normalize_idem [simp]:
  assumes "gapped rs"
  shows "normalize rs = rs"
proof -
  from assms have "\<forall>r \<in> set rs. fits r" by (simp add: gapped_def)
  with assms show ?thesis by (intro gapped_unique normalize_gapped normalize_bytes)
qed

section \<open>Counting and covering\<close>

lemma disjoint_card:
  "card (bytes_of rs) \<le> sum_list (map sr_length rs)"
  "disjoint_ranges rs \<longleftrightarrow> card (bytes_of rs) = sum_list (map sr_length rs)"
proof (induction rs)
  case (Cons r rs)
  have card: "card (bytes_of (r # rs)) + card (range_bytes r \<inter> bytes_of rs) =
      sr_length r + card (bytes_of rs)"
    using card_Un_Int [of "range_bytes r" "bytes_of rs"] by simp
  show "card (bytes_of (r # rs)) \<le> sum_list (map sr_length (r # rs))"
    using card Cons.IH(1) by simp
  have "range_bytes r \<inter> bytes_of rs = {} \<longleftrightarrow> card (range_bytes r \<inter> bytes_of rs) = 0"
    using card_0_eq [of "range_bytes r \<inter> bytes_of rs"] by simp
  then show "disjoint_ranges (r # rs) \<longleftrightarrow>
      card (bytes_of (r # rs)) = sum_list (map sr_length (r # rs))"
    using card Cons.IH by auto
qed simp_all

lemma gapped_disjoint: "gapped rs \<Longrightarrow> disjoint_ranges rs"
proof (induction rs)
  case (Cons r rs)
  then show ?case using gapped_Cons_bytes(4) [OF Cons.prems] by (simp add: gapped_Cons)
qed simp

lemma bytes_bounded: "\<forall>r \<in> set rs. fits r \<Longrightarrow> card (bytes_of rs) < u64_modulus"
proof -
  assume "\<forall>r \<in> set rs. fits r"
  then have "bytes_of rs \<subseteq> {..< u64_max}" by (auto simp: bytes_of_def range_bytes_def fits_def)
  then have "card (bytes_of rs) \<le> card {..< u64_max}" by (intro card_mono) auto
  then show ?thesis by simp
qed

lemma covered_units_card:
  assumes "\<forall>r \<in> set rs. fits r"
  shows "covered_units rs = card (bytes_of rs)"
proof -
  have "sum_list (map sr_length (normalize rs)) = card (bytes_of rs)"
    using normalize_gapped [OF assms, THEN gapped_disjoint] normalize_bytes [OF assms]
    by (simp add: disjoint_card(2))
  with bytes_bounded [OF assms] show ?thesis by (simp add: covered_units_def)
qed

lemma covers_exactly_iff:
  assumes "\<forall>r \<in> set children. fits r" and "\<forall>r \<in> set parent. fits r"
    and "sum_list (map sr_length children) < u64_modulus"
  shows "covers_exactly children parent \<longleftrightarrow>
    bytes_of children = bytes_of parent \<and> disjoint_ranges children"
  using assms normalize_eq_iff [OF assms(1,2)] covered_units_card [OF assms(2)]
  by (auto simp: covers_exactly_def disjoint_card(2))

section \<open>Slicing\<close>

text \<open>The positions of a range list in order; slicing is an operation on this sequence.\<close>

definition positions :: "store_range list \<Rightarrow> nat list" where
  "positions rs = concat (map (\<lambda>r. [sr_offset r ..< sr_offset r + sr_length r]) rs)"

lemma positions_simps [simp]:
  "positions [] = []"
  "positions (r # rs) = [sr_offset r ..< sr_offset r + sr_length r] @ positions rs"
  "positions (rs @ rs') = positions rs @ positions rs'"
  by (simp_all add: positions_def)

lemma set_positions [simp]: "set (positions rs) = bytes_of rs"
  by (induction rs) (auto simp: range_bytes_def)

lemma length_positions [simp]: "length (positions rs) = sum_list (map sr_length rs)"
  by (induction rs) auto

abbreviation first_length :: "store_range list \<Rightarrow> nat" where
  "first_length rs \<equiv> (case rs of [] \<Rightarrow> 0 | r # _ \<Rightarrow> sr_length r)"

lemma slice_piece_positions:
  assumes "slice_piece left consumed target = (piece, left', consumed')"
    and "consumed \<le> first_length left" and "\<forall>r \<in> set left. fits r"
  shows "positions piece = take target (drop consumed (positions left)) \<and>
    drop consumed' (positions left') = drop (consumed + target) (positions left) \<and>
    consumed' \<le> first_length left' \<and> (\<forall>r \<in> set left'. fits r)"
  using assms
proof (induction left consumed target arbitrary: piece left' consumed' rule: slice_piece.induct)
  case (1 consumed target)
  then show ?case by simp
next
  case (2 current rest consumed target)
  define available where "available = sr_length current - consumed"
  define taken where "taken = min available target"
  define part where "part = \<lparr>sr_offset = add64 (sr_offset current) consumed, sr_length = taken\<rparr>"
  from "2.prems" have c: "consumed \<le> sr_length current" and fit: "fits current" by simp_all
  then have off: "sr_offset part = sr_offset current + consumed" by (simp add: part_def fits_def)
  have rest: "drop consumed (positions (current # rest)) =
      [sr_offset current + consumed ..< sr_offset current + sr_length current] @ positions rest"
    using c by simp
  show ?case
  proof (cases "target = 0")
    case True
    with "2.prems" show ?thesis by auto
  next
    case False
    show ?thesis
    proof (cases "consumed + taken = sr_length current")
      case True
      then have t: "taken = available" "available \<le> target" using c by (auto simp: taken_def available_def)
      obtain p l k where rec: "slice_piece rest 0 (target - taken) = (p, l, k)"
        by (metis prod_cases3)
      with False True "2.prems"(1) have res: "piece = part # p" "left' = l" "consumed' = k"
        by (auto simp: Let_def available_def [symmetric] taken_def [symmetric] part_def [symmetric])
      from "2.IH" [OF False refl refl refl, folded available_def, folded taken_def, OF True rec]
        "2.prems"(3)
      have IH: "positions p = take (target - taken) (positions rest)"
        "drop k (positions l) = drop (target - taken) (positions rest)"
        "k \<le> first_length l" "\<forall>r \<in> set l. fits r"
        by auto
      have "positions (part # p) = [sr_offset current + consumed ..< sr_offset current + sr_length current]
          @ take (target - taken) (positions rest)"
        using off True IH(1) by (simp add: part_def add.assoc)
      moreover have "sr_length current - consumed = taken" using t by (simp add: available_def)
      moreover have "drop (consumed + target) (positions (current # rest)) =
          drop (target - taken) (positions rest)"
        using c t True by (simp add: available_def add.commute)
      ultimately show ?thesis using res IH rest t by simp
    next
      case partial: False
      then have t: "taken = target" "target < available" using c by (auto simp: taken_def available_def)
      with False partial "2.prems"(1) have res: "piece = [part]" "left' = current # rest"
        "consumed' = consumed + target"
        by (auto simp: Let_def available_def [symmetric] taken_def [symmetric] part_def)
      have "positions [part] = take target [sr_offset current + consumed ..< sr_offset current + sr_length current]"
        using off t c by (simp add: part_def available_def)
      with res t c "2.prems"(3) rest show ?thesis by (simp add: available_def)
    qed
  qed
qed

definition slice_target :: "nat \<Rightarrow> nat \<Rightarrow> nat \<Rightarrow> nat" where
  "slice_target base extra part = (if part < extra then base + 1 else base)"

lemma slice_parts_positions:
  assumes "consumed \<le> first_length left" and "\<forall>r \<in> set left. fits r"
    and "(\<Sum>i = part ..< part + n. slice_target base extra i) \<le> length (positions left) - consumed"
  shows "length (slice_parts base extra part n left consumed) = n \<and>
    concat (map positions (slice_parts base extra part n left consumed)) =
      take (\<Sum>i = part ..< part + n. slice_target base extra i) (drop consumed (positions left)) \<and>
    map (\<lambda>p. sum_list (map sr_length p)) (slice_parts base extra part n left consumed) =
      map (slice_target base extra) [part ..< part + n]"
  using assms
proof (induction n arbitrary: part left consumed)
  case (Suc n)
  let ?t = "slice_target base extra part"
  let ?rest = "\<Sum>i = Suc part ..< Suc part + n. slice_target base extra i"
  obtain piece left' consumed' where piece: "slice_piece left consumed ?t = (piece, left', consumed')"
    by (metis prod_cases3)
  note p = slice_piece_positions [OF piece Suc.prems(1,2)]
  have sum: "(\<Sum>i = part ..< part + Suc n. slice_target base extra i) = ?t + ?rest"
    by (simp add: sum.atLeast_Suc_lessThan)
  have unfold: "slice_parts base extra part (Suc n) left consumed =
      piece # slice_parts base extra (Suc part) n left' consumed'"
    using piece by (simp add: slice_target_def)
  from p have left: "drop consumed' (positions left') = drop ?t (drop consumed (positions left))"
    by (simp add: add.commute)
  then have "length (positions left') - consumed' = length (positions left) - consumed - ?t"
    by (metis length_drop)
  with Suc.prems(3) sum have "?rest \<le> length (positions left') - consumed'" by linarith
  from Suc.IH [OF _ _ this] p
  have IH: "length (slice_parts base extra (Suc part) n left' consumed') = n"
    "concat (map positions (slice_parts base extra (Suc part) n left' consumed')) =
      take ?rest (drop ?t (drop consumed (positions left)))"
    "map (\<lambda>p. sum_list (map sr_length p)) (slice_parts base extra (Suc part) n left' consumed') =
      map (slice_target base extra) [Suc part ..< Suc part + n]"
    using left by auto
  have "length (positions piece) = ?t"
    using p Suc.prems(3) sum by (simp del: length_positions)
  then have len: "sum_list (map sr_length piece) = ?t" by simp
  have "[part ..< part + Suc n] = part # [Suc part ..< Suc part + n]"
    by (simp add: upt_conv_Cons)
  with IH len p sum unfold show ?case by (simp add: take_add)
qed simp

lemma slice_targets_sum:
  assumes "0 < parts"
  shows "(\<Sum>i = 0 ..< parts. slice_target (units div parts) (units mod parts) i) = units"
proof -
  have "(\<Sum>i = 0 ..< parts. slice_target b e i) = parts * b + min e parts" for b e
    by (induction parts) (auto simp: slice_target_def)
  moreover from assms have "units mod parts \<le> parts" by (simp add: less_imp_le)
  ultimately show ?thesis by (simp add: min_def)
qed

lemma slice_into_partitions:
  assumes "0 < parts" and "\<forall>r \<in> set rs. fits r" and "sum_list (map sr_length rs) < u64_modulus"
  defines "units \<equiv> sum_list (map sr_length rs)"
  shows "length (slice_into rs parts) = parts"
    and "concat (map positions (slice_into rs parts)) = positions rs"
    and "map (\<lambda>p. sum_list (map sr_length p)) (slice_into rs parts) =
      map (slice_target (units div parts) (units mod parts)) [0 ..< parts]"
proof -
  have eq: "slice_into rs parts = slice_parts (units div parts) (units mod parts) 0 parts rs 0"
    using assms(1,3) by (simp add: slice_into_def units_def Let_def)
  have "(\<Sum>i = 0 ..< 0 + parts. slice_target (units div parts) (units mod parts) i) = units"
    using slice_targets_sum [OF assms(1)] by simp
  then show "length (slice_into rs parts) = parts"
    and "concat (map positions (slice_into rs parts)) = positions rs"
    and "map (\<lambda>p. sum_list (map sr_length p)) (slice_into rs parts) =
      map (slice_target (units div parts) (units mod parts)) [0 ..< parts]"
    using slice_parts_positions [where consumed = 0 and left = rs and part = 0 and n = parts
        and base = "units div parts" and extra = "units mod parts"] assms(2)
    by (simp_all add: eq units_def)
qed

end
