(* ===== verification/Canonical.thy ===== *)
theory Canonical
  imports Prelude
begin

unbundle bit_operations_syntax

text \<open>
  The canonical byte encoding of \<^verbatim>\<open>src/context_kernel/canonical.rs\<close>: the FNV-1a digest, the
  append-only \<open>Sink\<close> every digest producer encodes through, and the salted hash scopes.  A digest is
  a \<^typ>\<open>64 word\<close>, a byte an \<^typ>\<open>8 word\<close>; the sink's buffer is the list of bytes written so far and
  each method of \<open>Sink\<close> is a function from buffer to buffer.
  The lemmas show that the encoding is uniquely decodable field by field, that digests of different
  scopes never digest the same input, and that a single changed byte always changes the digest.
\<close>

type_synonym byte = "8 word"
type_synonym digest = "64 word"
type_synonym sink = "byte list"

definition string_bytes :: "string \<Rightarrow> byte list" where
  "string_bytes s = map of_char s"

section \<open>Definitions\<close>

definition FNV_OFFSET :: digest where
  "FNV_OFFSET = 0xcbf29ce484222325"

definition FNV_PRIME :: digest where
  "FNV_PRIME = 0x00000100000001b3"

definition fnv_step :: "digest \<Rightarrow> byte \<Rightarrow> digest" where
  "fnv_step hash b = (hash XOR ucast b) * FNV_PRIME"

definition digest :: "byte list \<Rightarrow> digest" where
  "digest bs = foldl fnv_step FNV_OFFSET bs"

text \<open>\<open>u64::to_le_bytes\<close>.\<close>

fun le_take :: "nat \<Rightarrow> nat \<Rightarrow> byte list" where
  "le_take 0 n = []"
| "le_take (Suc k) n = word_of_nat n # le_take k (n div 256)"

definition le_bytes :: "u64 \<Rightarrow> byte list" where
  "le_bytes n = le_take 8 n"

definition digest_bytes :: "digest \<Rightarrow> byte list" where
  "digest_bytes d = le_bytes (unat d)"

definition chained :: "digest \<Rightarrow> byte list \<Rightarrow> digest" where
  "chained previous bs = digest (digest_bytes previous @ bs)"

definition sink_new :: sink where
  "sink_new = []"

definition sink_int :: "u64 \<Rightarrow> sink \<Rightarrow> sink" where
  "sink_int v s = s @ le_bytes v"

definition sink_digest :: "digest \<Rightarrow> sink \<Rightarrow> sink" where
  "sink_digest d s = sink_int (unat d) s"

definition sink_flag :: "bool \<Rightarrow> sink \<Rightarrow> sink" where
  "sink_flag v s = s @ [if v then 1 else 0]"

definition sink_byte_order_mark :: "sink \<Rightarrow> sink" where
  "sink_byte_order_mark s = s @ [0xff]"

definition sink_blob :: "byte list \<Rightarrow> sink \<Rightarrow> sink" where
  "sink_blob v s = sink_int (length v) s @ v"

definition sink_tag :: "string \<Rightarrow> sink \<Rightarrow> sink" where
  "sink_tag v s = sink_blob (string_bytes v) s"

datatype hash_scope = EventChain | StateScope | StoreBuild

fun salt :: "hash_scope \<Rightarrow> byte list" where
  "salt EventChain = string_bytes ''hash-scope:event-chain''"
| "salt StateScope = string_bytes ''hash-scope:state''"
| "salt StoreBuild = string_bytes ''hash-scope:store-build''"

definition scope_digest :: "hash_scope \<Rightarrow> byte list \<Rightarrow> digest" where
  "scope_digest sc bs = digest (salt sc @ bs)"

definition scope_chain :: "hash_scope \<Rightarrow> digest \<Rightarrow> byte list \<Rightarrow> digest" where
  "scope_chain sc previous bs = digest (salt sc @ digest_bytes previous @ bs)"

lemmas sink_defs = sink_new_def sink_int_def sink_digest_def sink_flag_def
  sink_byte_order_mark_def sink_blob_def sink_tag_def

section \<open>Integers and strings are uniquely decodable\<close>

definition le_value :: "byte list \<Rightarrow> nat" where
  "le_value bs = foldr (\<lambda>b acc. unat b + 256 * acc) bs 0"

lemma length_le_take [simp]: "length (le_take k n) = k"
  by (induction k arbitrary: n) auto

lemma length_le_bytes [simp]: "length (le_bytes n) = 8"
  by (simp add: le_bytes_def)

lemma le_value_le_take: "le_value (le_take k n) = n mod 256 ^ k"
proof (induction k arbitrary: n)
  case (Suc k)
  have "le_value (le_take (Suc k) n) = n mod 256 + 256 * (n div 256 mod 256 ^ k)"
    using Suc.IH [of "n div 256"] by (simp add: le_value_def unat_of_nat)
  also have "\<dots> = n mod (256 * 256 ^ k)"
    by (simp add: mod_mult2_eq)
  finally show ?case by simp
qed (simp add: le_value_def)

lemma le_value_le_bytes: "le_value (le_bytes n) = n mod u64_modulus"
  by (simp add: le_bytes_def le_value_le_take)

lemma le_bytes_inject:
  assumes "le_bytes a = le_bytes b" and "a < u64_modulus" and "b < u64_modulus"
  shows "a = b"
proof -
  from assms(1) have "le_value (le_bytes a) = le_value (le_bytes b)" by (rule arg_cong)
  then have "a mod u64_modulus = b mod u64_modulus" by (simp only: le_value_le_bytes)
  with assms(2,3) show ?thesis by (simp only: mod_less)
qed

lemma digest_bytes_inject [simp]: "digest_bytes a = digest_bytes b \<longleftrightarrow> a = b"
proof
  assume "digest_bytes a = digest_bytes b"
  moreover have "unat a < u64_modulus" "unat b < u64_modulus"
    using unsigned_less [of a] unsigned_less [of b] by simp_all
  ultimately show "a = b"
    using le_bytes_inject [of "unat a" "unat b"] unfolding digest_bytes_def
    by (blast intro: unsigned_word_eqI)
qed simp

lemma length_digest_bytes [simp]: "length (digest_bytes d) = 8"
  by (simp add: digest_bytes_def)

lemma sink_int_decodes:
  assumes "sink_int a s @ r = sink_int b s @ r'" and "a < u64_modulus" and "b < u64_modulus"
  shows "a = b \<and> r = r'"
  using assms by (auto simp: sink_int_def intro: le_bytes_inject)

lemma sink_blob_decodes:
  assumes "sink_blob a s @ r = sink_blob b s @ r'"
    and "length a < u64_modulus" and "length b < u64_modulus"
  shows "a = b \<and> r = r'"
proof -
  have eq: "sink_int (length a) s @ (a @ r) = sink_int (length b) s @ (b @ r')"
    using assms(1) by (simp add: sink_blob_def)
  from sink_int_decodes [OF this assms(2,3)] show ?thesis by (auto simp: append_eq_append_conv)
qed

lemma string_bytes_inject [simp]: "string_bytes a = string_bytes b \<longleftrightarrow> a = b"
proof
  have char: "(of_char c :: byte) = of_char d \<Longrightarrow> c = d" for c d
  proof -
    assume "(of_char c :: byte) = of_char d"
    then have "(word_of_nat (of_char c) :: byte) = word_of_nat (of_char d)"
      by (simp only: of_nat_of_char)
    then have "unat (word_of_nat (of_char c) :: byte) = unat (word_of_nat (of_char d) :: byte)"
      by (rule arg_cong)
    moreover have "(of_char c :: nat) < 256" "(of_char d :: nat) < 256"
      by (rule nat_of_char_less_256)+
    ultimately have "(of_char c :: nat) = of_char d" by (simp only: unat_of_nat) simp
    then show "c = d" by simp
  qed
  assume "string_bytes a = string_bytes b"
  then show "a = b" unfolding string_bytes_def
    by (rule inj_map_eq_map [THEN iffD1, rotated]) (auto intro!: injI char)
qed simp

section \<open>Hash scopes never share an input\<close>

lemma salt_inject:
  assumes "salt a @ r = salt b @ r'"
  shows "a = b \<and> r = r'"
proof -
  have "length (salt a) = length (salt b) \<or> hd (drop 11 (salt a @ r)) \<noteq> hd (drop 11 (salt b @ r'))
    \<or> hd (drop 12 (salt a @ r)) \<noteq> hd (drop 12 (salt b @ r'))
    \<or> hd (drop 13 (salt a @ r)) \<noteq> hd (drop 13 (salt b @ r'))"
    by (cases a; cases b) (simp_all add: string_bytes_def)
  with assms have "salt a = salt b \<and> r = r'" by simp
  then show ?thesis by (cases a; cases b) simp_all
qed

section \<open>The digest\<close>

text \<open>One round of FNV-1a is a bijection of the hash for every byte, because the prime is odd, so the
  digest of two inputs that end alike agree only if they agreed before the common ending.\<close>

definition FNV_INVERSE :: digest where
  "FNV_INVERSE = 0xce965057aff6957b"

lemma fnv_prime_inverse: "FNV_PRIME * FNV_INVERSE = 1"
  by (simp add: FNV_PRIME_def FNV_INVERSE_def)

lemma mult_prime_inject:
  assumes "a * FNV_PRIME = b * FNV_PRIME"
  shows "a = b"
proof -
  from assms have "a * (FNV_PRIME * FNV_INVERSE) = b * (FNV_PRIME * FNV_INVERSE)"
    by (metis mult.assoc)
  then show ?thesis by (simp add: fnv_prime_inverse)
qed

lemma xor_cancel_right: "a XOR c = b XOR c \<Longrightarrow> a = b" for a b c :: digest
proof -
  assume "a XOR c = b XOR c"
  then have "(a XOR c) XOR c = (b XOR c) XOR c" by (rule arg_cong)
  then show "a = b" by (simp only: xor.assoc xor_self_eq xor.right_neutral)
qed

lemma fnv_step_inject_hash: "fnv_step a b = fnv_step a' b \<Longrightarrow> a = a'"
  unfolding fnv_step_def by (drule mult_prime_inject) (rule xor_cancel_right)

lemma fnv_step_inject_byte: "fnv_step a b = fnv_step a b' \<Longrightarrow> b = b'"
proof -
  assume "fnv_step a b = fnv_step a b'"
  then have "a XOR ucast b = a XOR ucast b'"
    unfolding fnv_step_def by (rule mult_prime_inject)
  then have "(ucast b :: digest) = ucast b'"
    using xor_cancel_right [of "ucast b" a "ucast b'"] by (simp add: xor.commute)
  moreover have "take_bit 64 (unat x) = unat x" for x :: byte
  proof -
    have "unat x < 2 ^ LENGTH(8)" by (rule unsigned_less)
    then show ?thesis by (simp add: take_bit_nat_eq_self_iff)
  qed
  ultimately show "b = b'" by (simp add: unsigned_ucast_eq word_unat_eq_iff)
qed

lemma foldl_fnv_inject: "foldl fnv_step a bs = foldl fnv_step a' bs \<Longrightarrow> a = a'"
  by (induction bs arbitrary: a a') (auto dest: fnv_step_inject_hash)

lemma digest_common_suffix: "digest (xs @ s) = digest (ys @ s) \<longleftrightarrow> digest xs = digest ys"
  by (auto simp: digest_def dest: foldl_fnv_inject)

lemma digest_changed_byte: "b \<noteq> b' \<Longrightarrow> digest (p @ b # s) \<noteq> digest (p @ b' # s)"
proof
  assume ne: "b \<noteq> b'" and "digest (p @ b # s) = digest (p @ b' # s)"
  then have "digest (p @ [b]) = digest (p @ [b'])"
    using digest_common_suffix [of "p @ [b]" s "p @ [b']"] by simp
  then have "b = b'" by (auto simp: digest_def dest: fnv_step_inject_byte)
  with ne show False by simp
qed

end
