(* ===== verification/Lanes.thy ===== *)
theory Lanes
  imports Canonical
begin

text \<open>
  Lane classification and the versioned lane-policy registry: \<^verbatim>\<open>src/context_kernel/lanes.rs\<close>, with
  the structural classes of \<^verbatim>\<open>src/context_kernel/ir.rs\<close> a lane is resolved from.
\<close>

section \<open>Definitions\<close>

datatype structural_class =
    ExactSpan | Identifier | CodeSpan | TestLog | Noise | UnknownClass

fun structural_class_code :: "structural_class \<Rightarrow> u64" where
  "structural_class_code ExactSpan = 1"
| "structural_class_code Identifier = 2"
| "structural_class_code CodeSpan = 3"
| "structural_class_code TestLog = 4"
| "structural_class_code Noise = 5"
| "structural_class_code UnknownClass = 6"

definition structural_class_from_code :: "u64 \<Rightarrow> structural_class option" where
  "structural_class_from_code code =
     (if code = 1 then Some ExactSpan
      else if code = 2 then Some Identifier
      else if code = 3 then Some CodeSpan
      else if code = 4 then Some TestLog
      else if code = 5 then Some Noise
      else if code = 6 then Some UnknownClass
      else None)"

fun structural_class_name :: "structural_class \<Rightarrow> string" where
  "structural_class_name ExactSpan = ''exact-span''"
| "structural_class_name Identifier = ''identifier''"
| "structural_class_name CodeSpan = ''code''"
| "structural_class_name TestLog = ''test-log''"
| "structural_class_name Noise = ''noise''"
| "structural_class_name UnknownClass = ''unknown''"

definition encode_structural_class :: "structural_class \<Rightarrow> sink \<Rightarrow> sink" where
  "encode_structural_class c = sink_tag (structural_class_name c)"

datatype lane = Constitutional | Decisional | Evidential | Ephemeral

fun lane_name :: "lane \<Rightarrow> string" where
  "lane_name Constitutional = ''constitutional''"
| "lane_name Decisional = ''decisional''"
| "lane_name Evidential = ''evidential''"
| "lane_name Ephemeral = ''ephemeral''"

definition lane_all :: "lane list" where
  "lane_all = [Constitutional, Decisional, Evidential, Ephemeral]"

fun for_structural_class :: "structural_class \<Rightarrow> lane" where
  "for_structural_class ExactSpan = Constitutional"
| "for_structural_class Identifier = Constitutional"
| "for_structural_class CodeSpan = Evidential"
| "for_structural_class TestLog = Evidential"
| "for_structural_class Noise = Ephemeral"
| "for_structural_class UnknownClass = Decisional"

datatype fidelity = Verbatim | FieldPreserving | DigestFidelity | Droppable

fun fidelity_code :: "fidelity \<Rightarrow> u64" where
  "fidelity_code Verbatim = 1"
| "fidelity_code FieldPreserving = 2"
| "fidelity_code DigestFidelity = 3"
| "fidelity_code Droppable = 4"

datatype derivative_op = FoldOp | CompactOp | CondenseOp | DigestOp | DropWithHandleOp | PlaceholderCollapseOp

fun derivative_op_code :: "derivative_op \<Rightarrow> u64" where
  "derivative_op_code FoldOp = 1"
| "derivative_op_code CompactOp = 2"
| "derivative_op_code CondenseOp = 3"
| "derivative_op_code DigestOp = 4"
| "derivative_op_code DropWithHandleOp = 5"
| "derivative_op_code PlaceholderCollapseOp = 6"

datatype survival_class = Protected | Required | BestEffort | Excluded

fun survival_class_code :: "survival_class \<Rightarrow> u64" where
  "survival_class_code Protected = 1"
| "survival_class_code Required = 2"
| "survival_class_code BestEffort = 3"
| "survival_class_code Excluded = 4"

record lane_policy =
  lp_lane :: lane
  lp_fidelity :: fidelity
  lp_permitted :: "derivative_op list"
  lp_droppability_rank :: u64
  lp_survival :: survival_class
  lp_floor_units :: u64

definition encode_lane_policy :: "lane_policy \<Rightarrow> sink \<Rightarrow> sink" where
  "encode_lane_policy p s =
     foldl (\<lambda>s op. sink_int (derivative_op_code op) s)
       (sink_int (lp_floor_units p)
         (sink_int (survival_class_code (lp_survival p))
           (sink_int (lp_droppability_rank p)
             (sink_int (fidelity_code (lp_fidelity p))
               (sink_tag (lane_name (lp_lane p)) s)))))
       (lp_permitted p)"

datatype policy_error =
    PolicyUnsupportedVersion u64 u64
  | MissingRow string

definition LANE_POLICY_LATEST_VERSION :: u64 where
  "LANE_POLICY_LATEST_VERSION = 2"

record lane_policy_registry =
  lpr_version :: u64
  lpr_policies :: "lane_policy list"

definition build_registry :: "u64 \<Rightarrow> fidelity \<Rightarrow> u64 \<Rightarrow> lane_policy_registry" where
  "build_registry version evidential evidential_floor =
     \<lparr>lpr_version = version,
      lpr_policies =
       [\<lparr>lp_lane = Constitutional, lp_fidelity = Verbatim, lp_permitted = [],
         lp_droppability_rank = 4, lp_survival = Protected, lp_floor_units = 512\<rparr>,
        \<lparr>lp_lane = Decisional, lp_fidelity = FieldPreserving, lp_permitted = [FoldOp, CompactOp],
         lp_droppability_rank = 3, lp_survival = Required, lp_floor_units = 128\<rparr>,
        \<lparr>lp_lane = Evidential, lp_fidelity = evidential,
         lp_permitted = [FoldOp, CompactOp, CondenseOp, DigestOp, DropWithHandleOp, PlaceholderCollapseOp],
         lp_droppability_rank = 2, lp_survival = BestEffort, lp_floor_units = evidential_floor\<rparr>,
        \<lparr>lp_lane = Ephemeral, lp_fidelity = Droppable, lp_permitted = [FoldOp, DropWithHandleOp],
         lp_droppability_rank = 1, lp_survival = Excluded, lp_floor_units = 0\<rparr>]\<rparr>"

definition resolve_registry :: "u64 \<Rightarrow> policy_error + lane_policy_registry" where
  "resolve_registry version =
     (if version = 1 then Inr (build_registry 1 FieldPreserving 0)
      else if version = 2 then Inr (build_registry 2 DigestFidelity 256)
      else Inl (PolicyUnsupportedVersion version LANE_POLICY_LATEST_VERSION))"

definition latest_registry :: lane_policy_registry where
  "latest_registry =
     (case resolve_registry LANE_POLICY_LATEST_VERSION of
        Inr r \<Rightarrow> r
      | Inl _ \<Rightarrow> build_registry LANE_POLICY_LATEST_VERSION DigestFidelity 256)"

definition registry_policy :: "lane_policy_registry \<Rightarrow> lane \<Rightarrow> policy_error + lane_policy" where
  "registry_policy r l = ok_or (find (\<lambda>row. lp_lane row = l) (lpr_policies r)) (MissingRow (lane_name l))"

definition encode_registry :: "lane_policy_registry \<Rightarrow> sink \<Rightarrow> sink" where
  "encode_registry r s =
     foldl (\<lambda>s row. encode_lane_policy row s)
       (sink_int (lpr_version r) (sink_tag ''lane-policy-registry'' s)) (lpr_policies r)"

section \<open>Lemmas\<close>

lemma structural_class_round_trip [simp]:
  "structural_class_from_code (structural_class_code c) = Some c"
  by (cases c) (simp_all add: structural_class_from_code_def)

lemma lane_name_inject [simp]: "lane_name a = lane_name b \<longleftrightarrow> a = b"
  by (cases a; cases b) simp_all

lemma set_lane_all [simp]: "set lane_all = UNIV"
  by (auto simp: lane_all_def intro: lane.exhaust)

lemma resolve_ok_iff: "is_ok (resolve_registry v) \<longleftrightarrow> 1 \<le> v \<and> v \<le> LANE_POLICY_LATEST_VERSION"
  by (auto simp: resolve_registry_def LANE_POLICY_LATEST_VERSION_def)

lemma latest_registry_eq: "latest_registry = build_registry 2 DigestFidelity 256"
  by (simp add: latest_registry_def resolve_registry_def LANE_POLICY_LATEST_VERSION_def)

text \<open>A complete registry: one row per lane, the droppability ranks a permutation of 1 to 4 with the
  constitutional lane reclaimed last, and the constitutional lane verbatim and underivable.\<close>

definition complete_registry :: "lane_policy_registry \<Rightarrow> bool" where
  "complete_registry r \<longleftrightarrow>
     map lp_lane (lpr_policies r) = lane_all \<and>
     map lp_droppability_rank (lpr_policies r) = [4, 3, 2, 1] \<and>
     (\<forall>p \<in> set (lpr_policies r). lp_lane p = Constitutional \<longrightarrow>
        lp_fidelity p = Verbatim \<and> lp_permitted p = [] \<and> lp_survival p = Protected)"

lemma build_complete: "complete_registry (build_registry v f n)"
  by (simp add: complete_registry_def build_registry_def lane_all_def)

lemma complete_registry_policy:
  assumes "complete_registry r"
  obtains p where "registry_policy r l = Inr p" and "lp_lane p = l" and "p \<in> set (lpr_policies r)"
proof -
  from assms have rows: "map lp_lane (lpr_policies r) = lane_all" by (simp add: complete_registry_def)
  then have d: "distinct (map lp_lane (lpr_policies r))" by (simp add: lane_all_def)
  have "l \<in> lp_lane ` set (lpr_policies r)"
    using arg_cong [OF rows, of set] by simp
  then obtain p where "p \<in> set (lpr_policies r)" "lp_lane p = l" by blast
  with find_eq_Some_key [OF d, of l p] that show ?thesis by (simp add: registry_policy_def)
qed

end
