(* ===== verification/Scopes.thy ===== *)
theory Scopes
  imports Canonical
begin

text \<open>
  The scope registry of \<^verbatim>\<open>src/context_kernel/scopes.rs\<close>: scopes are opened, nested, attributed items
  and closed, and a scope is idle when no item referenced it within the window.  The invariant
  \<open>scopes_ok\<close> says identifiers are unique, every parent was registered before its child (so nesting
  is acyclic) and the closing sequence is recorded exactly for closed scopes.
\<close>

section \<open>Definitions\<close>

type_synonym scope_id = u64

datatype scope_state = Open | ClosedByEvent | ClosedByDeclaration

fun scope_state_name :: "scope_state \<Rightarrow> string" where
  "scope_state_name Open = ''open''"
| "scope_state_name ClosedByEvent = ''closed-by-event''"
| "scope_state_name ClosedByDeclaration = ''closed-by-declaration''"

definition is_open :: "scope_state \<Rightarrow> bool" where
  "is_open st \<longleftrightarrow> st = Open"

record scope =
  sc_id :: scope_id
  sc_parent :: "scope_id option"
  sc_state :: scope_state
  sc_opened_sequence :: u64
  sc_closed_sequence :: "u64 option"
  sc_last_item_sequence :: u64

datatype scope_error =
    UnknownScope scope_id
  | AlreadyClosed scope_id
  | UnknownParent scope_id
  | ClosedScope scope_id

record scope_registry =
  sr_scopes :: "scope list"
  sr_idleness_window :: u64

definition scopes_new :: "u64 \<Rightarrow> scope_registry" where
  "scopes_new window = \<lparr>sr_scopes = [], sr_idleness_window = window\<rparr>"

definition scope_lookup :: "scope_registry \<Rightarrow> scope_id \<Rightarrow> scope_error + scope" where
  "scope_lookup reg i = ok_or (find (\<lambda>sc. sc_id sc = i) (sr_scopes reg)) (UnknownScope i)"

definition scope_open ::
  "scope_registry \<Rightarrow> scope_id \<Rightarrow> scope_id option \<Rightarrow> u64 \<Rightarrow> scope_error + scope_registry" where
  "scope_open reg i parent at_sequence =
     res_bind (case parent of None \<Rightarrow> Inr () | Some p \<Rightarrow> res_bind (scope_lookup reg p) (\<lambda>_. Inr ())) (\<lambda>_.
       if (\<exists>sc \<in> set (sr_scopes reg). sc_id sc = i) then Inr reg
       else Inr (reg\<lparr>sr_scopes := sr_scopes reg @
         [\<lparr>sc_id = i, sc_parent = parent, sc_state = Open, sc_opened_sequence = at_sequence,
           sc_closed_sequence = None, sc_last_item_sequence = at_sequence\<rparr>]\<rparr>))"

definition scope_close ::
  "scope_registry \<Rightarrow> scope_id \<Rightarrow> u64 \<Rightarrow> scope_state \<Rightarrow> scope_error + scope_registry" where
  "scope_close reg i at_sequence st =
     res_bind (scope_lookup reg i) (\<lambda>sc.
       if \<not> is_open (sc_state sc) then Inl (AlreadyClosed i)
       else Inr (reg\<lparr>sr_scopes := update_first (\<lambda>sc. sc_id sc = i)
         (\<lambda>sc. sc\<lparr>sc_state := st, sc_closed_sequence := Some at_sequence\<rparr>) (sr_scopes reg)\<rparr>))"

definition close_by_event :: "scope_registry \<Rightarrow> scope_id \<Rightarrow> u64 \<Rightarrow> scope_error + scope_registry" where
  "close_by_event reg i at_sequence = scope_close reg i at_sequence ClosedByEvent"

definition close_by_declaration :: "scope_registry \<Rightarrow> scope_id \<Rightarrow> u64 \<Rightarrow> scope_error + scope_registry" where
  "close_by_declaration reg i at_sequence = scope_close reg i at_sequence ClosedByDeclaration"

definition attribute_item :: "scope_registry \<Rightarrow> scope_id \<Rightarrow> u64 \<Rightarrow> scope_error + scope_registry" where
  "attribute_item reg i at_sequence =
     res_bind (scope_lookup reg i) (\<lambda>sc.
       if \<not> is_open (sc_state sc) then Inl (ClosedScope i)
       else Inr (reg\<lparr>sr_scopes := update_first (\<lambda>sc. sc_id sc = i)
         (\<lambda>sc. sc\<lparr>sc_last_item_sequence := at_sequence\<rparr>) (sr_scopes reg)\<rparr>))"

definition scope_state_of :: "scope_registry \<Rightarrow> scope_id \<Rightarrow> scope_error + scope_state" where
  "scope_state_of reg i = res_bind (scope_lookup reg i) (\<lambda>sc. Inr (sc_state sc))"

definition scope_children :: "scope_registry \<Rightarrow> scope_id \<Rightarrow> scope_id list" where
  "scope_children reg i = map sc_id (filter (\<lambda>sc. sc_parent sc = Some i) (sr_scopes reg))"

definition is_idle :: "scope_registry \<Rightarrow> scope_id \<Rightarrow> u64 \<Rightarrow> scope_error + bool" where
  "is_idle reg i current_sequence =
     res_bind (scope_lookup reg i) (\<lambda>sc.
       if \<not> is_open (sc_state sc) then Inr False
       else Inr (add64 (sc_last_item_sequence sc) (sr_idleness_window reg) < current_sequence))"

definition encode_scope :: "scope \<Rightarrow> sink \<Rightarrow> sink" where
  "encode_scope sc s =
     sink_int (sc_last_item_sequence sc)
       (sink_int (case sc_closed_sequence sc of Some q \<Rightarrow> q | None \<Rightarrow> 0)
         (sink_int (sc_opened_sequence sc)
           (sink_tag (scope_state_name (sc_state sc))
             (sink_int (case sc_parent sc of Some p \<Rightarrow> p | None \<Rightarrow> 0)
               (sink_int (sc_id sc) s)))))"

definition encode_scopes :: "scope_registry \<Rightarrow> sink \<Rightarrow> sink" where
  "encode_scopes reg s =
     foldl (\<lambda>s sc. encode_scope sc s)
       (sink_int (sr_idleness_window reg) (sink_tag ''scope-registry'' s)) (sr_scopes reg)"

section \<open>The registry invariant\<close>

definition scope_ids :: "scope_registry \<Rightarrow> scope_id list" where
  "scope_ids reg = map sc_id (sr_scopes reg)"

fun parents_before :: "scope_id set \<Rightarrow> scope list \<Rightarrow> bool" where
  "parents_before seen [] = True"
| "parents_before seen (sc # scs) =
     ((case sc_parent sc of None \<Rightarrow> True | Some p \<Rightarrow> p \<in> seen) \<and> parents_before (insert (sc_id sc) seen) scs)"

definition scopes_ok :: "scope_registry \<Rightarrow> bool" where
  "scopes_ok reg \<longleftrightarrow>
     distinct (scope_ids reg) \<and> parents_before {} (sr_scopes reg) \<and>
     (\<forall>sc \<in> set (sr_scopes reg). sc_closed_sequence sc = None \<longleftrightarrow> is_open (sc_state sc))"

lemma scopes_ok_new [simp]: "scopes_ok (scopes_new w)"
  by (simp add: scopes_ok_def scopes_new_def scope_ids_def)

lemma parents_before_append:
  "parents_before seen (scs @ scs') \<longleftrightarrow>
     parents_before seen scs \<and> parents_before (seen \<union> sc_id ` set scs) scs'"
  by (induction scs arbitrary: seen) (simp_all add: Un_assoc insert_commute Un_insert_left)

lemma parents_before_update:
  assumes "\<And>sc. sc_id (f sc) = sc_id sc" and "\<And>sc. sc_parent (f sc) = sc_parent sc"
  shows "parents_before seen (update_first P f scs) \<longleftrightarrow> parents_before seen scs"
  by (induction scs arbitrary: seen) (simp_all add: assms)

lemma scope_lookup_Inr:
  assumes "scopes_ok reg"
  shows "scope_lookup reg i = Inr sc \<longleftrightarrow> sc \<in> set (sr_scopes reg) \<and> sc_id sc = i"
  using find_eq_Some_key [of sc_id "sr_scopes reg" i sc] assms
  by (simp add: scope_lookup_def scopes_ok_def scope_ids_def)

lemma scope_lookup_Inl:
  "scope_lookup reg i = Inl e \<longleftrightarrow> e = UnknownScope i \<and> i \<notin> set (scope_ids reg)"
  by (auto simp: scope_lookup_def scope_ids_def)

lemma set_update_first:
  assumes "distinct (map g xs)"
  shows "set (update_first (\<lambda>x. g x = k) f xs) = (\<lambda>x. if g x = k then f x else x) ` set xs"
  using update_first_key [OF assms] by simp

text \<open>Each mutator either leaves the list, appends one open scope, or rewrites one scope in place.\<close>

lemma scopes_ok_update:
  assumes ok: "scopes_ok reg"
    and id: "\<And>sc. sc_id (f sc) = sc_id sc" and parent: "\<And>sc. sc_parent (f sc) = sc_parent sc"
    and state: "\<And>sc. sc \<in> set (sr_scopes reg) \<Longrightarrow> sc_id sc = i \<Longrightarrow>
      sc_closed_sequence (f sc) = None \<longleftrightarrow> is_open (sc_state (f sc))"
  shows "scopes_ok (reg\<lparr>sr_scopes := update_first (\<lambda>sc. sc_id sc = i) f (sr_scopes reg)\<rparr>)"
  using ok state parents_before_update [OF id parent]
  by (auto simp: scopes_ok_def scope_ids_def id set_update_first)

lemma scope_open_ok:
  assumes "scopes_ok reg" and "scope_open reg i parent q = Inr reg'"
  shows "scopes_ok reg'"
proof (cases "\<exists>sc \<in> set (sr_scopes reg). sc_id sc = i")
  case True
  with assms show ?thesis by (auto simp: scope_open_def)
next
  case False
  have known: "case parent of None \<Rightarrow> True | Some p \<Rightarrow> p \<in> sc_id ` set (sr_scopes reg)"
    using assms by (auto simp: scope_open_def scope_lookup_Inr split: option.splits)
  from False assms(2) have "sr_scopes reg' = sr_scopes reg @
      [\<lparr>sc_id = i, sc_parent = parent, sc_state = Open, sc_opened_sequence = q,
        sc_closed_sequence = None, sc_last_item_sequence = q\<rparr>]"
    by (auto simp: scope_open_def)
  with assms(1) False known show ?thesis
    by (auto simp: scopes_ok_def scope_ids_def parents_before_append is_open_def split: option.splits)
qed

lemma scope_close_ok:
  assumes "scopes_ok reg" and "scope_close reg i q st = Inr reg'" and "st \<noteq> Open"
  shows "scopes_ok reg'"
  using assms by (auto simp: scope_close_def is_open_def split: if_splits intro!: scopes_ok_update)

lemma attribute_item_ok:
  assumes "scopes_ok reg" and "attribute_item reg i q = Inr reg'"
  shows "scopes_ok reg'"
proof -
  have "sc_closed_sequence sc = None \<longleftrightarrow> is_open (sc_state sc)" if "sc \<in> set (sr_scopes reg)" for sc
    using assms(1) that by (simp add: scopes_ok_def)
  then have "scopes_ok (reg\<lparr>sr_scopes := update_first (\<lambda>sc. sc_id sc = i)
      (\<lambda>sc. sc\<lparr>sc_last_item_sequence := q\<rparr>) (sr_scopes reg)\<rparr>)"
    using assms(1) by (intro scopes_ok_update) auto
  with assms(2) show ?thesis by (auto simp: attribute_item_def split: if_splits)
qed

section \<open>Lifecycle\<close>

text \<open>\<open>scopes_later\<close>: every registered scope is still registered, with the same lineage, and a closed
  scope is still closed the same way at the same sequence.\<close>

definition scope_later :: "scope \<Rightarrow> scope \<Rightarrow> bool" where
  "scope_later a b \<longleftrightarrow>
     sc_id b = sc_id a \<and> sc_parent b = sc_parent a \<and> sc_opened_sequence b = sc_opened_sequence a \<and>
     (\<not> is_open (sc_state a) \<longrightarrow> b = a)"

definition scopes_later :: "scope_registry \<Rightarrow> scope_registry \<Rightarrow> bool" where
  "scopes_later r r' \<longleftrightarrow>
     sr_idleness_window r' = sr_idleness_window r \<and>
     length (sr_scopes r) \<le> length (sr_scopes r') \<and>
     list_all2 scope_later (sr_scopes r) (take (length (sr_scopes r)) (sr_scopes r'))"

lemma scope_later_refl [simp]: "scope_later a a"
  by (simp add: scope_later_def)

lemma scope_later_trans: "scope_later a b \<Longrightarrow> scope_later b c \<Longrightarrow> scope_later a c"
  by (auto simp: scope_later_def)

lemma scopes_later_refl [simp]: "scopes_later r r"
  by (simp add: scopes_later_def list.rel_refl)

lemma scopes_later_trans:
  assumes "scopes_later r s" and "scopes_later s t"
  shows "scopes_later r t"
proof -
  let ?n = "length (sr_scopes r)" and ?m = "length (sr_scopes s)"
  from assms have len: "?n \<le> ?m" "?m \<le> length (sr_scopes t)"
    and rs: "list_all2 scope_later (sr_scopes r) (take ?n (sr_scopes s))"
    and st: "list_all2 scope_later (sr_scopes s) (take ?m (sr_scopes t))"
    by (simp_all add: scopes_later_def)
  have "list_all2 scope_later (take ?n (sr_scopes s)) (take ?n (take ?m (sr_scopes t)))"
    by (rule list_all2_takeI [OF st])
  then have "list_all2 scope_later (take ?n (sr_scopes s)) (take ?n (sr_scopes t))"
    using len by (simp add: min_def)
  then have "list_all2 scope_later (sr_scopes r) (take ?n (sr_scopes t))"
    using list_all2_trans [of scope_later scope_later scope_later, OF _ rs] scope_later_trans by blast
  with len assms show ?thesis by (simp add: scopes_later_def)
qed

lemma list_all2_update_first:
  assumes "\<And>x. R x x" and "find P xs = Some y" and "R y (f y)"
  shows "list_all2 R xs (update_first P f xs)"
  using assms(2)
proof (induction xs)
  case (Cons x xs)
  then show ?case using assms(1,3) by (cases "P x") (simp_all add: list.rel_refl)
qed simp

lemma scope_open_later: "scope_open reg i parent q = Inr reg' \<Longrightarrow> scopes_later reg reg'"
  by (auto simp: scope_open_def scopes_later_def list.rel_refl split: if_splits)

lemma scope_update_later:
  assumes "scope_lookup reg i = Inr sc" and "scope_later sc (f sc)"
  shows "scopes_later reg (reg\<lparr>sr_scopes := update_first (\<lambda>sc. sc_id sc = i) f (sr_scopes reg)\<rparr>)"
  using list_all2_update_first [of scope_later "\<lambda>sc. sc_id sc = i" "sr_scopes reg" sc f] assms
  by (simp add: scopes_later_def scope_lookup_def)

lemma scope_close_later: "scope_close reg i q st = Inr reg' \<Longrightarrow> scopes_later reg reg'"
  by (auto simp: scope_close_def scope_later_def split: if_splits intro!: scope_update_later)

lemma attribute_item_later: "attribute_item reg i q = Inr reg' \<Longrightarrow> scopes_later reg reg'"
  by (auto simp: attribute_item_def scope_later_def split: if_splits intro!: scope_update_later)

section \<open>Sequences of registry operations\<close>

datatype scope_command =
    SOpen scope_id "scope_id option" u64
  | SCloseByEvent scope_id u64
  | SCloseByDeclaration scope_id u64
  | SAttribute scope_id u64

fun scopes_step :: "scope_registry \<Rightarrow> scope_command \<Rightarrow> scope_error + scope_registry" where
  "scopes_step reg (SOpen i p q) = scope_open reg i p q"
| "scopes_step reg (SCloseByEvent i q) = close_by_event reg i q"
| "scopes_step reg (SCloseByDeclaration i q) = close_by_declaration reg i q"
| "scopes_step reg (SAttribute i q) = attribute_item reg i q"

lemma scopes_step_ok:
  assumes "scopes_ok reg" and "scopes_step reg c = Inr reg'"
  shows "scopes_ok reg'"
proof (cases c)
  case (SOpen i p q)
  with assms show ?thesis by (auto intro: scope_open_ok)
next
  case (SAttribute i q)
  with assms show ?thesis by (auto intro: attribute_item_ok)
qed (use assms in \<open>auto simp: close_by_event_def close_by_declaration_def intro: scope_close_ok\<close>)

lemma scopes_step_later: "scopes_step reg c = Inr reg' \<Longrightarrow> scopes_later reg reg'"
  by (cases c) (auto simp: close_by_event_def close_by_declaration_def
    intro: scope_open_later attribute_item_later scope_close_later)

interpretation scopes: guarded_machine scopes_step scopes_ok
  by unfold_locales (rule scopes_step_ok)

interpretation scopes_life: monotone_machine scopes_step scopes_later
  by unfold_locales (auto intro: scopes_later_trans scopes_step_later)

lemma scopes_later_lookup:
  assumes "scopes_later r r'" and "scope_lookup r i = Inr sc" and "scopes_ok r'"
  shows "\<exists>sc'. scope_lookup r' i = Inr sc' \<and> scope_later sc sc'"
proof -
  from assms(2) have "sc \<in> set (sr_scopes r)" and i: "sc_id sc = i"
    by (auto simp: scope_lookup_def dest: find_SomeD)
  then obtain n where n: "n < length (sr_scopes r)" "sr_scopes r ! n = sc"
    by (auto simp: in_set_conv_nth)
  with assms(1) have later: "scope_later sc (sr_scopes r' ! n)" and "n < length (sr_scopes r')"
    by (auto simp: scopes_later_def list_all2_conv_all_nth)
  then have "sr_scopes r' ! n \<in> set (sr_scopes r')" by simp
  with later i assms(3) show ?thesis
    by (intro exI [of _ "sr_scopes r' ! n"]) (auto simp: scope_lookup_Inr scope_later_def)
qed

text \<open>Idleness: an attribution restarts the window, so a scope is idle exactly when no item touched
  it for more than the window.\<close>

lemma attribute_resets_idle:
  assumes "scopes_ok reg" and "attribute_item reg i q = Inr reg'"
    and "q + sr_idleness_window reg < u64_modulus"
  shows "is_idle reg' i now = Inr (q + sr_idleness_window reg < now)"
proof -
  from assms(2) obtain sc where sc: "scope_lookup reg i = Inr sc" "is_open (sc_state sc)"
    and reg': "reg' = reg\<lparr>sr_scopes := update_first (\<lambda>sc. sc_id sc = i)
      (\<lambda>sc. sc\<lparr>sc_last_item_sequence := q\<rparr>) (sr_scopes reg)\<rparr>"
    by (auto simp: attribute_item_def split: if_splits)
  have "scopes_ok reg'" by (rule attribute_item_ok [OF assms(1,2)])
  moreover from sc assms(1) have "sc\<lparr>sc_last_item_sequence := q\<rparr> \<in> set (sr_scopes reg')" "sc_id sc = i"
    by (auto simp: reg' scope_lookup_Inr scopes_ok_def scope_ids_def set_update_first)
  ultimately have "scope_lookup reg' i = Inr (sc\<lparr>sc_last_item_sequence := q\<rparr>)"
    by (simp add: scope_lookup_Inr)
  with sc assms(3) show ?thesis by (simp add: is_idle_def reg')
qed

end
