(* ===== verification/Conversation.thy ===== *)
theory Conversation
  imports Ranges Lanes Scopes
begin

text \<open>
  The conversation intermediate representation of \<^verbatim>\<open>src/context_kernel/ir.rs\<close>: claim-atomic items over
  store bytes, and the region partitions their placements charge.  \<open>ir_ok\<close> is its invariant: item
  identifiers are unique, no region has two partitions, and a region's partition lists exactly the
  items whose placement names that region, each once.  Every operation keeps it, and
  resegmentation moves no byte and changes no region's occupancy.

  \<open>split\<close> removes the parent before it checks the minted identifiers, so it returns the state the
  \<open>&mut self\<close> is left in together with its result.
\<close>

section \<open>Definitions\<close>

datatype region = Head | Notes | Body | Tail

definition region_all :: "region list" where
  "region_all = [Head, Notes, Body, Tail]"

fun region_rank :: "region \<Rightarrow> u64" where
  "region_rank Head = 1"
| "region_rank Notes = 2"
| "region_rank Body = 3"
| "region_rank Tail = 4"

fun region_name :: "region \<Rightarrow> string" where
  "region_name Head = ''head''"
| "region_name Notes = ''notes''"
| "region_name Body = ''body''"
| "region_name Tail = ''tail''"

definition region_from_rank :: "u64 \<Rightarrow> region option" where
  "region_from_rank r =
     (if r = 1 then Some Head else if r = 2 then Some Notes
      else if r = 3 then Some Body else if r = 4 then Some Tail else None)"

definition encode_region :: "region \<Rightarrow> sink \<Rightarrow> sink" where
  "encode_region r s = sink_int (region_rank r) (sink_tag ''region'' s)"

datatype item_namespace = AppendNs | SplitNs

fun namespace_code :: "item_namespace \<Rightarrow> u64" where
  "namespace_code AppendNs = 1"
| "namespace_code SplitNs = 2"

definition namespace_from_code :: "u64 \<Rightarrow> item_namespace option" where
  "namespace_from_code code =
     (if code = 1 then Some AppendNs else if code = 2 then Some SplitNs else None)"

record item_id =
  ii_namespace :: item_namespace
  ii_value :: u64

definition id_append :: "u64 \<Rightarrow> item_id" where
  "id_append v = \<lparr>ii_namespace = AppendNs, ii_value = v\<rparr>"

definition id_split :: "u64 \<Rightarrow> item_id" where
  "id_split v = \<lparr>ii_namespace = SplitNs, ii_value = v\<rparr>"

definition id_new :: "u64 \<Rightarrow> item_id" where
  "id_new v = id_append v"

record segment_claim =
  cl_span :: store_range
  cl_class :: "structural_class option"

datatype placement = Placed region | StoreOnly | PhantomPlacement

fun is_placed :: "placement \<Rightarrow> bool" where
  "is_placed (Placed r) = True"
| "is_placed StoreOnly = False"
| "is_placed PhantomPlacement = False"

fun placement_region :: "placement \<Rightarrow> region option" where
  "placement_region (Placed r) = Some r"
| "placement_region StoreOnly = None"
| "placement_region PhantomPlacement = None"

fun placement_code :: "placement \<Rightarrow> u64" where
  "placement_code (Placed r) = 1"
| "placement_code StoreOnly = 2"
| "placement_code PhantomPlacement = 3"

record item =
  it_id :: item_id
  it_lane :: lane
  it_provenance :: "store_range list"
  it_scope :: scope_id
  it_placement :: placement
  it_byte_range :: store_range

datatype ir_error =
    UnknownItem u64
  | DuplicateItem u64
  | EmptySplit u64
  | CoverageMismatch u64
  | UnknownNamespace u64
  | ContractMismatch u64
  | PlacementState u64
  | ClaimBoundary u64
  | ClaimsDontCover u64

definition id_from_parts :: "u64 \<Rightarrow> u64 \<Rightarrow> ir_error + item_id" where
  "id_from_parts code v =
     res_bind (ok_or (namespace_from_code code) (UnknownNamespace code)) (\<lambda>ns.
       Inr \<lparr>ii_namespace = ns, ii_value = v\<rparr>)"

definition encode_item_id :: "item_id \<Rightarrow> sink \<Rightarrow> sink" where
  "encode_item_id i s =
     sink_int (ii_value i) (sink_int (namespace_code (ii_namespace i)) (sink_tag ''item'' s))"

definition with_placement ::
  "item_id \<Rightarrow> lane \<Rightarrow> store_range list \<Rightarrow> scope_id \<Rightarrow> placement \<Rightarrow> item" where
  "with_placement i l prov sc pl =
     \<lparr>it_id = i, it_lane = l, it_provenance = prov, it_scope = sc, it_placement = pl,
      it_byte_range = enclosing prov\<rparr>"

definition item_new :: "item_id \<Rightarrow> lane \<Rightarrow> store_range list \<Rightarrow> scope_id \<Rightarrow> item" where
  "item_new i l prov sc = with_placement i l prov sc StoreOnly"

definition item_phantom :: "item_id \<Rightarrow> lane \<Rightarrow> scope_id \<Rightarrow> item" where
  "item_phantom i l sc = with_placement i l [] sc PhantomPlacement"

definition item_region :: "item \<Rightarrow> region option" where
  "item_region it = placement_region (it_placement it)"

definition item_units :: "item \<Rightarrow> u64" where
  "item_units it = covered_units (it_provenance it)"

definition is_placeholder :: "item \<Rightarrow> bool" where
  "is_placeholder it \<longleftrightarrow> it_placement it = PhantomPlacement"

definition to_store_only :: "item \<Rightarrow> item" where
  "to_store_only it = it\<lparr>it_placement := StoreOnly\<rparr>"

definition collapsible :: "item \<Rightarrow> bool" where
  "collapsible it \<longleftrightarrow> it_placement it \<noteq> PhantomPlacement"

definition item_collapse :: "item \<Rightarrow> ir_error + item" where
  "item_collapse it =
     (if \<not> collapsible it then Inl (PlacementState (ii_value (it_id it)))
      else Inr (it\<lparr>it_provenance := [], it_byte_range := \<lparr>sr_offset = 0, sr_length = 0\<rparr>,
        it_placement := PhantomPlacement\<rparr>))"

definition encode_item :: "item \<Rightarrow> sink \<Rightarrow> sink" where
  "encode_item it s =
     foldl (\<lambda>s r. sink_int (sr_length r) (sink_int (sr_offset r) s))
       (sink_int (sr_length (it_byte_range it))
         (sink_int (sr_offset (it_byte_range it))
           ((case it_placement it of
               Placed r \<Rightarrow> encode_region r
             | StoreOnly \<Rightarrow> sink_tag ''store-only''
             | PhantomPlacement \<Rightarrow> sink_tag ''phantom'')
             (sink_int (it_scope it)
               (sink_tag (lane_name (it_lane it)) (encode_item_id (it_id it) s))))))
       (it_provenance it)"

record region_partition =
  rp_region :: region
  rp_items :: "item_id list"

definition id_fits_provenance :: "item_id \<Rightarrow> store_range list \<Rightarrow> bool" where
  "id_fits_provenance i prov \<longleftrightarrow> ii_namespace i \<noteq> AppendNs \<or> prov \<noteq> []"

datatype split_namespace = Fresh

record split_contract =
  ct_namespace :: split_namespace
  ct_parts :: nat
  ct_split_points :: "nat list"

record conversation_ir =
  ir_items :: "item list"
  ir_partitions :: "region_partition list"
  ir_next_append_id :: u64
  ir_next_split_id :: u64

definition ir_new :: conversation_ir where
  "ir_new = \<lparr>ir_items = [], ir_partitions = [], ir_next_append_id = 0, ir_next_split_id = 0\<rparr>"

definition ir_item :: "conversation_ir \<Rightarrow> item_id \<Rightarrow> ir_error + item" where
  "ir_item ir i = ok_or (find (\<lambda>it. it_id it = i) (ir_items ir)) (UnknownItem (ii_value i))"

definition region_items :: "conversation_ir \<Rightarrow> region \<Rightarrow> item_id list" where
  "region_items ir r =
     (case find (\<lambda>p. rp_region p = r) (ir_partitions ir) of Some p \<Rightarrow> rp_items p | None \<Rightarrow> [])"

definition placed_ids :: "conversation_ir \<Rightarrow> item_id list" where
  "placed_ids ir = concat (map rp_items (ir_partitions ir))"

definition found_items :: "conversation_ir \<Rightarrow> item_id list \<Rightarrow> item list" where
  "found_items ir ids =
     List.map_filter (\<lambda>i. case ir_item ir i of Inr it \<Rightarrow> Some it | Inl e \<Rightarrow> None) ids"

definition region_occupancy :: "conversation_ir \<Rightarrow> region \<Rightarrow> u64" where
  "region_occupancy ir r = sum64 (map item_units (found_items ir (region_items ir r)))"

definition items_in_lane :: "conversation_ir \<Rightarrow> lane \<Rightarrow> item_id list" where
  "items_in_lane ir l = map it_id (filter (\<lambda>it. it_lane it = l) (ir_items ir))"

definition lane_units :: "conversation_ir \<Rightarrow> lane \<Rightarrow> u64" where
  "lane_units ir l = sum64 (map item_units (found_items ir (items_in_lane ir l)))"

definition lane_placed_units :: "conversation_ir \<Rightarrow> lane \<Rightarrow> u64" where
  "lane_placed_units ir l =
     sum64 (map item_units
       (filter (\<lambda>it. item_region it \<noteq> None) (found_items ir (items_in_lane ir l))))"

definition note_minted_id :: "conversation_ir \<Rightarrow> item_id \<Rightarrow> conversation_ir" where
  "note_minted_id ir i =
     (case ii_namespace i of
        AppendNs \<Rightarrow> if ir_next_append_id ir \<le> ii_value i
          then ir\<lparr>ir_next_append_id := add64 (ii_value i) 1\<rparr> else ir
      | SplitNs \<Rightarrow> if ir_next_split_id ir \<le> ii_value i
          then ir\<lparr>ir_next_split_id := add64 (ii_value i) 1\<rparr> else ir)"

definition namespace_watermark :: "conversation_ir \<Rightarrow> item_namespace \<Rightarrow> u64" where
  "namespace_watermark ir ns =
     (case ns of AppendNs \<Rightarrow> ir_next_append_id ir | SplitNs \<Rightarrow> ir_next_split_id ir)"

definition reserve_append_id :: "conversation_ir \<Rightarrow> item_id \<times> conversation_ir" where
  "reserve_append_id ir =
     (id_append (ir_next_append_id ir), ir\<lparr>ir_next_append_id := add64 (ir_next_append_id ir) 1\<rparr>)"

definition reserve_split_id :: "conversation_ir \<Rightarrow> item_id \<times> conversation_ir" where
  "reserve_split_id ir =
     (id_split (ir_next_split_id ir), ir\<lparr>ir_next_split_id := add64 (ir_next_split_id ir) 1\<rparr>)"

definition detach :: "conversation_ir \<Rightarrow> item_id \<Rightarrow> conversation_ir" where
  "detach ir i =
     ir\<lparr>ir_partitions := map (\<lambda>p. p\<lparr>rp_items := filter (\<lambda>j. j \<noteq> i) (rp_items p)\<rparr>) (ir_partitions ir)\<rparr>"

definition attach :: "conversation_ir \<Rightarrow> item_id \<Rightarrow> region \<Rightarrow> conversation_ir" where
  "attach ir i r =
     (if \<exists>p \<in> set (ir_partitions ir). rp_region p = r
      then ir\<lparr>ir_partitions := update_first (\<lambda>p. rp_region p = r)
             (\<lambda>p. p\<lparr>rp_items := rp_items p @ [i]\<rparr>) (ir_partitions ir)\<rparr>
      else ir\<lparr>ir_partitions := ir_partitions ir @ [\<lparr>rp_region = r, rp_items = [i]\<rparr>]\<rparr>)"

definition ir_remove :: "conversation_ir \<Rightarrow> item_id \<Rightarrow> conversation_ir" where
  "ir_remove ir i = detach (ir\<lparr>ir_items := filter (\<lambda>it. it_id it \<noteq> i) (ir_items ir)\<rparr>) i"

text \<open>\<open>item_mut_set\<close> is an assignment through the reference \<open>item_mut\<close> returns.\<close>

definition item_mut_set :: "conversation_ir \<Rightarrow> item_id \<Rightarrow> (item \<Rightarrow> item) \<Rightarrow> conversation_ir" where
  "item_mut_set ir i f = ir\<lparr>ir_items := update_first (\<lambda>it. it_id it = i) f (ir_items ir)\<rparr>"

definition ir_insert :: "conversation_ir \<Rightarrow> item \<Rightarrow> ir_error + conversation_ir" where
  "ir_insert ir it =
     (if \<exists>e \<in> set (ir_items ir). it_id e = it_id it then Inl (DuplicateItem (ii_value (it_id it)))
      else if \<not> id_fits_provenance (it_id it) (it_provenance it)
      then Inl (PlacementState (ii_value (it_id it)))
      else let ir1 = note_minted_id ir (it_id it);
               ir2 = ir1\<lparr>ir_items := ir_items ir1 @ [it]\<rparr>
           in Inr (case item_region it of Some r \<Rightarrow> attach ir2 (it_id it) r | None \<Rightarrow> ir2))"

definition ir_place :: "conversation_ir \<Rightarrow> item_id \<Rightarrow> region \<Rightarrow> ir_error + conversation_ir" where
  "ir_place ir i r =
     res_bind (ir_item ir i) (\<lambda>_.
       Inr (attach (detach (item_mut_set ir i (\<lambda>it. it\<lparr>it_placement := Placed r\<rparr>)) i) i r))"

definition ir_unplace :: "conversation_ir \<Rightarrow> item_id \<Rightarrow> ir_error + conversation_ir" where
  "ir_unplace ir i =
     res_bind (ir_item ir i) (\<lambda>_. Inr (detach (item_mut_set ir i to_store_only) i))"

definition ir_collapse :: "conversation_ir \<Rightarrow> item_id \<Rightarrow> ir_error + conversation_ir" where
  "ir_collapse ir i =
     res_bind (ir_item ir i) (\<lambda>it.
       res_bind (item_collapse it) (\<lambda>it'. Inr (detach (item_mut_set ir i (\<lambda>_. it')) i)))"

text \<open>\<open>check_parts\<close> is the loop that checks every part against the contract and flattens them;
  \<open>split_children\<close> is the loop that mints and pushes one child per part.\<close>

fun check_parts :: "item_id \<Rightarrow> store_range list list \<Rightarrow> nat list \<Rightarrow> ir_error + store_range list" where
  "check_parts i (part # parts) (n # ns) =
     (if length part \<noteq> n then Inl (ContractMismatch (ii_value i))
      else if part = [] then Inl (EmptySplit (ii_value i))
      else res_bind (check_parts i parts ns) (\<lambda>flat. Inr (part @ flat)))"
| "check_parts i parts ns = Inr []"

fun split_children ::
  "lane \<Rightarrow> scope_id \<Rightarrow> placement \<Rightarrow> conversation_ir \<Rightarrow> store_range list list \<Rightarrow>
     conversation_ir \<times> (ir_error + item_id list)" where
  "split_children l sc pl ir [] = (ir, Inr [])"
| "split_children l sc pl ir (part # parts) =
     (let (i, ir1) = reserve_split_id ir;
          child = with_placement i l part sc pl
      in if \<exists>e \<in> set (ir_items ir1). it_id e = i then (ir1, Inl (DuplicateItem (ii_value i)))
         else let (ir2, r) = split_children l sc pl (ir1\<lparr>ir_items := ir_items ir1 @ [child]\<rparr>) parts
              in (ir2, res_bind r (\<lambda>ids. Inr (i # ids))))"

definition attach_all :: "placement \<Rightarrow> item_id list \<Rightarrow> conversation_ir \<Rightarrow> conversation_ir" where
  "attach_all pl ids ir =
     foldl (\<lambda>ir i. case placement_region pl of Some r \<Rightarrow> attach ir i r | None \<Rightarrow> ir) ir ids"

definition claim_atomic :: "store_range list list \<Rightarrow> store_range list \<Rightarrow> bool" where
  "claim_atomic parts claims \<longleftrightarrow>
     length parts = length claims \<and>
     list_all (\<lambda>(part, claim). length part = 1 \<and> sr_offset (part ! 0) = sr_offset claim \<and>
       sr_length (part ! 0) = sr_length claim) (zip parts claims)"

definition split_check ::
  "conversation_ir \<Rightarrow> item_id \<Rightarrow> store_range list list \<Rightarrow> split_contract \<Rightarrow> ir_error + item" where
  "split_check ir i parts ct =
     res_bind (ir_item ir i) (\<lambda>parent.
     res_bind (ensure (length parts = ct_parts ct \<and> length (ct_split_points ct) = ct_parts ct)
       (ContractMismatch (ii_value i))) (\<lambda>_.
     res_bind (ensure (parts \<noteq> []) (EmptySplit (ii_value i))) (\<lambda>_.
     res_bind (check_parts i parts (ct_split_points ct)) (\<lambda>flat.
     res_bind (ensure (covers_exactly flat (it_provenance parent)) (CoverageMismatch (ii_value i))) (\<lambda>_.
     res_bind (ensure (length (normalize (it_provenance parent)) \<le> 1 \<or>
         claim_atomic parts (normalize (it_provenance parent))) (ClaimBoundary (ii_value i))) (\<lambda>_.
     Inr parent))))))"

definition ir_split ::
  "conversation_ir \<Rightarrow> item_id \<Rightarrow> store_range list list \<Rightarrow> split_contract \<Rightarrow>
     conversation_ir \<times> (ir_error + item_id list)" where
  "ir_split ir i parts ct =
     (case split_check ir i parts ct of
        Inl e \<Rightarrow> (ir, Inl e)
      | Inr parent \<Rightarrow>
          (case split_children (it_lane parent) (it_scope parent) (it_placement parent)
                 (ir_remove ir i) parts of
             (ir', Inl e) \<Rightarrow> (ir', Inl e)
           | (ir', Inr ids) \<Rightarrow> (attach_all (it_placement parent) ids ir', Inr ids)))"

definition encode_partition :: "region_partition \<Rightarrow> sink \<Rightarrow> sink" where
  "encode_partition p s =
     foldl (\<lambda>s i. encode_item_id i s)
       (sink_int (length (rp_items p)) (sink_int (region_rank (rp_region p)) s)) (rp_items p)"

definition encode_ir :: "conversation_ir \<Rightarrow> sink \<Rightarrow> sink" where
  "encode_ir ir s =
     foldl (\<lambda>s p. encode_partition p s)
       (foldl (\<lambda>s it. encode_item it s)
         (sink_int (ir_next_split_id ir) (sink_int (ir_next_append_id ir) (sink_tag ''conversation-ir'' s)))
         (ir_items ir))
       (ir_partitions ir)"

section \<open>Lookups and partitions\<close>

lemma region_from_rank_round_trip [simp]: "region_from_rank (region_rank r) = Some r"
  by (cases r) (simp_all add: region_from_rank_def)

lemma region_from_rank_Some: "region_from_rank n = Some r \<longleftrightarrow> n = region_rank r"
  by (cases r) (auto simp: region_from_rank_def split: if_splits)

lemma region_items_detach [simp]: "region_items (detach ir i) r = filter (\<lambda>j. j \<noteq> i) (region_items ir r)"
proof -
  have "(case find (\<lambda>p. rp_region p = r) (map (\<lambda>p. p\<lparr>rp_items := filter (\<lambda>j. j \<noteq> i) (rp_items p)\<rparr>) ps) of
           Some p \<Rightarrow> rp_items p | None \<Rightarrow> []) =
        filter (\<lambda>j. j \<noteq> i) (case find (\<lambda>p. rp_region p = r) ps of Some p \<Rightarrow> rp_items p | None \<Rightarrow> [])" for ps
    by (induction ps) auto
  then show ?thesis by (simp add: region_items_def detach_def)
qed

lemma region_items_attach [simp]:
  "region_items (attach ir i r) q = (if q = r then region_items ir r @ [i] else region_items ir q)"
proof (cases "\<exists>p \<in> set (ir_partitions ir). rp_region p = r")
  case True
  have "(case find (\<lambda>p. rp_region p = q) (update_first (\<lambda>p. rp_region p = r)
          (\<lambda>p. p\<lparr>rp_items := rp_items p @ [i]\<rparr>) ps) of Some p \<Rightarrow> rp_items p | None \<Rightarrow> []) =
        (if q = r then (case find (\<lambda>p. rp_region p = r) ps of Some p \<Rightarrow> rp_items p | None \<Rightarrow> []) @ [i]
         else (case find (\<lambda>p. rp_region p = q) ps of Some p \<Rightarrow> rp_items p | None \<Rightarrow> []))"
    if "\<exists>p \<in> set ps. rp_region p = r" for ps
    using that
  proof (induction ps)
    case (Cons p ps)
    then show ?case by (cases "rp_region p = r") auto
  qed simp
  from this [OF True] True show ?thesis by (simp add: region_items_def attach_def)
next
  case False
  have "find (\<lambda>p. rp_region p = q) (ps @ [\<lparr>rp_region = r, rp_items = [i]\<rparr>]) =
      (if q = r then Some \<lparr>rp_region = r, rp_items = [i]\<rparr> else find (\<lambda>p. rp_region p = q) ps)"
    if "\<forall>p \<in> set ps. rp_region p \<noteq> r" for ps
    using that by (induction ps) auto
  from this [of "ir_partitions ir"] False show ?thesis
    by (auto simp: region_items_def attach_def dest: find_SomeD split: option.splits)
qed

lemma detach_simps [simp]:
  "ir_items (detach ir i) = ir_items ir"
  "ir_next_append_id (detach ir i) = ir_next_append_id ir"
  "ir_next_split_id (detach ir i) = ir_next_split_id ir"
  "map rp_region (ir_partitions (detach ir i)) = map rp_region (ir_partitions ir)"
  by (simp_all add: detach_def)

lemma attach_simps [simp]:
  "ir_items (attach ir i r) = ir_items ir"
  "ir_next_append_id (attach ir i r) = ir_next_append_id ir"
  "ir_next_split_id (attach ir i r) = ir_next_split_id ir"
  by (simp_all add: attach_def)

lemma attach_regions:
  "distinct (map rp_region (ir_partitions ir)) \<Longrightarrow> distinct (map rp_region (ir_partitions (attach ir i r)))"
  by (auto simp: attach_def)

lemma item_mut_set_simps [simp]:
  "ir_partitions (item_mut_set ir i f) = ir_partitions ir"
  "region_items (item_mut_set ir i f) r = region_items ir r"
  "ir_next_append_id (item_mut_set ir i f) = ir_next_append_id ir"
  "ir_next_split_id (item_mut_set ir i f) = ir_next_split_id ir"
  by (simp_all add: item_mut_set_def region_items_def)

lemma note_minted_simps [simp]:
  "ir_items (note_minted_id ir i) = ir_items ir"
  "ir_partitions (note_minted_id ir i) = ir_partitions ir"
  "region_items (note_minted_id ir i) r = region_items ir r"
  by (simp_all add: note_minted_id_def region_items_def split: item_namespace.splits)

lemma region_items_fields [simp]:
  "region_items (ir\<lparr>ir_items := xs\<rparr>) r = region_items ir r"
  "region_items (ir\<lparr>ir_next_split_id := n\<rparr>) r = region_items ir r"
  "region_items (ir\<lparr>ir_next_append_id := n\<rparr>) r = region_items ir r"
  by (simp_all add: region_items_def)

section \<open>The invariant\<close>

definition ir_ids :: "conversation_ir \<Rightarrow> item_id list" where
  "ir_ids ir = map it_id (ir_items ir)"

definition placed_in :: "item list \<Rightarrow> region \<Rightarrow> item list" where
  "placed_in its r = filter (\<lambda>it. it_placement it = Placed r) its"

definition partitions_agree :: "item list \<Rightarrow> (region \<Rightarrow> item_id list) \<Rightarrow> bool" where
  "partitions_agree its ids \<longleftrightarrow>
     (\<forall>r. distinct (ids r) \<and> set (ids r) = it_id ` set (placed_in its r))"

definition ir_ok :: "conversation_ir \<Rightarrow> bool" where
  "ir_ok ir \<longleftrightarrow>
     distinct (ir_ids ir) \<and> distinct (map rp_region (ir_partitions ir)) \<and>
     partitions_agree (ir_items ir) (region_items ir) \<and>
     (\<forall>it \<in> set (ir_items ir). it_byte_range it = enclosing (it_provenance it))"

lemma ir_ok_new [simp]: "ir_ok ir_new"
  by (simp add: ir_ok_def ir_new_def ir_ids_def partitions_agree_def region_items_def placed_in_def)

lemma ir_item_Inr:
  assumes "distinct (ir_ids ir)"
  shows "ir_item ir i = Inr it \<longleftrightarrow> it \<in> set (ir_items ir) \<and> it_id it = i"
  using find_eq_Some_key [of it_id "ir_items ir" i it] assms by (simp add: ir_item_def ir_ids_def)

lemma ir_item_Inl: "ir_item ir i = Inl e \<longleftrightarrow> i \<notin> set (ir_ids ir) \<and> e = UnknownItem (ii_value i)"
  by (auto simp: ir_item_def ir_ids_def)

lemma ir_item_member: "ir_item ir i = Inr it \<Longrightarrow> it \<in> set (ir_items ir) \<and> it_id it = i"
  by (auto simp: ir_item_def dest: find_SomeD)

lemma id_unique:
  "distinct (map g xs) \<Longrightarrow> x \<in> set xs \<Longrightarrow> y \<in> set xs \<Longrightarrow> g x = g y \<Longrightarrow> x = y"
  by (meson distinct_map inj_onD)

text \<open>Replacing one item whose identifier stays, with its region entries rewritten to match.\<close>

lemma placed_in_replace:
  assumes d: "distinct (map it_id its)" and it: "it \<in> set its" "it_id it = i"
  shows "set (placed_in (map (\<lambda>x. if it_id x = i then f x else x) its) r) =
    {x \<in> set (placed_in its r). it_id x \<noteq> i} \<union> (if it_placement (f it) = Placed r then {f it} else {})"
proof -
  have unique: "it_id x = i \<longleftrightarrow> x = it" if "x \<in> set its" for x
    using id_unique [OF d that it(1)] it(2) by auto
  have "(\<lambda>x. if it_id x = i then f x else x) ` set its = {x \<in> set its. it_id x \<noteq> i} \<union> {f it}"
    using it by (auto simp: image_iff dest: unique [THEN iffD1])
  then show ?thesis unfolding placed_in_def by auto
qed

lemma partitions_agree_set:
  assumes d: "distinct (map it_id its)" and agree: "partitions_agree its ids"
    and it: "it \<in> set its" "it_id it = i" and f: "it_id (f it) = i"
    and ids': "\<And>r. ids' r = filter (\<lambda>j. j \<noteq> i) (ids r) @ (if it_placement (f it) = Placed r then [i] else [])"
  shows "partitions_agree (map (\<lambda>x. if it_id x = i then f x else x) its) ids'"
proof -
  have "distinct (ids' r) \<and>
      set (ids' r) = it_id ` set (placed_in (map (\<lambda>x. if it_id x = i then f x else x) its) r)" for r
  proof -
    from agree have ids: "distinct (ids r)" "set (ids r) = it_id ` set (placed_in its r)"
      by (simp_all add: partitions_agree_def)
    have "it_id ` {x \<in> set (placed_in its r). it_id x \<noteq> i} = set (ids r) - {i}"
      unfolding ids(2) by blast
    then show ?thesis using ids(1) f unfolding placed_in_replace [OF d it] ids'
      by (auto simp: image_Un)
  qed
  then show ?thesis by (simp add: partitions_agree_def)
qed

lemma ir_ok_set:
  assumes ok: "ir_ok ir" and it: "it \<in> set (ir_items ir)" "it_id it = i" and f: "it_id (f it) = i"
    and br: "it_byte_range (f it) = enclosing (it_provenance (f it))"
    and items: "ir_items ir' = ir_items (item_mut_set ir i f)"
    and regions: "distinct (map rp_region (ir_partitions ir'))"
    and ids: "\<And>r. region_items ir' r =
      filter (\<lambda>j. j \<noteq> i) (region_items ir r) @ (if it_placement (f it) = Placed r then [i] else [])"
  shows "ir_ok ir'"
proof -
  from ok have d: "distinct (map it_id (ir_items ir))" by (simp add: ir_ok_def ir_ids_def)
  have unique: "it_id x = i \<longleftrightarrow> x = it" if "x \<in> set (ir_items ir)" for x
    using id_unique [OF d that it(1)] it(2) by auto
  have its: "ir_items ir' = map (\<lambda>x. if it_id x = i then f x else x) (ir_items ir)"
    by (simp add: items item_mut_set_def update_first_key [OF d])
  then have "ir_ids ir' = ir_ids ir"
    using unique f it(2) by (simp add: ir_ids_def)
  moreover have "partitions_agree (ir_items ir') (region_items ir')"
    unfolding its
    by (rule partitions_agree_set [where it = it and ids = "region_items ir"])
      (use ok d it f ids in \<open>simp_all add: ir_ok_def\<close>)
  moreover have "it_byte_range x = enclosing (it_provenance x)" if "x \<in> set (ir_items ir')" for x
  proof -
    from that obtain y where "y \<in> set (ir_items ir)" "x = (if it_id y = i then f y else y)"
      unfolding its by auto
    then show ?thesis using ok br unique [of y] by (simp add: ir_ok_def split: if_splits)
  qed
  ultimately show ?thesis using ok regions by (simp add: ir_ok_def)
qed

lemma enclosing_Nil [simp]: "enclosing [] = \<lparr>sr_offset = 0, sr_length = 0\<rparr>"
  by (simp add: enclosing_def)

lemma ir_place_ok:
  assumes "ir_ok ir" and "ir_place ir i r = Inr ir'"
  shows "ir_ok ir'"
proof -
  from assms(2) obtain it where it: "ir_item ir i = Inr it"
    and ir': "ir' = attach (detach (item_mut_set ir i (\<lambda>it. it\<lparr>it_placement := Placed r\<rparr>)) i) i r"
    by (auto simp: ir_place_def)
  from ir_item_member [OF it] have m: "it \<in> set (ir_items ir)" "it_id it = i" by auto
  show ?thesis
    by (rule ir_ok_set [OF assms(1) m, where f = "\<lambda>it. it\<lparr>it_placement := Placed r\<rparr>"])
      (use assms(1) m in \<open>auto simp: ir' ir_ok_def intro!: attach_regions\<close>)
qed

lemma ir_unplace_ok:
  assumes "ir_ok ir" and "ir_unplace ir i = Inr ir'"
  shows "ir_ok ir'"
proof -
  from assms(2) obtain it where it: "ir_item ir i = Inr it"
    and ir': "ir' = detach (item_mut_set ir i to_store_only) i"
    by (auto simp: ir_unplace_def)
  from ir_item_member [OF it] have m: "it \<in> set (ir_items ir)" "it_id it = i" by auto
  show ?thesis
    by (rule ir_ok_set [OF assms(1) m, where f = to_store_only])
      (use assms(1) m in \<open>auto simp: ir' ir_ok_def to_store_only_def\<close>)
qed

lemma ir_collapse_ok:
  assumes "ir_ok ir" and "ir_collapse ir i = Inr ir'"
  shows "ir_ok ir'"
proof -
  from assms(2) obtain it it' where it: "ir_item ir i = Inr it" and it': "item_collapse it = Inr it'"
    and ir': "ir' = detach (item_mut_set ir i (\<lambda>_. it')) i"
    by (auto simp: ir_collapse_def)
  from ir_item_member [OF it] have m: "it \<in> set (ir_items ir)" "it_id it = i" by auto
  from it' have c: "it_id it' = it_id it" "it_placement it' = PhantomPlacement"
    "it_byte_range it' = enclosing (it_provenance it')"
    by (auto simp: item_collapse_def split: if_splits)
  show ?thesis
    by (rule ir_ok_set [OF assms(1) m, where f = "\<lambda>_. it'"])
      (use assms(1) m c in \<open>auto simp: ir' ir_ok_def\<close>)
qed

text \<open>Adding items with fresh identifiers, each charged to its region.\<close>

lemma ir_ok_push_all:
  assumes ok: "ir_ok ir" and new: "set (map it_id its) \<inter> set (ir_ids ir) = {}" "distinct (map it_id its)"
    and br: "\<And>it. it \<in> set its \<Longrightarrow> it_byte_range it = enclosing (it_provenance it)"
    and items: "ir_items ir' = ir_items ir @ its"
    and regions: "distinct (map rp_region (ir_partitions ir'))"
    and ids: "\<And>r. region_items ir' r = region_items ir r @ map it_id (placed_in its r)"
  shows "ir_ok ir'"
proof -
  have "distinct (region_items ir' r) \<and> set (region_items ir' r) = it_id ` set (placed_in (ir_items ir') r)" for r
  proof -
    from ok have r: "distinct (region_items ir r)"
      "set (region_items ir r) = it_id ` set (placed_in (ir_items ir) r)"
      by (simp_all add: ir_ok_def partitions_agree_def)
    moreover from new(2) have "distinct (map it_id (placed_in its r))"
      by (simp add: placed_in_def distinct_map_filter)
    moreover from r(2) new(1) have "set (map it_id (placed_in its r)) \<inter> set (region_items ir r) = {}"
      by (auto simp: placed_in_def ir_ids_def)
    ultimately show ?thesis by (auto simp: ids items placed_in_def)
  qed
  with ok new br regions show ?thesis by (auto simp: ir_ok_def partitions_agree_def ir_ids_def items)
qed

lemma ir_insert_ok:
  assumes "ir_ok ir" and "ir_insert ir it = Inr ir'"
    and "it_byte_range it = enclosing (it_provenance it)"
  shows "ir_ok ir'"
proof (rule ir_ok_push_all [OF assms(1), of "[it]"])
  show "set (map it_id [it]) \<inter> set (ir_ids ir) = {}"
    using assms(2) by (auto simp: ir_insert_def ir_ids_def split: if_splits)
  show "it_byte_range x = enclosing (it_provenance x)" if "x \<in> set [it]" for x
    using that assms(3) by simp
qed (use assms in \<open>cases "it_placement it";
  auto simp: ir_insert_def ir_ok_def item_region_def placed_in_def Let_def split: if_splits intro!: attach_regions\<close>)+

lemma ir_remove_ok:
  assumes "ir_ok ir"
  shows "ir_ok (ir_remove ir i)"
proof -
  have "it_id ` {x \<in> A. it_id x \<noteq> i} = it_id ` A - {i}" for A by auto
  moreover have "placed_in (filter (\<lambda>it. it_id it \<noteq> i) its) r = filter (\<lambda>it. it_id it \<noteq> i) (placed_in its r)" for its r
    by (simp add: placed_in_def conj_commute)
  ultimately show ?thesis using assms
    by (auto simp: ir_ok_def ir_remove_def ir_ids_def partitions_agree_def distinct_map_filter)
qed

section \<open>Resegmentation\<close>

lemma check_parts_Inr:
  "length parts = length ns \<Longrightarrow> check_parts i parts ns = Inr flat \<longleftrightarrow>
     flat = concat parts \<and> map length parts = ns \<and> [] \<notin> set parts"
  by (induction i parts ns arbitrary: flat rule: check_parts.induct) auto

lemma split_check_Inr:
  "split_check ir i parts ct = Inr parent \<longleftrightarrow>
     ir_item ir i = Inr parent \<and> length parts = ct_parts ct \<and> map length parts = ct_split_points ct \<and>
     parts \<noteq> [] \<and> [] \<notin> set parts \<and> covers_exactly (concat parts) (it_provenance parent) \<and>
     (length (normalize (it_provenance parent)) \<le> 1 \<or>
        claim_atomic parts (normalize (it_provenance parent)))"
proof -
  have len: "length (ct_split_points ct) = length parts" if "map length parts = ct_split_points ct"
    by (simp flip: that)
  show ?thesis unfolding split_check_def
    by (auto simp: check_parts_Inr len)
qed

definition split_items :: "item \<Rightarrow> item_id list \<Rightarrow> store_range list list \<Rightarrow> item list" where
  "split_items parent ids parts =
     map2 (\<lambda>i part. with_placement i (it_lane parent) part (it_scope parent) (it_placement parent)) ids parts"

lemma split_items_ids [simp]: "length ids = length parts \<Longrightarrow> map it_id (split_items parent ids parts) = ids"
  by (induction ids parts rule: list_induct2) (simp_all add: split_items_def with_placement_def)

lemma split_items_member:
  assumes "it \<in> set (split_items parent ids parts)"
  shows "it_lane it = it_lane parent" and "it_scope it = it_scope parent"
    and "it_placement it = it_placement parent" and "it_byte_range it = enclosing (it_provenance it)"
  using assms by (auto simp: split_items_def with_placement_def)

lemma split_items_provenance:
  "length ids = length parts \<Longrightarrow> map it_provenance (split_items parent ids parts) = parts"
  by (induction ids parts rule: list_induct2) (simp_all add: split_items_def with_placement_def)

lemma split_children_Inr:
  assumes "split_children (it_lane parent) (it_scope parent) (it_placement parent) ir parts = (ir', Inr ids)"
  shows "length ids = length parts \<and> distinct ids \<and> set ids \<inter> set (ir_ids ir) = {} \<and>
    ir_items ir' = ir_items ir @ split_items parent ids parts \<and>
    ir_partitions ir' = ir_partitions ir \<and> ir_next_append_id ir' = ir_next_append_id ir"
  using assms
proof (induction parts arbitrary: ir ids)
  case (Cons part parts)
  let ?i = "id_split (ir_next_split_id ir)"
  let ?child = "with_placement ?i (it_lane parent) part (it_scope parent) (it_placement parent)"
  let ?ir = "ir\<lparr>ir_next_split_id := add64 (ir_next_split_id ir) 1, ir_items := ir_items ir @ [?child]\<rparr>"
  from Cons.prems obtain ids' where ids: "ids = ?i # ids'" and new: "\<forall>e \<in> set (ir_items ir). it_id e \<noteq> ?i"
    and rest: "split_children (it_lane parent) (it_scope parent) (it_placement parent) ?ir parts = (ir', Inr ids')"
    by (auto simp: reserve_split_id_def Let_def split: if_splits prod.splits)
  show ?case using Cons.IH [OF rest] new
    by (auto simp: ids ir_ids_def split_items_def with_placement_def)
qed (simp add: split_items_def)

lemma attach_all_simps:
  "ir_items (attach_all pl ids ir) = ir_items ir"
  "ir_next_append_id (attach_all pl ids ir) = ir_next_append_id ir"
  "ir_next_split_id (attach_all pl ids ir) = ir_next_split_id ir"
  "region_items (attach_all pl ids ir) r = region_items ir r @ (if pl = Placed r then ids else [])"
  "distinct (map rp_region (ir_partitions ir)) \<Longrightarrow> distinct (map rp_region (ir_partitions (attach_all pl ids ir)))"
  by (induction ids arbitrary: ir) (cases pl; simp add: attach_all_def attach_regions)+

lemma placed_split_items:
  assumes "length ids = length parts"
  shows "map it_id (placed_in (split_items parent ids parts) r) = (if it_placement parent = Placed r then ids else [])"
proof -
  have "placed_in (split_items parent ids parts) r =
      (if it_placement parent = Placed r then split_items parent ids parts else [])"
    by (auto simp: placed_in_def split_items_member(3) filter_True filter_False)
  then show ?thesis using assms by simp
qed

text \<open>What an accepted split does to the items: the parent is gone and one child per part is appended
  with a fresh identifier.\<close>

lemma ir_split_Inr:
  assumes ok: "ir_ok ir" and split: "ir_split ir i parts ct = (ir', Inr ids)"
  obtains parent where "ir_item ir i = Inr parent" and "split_check ir i parts ct = Inr parent"
    and "length ids = length parts" and "distinct ids" and "set ids \<inter> set (ir_ids (ir_remove ir i)) = {}"
    and "ir_items ir' = filter (\<lambda>it. it_id it \<noteq> i) (ir_items ir) @ split_items parent ids parts"
    and "ir_ok ir'"
proof -
  from split obtain parent irc where check: "split_check ir i parts ct = Inr parent"
    and children: "split_children (it_lane parent) (it_scope parent) (it_placement parent)
      (ir_remove ir i) parts = (irc, Inr ids)"
    and ir': "ir' = attach_all (it_placement parent) ids irc"
    by (auto simp: ir_split_def split: sum.splits prod.splits)
  note c = split_children_Inr [OF children]
  have items: "ir_items ir' = ir_items (ir_remove ir i) @ split_items parent ids parts"
    using c by (simp add: ir' attach_all_simps)
  have regions: "region_items irc r = region_items (ir_remove ir i) r" for r
    using c by (simp add: region_items_def)
  have removed: "ir_ok (ir_remove ir i)" by (rule ir_remove_ok [OF ok])
  have "ir_ok ir'"
    by (rule ir_ok_push_all [OF removed _ _ _ items])
      (use c removed in \<open>auto simp: ir' attach_all_simps regions placed_split_items ir_ok_def
        split_items_member(4)\<close>)
  moreover from check have "ir_item ir i = Inr parent" by (simp add: split_check_Inr)
  ultimately show ?thesis using that check c items by (simp add: ir_remove_def)
qed

lemma ir_split_ok: "ir_ok ir \<Longrightarrow> ir_split ir i parts ct = (ir', Inr ids) \<Longrightarrow> ir_ok ir'"
  by (erule (1) ir_split_Inr)

section \<open>Occupancy\<close>

lemma found_items_known:
  assumes "distinct (ir_ids ir)" and "set ids \<subseteq> set (ir_ids ir)"
  shows "found_items ir ids = map (\<lambda>i. projr (ir_item ir i)) ids"
  using assms(2)
proof (induction ids)
  case (Cons i ids)
  then have "\<exists>it. ir_item ir i = Inr it" by (cases "ir_item ir i") (auto simp: ir_item_Inl)
  with Cons show ?case by (auto simp: found_items_def map_filter_simps)
qed (simp add: found_items_def map_filter_simps)

lemma found_items_sum:
  assumes d: "distinct (ir_ids ir)" and ids: "distinct ids" "set ids = it_id ` set its"
    and its: "set its \<subseteq> set (ir_items ir)" "distinct its"
  shows "sum_list (map f (found_items ir ids)) = (sum_list (map f its) :: nat)"
proof -
  have known: "set ids \<subseteq> set (ir_ids ir)" using ids(2) its(1) by (auto simp: ir_ids_def)
  have inj: "inj_on it_id (set its)"
    using d its(1) by (auto simp: ir_ids_def distinct_map intro: inj_on_subset)
  have "sum_list (map f (found_items ir ids)) = (\<Sum>i \<in> set ids. f (projr (ir_item ir i)))"
    using ids(1) by (simp add: found_items_known [OF d known] sum_list_distinct_conv_sum_set o_def)
  also have "\<dots> = (\<Sum>it \<in> set its. f (projr (ir_item ir (it_id it))))"
    by (simp add: ids(2) sum.reindex [OF inj])
  also have "\<dots> = (\<Sum>it \<in> set its. f it)"
  proof (rule sum.cong)
    fix it assume "it \<in> set its"
    with its(1) have "ir_item ir (it_id it) = Inr it" by (auto simp: ir_item_Inr [OF d])
    then show "f (projr (ir_item ir (it_id it))) = f it" by simp
  qed simp
  finally show ?thesis using its(2) by (simp add: sum_list_distinct_conv_sum_set)
qed

text \<open>A region's occupancy is the sum, modulo \<open>2 ^ 64\<close>, of the units of the items placed there: each
  is charged exactly once.\<close>

lemma region_occupancy_placed:
  assumes "ir_ok ir"
  shows "region_occupancy ir r = sum_list (map item_units (placed_in (ir_items ir) r)) mod u64_modulus"
proof -
  from assms have d: "distinct (ir_ids ir)"
    and ids: "distinct (region_items ir r)" "set (region_items ir r) = it_id ` set (placed_in (ir_items ir) r)"
    by (simp_all add: ir_ok_def partitions_agree_def)
  have "distinct (placed_in (ir_items ir) r)"
    using d by (simp add: placed_in_def ir_ids_def distinct_map)
  then show ?thesis
    using found_items_sum [OF d ids, of item_units]
    by (simp add: region_occupancy_def sum64_mod placed_in_def)
qed

lemma disjoint_ranges_append:
  "disjoint_ranges (rs @ rs') \<longleftrightarrow>
     disjoint_ranges rs \<and> disjoint_ranges rs' \<and> bytes_of rs \<inter> bytes_of rs' = {}"
  by (induction rs) auto

lemma covered_units_parts:
  assumes "disjoint_ranges (concat parts)" and "\<forall>r \<in> set (concat parts). fits r"
  shows "sum_list (map covered_units parts) = card (bytes_of (concat parts))"
  using assms
proof (induction parts)
  case (Cons part parts)
  then have "bytes_of part \<inter> bytes_of (concat parts) = {}" by (simp add: disjoint_ranges_append)
  with Cons show ?case
    by (simp add: disjoint_ranges_append covered_units_card card_Un_disjoint)
qed simp

lemma split_units:
  assumes "covers_exactly (concat parts) prov"
    and "\<forall>r \<in> set (concat parts). fits r" and "\<forall>r \<in> set prov. fits r"
    and "sum_list (map sr_length (concat parts)) < u64_modulus"
  shows "sum_list (map covered_units parts) = covered_units prov"
proof -
  from covers_exactly_iff [OF assms(2-4)] assms(1)
  have "disjoint_ranges (concat parts)" "bytes_of (concat parts) = bytes_of prov" by auto
  then show ?thesis using covered_units_parts [OF _ assms(2)] assms(3) by (simp add: covered_units_card)
qed

lemma sum_units_remove:
  assumes "distinct (map it_id its)" and "parent \<in> set its" and "it_id parent = i"
  shows "sum_list (map f (placed_in its r)) =
    sum_list (map f (placed_in (filter (\<lambda>it. it_id it \<noteq> i) its) r)) +
    (if it_placement parent = Placed r then (f parent :: nat) else 0)"
  using assms
proof (induction its)
  case (Cons it its)
  show ?case
  proof (cases "it = parent")
    case True
    with Cons.prems have "\<And>x. x \<in> set its \<Longrightarrow> it_id x \<noteq> i" by (auto simp: rev_image_eqI)
    then have "filter (\<lambda>it. it_id it \<noteq> i) its = its" by (simp add: filter_True)
    with True Cons.prems(3) show ?thesis by (simp add: placed_in_def)
  next
    case False
    with Cons.prems have "parent \<in> set its" "it_id it \<noteq> i" by (auto simp: rev_image_eqI)
    with Cons show ?thesis by (simp add: placed_in_def)
  qed
qed simp

lemma split_occupancy:
  assumes ok: "ir_ok ir" and split: "ir_split ir i parts ct = (ir', Inr ids)"
    and fits: "\<forall>r \<in> set (concat parts). fits r" "\<forall>it \<in> set (ir_items ir). \<forall>r \<in> set (it_provenance it). fits r"
    and sum: "sum_list (map sr_length (concat parts)) < u64_modulus"
  shows "region_occupancy ir' r = region_occupancy ir r"
proof -
  obtain parent where parent: "ir_item ir i = Inr parent" and check: "split_check ir i parts ct = Inr parent"
    and len: "length ids = length parts" and ok': "ir_ok ir'"
    and items: "ir_items ir' = filter (\<lambda>it. it_id it \<noteq> i) (ir_items ir) @ split_items parent ids parts"
    by (rule ir_split_Inr [OF ok split])
  from ir_item_member [OF parent] have m: "parent \<in> set (ir_items ir)" "it_id parent = i" by auto
  have "map item_units (split_items parent ids parts) = map covered_units parts"
    using split_items_provenance [OF len, of parent] unfolding item_units_def
    by (metis (no_types, lifting) map_map o_def map_cong)
  moreover have "placed_in (split_items parent ids parts) r =
      (if it_placement parent = Placed r then split_items parent ids parts else [])"
    by (auto simp: placed_in_def split_items_member(3) filter_True filter_False)
  moreover have "sum_list (map covered_units parts) = item_units parent"
    unfolding item_units_def using check fits m(1) sum by (intro split_units) (auto simp: split_check_Inr)
  ultimately have children: "sum_list (map item_units (placed_in (split_items parent ids parts) r)) =
      (if it_placement parent = Placed r then item_units parent else 0)"
    by simp
  from ok have d: "distinct (map it_id (ir_items ir))" by (simp add: ir_ok_def ir_ids_def)
  have "placed_in (ir_items ir') r = placed_in (filter (\<lambda>it. it_id it \<noteq> i) (ir_items ir)) r @
      placed_in (split_items parent ids parts) r"
    by (simp add: items placed_in_def)
  then show ?thesis
    by (simp add: region_occupancy_placed [OF ok] region_occupancy_placed [OF ok'] children
      sum_units_remove [OF d m, of item_units r])
qed

section \<open>Minting\<close>

definition ids_below :: "conversation_ir \<Rightarrow> bool" where
  "ids_below ir \<longleftrightarrow> (\<forall>i \<in> set (ir_ids ir). ii_value i < namespace_watermark ir (ii_namespace i))"

lemma ids_below_new [simp]: "ids_below ir_new"
  by (simp add: ids_below_def ir_new_def ir_ids_def)

lemma split_children_total:
  assumes "ids_below ir" and "ir_next_split_id ir + length parts < u64_modulus"
  shows "\<exists>ir' ids. split_children l sc pl ir parts = (ir', Inr ids) \<and> ids_below ir' \<and>
    ids = map (\<lambda>k. id_split (ir_next_split_id ir + k)) [0 ..< length parts]"
  using assms
proof (induction parts arbitrary: ir)
  case (Cons part parts)
  let ?i = "id_split (ir_next_split_id ir)"
  let ?child = "with_placement ?i l part sc pl"
  let ?ir = "ir\<lparr>ir_next_split_id := Suc (ir_next_split_id ir), ir_items := ir_items ir @ [?child]\<rparr>"
  have new: "\<not> (\<exists>e \<in> set (ir_items ir). it_id e = ?i)"
  proof
    assume "\<exists>e \<in> set (ir_items ir). it_id e = ?i"
    then have "?i \<in> set (ir_ids ir)" by (auto simp: ir_ids_def rev_image_eqI)
    with Cons.prems(1) have "ii_value ?i < namespace_watermark ir (ii_namespace ?i)"
      unfolding ids_below_def by blast
    then show False by (simp add: id_split_def namespace_watermark_def)
  qed
  have "ids_below ?ir" unfolding ids_below_def
  proof
    fix j assume "j \<in> set (ir_ids ?ir)"
    then consider "j \<in> set (ir_ids ir)" | "j = ?i" by (auto simp: ir_ids_def with_placement_def)
    then show "ii_value j < namespace_watermark ?ir (ii_namespace j)"
    proof cases
      case 1
      with Cons.prems(1) have "ii_value j < namespace_watermark ir (ii_namespace j)"
        unfolding ids_below_def by blast
      then show ?thesis by (auto simp: namespace_watermark_def split: item_namespace.splits)
    qed (simp add: id_split_def namespace_watermark_def)
  qed
  with Cons.IH [of ?ir] Cons.prems(2) obtain ir' ids where
    "split_children l sc pl ?ir parts = (ir', Inr ids)" "ids_below ir'"
    "ids = map (\<lambda>k. id_split (Suc (ir_next_split_id ir) + k)) [0 ..< length parts]"
    by auto
  with new Cons.prems(2) show ?case
    by (simp add: reserve_split_id_def Let_def map_upt_Suc del: upt_Suc)
qed simp

lemma ids_below_remove [simp]: "ids_below ir \<Longrightarrow> ids_below (ir_remove ir i)"
  by (auto simp: ids_below_def ir_remove_def ir_ids_def namespace_watermark_def split: item_namespace.splits)

text \<open>While the split namespace has room, a split whose contract checks is accepted, and its children
  carry the next identifiers of the namespace in order.\<close>

lemma ir_split_total:
  assumes "ids_below ir" and "ir_next_split_id ir + length parts < u64_modulus"
    and "split_check ir i parts ct = Inr parent"
  obtains ir' where "ir_split ir i parts ct =
      (ir', Inr (map (\<lambda>k. id_split (ir_next_split_id ir + k)) [0 ..< length parts]))" and "ids_below ir'"
proof -
  have room: "ir_next_split_id (ir_remove ir i) + length parts < u64_modulus"
    using assms(2) by (simp add: ir_remove_def)
  obtain irc ids where
    c: "split_children (it_lane parent) (it_scope parent) (it_placement parent) (ir_remove ir i) parts = (irc, Inr ids)"
    "ids_below irc" "ids = map (\<lambda>k. id_split (ir_next_split_id (ir_remove ir i) + k)) [0 ..< length parts]"
    using split_children_total [OF ids_below_remove [OF assms(1)] room] by metis
  have "ids_below (attach_all (it_placement parent) ids irc)"
    using c(2) by (auto simp: ids_below_def ir_ids_def attach_all_simps namespace_watermark_def
      split: item_namespace.splits)
  moreover have "ir_next_split_id (ir_remove ir i) = ir_next_split_id ir" by (simp add: ir_remove_def)
  ultimately show ?thesis using that c assms(3) by (simp add: ir_split_def)
qed

section \<open>Sequences of operations\<close>

datatype ir_command =
    IInsert item_id lane "store_range list" scope_id placement
  | IPlace item_id region
  | IUnplace item_id
  | ICollapse item_id
  | ISplit item_id "store_range list list" split_contract

fun ir_step :: "conversation_ir \<Rightarrow> ir_command \<Rightarrow> ir_error + conversation_ir" where
  "ir_step ir (IInsert i l prov sc pl) = ir_insert ir (with_placement i l prov sc pl)"
| "ir_step ir (IPlace i r) = ir_place ir i r"
| "ir_step ir (IUnplace i) = ir_unplace ir i"
| "ir_step ir (ICollapse i) = ir_collapse ir i"
| "ir_step ir (ISplit i parts ct) =
     (case ir_split ir i parts ct of (ir', r) \<Rightarrow> res_bind r (\<lambda>_. Inr ir'))"

lemma ir_step_ok:
  assumes "ir_ok ir" and "ir_step ir c = Inr ir'"
  shows "ir_ok ir'"
proof (cases c)
  case (IInsert i l prov sc pl)
  with assms show ?thesis by (auto simp: with_placement_def intro: ir_insert_ok)
next
  case (ISplit i parts ct)
  with assms show ?thesis by (auto split: prod.splits intro: ir_split_ok)
qed (use assms in \<open>auto intro: ir_place_ok ir_unplace_ok ir_collapse_ok\<close>)

interpretation conversation: guarded_machine ir_step ir_ok
  by unfold_locales (rule ir_step_ok)

end
