(* ===== verification/IrProperties.thy ===== *)
theory IrProperties
  imports Conversation
begin

text \<open>
  The properties of the layers below the log: store ranges, hashing, lane policies, scopes and the
  conversation representation.
\<close>

section \<open>Ranges\<close>

text \<open>Normalising ranges keeps exactly the bytes they denote, in maximal disjoint ranges with a gap
  between neighbours; \<open>covered_units\<close> is the number of those bytes, each counted once, and two lists
  normalise to the same ranges exactly when they denote the same bytes.\<close>

lemma normalize_canonical:
  assumes "\<forall>r \<in> set rs. fits r" and "\<forall>r \<in> set rs'. fits r"
  shows "gapped (normalize rs) \<and> bytes_of (normalize rs) = bytes_of rs \<and>
    covered_units rs = card (bytes_of rs) \<and>
    (normalize rs = normalize rs' \<longleftrightarrow> bytes_of rs = bytes_of rs')"
  using normalize_correct [OF assms(1)] covered_units_card [OF assms(1)] normalize_eq_iff [OF assms] by blast

text \<open>\<open>covers_exactly\<close> accepts a list of child ranges exactly when they cover the parent's bytes, all
  of them and nothing else, and no two children overlap.\<close>

lemma covers_exactly_decides:
  assumes "\<forall>r \<in> set children. fits r" and "\<forall>r \<in> set parent. fits r"
    and "sum_list (map sr_length children) < u64_modulus"
  shows "covers_exactly children parent \<longleftrightarrow> bytes_of children = bytes_of parent \<and> disjoint_ranges children"
  by (rule covers_exactly_iff [OF assms])

text \<open>Slicing returns the requested number of parts; concatenated they run through the bytes of the
  ranges in order, and their sizes differ by at most one byte, the larger ones first.\<close>

lemma slice_into_splits_evenly:
  assumes "0 < parts" and "\<forall>r \<in> set rs. fits r" and "sum_list (map sr_length rs) < u64_modulus"
  shows "length (slice_into rs parts) = parts \<and>
    concat (map positions (slice_into rs parts)) = positions rs \<and>
    map (\<lambda>p. sum_list (map sr_length p)) (slice_into rs parts) =
      map (\<lambda>i. sum_list (map sr_length rs) div parts + (if i < sum_list (map sr_length rs) mod parts then 1 else 0))
        [0 ..< parts]"
  using slice_into_partitions [OF assms] by (auto simp: slice_target_def)

section \<open>Scopes\<close>

text \<open>Over any sequence of registry operations, a scope stays registered with the same parent and
  opening sequence, and once closed it never changes again; every registered scope's parent was opened
  before it.\<close>

lemma scopes_never_reopen:
  assumes "run_steps scopes_step (scopes_new w) cs = Inr reg" and "run_steps scopes_step reg ds = Inr reg'"
    and "scope_lookup reg i = Inr sc"
  shows "\<exists>sc'. scope_lookup reg' i = Inr sc' \<and> scope_later sc sc' \<and> parents_before {} (sr_scopes reg')"
proof -
  have ok: "scopes_ok reg'" by (rule scopes.run_keeps [OF scopes.run_keeps [OF scopes_ok_new assms(1)] assms(2)])
  from scopes_later_lookup [OF scopes_life.run_below [OF assms(2)] assms(3) ok] ok show ?thesis
    by (auto simp: scopes_ok_def)
qed

text \<open>Attributing an item restarts the scope's idleness window: from then on the scope is idle exactly
  when more events than the window have passed since.\<close>

lemma idleness_window_restarts:
  assumes "run_steps scopes_step (scopes_new w) cs = Inr reg" and "attribute_item reg i q = Inr reg'"
    and "q + sr_idleness_window reg < u64_modulus"
  shows "is_idle reg' i now = Inr (q + sr_idleness_window reg < now)"
  by (rule attribute_resets_idle [OF scopes.run_keeps [OF scopes_ok_new assms(1)] assms(2,3)])

section \<open>Lane policies\<close>

text \<open>A version resolves exactly when the build supports it, and then every lane has its row, the rows
  are ranked with the constitutional lane reclaimed last, and the constitutional lane is verbatim,
  protected and admits no derivative.\<close>

lemma resolved_registry_complete:
  "(is_ok (resolve_registry v) \<longleftrightarrow> 1 \<le> v \<and> v \<le> LANE_POLICY_LATEST_VERSION) \<and>
   (\<forall>r. resolve_registry v = Inr r \<longrightarrow> complete_registry r \<and> lpr_version r = v \<and>
      (\<forall>l. \<exists>p. registry_policy r l = Inr p \<and> lp_lane p = l))"
proof -
  have "complete_registry r \<and> lpr_version r = v" if "resolve_registry v = Inr r" for r
  proof -
    have "lpr_version (build_registry n f m) = n" for n f m by (simp add: build_registry_def)
    with that show ?thesis by (auto simp: resolve_registry_def build_complete split: if_splits)
  qed
  then show ?thesis using resolve_ok_iff complete_registry_policy by metis
qed

section \<open>The conversation representation\<close>

text \<open>Whatever operations run, item identifiers stay unique and the partitions agree with the
  placements: a region's partition lists each item placed there exactly once and nothing else, so a
  region's occupancy is the sum of the units of the items placed in it.\<close>

lemma placements_agree:
  assumes "run_steps ir_step ir_new cs = Inr ir"
  shows "distinct (ir_ids ir) \<and> distinct (region_items ir r) \<and>
    set (region_items ir r) = {it_id it | it. it \<in> set (ir_items ir) \<and> it_placement it = Placed r} \<and>
    region_occupancy ir r =
      sum_list (map item_units (filter (\<lambda>it. it_placement it = Placed r) (ir_items ir))) mod u64_modulus"
proof -
  have ok: "ir_ok ir" by (rule conversation.run_keeps [OF ir_ok_new assms])
  then have "set (region_items ir r) = it_id ` set (placed_in (ir_items ir) r)" "distinct (region_items ir r)"
    "distinct (ir_ids ir)" by (simp_all add: ir_ok_def partitions_agree_def)
  with region_occupancy_placed [OF ok, of r] show ?thesis by (auto simp: placed_in_def)
qed

abbreviation demo_commands :: "ir_command list" where
  "demo_commands \<equiv>
     [IInsert (id_append 0) Constitutional [\<lparr>sr_offset = 0, sr_length = 4\<rparr>] 1 StoreOnly,
      IPlace (id_append 0) Head,
      IInsert (id_append 1) Evidential [\<lparr>sr_offset = 4, sr_length = 6\<rparr>] 1 StoreOnly,
      IPlace (id_append 1) Body]"

abbreviation demo_contract :: split_contract where
  "demo_contract \<equiv> \<lparr>ct_namespace = Fresh, ct_parts = 2, ct_split_points = [1, 1]\<rparr>"

abbreviation demo_parts :: "store_range list list" where
  "demo_parts \<equiv> [[\<lparr>sr_offset = 4, sr_length = 3\<rparr>], [\<lparr>sr_offset = 7, sr_length = 3\<rparr>]]"

lemmas ir_eval = ir_insert_def ir_place_def ir_split_def split_check_def ir_item_def ir_new_def with_placement_def
  id_append_def id_split_def id_fits_provenance_def note_minted_id_def item_region_def item_mut_set_def
  attach_def detach_def attach_all_def ir_remove_def reserve_split_id_def covers_exactly_def covered_units_def
  normalize_def merge_step_def sr_end_def sum64_def claim_atomic_def enclosing_def

text \<open>C27: a split is claim-atomic and moves nothing: no region's occupancy changes, the children's
  provenance is the requested parts, and they inherit the parent's lane, scope and placement; every
  other item is untouched.\<close>

theorem split_conserves:
  assumes "run_steps ir_step ir_new cs = Inr ir" and "ir_split ir i parts ct = (ir', Inr ids)"
    and "\<forall>r \<in> set (concat parts). fits r" and "\<forall>it \<in> set (ir_items ir). \<forall>r \<in> set (it_provenance it). fits r"
    and "sum_list (map sr_length (concat parts)) < u64_modulus"
  shows "(\<forall>r. region_occupancy ir' r = region_occupancy ir r) \<and>
    (\<exists>parent. ir_item ir i = Inr parent \<and>
       ir_items ir' = filter (\<lambda>it. it_id it \<noteq> i) (ir_items ir) @ split_items parent ids parts \<and>
       bytes_of (concat parts) = bytes_of (it_provenance parent) \<and> disjoint_ranges (concat parts))"
proof -
  have ok: "ir_ok ir" by (rule conversation.run_keeps [OF ir_ok_new assms(1)])
  obtain parent where p: "ir_item ir i = Inr parent" "split_check ir i parts ct = Inr parent"
    "ir_items ir' = filter (\<lambda>it. it_id it \<noteq> i) (ir_items ir) @ split_items parent ids parts"
    by (rule ir_split_Inr [OF ok assms(2)])
  have "\<forall>r \<in> set (it_provenance parent). fits r" using ir_item_member [OF p(1)] assms(4) by blast
  from covers_exactly_iff [OF assms(3) this assms(5)] p split_occupancy [OF ok assms(2-5)] show ?thesis
    by (auto simp: split_check_Inr)
qed

theorem split_conserves_witness:
  "\<exists>ir ir' ids. run_steps ir_step ir_new demo_commands = Inr ir \<and>
     ir_split ir (id_append 1) demo_parts demo_contract = (ir', Inr ids) \<and>
     (\<forall>r. region_occupancy ir' r = region_occupancy ir r)"
proof -
  let ?a = "run_steps ir_step ir_new demo_commands"
  have "is_ok ?a" "is_ok (res_bind ?a (\<lambda>ir. snd (ir_split ir (id_append 1) demo_parts demo_contract)))"
    "is_ok (res_bind ?a (\<lambda>ir. ensure (list_all (\<lambda>it. list_all fits (it_provenance it)) (ir_items ir)) (PlacementState 0)))"
    by (simp_all add: ir_eval fits_def)
  then obtain ir ir' ids where ir: "?a = Inr ir" and split: "ir_split ir (id_append 1) demo_parts demo_contract = (ir', Inr ids)"
    and fit: "list_all (\<lambda>it. list_all fits (it_provenance it)) (ir_items ir)"
    by (auto simp: is_ok_iff prod_eq_iff)
  from split_conserves [OF ir split] fit ir split show ?thesis by (auto simp: fits_def list_all_iff)
qed

end
