(* ===== verification/BTree.thy ===== *)
theory BTree
  imports Prelude
begin

text \<open>
  The standard library's \<open>BTreeMap\<close> as the program uses it: an association list in ascending key
  order, so that \<open>values()\<close>, \<open>keys()\<close> and \<open>iter()\<close> enumerate in key order and \<open>==\<close> on maps is
  equality of the lists.  \<open>bt_ok\<close> is the representation invariant; the contract \<open>ordered_map\<close> states
  the laws the program relies on, and the interpretation at the end proves them for the model.
  A \<open>BTreeSet\<close> is a HOL \<^typ>\<open>'a set\<close>: the program only asks for membership, inclusion, size and
  unions of its sets, none of which depend on the order.
\<close>

type_synonym ('k, 'v) btree = "('k \<times> 'v) list"

abbreviation bt_get :: "('k, 'v) btree \<Rightarrow> 'k \<Rightarrow> 'v option" where
  "bt_get m k \<equiv> map_of m k"

abbreviation bt_values :: "('k, 'v) btree \<Rightarrow> 'v list" where
  "bt_values m \<equiv> map snd m"

abbreviation bt_keys :: "('k, 'v) btree \<Rightarrow> 'k list" where
  "bt_keys m \<equiv> map fst m"

definition bt_contains :: "('k, 'v) btree \<Rightarrow> 'k \<Rightarrow> bool" where
  "bt_contains m k \<longleftrightarrow> map_of m k \<noteq> None"

fun bt_insert :: "'k::linorder \<Rightarrow> 'v \<Rightarrow> ('k, 'v) btree \<Rightarrow> ('k, 'v) btree" where
  "bt_insert k v [] = [(k, v)]"
| "bt_insert k v ((k', v') # m) =
     (if k < k' then (k, v) # (k', v') # m
      else if k = k' then (k, v) # m
      else (k', v') # bt_insert k v m)"

definition bt_remove :: "'k \<Rightarrow> ('k, 'v) btree \<Rightarrow> ('k, 'v) btree" where
  "bt_remove k m = filter (\<lambda>(k', v). k' \<noteq> k) m"

definition bt_retain :: "('k \<Rightarrow> 'v \<Rightarrow> bool) \<Rightarrow> ('k, 'v) btree \<Rightarrow> ('k, 'v) btree" where
  "bt_retain P m = filter (\<lambda>(k, v). P k v) m"

text \<open>\<open>bt_adjust\<close> is an assignment through \<open>get_mut\<close>, \<open>bt_map_values\<close> a loop over \<open>values_mut\<close>.\<close>

definition bt_adjust :: "'k \<Rightarrow> ('v \<Rightarrow> 'v) \<Rightarrow> ('k, 'v) btree \<Rightarrow> ('k, 'v) btree" where
  "bt_adjust k f m = map (\<lambda>(k', v). (k', if k' = k then f v else v)) m"

definition bt_map_values :: "('v \<Rightarrow> 'v) \<Rightarrow> ('k, 'v) btree \<Rightarrow> ('k, 'v) btree" where
  "bt_map_values f m = map (\<lambda>(k, v). (k, f v)) m"

definition bt_extend :: "('k::linorder, 'v) btree \<Rightarrow> ('k, 'v) btree \<Rightarrow> ('k, 'v) btree" where
  "bt_extend m n = fold (\<lambda>(k, v). bt_insert k v) n m"

definition bt_ok :: "('k::linorder, 'v) btree \<Rightarrow> bool" where
  "bt_ok m \<longleftrightarrow> sorted_wrt (<) (bt_keys m)"

section \<open>Laws\<close>

lemma bt_ok_Nil [simp]: "bt_ok []"
  by (simp add: bt_ok_def)

lemma bt_ok_distinct: "bt_ok m \<Longrightarrow> distinct (bt_keys m)"
  by (simp add: bt_ok_def strict_sorted_iff)

lemma bt_ok_mapD: "bt_ok m \<Longrightarrow> (k, v) \<in> set m \<Longrightarrow> bt_get m k = Some v"
  by (simp add: bt_ok_distinct)

lemma keys_insert [simp]: "fst ` set (bt_insert k v m) = insert k (fst ` set m)"
  by (induction k v m rule: bt_insert.induct) auto

lemma get_insert [simp]: "bt_get (bt_insert k v m) = (bt_get m)(k \<mapsto> v)"
  by (induction k v m rule: bt_insert.induct) (auto simp: fun_eq_iff)

lemma bt_ok_insert [simp]: "bt_ok m \<Longrightarrow> bt_ok (bt_insert k v m)"
proof (induction k v m rule: bt_insert.induct)
  case (2 k v k' v' m)
  have "fst ` set (bt_insert k v m) = insert k (fst ` set m)" by simp
  with 2 show ?case by (auto simp: bt_ok_def)
qed (simp add: bt_ok_def)

lemma length_insert_absent:
  "bt_get m k = None \<Longrightarrow> length (bt_insert k v m) = Suc (length m)"
  by (induction k v m rule: bt_insert.induct) (auto split: if_splits)

lemma set_insert_absent:
  "bt_get m k = None \<Longrightarrow> set (bt_insert k v m) = insert (k, v) (set m)"
  by (induction k v m rule: bt_insert.induct) (auto split: if_splits)

lemma keys_filter_subset: "set (bt_keys (filter P m)) \<subseteq> set (bt_keys m)"
  by auto

lemma bt_ok_filter: "bt_ok m \<Longrightarrow> bt_ok (filter P m)"
  by (induction m) (auto simp: bt_ok_def)

lemma bt_ok_remove [simp]: "bt_ok m \<Longrightarrow> bt_ok (bt_remove k m)"
  by (simp add: bt_remove_def bt_ok_filter)

lemma bt_ok_retain [simp]: "bt_ok m \<Longrightarrow> bt_ok (bt_retain P m)"
  by (simp add: bt_retain_def bt_ok_filter)

lemma get_remove [simp]: "bt_get (bt_remove k m) = (bt_get m)(k := None)"
  by (induction m) (auto simp: bt_remove_def fun_eq_iff)

lemma get_retain:
  "bt_ok m \<Longrightarrow> bt_get (bt_retain P m) k =
     (case bt_get m k of None \<Rightarrow> None | Some v \<Rightarrow> if P k v then Some v else None)"
proof (induction m)
  case (Cons kv m)
  obtain k' v' where kv: "kv = (k', v')" by (cases kv)
  from Cons.prems have ok: "bt_ok m" and new: "k' \<notin> set (bt_keys m)"
    by (auto simp: bt_ok_def kv)
  from new have "bt_get m k' = None" by (simp add: map_of_eq_None_iff)
  then show ?case using Cons.IH [OF ok] by (auto simp: bt_retain_def kv split: option.splits)
qed (simp add: bt_retain_def)

lemma keys_adjust [simp]: "bt_keys (bt_adjust k f m) = bt_keys m"
  by (induction m) (auto simp: bt_adjust_def)

lemma bt_ok_adjust [simp]: "bt_ok (bt_adjust k f m) \<longleftrightarrow> bt_ok m"
  by (simp add: bt_ok_def)

lemma get_adjust [simp]:
  "bt_get (bt_adjust k f m) j = (if j = k then map_option f (bt_get m k) else bt_get m j)"
  by (induction m) (auto simp: bt_adjust_def)

lemma length_adjust [simp]: "length (bt_adjust k f m) = length m"
  by (simp add: bt_adjust_def)

lemma keys_map_values [simp]: "bt_keys (bt_map_values f m) = bt_keys m"
  by (induction m) (auto simp: bt_map_values_def)

lemma bt_ok_map_values [simp]: "bt_ok (bt_map_values f m) \<longleftrightarrow> bt_ok m"
  by (simp add: bt_ok_def)

lemma get_map_values [simp]: "bt_get (bt_map_values f m) k = map_option f (bt_get m k)"
  by (induction m) (auto simp: bt_map_values_def)

lemma length_map_values [simp]: "length (bt_map_values f m) = length m"
  by (simp add: bt_map_values_def)

lemma bt_ok_extend [simp]: "bt_ok m \<Longrightarrow> bt_ok (bt_extend m n)"
  unfolding bt_extend_def by (induction n arbitrary: m) auto

lemma get_extend:
  "bt_ok n \<Longrightarrow> bt_get (bt_extend m n) k =
     (case bt_get n k of Some v \<Rightarrow> Some v | None \<Rightarrow> bt_get m k)"
proof (induction n arbitrary: m)
  case (Cons kv n)
  obtain k' v' where kv: "kv = (k', v')" by (cases kv)
  from Cons.prems have ok: "bt_ok n" and "k' \<notin> set (bt_keys n)"
    by (auto simp: bt_ok_def kv)
  then have "bt_get n k' = None" by (simp add: map_of_eq_None_iff)
  then show ?case
    using Cons.IH [OF ok, of "bt_insert k' v' m"]
    by (auto simp: bt_extend_def kv split: option.splits)
qed (simp add: bt_extend_def)

lemma bt_contains_insert [simp]:
  "bt_contains (bt_insert k v m) j \<longleftrightarrow> j = k \<or> bt_contains m j"
  by (simp add: bt_contains_def)

lemma bt_contains_remove [simp]:
  "bt_contains (bt_remove k m) j \<longleftrightarrow> j \<noteq> k \<and> bt_contains m j"
  by (auto simp: bt_contains_def)

lemma bt_contains_adjust [simp]: "bt_contains (bt_adjust k f m) j \<longleftrightarrow> bt_contains m j"
  by (auto simp: bt_contains_def)

lemma bt_values_iff:
  assumes "bt_ok m"
  shows "v \<in> set (bt_values m) \<longleftrightarrow> (\<exists>k. bt_get m k = Some v)"
proof
  assume "v \<in> set (bt_values m)"
  then obtain k where "(k, v) \<in> set m" by auto
  then show "\<exists>k. bt_get m k = Some v" using bt_ok_mapD [OF assms] by blast
next
  assume "\<exists>k. bt_get m k = Some v"
  then obtain k where "(k, v) \<in> set m" by (blast dest: map_of_SomeD)
  then show "v \<in> set (bt_values m)" by (metis snd_conv in_set_zipE image_eqI list.set_map)
qed

section \<open>Counting values\<close>

text \<open>The weight of the values of a map that satisfy \<open>P\<close>, and their number.\<close>

definition weigh :: "('v \<Rightarrow> nat) \<Rightarrow> ('v \<Rightarrow> bool) \<Rightarrow> ('k, 'v) btree \<Rightarrow> nat" where
  "weigh w P m = sum_list (map w (filter P (bt_values m)))"

abbreviation count_of :: "('v \<Rightarrow> bool) \<Rightarrow> ('k, 'v) btree \<Rightarrow> nat" where
  "count_of \<equiv> weigh (\<lambda>_. 1)"

lemma weigh_Nil [simp]: "weigh w P [] = 0"
  by (simp add: weigh_def)

lemma count_of_length: "count_of P m = length (filter P (bt_values m))"
  by (induction m) (simp_all add: weigh_def)

lemma weigh_insert:
  "bt_get m k = None \<Longrightarrow> weigh w P (bt_insert k v m) = weigh w P m + (if P v then w v else 0)"
  unfolding weigh_def by (induction k v m rule: bt_insert.induct) (auto split: if_splits)

lemma weigh_rewrite:
  assumes "\<And>k v. (k, v) \<in> set m \<Longrightarrow> P (h k v) \<Longrightarrow> P v \<and> w (h k v) \<le> w v"
  shows "weigh w P (map (\<lambda>(k, v). (k, h k v)) m) \<le> weigh w P m"
  using assms
proof (induction m)
  case (Cons kv m)
  obtain k v where kv: "kv = (k, v)" by (cases kv)
  have "weigh w P (map (\<lambda>(k, v). (k, h k v)) m) \<le> weigh w P m"
    using Cons.prems by (intro Cons.IH) auto
  with Cons.prems [of k v] show ?case by (auto simp: kv weigh_def)
qed simp

section \<open>The contract of an ordered map\<close>

locale ordered_map =
  fixes get :: "'m \<Rightarrow> 'k \<Rightarrow> 'v option"
    and put :: "'k \<Rightarrow> 'v \<Rightarrow> 'm \<Rightarrow> 'm"
    and del :: "'k \<Rightarrow> 'm \<Rightarrow> 'm"
    and ok :: "'m \<Rightarrow> bool"
  assumes get_put: "ok m \<Longrightarrow> get (put k v m) = (get m)(k \<mapsto> v)"
    and get_del: "ok m \<Longrightarrow> get (del k m) = (get m)(k := None)"
    and ok_put: "ok m \<Longrightarrow> ok (put k v m)"
    and ok_del: "ok m \<Longrightarrow> ok (del k m)"
begin

text \<open>Inserting a batch of bindings whose keys are fresh and distinct loses nothing: the map after
  the batch is the map before it plus the batch.\<close>

lemma ok_put_all: "ok m \<Longrightarrow> ok (fold (\<lambda>(k, v). put k v) kvs m)"
  by (induction kvs arbitrary: m) (auto intro: ok_put)

lemma get_put_all:
  assumes "ok m" and "distinct (map fst kvs)"
  shows "get (fold (\<lambda>(k, v). put k v) kvs m) = get m ++ map_of kvs"
  using assms
proof (induction kvs arbitrary: m)
  case (Cons kv kvs)
  obtain k v where kv: "kv = (k, v)" by (cases kv)
  with Cons.prems have "map_of kvs k = None" by (simp add: map_of_eq_None_iff)
  then have "(get m)(k \<mapsto> v) ++ map_of kvs = get m ++ map_of (kv # kvs)"
    by (auto simp: kv map_add_def fun_eq_iff split: option.splits)
  moreover have "get (fold (\<lambda>(k, v). put k v) (kv # kvs) m) = get (put k v m) ++ map_of kvs"
    using Cons.IH [OF ok_put [OF Cons.prems(1)]] Cons.prems(2) by (simp add: kv)
  ultimately show ?case by (simp only: get_put [OF Cons.prems(1)])
qed simp

lemma ok_del_all: "ok m \<Longrightarrow> ok (fold del ks m)"
  by (induction ks arbitrary: m) (auto intro: ok_del)

lemma get_del_all:
  assumes "ok m"
  shows "get (fold del ks m) k = (if k \<in> set ks then None else get m k)"
  using assms by (induction ks arbitrary: m) (auto simp: get_del ok_del)

end

interpretation bt: ordered_map bt_get bt_insert bt_remove bt_ok
  by unfold_locales auto

end
