(* ===== verification/LedgerTypes.thy ===== *)
theory LedgerTypes
  imports BTree Scopes
begin

text \<open>
  The data of the fact ledger: \<^verbatim>\<open>src/context_kernel/ledger/types.rs\<close> and the ports of
  \<^verbatim>\<open>src/context_kernel/ledger/port.rs\<close>.  \<open>FactId\<close> and \<open>Authority\<close> carry the order their Rust
  declarations derive, so the ledger's maps enumerate facts the way the program does.
\<close>

section \<open>Identities and authority\<close>

datatype fact_id = FactId (fi_subject: string) (fi_predicate: string) (fi_scope: u64)

abbreviation fact_key :: "fact_id \<Rightarrow> string \<times> string \<times> u64" where
  "fact_key f \<equiv> (fi_subject f, fi_predicate f, fi_scope f)"

instantiation fact_id :: linorder
begin

definition less_eq_fact_id :: "fact_id \<Rightarrow> fact_id \<Rightarrow> bool" where
  "less_eq_fact_id a b \<longleftrightarrow> fact_key a \<le> fact_key b"

definition less_fact_id :: "fact_id \<Rightarrow> fact_id \<Rightarrow> bool" where
  "less_fact_id a b \<longleftrightarrow> fact_key a < fact_key b"

instance
proof
  fix x y z :: fact_id
  show "x < y \<longleftrightarrow> x \<le> y \<and> \<not> y \<le> x"
    by (simp only: less_fact_id_def less_eq_fact_id_def less_le_not_le)
  show "x \<le> x"
    by (simp only: less_eq_fact_id_def order_refl)
  show "x \<le> y \<Longrightarrow> y \<le> z \<Longrightarrow> x \<le> z"
    unfolding less_eq_fact_id_def by (rule order_trans)
  show "x \<le> y \<Longrightarrow> y \<le> x \<Longrightarrow> x = y"
    unfolding less_eq_fact_id_def by (drule (1) order_antisym) (simp add: fact_id.expand)
  show "x \<le> y \<or> y \<le> x"
    by (simp only: less_eq_fact_id_def linear)
qed

end

datatype authority = EnvironmentAuthority | AgentAuthority | UserAuthority | OperatorAuthority

fun authority_rank :: "authority \<Rightarrow> nat" where
  "authority_rank EnvironmentAuthority = 0"
| "authority_rank AgentAuthority = 1"
| "authority_rank UserAuthority = 2"
| "authority_rank OperatorAuthority = 3"

lemma authority_rank_inject [simp]: "authority_rank a = authority_rank b \<longleftrightarrow> a = b"
  by (cases a; cases b) simp_all

instantiation authority :: linorder
begin

definition less_eq_authority :: "authority \<Rightarrow> authority \<Rightarrow> bool" where
  "less_eq_authority a b \<longleftrightarrow> authority_rank a \<le> authority_rank b"

definition less_authority :: "authority \<Rightarrow> authority \<Rightarrow> bool" where
  "less_authority a b \<longleftrightarrow> authority_rank a < authority_rank b"

instance
  by standard (auto simp: less_eq_authority_def less_authority_def)

end

lemmas authority_order = less_eq_authority_def less_authority_def

datatype origin = IngressOrigin | GeneratedOrigin

record source =
  so_leaf :: string
  so_authority :: authority
  so_origin :: origin
  so_scope :: u64

section \<open>Entries\<close>

datatype fact_class = Obligation | Convenience
datatype fact_kind = Normative | Empirical
datatype freshness = CurrentFresh | Stale | UnknownFresh
datatype evidence_status = Verified | Unverified
datatype grammar = ObligationGrammar | AmbiguousGrammar | EvidenceGrammar

type_synonym utility = nat

definition UTILITY_ONE :: utility where
  "UTILITY_ONE = 10000"

definition utility_valid :: "utility \<Rightarrow> bool" where
  "utility_valid u \<longleftrightarrow> u \<le> UTILITY_ONE"

record usage =
  us_accesses :: nat
  us_reuses :: nat
  us_age_windows :: nat

record ledger_params =
  pa_version :: u64
  pa_threshold :: utility
  pa_capacity :: nat
  pa_unconfirmed_capacity :: nat
  pa_protection_bytes :: u64
  pa_decay_interval :: u64
  pa_access_weight :: nat
  pa_reuse_weight :: nat
  pa_decay_weight :: nat
  pa_consolidation_attempts :: nat

definition default_params :: ledger_params where
  "default_params =
     \<lparr>pa_version = 1, pa_threshold = 5000, pa_capacity = 256, pa_unconfirmed_capacity = 8,
      pa_protection_bytes = 65536, pa_decay_interval = 32, pa_access_weight = 1000,
      pa_reuse_weight = 2000, pa_decay_weight = 500, pa_consolidation_attempts = 3\<rparr>"

record carrying_fold =
  cf_text :: string
  cf_depth :: nat

record entry =
  e_id :: fact_id
  e_class :: fact_class
  e_kind :: fact_kind
  e_source :: source
  e_freshness :: freshness
  e_evidence :: evidence_status
  e_unconfirmed :: bool
  e_utility :: utility
  e_usage :: usage
  e_read_set :: "(string, u64) btree"
  e_premises :: "fact_id set"
  e_bindings :: "string set"
  e_fold :: carrying_fold
  e_rendered :: bool
  e_retired :: bool
  e_last_decay :: u64
  e_superseded_by :: "fact_id option"

abbreviation e_text :: "entry \<Rightarrow> string" where
  "e_text e \<equiv> cf_text (e_fold e)"

definition set_text :: "string \<Rightarrow> entry \<Rightarrow> entry" where
  "set_text t e = e\<lparr>e_fold := (e_fold e)\<lparr>cf_text := t\<rparr>\<rparr>"

record gate_support =
  gs_fact :: fact_id
  gs_claim :: string
  gs_ingress_leaves :: "string set"

datatype discharge_evidence =
    InsufficientEvidence
  | Resolved gate_support
  | SupersededBy fact_id
  | ScopeClosedEvidence

record observation =
  ob_source :: source
  ob_read_set :: "(string, u64) btree"
  ob_supports :: "fact_id set"

record tool_write =
  tw_call_id :: string
  tw_tool :: string
  tw_scope :: u64
  tw_sanitized :: "byte list"

datatype conflict =
    NormativeConflict fact_id fact_id
  | EmpiricalConflict fact_id fact_id
  | PremiseInvalidated fact_id fact_id

section \<open>Commands and errors\<close>

datatype ledger_command =
    AdmitObligation entry grammar
  | AdmitConvenience entry
  | Demote fact_id u64
  | Discharge fact_id discharge_evidence
  | Consolidate "fact_id set" entry gate_support u64
  | Amend fact_id entry source
  | Retract fact_id source
  | Promote fact_id source "source option" gate_support
  | FactInvalidate tool_write "(string, u64) btree"
  | Revalidate observation
  | StaleDemote "string set"
  | Decay fact_id usage
  | RedactLeaf string

fun ledger_operation :: "ledger_command \<Rightarrow> string" where
  "ledger_operation (AdmitObligation e g) = ''admit-obligation''"
| "ledger_operation (AdmitConvenience e) = ''admit-convenience''"
| "ledger_operation (Demote f r) = ''demote''"
| "ledger_operation (Discharge f ev) = ''discharge''"
| "ledger_operation (Consolidate fs c s r) = ''consolidate-obligations''"
| "ledger_operation (Amend f r p) = ''amend''"
| "ledger_operation (Retract f p) = ''retract''"
| "ledger_operation (Promote f s a g) = ''promote''"
| "ledger_operation (FactInvalidate r w) = ''fact-invalidate''"
| "ledger_operation (Revalidate ob) = ''revalidate''"
| "ledger_operation (StaleDemote ds) = ''stale-demote''"
| "ledger_operation (Decay f u) = ''decay''"
| "ledger_operation (RedactLeaf l) = ''redact''"

datatype ledger_error =
    LMissing | LIdentity | LAuthority | LQuarantined | LOverflow | LParameters | LPrecondition
  | LUnsupported | LInsufficient | LObligationProtected

section \<open>Ports\<close>

text \<open>The trait \<open>LedgerPorts\<close> is implemented by the ingress and validation owners: a record of its
  methods, passed to the definitions that call them.\<close>

record ledger_ports =
  port_authenticated :: "source \<Rightarrow> bool"
  port_gate_supported :: "gate_support \<Rightarrow> bool"
  port_tool_write_authenticated :: "tool_write \<Rightarrow> (string, u64) btree \<Rightarrow> bool"
  port_discharge_evidence :: "entry \<Rightarrow> string \<Rightarrow> discharge_evidence"

definition default_discharge_evidence :: "entry \<Rightarrow> string \<Rightarrow> discharge_evidence" where
  "default_discharge_evidence obligation candidate = InsufficientEvidence"

fun ledger_authenticated :: "ledger_ports \<Rightarrow> ledger_command \<Rightarrow> bool" where
  "ledger_authenticated ports (AdmitObligation e g) = port_authenticated ports (e_source e)"
| "ledger_authenticated ports (AdmitConvenience e) = port_authenticated ports (e_source e)"
| "ledger_authenticated ports (Amend f r p) =
     (port_authenticated ports p \<and> port_authenticated ports (e_source r))"
| "ledger_authenticated ports (Retract f p) = port_authenticated ports p"
| "ledger_authenticated ports (Promote f s a g) =
     (port_authenticated ports s \<and>
      (case a of None \<Rightarrow> True | Some p \<Rightarrow> port_authenticated ports p) \<and> port_gate_supported ports g)"
| "ledger_authenticated ports (Consolidate fs c s r) =
     (port_authenticated ports (e_source c) \<and> port_gate_supported ports s)"
| "ledger_authenticated ports (Discharge f (Resolved s)) =
     (gs_claim s \<noteq> [] \<and> port_gate_supported ports s)"
| "ledger_authenticated ports (Revalidate ob) = port_authenticated ports (ob_source ob)"
| "ledger_authenticated ports (FactInvalidate r w) = port_tool_write_authenticated ports r w"
| "ledger_authenticated ports c = True"

definition ledger_authenticate :: "ledger_ports \<Rightarrow> ledger_command \<Rightarrow> ledger_error + unit" where
  "ledger_authenticate ports c = ensure (ledger_authenticated ports c) LAuthority"

end
