(* ===== verification/Ledger.thy ===== *)
theory Ledger
  imports LedgerTypes
begin

text \<open>
  The fact ledger: \<^verbatim>\<open>src/context_kernel/ledger/\<close> (\<open>state.rs\<close>, \<open>admission.rs\<close>, \<open>freshness.rs\<close>,
  \<open>lifecycle.rs\<close>).  \<open>ledger_apply\<close> is the only mutation; it is atomic because the code works on a
  clone, so a refused command is an error value with no new state.
\<close>

section \<open>State\<close>

record ledger =
  l_entries :: "(fact_id, entry) btree"
  l_conflicts :: "conflict set"
  l_versions :: "(string, u64) btree"
  l_tool_results :: "string set"
  l_params :: ledger_params
  l_attempts :: nat

definition ledger_new :: "ledger_params \<Rightarrow> ledger_error + ledger" where
  "ledger_new p =
     (if \<not> utility_valid (pa_threshold p) \<or> pa_decay_interval p = 0 \<or> pa_version p \<noteq> 1
      then Inl LParameters
      else Inr \<lparr>l_entries = [], l_conflicts = {}, l_versions = [], l_tool_results = {},
        l_params = p, l_attempts = 0\<rparr>)"

definition ledger_default :: ledger where
  "ledger_default =
     \<lparr>l_entries = [], l_conflicts = {}, l_versions = [], l_tool_results = {},
      l_params = default_params, l_attempts = 0\<rparr>"

definition ledger_entry :: "ledger \<Rightarrow> fact_id \<Rightarrow> entry option" where
  "ledger_entry l f = bt_get (l_entries l) f"

definition entry_active :: "ledger \<Rightarrow> entry \<Rightarrow> bool" where
  "entry_active l e \<longleftrightarrow>
     \<not> e_retired e \<and> e_freshness e \<noteq> UnknownFresh \<and>
     (e_class e = Obligation \<or> pa_threshold (l_params l) < e_utility e)"

definition ledger_active :: "ledger \<Rightarrow> fact_id \<Rightarrow> bool" where
  "ledger_active l f \<longleftrightarrow> (case ledger_entry l f of None \<Rightarrow> False | Some e \<Rightarrow> entry_active l e)"

text \<open>The inputs are 32- and 16-bit values, so the products and their sum fit 64 bits.\<close>

definition utility_of :: "ledger_params \<Rightarrow> usage \<Rightarrow> utility" where
  "utility_of p u =
     (let score = us_accesses u * pa_access_weight p + us_reuses u * pa_reuse_weight p;
          decay = us_age_windows u * pa_decay_weight p
      in min (saturating_sub score decay) UTILITY_ONE)"

definition ledger_live :: "ledger \<Rightarrow> fact_id \<Rightarrow> ledger_error + entry" where
  "ledger_live l f =
     res_bind (ok_or (ledger_entry l f) LMissing) (\<lambda>e.
       if e_retired e then Inl LIdentity else Inr e)"

abbreviation live_entries :: "ledger \<Rightarrow> entry list" where
  "live_entries l \<equiv> filter (\<lambda>e. \<not> e_retired e) (bt_values (l_entries l))"

abbreviation live_obligations :: "ledger \<Rightarrow> entry list" where
  "live_obligations l \<equiv>
     filter (\<lambda>e. \<not> e_retired e \<and> e_class e = Obligation) (bt_values (l_entries l))"

abbreviation adjust_entry :: "fact_id \<Rightarrow> (entry \<Rightarrow> entry) \<Rightarrow> ledger \<Rightarrow> ledger" where
  "adjust_entry f g l \<equiv> l\<lparr>l_entries := bt_adjust f g (l_entries l)\<rparr>"

abbreviation put_entry :: "entry \<Rightarrow> ledger \<Rightarrow> ledger" where
  "put_entry e l \<equiv> l\<lparr>l_entries := bt_insert (e_id e) e (l_entries l)\<rparr>"

section \<open>Admission\<close>

definition scope_is_open :: "scope_registry \<Rightarrow> u64 \<Rightarrow> bool" where
  "scope_is_open scopes sc \<longleftrightarrow> (case scope_state_of scopes sc of Inl e \<Rightarrow> False | Inr st \<Rightarrow> is_open st)"

definition scope_is_closed :: "scope_registry \<Rightarrow> u64 \<Rightarrow> bool" where
  "scope_is_closed scopes sc \<longleftrightarrow> (case scope_state_of scopes sc of Inl e \<Rightarrow> False | Inr st \<Rightarrow> \<not> is_open st)"

definition check_entry :: "ledger \<Rightarrow> entry \<Rightarrow> scope_registry \<Rightarrow> ledger_error + unit" where
  "check_entry l e scopes =
     (if bt_contains (l_entries l) (e_id e) \<or> e_retired e \<or> e_superseded_by e \<noteq> None then Inl LIdentity
      else if \<not> utility_valid (e_utility e) \<or> e_utility e \<noteq> utility_of (l_params l) (e_usage e)
      then Inl LParameters
      else if so_scope (e_source e) \<noteq> fi_scope (e_id e) \<or> so_leaf (e_source e) = [] then Inl LAuthority
      else if \<not> scope_is_open scopes (fi_scope (e_id e)) then Inl LPrecondition
      else if e_freshness e = CurrentFresh \<and> e_evidence e \<noteq> Verified then Inl LUnsupported
      else if pa_capacity (l_params l) \<le> length (live_entries l) then Inl LOverflow
      else Inr ())"

definition obligation_bytes :: "ledger \<Rightarrow> u64" where
  "obligation_bytes l = sum64 (map (\<lambda>e. length (e_text e)) (live_obligations l))"

definition check_obligation_bound :: "ledger \<Rightarrow> entry \<Rightarrow> ledger_error + unit" where
  "check_obligation_bound l e =
     (if pa_protection_bytes (l_params l) < saturating_add (obligation_bytes l) (length (e_text e))
      then Inl LOverflow
      else if e_unconfirmed e \<and>
        pa_unconfirmed_capacity (l_params l) \<le> length (filter e_unconfirmed (live_obligations l))
      then Inl LOverflow
      else Inr ())"

definition conflict_between :: "entry \<Rightarrow> entry \<Rightarrow> conflict" where
  "conflict_between e incoming =
     (let (left, right) = (if e_id e < e_id incoming then (e_id e, e_id incoming) else (e_id incoming, e_id e))
      in case (e_kind e, e_kind incoming) of
           (Normative, Normative) \<Rightarrow> NormativeConflict left right
         | (Empirical, Empirical) \<Rightarrow> EmpiricalConflict left right
         | (Normative, Empirical) \<Rightarrow> PremiseInvalidated (e_id e) (e_id incoming)
         | (Empirical, Normative) \<Rightarrow> PremiseInvalidated (e_id incoming) (e_id e))"

definition conflicting :: "entry \<Rightarrow> entry \<Rightarrow> bool" where
  "conflicting e incoming \<longleftrightarrow>
     fi_subject (e_id e) = fi_subject (e_id incoming) \<and> fi_scope (e_id e) = fi_scope (e_id incoming) \<and>
     e_text e \<noteq> e_text incoming"

definition record_conflicts :: "ledger \<Rightarrow> entry \<Rightarrow> ledger" where
  "record_conflicts l incoming =
     l\<lparr>l_conflicts :=
       fold (\<lambda>e cs. if conflicting e incoming then insert (conflict_between e incoming) cs else cs)
         (live_entries l) (l_conflicts l)\<rparr>"

fun mentions :: "fact_id \<Rightarrow> conflict \<Rightarrow> bool" where
  "mentions f (NormativeConflict a b) = (a = f \<or> b = f)"
| "mentions f (EmpiricalConflict a b) = (a = f \<or> b = f)"
| "mentions f (PremiseInvalidated a b) = (a = f \<or> b = f)"

definition remove_conflicts :: "ledger \<Rightarrow> fact_id \<Rightarrow> ledger" where
  "remove_conflicts l f = l\<lparr>l_conflicts := {c \<in> l_conflicts l. \<not> mentions f c}\<rparr>"

definition admit_obligation ::
  "ledger \<Rightarrow> entry \<Rightarrow> grammar \<Rightarrow> scope_registry \<Rightarrow> ledger_error + ledger" where
  "admit_obligation l e g scopes =
     (if so_authority (e_source e) = EnvironmentAuthority \<or> g = EvidenceGrammar then Inl LQuarantined
      else if so_origin (e_source e) \<noteq> IngressOrigin \<or> e_class e \<noteq> Obligation \<or> e_kind e \<noteq> Normative
      then Inl LAuthority
      else if g = AmbiguousGrammar \<and> so_authority (e_source e) < UserAuthority then Inl LAuthority
      else if e_unconfirmed e \<noteq> (g = AmbiguousGrammar) then Inl LPrecondition
      else res_bind (check_entry l e scopes) (\<lambda>_.
           res_bind (check_obligation_bound l e) (\<lambda>_.
           Inr (put_entry e (record_conflicts l e)))))"

definition admit_convenience :: "ledger \<Rightarrow> entry \<Rightarrow> scope_registry \<Rightarrow> ledger_error + ledger" where
  "admit_convenience l e scopes =
     res_bind (check_entry l e scopes) (\<lambda>_.
       if e_class e \<noteq> Convenience \<or> e_utility e \<le> pa_threshold (l_params l) \<or> e_unconfirmed e
       then Inl LPrecondition
       else if e_kind e = Normative \<and>
         (so_authority (e_source e) < AgentAuthority \<or> so_origin (e_source e) \<noteq> IngressOrigin)
       then Inl LAuthority
       else Inr (put_entry e (record_conflicts l e)))"

section \<open>Freshness\<close>

definition reads_any :: "entry \<Rightarrow> (string \<Rightarrow> bool) \<Rightarrow> bool" where
  "reads_any e P \<longleftrightarrow> list_ex P (bt_keys (e_read_set e))"

definition goes_stale :: "(string, u64) btree \<Rightarrow> entry \<Rightarrow> bool" where
  "goes_stale writes e \<longleftrightarrow>
     \<not> e_retired e \<and> reads_any e (bt_contains writes) \<and> e_freshness e = CurrentFresh"

definition invalidated_facts :: "(string, u64) btree \<Rightarrow> entry list \<Rightarrow> fact_id set" where
  "invalidated_facts writes es =
     set (map e_id (filter (\<lambda>e. goes_stale writes e \<and> e_kind e = Empirical) es))"

definition invalidate ::
  "ledger \<Rightarrow> tool_write \<Rightarrow> (string, u64) btree \<Rightarrow> ledger_error + ledger" where
  "invalidate l result writes =
     (if tw_call_id result = [] \<or> tw_tool result = [] \<or> tw_call_id result \<in> l_tool_results l
      then Inl LIdentity
      else if list_ex (\<lambda>(d, v). case bt_get (l_versions l) d of None \<Rightarrow> False | Some old \<Rightarrow> v \<le> old) writes
      then Inl LPrecondition
      else
        let invalidated = invalidated_facts writes (bt_values (l_entries l));
            entries = bt_map_values
              (\<lambda>e. if goes_stale writes e then e\<lparr>e_freshness := Stale\<rparr> else e) (l_entries l);
            flagged = \<Union> ((\<lambda>n. PremiseInvalidated (e_id n) ` (e_premises n \<inter> invalidated)) `
              set (filter (\<lambda>e. e_kind e = Normative \<and> \<not> e_retired e) (bt_values entries)))
        in Inr (l\<lparr>l_versions := bt_extend (l_versions l) writes,
                  l_tool_results := insert (tw_call_id result) (l_tool_results l),
                  l_entries := entries,
                  l_conflicts := l_conflicts l \<union> flagged\<rparr>))"

definition observation_selects :: "observation \<Rightarrow> entry \<Rightarrow> bool" where
  "observation_selects ob e \<longleftrightarrow>
     reads_any e (bt_contains (ob_read_set ob)) \<and> e_id e \<in> ob_supports ob \<and>
     so_scope (ob_source ob) = fi_scope (e_id e)"

definition observation_matches :: "(string, u64) btree \<Rightarrow> observation \<Rightarrow> entry \<Rightarrow> bool" where
  "observation_matches versions ob e \<longleftrightarrow>
     list_all (\<lambda>d. bt_get (ob_read_set ob) d \<noteq> None \<and>
       bt_get (ob_read_set ob) d =
         (case bt_get versions d of Some v \<Rightarrow> Some v | None \<Rightarrow> bt_get (e_read_set e) d))
       (bt_keys (e_read_set e))"

text \<open>The index \<open>observation.read_set[domain]\<close> panics on a missing key; \<open>observation_matches\<close> has
  just checked that every key is present.\<close>

definition revalidate_entry :: "(string, u64) btree \<Rightarrow> observation \<Rightarrow> entry \<Rightarrow> entry" where
  "revalidate_entry versions ob e =
     (if e_retired e \<or> \<not> observation_selects ob e \<or> e_freshness e \<noteq> Stale \<or>
         \<not> observation_matches versions ob e
      then e
      else let e' = e\<lparr>e_read_set := map (\<lambda>(d, v). (d, the (bt_get (ob_read_set ob) d))) (e_read_set e),
                      e_freshness := CurrentFresh, e_evidence := Verified\<rparr>
           in if e_kind e = Empirical then e'\<lparr>e_source := ob_source ob\<rparr> else e')"

definition revalidate :: "ledger \<Rightarrow> observation \<Rightarrow> ledger_error + ledger" where
  "revalidate l ob =
     (if so_origin (ob_source ob) \<noteq> IngressOrigin \<or> so_leaf (ob_source ob) = [] then Inl LUnsupported
      else Inr (l\<lparr>l_entries := bt_map_values (revalidate_entry (l_versions l) ob) (l_entries l)\<rparr>))"

definition stale_demote :: "ledger \<Rightarrow> string set \<Rightarrow> ledger" where
  "stale_demote l domains =
     l\<lparr>l_entries := bt_map_values (\<lambda>e.
       if e_freshness e = Stale \<and> reads_any e (\<lambda>d. d \<in> domains) then e\<lparr>e_evidence := Unverified\<rparr> else e)
       (l_entries l)\<rparr>"

text \<open>\<open>redact\<close>: the facts bound to a leaf, then passes over the entries in order that add every fact
  with a dependent premise, until a pass adds nothing.\<close>

definition redact_seeds :: "string \<Rightarrow> entry list \<Rightarrow> fact_id set" where
  "redact_seeds leaf es =
     set (map e_id (filter (\<lambda>e. so_leaf (e_source e) = leaf \<or> leaf \<in> e_bindings e) es))"

definition redact_visit :: "entry \<Rightarrow> fact_id set \<Rightarrow> fact_id set" where
  "redact_visit e dep = (if e_premises e \<inter> dep \<noteq> {} then insert (e_id e) dep else dep)"

definition redact_pass :: "entry list \<Rightarrow> fact_id set \<Rightarrow> fact_id set" where
  "redact_pass es dep = fold redact_visit es dep"

lemma redact_pass_bounds: "dep \<subseteq> redact_pass es dep" "redact_pass es dep \<subseteq> dep \<union> e_id ` set es"
proof -
  have "dep \<subseteq> fold redact_visit es dep \<and> fold redact_visit es dep \<subseteq> dep \<union> e_id ` set es"
  proof (induction es arbitrary: dep)
    case (Cons e es)
    have "dep \<subseteq> redact_visit e dep" "redact_visit e dep \<subseteq> insert (e_id e) dep"
      by (auto simp: redact_visit_def)
    with Cons.IH [of "redact_visit e dep"] show ?case by auto
  qed simp
  then show "dep \<subseteq> redact_pass es dep" "redact_pass es dep \<subseteq> dep \<union> e_id ` set es"
    by (simp_all add: redact_pass_def)
qed

function redact_close :: "entry list \<Rightarrow> fact_id set \<Rightarrow> fact_id set" where
  "redact_close es dep =
     (let dep' = redact_pass es dep
      in if card dep' = card dep then dep' else redact_close es dep')"
  by pat_completeness auto

termination
proof (relation "measure (\<lambda>(es, dep). card (e_id ` set es - dep))")
  fix es :: "entry list" and dep x :: "fact_id set"
  assume x: "x = redact_pass es dep" and grows: "card x \<noteq> card dep"
  have "dep \<subseteq> x" "x \<subseteq> dep \<union> e_id ` set es" "x \<noteq> dep"
    using redact_pass_bounds [where es = es and dep = dep] grows by (auto simp: x)
  then have "e_id ` set es - x \<subset> e_id ` set es - dep" by blast
  then have "card (e_id ` set es - x) < card (e_id ` set es - dep)"
    by (intro psubset_card_mono) auto
  then show "((es, x), (es, dep)) \<in> measure (\<lambda>(es, dep). card (e_id ` set es - dep))" by simp
qed simp

declare redact_close.simps [simp del]

definition dependent_facts :: "string \<Rightarrow> entry list \<Rightarrow> fact_id set" where
  "dependent_facts leaf es = redact_close es (redact_seeds leaf es)"

definition TOMBSTONE :: string where
  "TOMBSTONE = ''[erased: unverified tombstone]''"

definition ledger_redact :: "ledger \<Rightarrow> string \<Rightarrow> ledger" where
  "ledger_redact l leaf =
     (let dep = dependent_facts leaf (bt_values (l_entries l))
      in l\<lparr>l_entries := bt_map_values (\<lambda>e.
           if e_id e \<in> dep
           then set_text TOMBSTONE (e\<lparr>e_evidence := Unverified, e_freshness := UnknownFresh\<rparr>) else e)
         (l_entries l)\<rparr>)"

section \<open>Lifecycle\<close>

definition supported :: "gate_support \<Rightarrow> fact_id \<Rightarrow> string \<Rightarrow> bool" where
  "supported s f claim \<longleftrightarrow>
     gs_fact s = f \<and> claim \<noteq> [] \<and> gs_claim s = claim \<and> gs_ingress_leaves s \<noteq> {} \<and>
     [] \<notin> gs_ingress_leaves s"

definition authorized :: "source \<Rightarrow> entry \<Rightarrow> bool" where
  "authorized p e \<longleftrightarrow>
     so_origin p = IngressOrigin \<and> so_leaf p \<noteq> [] \<and> so_scope p = fi_scope (e_id e) \<and>
     so_authority (e_source e) \<le> so_authority p"

definition demote :: "ledger \<Rightarrow> fact_id \<Rightarrow> u64 \<Rightarrow> ledger_error + ledger" where
  "demote l f reclaim =
     res_bind (ledger_live l f) (\<lambda>e.
       if e_class e = Obligation then Inl LObligationProtected
       else if \<not> e_rendered e \<or> reclaim < 8 \<or> length (e_text e) < reclaim then Inl LPrecondition
       else Inr (adjust_entry f (\<lambda>e. e\<lparr>e_rendered := False\<rparr>) l))"

definition decay :: "ledger \<Rightarrow> fact_id \<Rightarrow> usage \<Rightarrow> u64 \<Rightarrow> ledger_error + ledger" where
  "decay l f u sequence =
     res_bind (ledger_live l f) (\<lambda>e.
       if e_class e = Obligation then Inl LObligationProtected
       else if saturating_sub sequence (e_last_decay e) < pa_decay_interval (l_params l) \<or>
         us_age_windows u \<le> us_age_windows (e_usage e) then Inl LPrecondition
       else if us_accesses u \<noteq> us_accesses (e_usage e) \<or> us_reuses u \<noteq> us_reuses (e_usage e)
       then Inl LPrecondition
       else Inr (adjust_entry f
         (\<lambda>e. e\<lparr>e_utility := utility_of (l_params l) u, e_usage := u, e_last_decay := sequence\<rparr>) l))"

definition supersedes :: "ledger \<Rightarrow> entry \<Rightarrow> fact_id \<Rightarrow> fact_id \<Rightarrow> bool" where
  "supersedes l e f successor \<longleftrightarrow>
     successor \<noteq> f \<and>
     (case ledger_live l successor of Inl err \<Rightarrow> False
      | Inr n \<Rightarrow> e_class n = Obligation \<and> fi_subject (e_id n) = fi_subject f \<and>
          fi_scope (e_id n) = fi_scope f \<and> so_authority (e_source e) \<le> so_authority (e_source n) \<and>
          e_bindings e \<subseteq> e_bindings n)"

fun discharge_allowed ::
  "ledger \<Rightarrow> entry \<Rightarrow> fact_id \<Rightarrow> scope_registry \<Rightarrow> discharge_evidence \<Rightarrow> bool" where
  "discharge_allowed l e f scopes InsufficientEvidence = False"
| "discharge_allowed l e f scopes (Resolved s) = supported s f (gs_claim s)"
| "discharge_allowed l e f scopes (SupersededBy n) = supersedes l e f n"
| "discharge_allowed l e f scopes ScopeClosedEvidence = scope_is_closed scopes (fi_scope f)"

definition discharge ::
  "ledger \<Rightarrow> fact_id \<Rightarrow> discharge_evidence \<Rightarrow> scope_registry \<Rightarrow> ledger_error + ledger" where
  "discharge l f ev scopes =
     res_bind (ledger_live l f) (\<lambda>e.
       if e_class e \<noteq> Obligation then Inl LPrecondition
       else if ev = InsufficientEvidence then Inl LInsufficient
       else if \<not> discharge_allowed l e f scopes ev then Inl LUnsupported
       else res_bind
         (case ev of
            SupersededBy n \<Rightarrow> res_bind (ledger_live l n) (\<lambda>n'.
              Inr (adjust_entry f (\<lambda>e. set_text (e_text n') (e\<lparr>e_superseded_by := Some n\<rparr>)) l))
          | _ \<Rightarrow> Inr l)
         (\<lambda>l'. Inr (remove_conflicts (adjust_entry f (\<lambda>e. e\<lparr>e_retired := True\<rparr>) l') f)))"

definition amend ::
  "ledger \<Rightarrow> fact_id \<Rightarrow> entry \<Rightarrow> source \<Rightarrow> scope_registry \<Rightarrow> ledger_error + ledger" where
  "amend l f r p scopes =
     res_bind (ledger_live l f) (\<lambda>old.
       if e_class old = Obligation then Inl LObligationProtected
       else if \<not> authorized p old \<or> so_authority p < so_authority (e_source r) then Inl LAuthority
       else if e_class r \<noteq> e_class old \<or> e_kind r \<noteq> e_kind old \<or> fi_scope (e_id r) \<noteq> fi_scope f \<or>
         cf_depth (e_fold r) \<noteq> cf_depth (e_fold old) then Inl LPrecondition
       else if e_kind r = Normative \<and>
         (so_origin (e_source r) \<noteq> IngressOrigin \<or> so_authority (e_source r) < AgentAuthority)
       then Inl LAuthority
       else res_bind (check_entry l r scopes) (\<lambda>_.
         let l1 = adjust_entry f
               (\<lambda>e. set_text (e_text r) (e\<lparr>e_superseded_by := Some (e_id r), e_retired := True\<rparr>)) l
         in Inr (record_conflicts (remove_conflicts (put_entry r l1) f) r)))"

definition retract :: "ledger \<Rightarrow> fact_id \<Rightarrow> source \<Rightarrow> ledger_error + ledger" where
  "retract l f p =
     res_bind (ledger_live l f) (\<lambda>e.
       if e_class e = Obligation then Inl LObligationProtected
       else if \<not> authorized p e then Inl LAuthority
       else Inr (remove_conflicts
         (adjust_entry f (\<lambda>e. set_text [] (e\<lparr>e_rendered := False, e_retired := True\<rparr>)) l) f))"

definition promote ::
  "ledger \<Rightarrow> fact_id \<Rightarrow> source \<Rightarrow> source option \<Rightarrow> gate_support \<Rightarrow> ledger_error + ledger" where
  "promote l f src adoption s =
     res_bind (ledger_live l f) (\<lambda>e.
       if e_class e = Obligation then Inl LObligationProtected
       else
         let required = max (so_authority (e_source e)) AgentAuthority;
             same_source = (so_origin src = IngressOrigin \<and> required \<le> so_authority src \<and>
               so_scope src = fi_scope f \<and> so_leaf src = so_leaf (e_source e));
             adopted = (case adoption of None \<Rightarrow> False | Some p \<Rightarrow>
               so_origin p = IngressOrigin \<and> required \<le> so_authority p \<and> so_scope p = fi_scope f \<and>
               so_leaf p \<noteq> [])
         in if \<not> same_source \<and> \<not> adopted then Inl LAuthority
            else if \<not> supported s f (e_text e) then Inl LUnsupported
            else Inr (adjust_entry f
              (\<lambda>e. e\<lparr>e_kind := Normative, e_source := (case adoption of Some p \<Rightarrow> p | None \<Rightarrow> src)\<rparr>) l))"

text \<open>\<open>consolidate_scan\<close> is the loop over the constituents, in the order of the set; it returns the
  union of their bindings and the sum of their text lengths.\<close>

fun consolidate_scan ::
  "ledger \<Rightarrow> entry \<Rightarrow> fact_id list \<Rightarrow> string set \<Rightarrow> u64 \<Rightarrow> ledger_error + (string set \<times> u64)" where
  "consolidate_scan l c [] bindings bytes = Inr (bindings, bytes)"
| "consolidate_scan l c (f # fs) bindings bytes =
     res_bind (ledger_live l f) (\<lambda>e.
       if e_class e \<noteq> Obligation \<or> fi_scope (e_id e) \<noteq> fi_scope (e_id c) \<or>
         so_authority (e_source c) < so_authority (e_source e)
       then Inl LAuthority
       else consolidate_scan l c fs (bindings \<union> e_bindings e) (add64 bytes (length (e_text e))))"

definition retire_into :: "entry \<Rightarrow> ledger \<Rightarrow> fact_id \<Rightarrow> ledger" where
  "retire_into c l f =
     remove_conflicts (adjust_entry f
       (\<lambda>e. set_text (e_text c) (e\<lparr>e_retired := True, e_superseded_by := Some (e_id c)\<rparr>)) l) f"

definition consolidate ::
  "ledger \<Rightarrow> fact_id set \<Rightarrow> entry \<Rightarrow> gate_support \<Rightarrow> u64 \<Rightarrow> scope_registry \<Rightarrow> ledger_error + ledger" where
  "consolidate l facts c s reclaim scopes =
     (if pa_consolidation_attempts (l_params l) \<le> l_attempts l \<or> card facts < 2 then Inl LOverflow
      else res_bind (consolidate_scan l c (sorted_list_of_set facts) {} 0) (\<lambda>(bindings, bytes).
        if bindings \<noteq> e_bindings c \<or> reclaim < 8 \<or> saturating_sub bytes (length (e_text c)) < reclaim
        then Inl LPrecondition
        else if \<not> supported s (e_id c) (e_text c) then Inl LUnsupported
        else if obligation_bytes l < pa_protection_bytes (l_params l) \<and>
          length (live_entries l) < pa_capacity (l_params l)
        then Inl LPrecondition
        else admit_obligation
          (foldl (retire_into c) (l\<lparr>l_attempts := l_attempts l + 1\<rparr>) (sorted_list_of_set facts))
          c ObligationGrammar scopes))"

section \<open>Commands\<close>

fun ledger_transition ::
  "ledger \<Rightarrow> ledger_command \<Rightarrow> u64 \<Rightarrow> scope_registry \<Rightarrow> ledger_error + ledger" where
  "ledger_transition l (AdmitObligation e g) sequence scopes = admit_obligation l e g scopes"
| "ledger_transition l (AdmitConvenience e) sequence scopes = admit_convenience l e scopes"
| "ledger_transition l (FactInvalidate result writes) sequence scopes = invalidate l result writes"
| "ledger_transition l (Revalidate ob) sequence scopes = revalidate l ob"
| "ledger_transition l (StaleDemote domains) sequence scopes = Inr (stale_demote l domains)"
| "ledger_transition l (RedactLeaf leaf) sequence scopes = Inr (ledger_redact l leaf)"
| "ledger_transition l (Decay f u) sequence scopes = decay l f u sequence"
| "ledger_transition l (Demote f reclaim) sequence scopes = demote l f reclaim"
| "ledger_transition l (Discharge f ev) sequence scopes = discharge l f ev scopes"
| "ledger_transition l (Consolidate facts c s reclaim) sequence scopes =
     consolidate l facts c s reclaim scopes"
| "ledger_transition l (Amend f r p) sequence scopes = amend l f r p scopes"
| "ledger_transition l (Retract f p) sequence scopes = retract l f p"
| "ledger_transition l (Promote f src adoption s) sequence scopes = promote l f src adoption s"

text \<open>\<open>apply\<close> transitions a clone and replaces the ledger only on success.\<close>

definition ledger_apply ::
  "ledger \<Rightarrow> ledger_command \<Rightarrow> u64 \<Rightarrow> scope_registry \<Rightarrow> ledger_error + ledger" where
  "ledger_apply l c sequence scopes = ledger_transition l c sequence scopes"

record retirement_request =
  rq_fact :: fact_id
  rq_budget_justification :: string

definition request_retirement ::
  "ledger_ports \<Rightarrow> ledger \<Rightarrow> retirement_request \<Rightarrow> ledger_command option" where
  "request_retirement ports l rq =
     (case ledger_entry l (rq_fact rq) of
        None \<Rightarrow> None
      | Some e \<Rightarrow>
          if e_retired e \<or> rq_budget_justification rq = [] then None
          else let ev = port_discharge_evidence ports e (rq_budget_justification rq)
               in if ev = InsufficientEvidence then None else Some (Discharge (rq_fact rq) ev))"

end
