(* ===== verification/LedgerLaws.thy ===== *)
theory LedgerLaws
  imports Ledger
begin

text \<open>
  The laws of the fact ledger.  \<open>ledger_ok\<close> is its invariant: keys are the entries' identities, the
  live entries and the unconfirmed obligations stay within their capacities, every entry's utility
  is the one its logged usage gives, current freshness is always verified, obligations are
  normative facts of authenticated ingress, and every recorded conflict is between two live facts.
  \<open>ledger_later\<close> is its history: facts are never forgotten, never change class and never come back
  from retirement, and domain versions only grow.
\<close>

section \<open>The invariant\<close>

definition entry_ok :: "ledger_params \<Rightarrow> entry \<Rightarrow> bool" where
  "entry_ok p e \<longleftrightarrow>
     e_utility e = utility_of p (e_usage e) \<and>
     (e_freshness e = CurrentFresh \<longrightarrow> e_evidence e = Verified) \<and>
     (e_superseded_by e \<noteq> None \<longrightarrow> e_retired e) \<and>
     (e_class e = Obligation \<longrightarrow> e_kind e = Normative \<and> so_origin (e_source e) = IngressOrigin \<and>
        so_authority (e_source e) \<noteq> EnvironmentAuthority)"

definition is_live :: "entry \<Rightarrow> bool" where
  "is_live e \<longleftrightarrow> \<not> e_retired e"

definition live_obligation :: "entry \<Rightarrow> bool" where
  "live_obligation e \<longleftrightarrow> \<not> e_retired e \<and> e_class e = Obligation"

definition unconfirmed_obligation :: "entry \<Rightarrow> bool" where
  "unconfirmed_obligation e \<longleftrightarrow> live_obligation e \<and> e_unconfirmed e"

lemmas entry_states = is_live_def live_obligation_def unconfirmed_obligation_def

lemma live_counts:
  "length (live_entries l) = count_of is_live (l_entries l)"
  "length (filter e_unconfirmed (live_obligations l)) = count_of unconfirmed_obligation (l_entries l)"
  "sum_list (map w (live_obligations l)) = weigh w live_obligation (l_entries l)"
  unfolding count_of_length filter_filter weigh_def entry_states by (simp_all add: conj_assoc)

definition entries_ok :: "ledger \<Rightarrow> bool" where
  "entries_ok l \<longleftrightarrow>
     bt_ok (l_entries l) \<and>
     (\<forall>(k, e) \<in> set (l_entries l). e_id e = k \<and> entry_ok (l_params l) e) \<and>
     count_of is_live (l_entries l) \<le> pa_capacity (l_params l) \<and>
     count_of unconfirmed_obligation (l_entries l) \<le> pa_unconfirmed_capacity (l_params l)"

definition live_fact :: "ledger \<Rightarrow> fact_id \<Rightarrow> bool" where
  "live_fact l f \<longleftrightarrow> (\<exists>e. bt_get (l_entries l) f = Some e \<and> \<not> e_retired e)"

definition conflicts_live :: "ledger \<Rightarrow> bool" where
  "conflicts_live l \<longleftrightarrow> (\<forall>c \<in> l_conflicts l. \<forall>f. mentions f c \<longrightarrow> live_fact l f)"

definition ledger_ok :: "ledger \<Rightarrow> bool" where
  "ledger_ok l \<longleftrightarrow> entries_ok l \<and> conflicts_live l"

lemma ledger_ok_default [simp]: "ledger_ok ledger_default"
  by (simp add: ledger_ok_def entries_ok_def conflicts_live_def ledger_default_def)

lemma ledger_live_Inr:
  "ledger_live l f = Inr e \<longleftrightarrow> bt_get (l_entries l) f = Some e \<and> \<not> e_retired e"
  by (auto simp: ledger_live_def ledger_entry_def)

lemma entries_ok_id: "entries_ok l \<Longrightarrow> bt_get (l_entries l) f = Some e \<Longrightarrow> e_id e = f"
  by (auto simp: entries_ok_def dest: map_of_SomeD)

lemma entries_ok_entry: "entries_ok l \<Longrightarrow> bt_get (l_entries l) f = Some e \<Longrightarrow> entry_ok (l_params l) e"
  by (auto simp: entries_ok_def dest: map_of_SomeD)

lemma live_entries_iff:
  "entries_ok l \<Longrightarrow> e \<in> set (live_entries l) \<longleftrightarrow> bt_get (l_entries l) (e_id e) = Some e \<and> \<not> e_retired e"
proof -
  assume ok: "entries_ok l"
  then have "e \<in> set (bt_values (l_entries l)) \<longleftrightarrow> (\<exists>k. bt_get (l_entries l) k = Some e)"
    by (intro bt_values_iff) (simp add: entries_ok_def)
  also have "\<dots> \<longleftrightarrow> bt_get (l_entries l) (e_id e) = Some e" using entries_ok_id [OF ok] by auto
  finally show ?thesis by auto
qed

text \<open>Rewriting entries in place: identities stay, no entry returns from retirement, no live
  obligation appears.  \<open>h_keeps\<close> is what a rewrite must respect on each entry.\<close>

definition keeps :: "ledger_params \<Rightarrow> entry \<Rightarrow> entry \<Rightarrow> bool" where
  "keeps p e e' \<longleftrightarrow>
     e_id e' = e_id e \<and> entry_ok p e' \<and> (e_retired e \<longrightarrow> e_retired e') \<and>
     e_class e' = e_class e \<and> e_unconfirmed e' = e_unconfirmed e"

lemma entries_ok_member:
  assumes "entries_ok l" and "(k, e) \<in> set (l_entries l)"
  shows "e_id e = k" and "entry_ok (l_params l) e" and "bt_get (l_entries l) k = Some e"
  using assms by (auto simp: entries_ok_def intro: bt_ok_mapD)

lemma entries_ok_rewrite:
  assumes ok: "entries_ok l" and entries: "l_entries l' = map (\<lambda>(k, e). (k, h k e)) (l_entries l)"
    and params: "l_params l' = l_params l"
    and h: "\<And>k e. (k, e) \<in> set (l_entries l) \<Longrightarrow> keeps (l_params l) e (h k e)"
  shows "entries_ok l'"
proof -
  have "bt_keys (l_entries l') = bt_keys (l_entries l)"
    by (auto simp: entries)
  then have "bt_ok (l_entries l')" using ok by (simp add: entries_ok_def bt_ok_def)
  moreover have "count_of is_live (l_entries l') \<le> count_of is_live (l_entries l)"
    unfolding entries by (rule weigh_rewrite) (auto simp: keeps_def is_live_def dest: h)
  moreover have "count_of unconfirmed_obligation (l_entries l') \<le>
      count_of unconfirmed_obligation (l_entries l)"
    unfolding entries by (rule weigh_rewrite) (auto simp: keeps_def entry_states dest: h)
  moreover have "e_id e = k \<and> entry_ok (l_params l) e" if ke: "(k, e) \<in> set (l_entries l')" for k e
  proof -
    from ke obtain v where v: "(k, v) \<in> set (l_entries l)" "e = h k v" by (auto simp: entries)
    with h [OF v(1)] entries_ok_member [OF ok v(1)] show ?thesis by (simp add: keeps_def)
  qed
  ultimately show ?thesis using ok by (auto simp: entries_ok_def params)
qed

lemma entries_ok_map:
  assumes "entries_ok l" and "\<And>e. entry_ok (l_params l) e \<Longrightarrow> keeps (l_params l) e (g e)"
    and "l_entries l' = bt_map_values g (l_entries l)" and "l_params l' = l_params l"
  shows "entries_ok l'"
  using assms by (intro entries_ok_rewrite [of l l' "\<lambda>k. g"]) (auto simp: bt_map_values_def entries_ok_def)

lemma entries_ok_adjust:
  assumes "entries_ok l" and "\<And>e. bt_get (l_entries l) f = Some e \<Longrightarrow> keeps (l_params l) e (g e)"
    and "l_entries l' = bt_adjust f g (l_entries l)" and "l_params l' = l_params l"
  shows "entries_ok l'"
proof (rule entries_ok_rewrite [of l l' "\<lambda>k v. if k = f then g v else v"])
  fix k v assume kv: "(k, v) \<in> set (l_entries l)"
  from entries_ok_member [OF assms(1) kv] show "keeps (l_params l) v (if k = f then g v else v)"
    using assms(2) [of v] by (auto simp: keeps_def)
qed (use assms in \<open>auto simp: bt_adjust_def\<close>)

lemma check_entry_Inr:
  assumes "check_entry l e scopes = Inr u"
  shows "bt_get (l_entries l) (e_id e) = None" and "\<not> e_retired e" and "e_superseded_by e = None"
    and "e_utility e = utility_of (l_params l) (e_usage e)"
    and "e_freshness e = CurrentFresh \<Longrightarrow> e_evidence e = Verified"
    and "count_of is_live (l_entries l) < pa_capacity (l_params l)"
    and "so_scope (e_source e) = fi_scope (e_id e)" and "so_leaf (e_source e) \<noteq> []"
    and "scope_is_open scopes (fi_scope (e_id e))"
  using assms unfolding check_entry_def live_counts by (auto simp: bt_contains_def split: if_splits)

lemma entries_ok_put:
  assumes ok: "entries_ok l" and check: "check_entry l e scopes = Inr u" and e: "entry_ok (l_params l) e"
    and unconfirmed: "e_unconfirmed e \<and> e_class e = Obligation \<Longrightarrow>
      count_of unconfirmed_obligation (l_entries l) < pa_unconfirmed_capacity (l_params l)"
    and l': "l_entries l' = bt_insert (e_id e) e (l_entries l)" "l_params l' = l_params l"
  shows "entries_ok l'"
proof -
  note c = check_entry_Inr [OF check]
  have "count_of unconfirmed_obligation (l_entries l') \<le> pa_unconfirmed_capacity (l_params l)"
    using ok unconfirmed by (auto simp: entries_ok_def l' weigh_insert [OF c(1)] entry_states)
  with ok e c show ?thesis
    by (auto simp: entries_ok_def l' weigh_insert [OF c(1)] set_insert_absent [OF c(1)] is_live_def)
qed

section \<open>Conflicts\<close>

lemma record_conflicts_simps [simp]:
  "l_entries (record_conflicts l e) = l_entries l"
  "l_params (record_conflicts l e) = l_params l"
  "l_versions (record_conflicts l e) = l_versions l"
  "l_tool_results (record_conflicts l e) = l_tool_results l"
  "l_attempts (record_conflicts l e) = l_attempts l"
  by (simp_all add: record_conflicts_def)

lemma remove_conflicts_simps [simp]:
  "l_entries (remove_conflicts l f) = l_entries l"
  "l_params (remove_conflicts l f) = l_params l"
  "l_versions (remove_conflicts l f) = l_versions l"
  "l_tool_results (remove_conflicts l f) = l_tool_results l"
  "l_attempts (remove_conflicts l f) = l_attempts l"
  "l_conflicts (remove_conflicts l f) = {c \<in> l_conflicts l. \<not> mentions f c}"
  by (simp_all add: remove_conflicts_def)

lemma mentions_between [simp]: "mentions f (conflict_between e e') \<longleftrightarrow> f = e_id e \<or> f = e_id e'"
  by (auto simp: conflict_between_def split: fact_kind.splits)

lemma record_conflicts_set:
  "l_conflicts (record_conflicts l e) =
     l_conflicts l \<union> (\<lambda>x. conflict_between x e) ` {x \<in> set (live_entries l). conflicting x e}"
proof -
  have "fold (\<lambda>x cs. if conflicting x e then insert (conflict_between x e) cs else cs) xs cs =
      cs \<union> (\<lambda>x. conflict_between x e) ` {x \<in> set xs. conflicting x e}" for xs cs
    by (induction xs arbitrary: cs) auto
  from this [of "live_entries l" "l_conflicts l"] show ?thesis
    unfolding record_conflicts_def by simp
qed

lemma conflicts_live_mono:
  assumes "conflicts_live l" and "\<And>f. live_fact l f \<Longrightarrow> live_fact l' f"
    and "l_conflicts l' \<subseteq> l_conflicts l"
  shows "conflicts_live l'"
  using assms by (auto simp: conflicts_live_def)

lemma conflicts_live_retire:
  assumes "conflicts_live l" and "\<And>g. live_fact l g \<Longrightarrow> g \<noteq> f \<Longrightarrow> live_fact l' g"
    and "l_conflicts l' \<subseteq> {c \<in> l_conflicts l. \<not> mentions f c}"
  shows "conflicts_live l'"
  using assms by (fastforce simp: conflicts_live_def)

lemma live_fact_member:
  "entries_ok l \<Longrightarrow> (k, x) \<in> set (l_entries l) \<Longrightarrow> \<not> e_retired x \<Longrightarrow> live_fact l (e_id x)"
  using entries_ok_member by (auto simp: live_fact_def)

lemma conflicts_live_record:
  assumes "entries_ok l" and "conflicts_live l" and "live_fact l (e_id e)"
  shows "conflicts_live (record_conflicts l e)"
proof -
  have live: "live_fact (record_conflicts l e) f \<longleftrightarrow> live_fact l f" for f by (simp add: live_fact_def)
  note live_fact_member [OF assms(1)]
  with assms(2,3) show ?thesis unfolding conflicts_live_def record_conflicts_set live by auto
qed

lemma live_fact_put: "live_fact (put_entry e l) f \<longleftrightarrow> (if f = e_id e then \<not> e_retired e else live_fact l f)"
  by (simp add: live_fact_def)

lemma live_fact_adjust:
  "live_fact (adjust_entry f g l) h \<longleftrightarrow>
     (if h = f then \<exists>e. bt_get (l_entries l) f = Some e \<and> \<not> e_retired (g e) else live_fact l h)"
  by (auto simp: live_fact_def)

text \<open>Recording the conflicts of an entry before inserting it gives the same ledger as after: the new
  entry never conflicts with itself.\<close>

lemma conflicts_live_put:
  assumes "entries_ok l" and "conflicts_live l" and "check_entry l e scopes = Inr u"
  shows "conflicts_live (put_entry e (record_conflicts l e))"
proof -
  note c = check_entry_Inr [OF assms(3)]
  have "live_fact (put_entry e (record_conflicts l e)) f \<longleftrightarrow> f = e_id e \<or> live_fact l f" for f
    using c by (auto simp: live_fact_def)
  moreover note live_fact_member [OF assms(1)]
  ultimately show ?thesis using assms(2)
    unfolding conflicts_live_def by (auto simp: record_conflicts_set)
qed

section \<open>Every operation keeps the invariant\<close>

lemma check_obligation_bound_Inr:
  assumes "check_obligation_bound l e = Inr u"
  shows "e_unconfirmed e \<Longrightarrow>
      count_of unconfirmed_obligation (l_entries l) < pa_unconfirmed_capacity (l_params l)"
    and "saturating_add (obligation_bytes l) (length (e_text e)) \<le> pa_protection_bytes (l_params l)"
  using assms unfolding check_obligation_bound_def live_counts by (auto split: if_splits)

lemma admit_obligation_Inr:
  assumes "admit_obligation l e g scopes = Inr l'"
  shows "check_entry l e scopes = Inr ()" and "check_obligation_bound l e = Inr ()"
    and "l' = put_entry e (record_conflicts l e)"
    and "e_class e = Obligation" and "e_kind e = Normative" and "so_origin (e_source e) = IngressOrigin"
    and "so_authority (e_source e) \<noteq> EnvironmentAuthority" and "e_unconfirmed e = (g = AmbiguousGrammar)"
    and "e_unconfirmed e \<Longrightarrow> UserAuthority \<le> so_authority (e_source e)"
  using assms by (auto simp: admit_obligation_def not_less split: if_splits)

lemma admit_obligation_ok:
  assumes "ledger_ok l" and "admit_obligation l e g scopes = Inr l'"
  shows "ledger_ok l'"
proof -
  note a = admit_obligation_Inr [OF assms(2)]
  note c = check_entry_Inr [OF a(1)]
  from assms(1) have ok: "entries_ok l" "conflicts_live l" by (simp_all add: ledger_ok_def)
  have e: "entry_ok (l_params l) e" using a c by (simp add: entry_ok_def)
  have "entries_ok l'"
    by (rule entries_ok_put [OF ok(1) a(1) e]) (use a check_obligation_bound_Inr [OF a(2)] in auto)
  moreover have "conflicts_live l'" unfolding a(3) by (rule conflicts_live_put [OF ok a(1)])
  ultimately show ?thesis by (simp add: ledger_ok_def)
qed

lemma admit_convenience_Inr:
  assumes "admit_convenience l e scopes = Inr l'"
  shows "check_entry l e scopes = Inr ()" and "l' = put_entry e (record_conflicts l e)"
    and "e_class e = Convenience" and "\<not> e_unconfirmed e" and "pa_threshold (l_params l) < e_utility e"
  using assms by (auto simp: admit_convenience_def split: if_splits)

lemma admit_convenience_ok:
  assumes "ledger_ok l" and "admit_convenience l e scopes = Inr l'"
  shows "ledger_ok l'"
proof -
  note a = admit_convenience_Inr [OF assms(2)]
  note c = check_entry_Inr [OF a(1)]
  from assms(1) have ok: "entries_ok l" "conflicts_live l" by (simp_all add: ledger_ok_def)
  have e: "entry_ok (l_params l) e" using a c by (simp add: entry_ok_def)
  have "entries_ok l'" by (rule entries_ok_put [OF ok(1) a(1) e]) (use a in auto)
  moreover have "conflicts_live l'" unfolding a(2) by (rule conflicts_live_put [OF ok a(1)])
  ultimately show ?thesis by (simp add: ledger_ok_def)
qed

text \<open>A rewrite of all entries that retires none of them.\<close>

lemma ledger_ok_map:
  assumes "ledger_ok l" and "\<And>e. entry_ok (l_params l) e \<Longrightarrow> keeps (l_params l) e (g e)"
    and "\<And>e. e_retired (g e) = e_retired e"
    and "l_entries l' = bt_map_values g (l_entries l)" and "l_params l' = l_params l"
    and "\<And>c f. c \<in> l_conflicts l' \<Longrightarrow> mentions f c \<Longrightarrow> c \<in> l_conflicts l \<or> live_fact l f"
  shows "ledger_ok l'"
proof -
  have "live_fact l' f \<longleftrightarrow> live_fact l f" for f by (auto simp: live_fact_def assms(3,4))
  then have "conflicts_live l'" using assms(1,6) unfolding ledger_ok_def conflicts_live_def by blast
  moreover have "entries_ok l'"
    by (rule entries_ok_map [where g = g]) (use assms in \<open>auto simp: ledger_ok_def\<close>)
  ultimately show ?thesis by (simp add: ledger_ok_def)
qed

lemma revalidate_ok: "ledger_ok l \<Longrightarrow> revalidate l ob = Inr l' \<Longrightarrow> ledger_ok l'"
  by (rule ledger_ok_map [where l = l and g = "revalidate_entry (l_versions l) ob"])
    (auto simp: revalidate_def revalidate_entry_def keeps_def entry_ok_def Let_def split: if_splits)

lemma stale_demote_ok: "ledger_ok l \<Longrightarrow> ledger_ok (stale_demote l domains)"
  by (rule ledger_ok_map [where l = l and g = "\<lambda>e.
    if e_freshness e = Stale \<and> reads_any e (\<lambda>d. d \<in> domains) then e\<lparr>e_evidence := Unverified\<rparr> else e"])
    (auto simp: stale_demote_def keeps_def entry_ok_def)

lemma set_text_simps [simp]:
  "e_id (set_text t e) = e_id e" "e_class (set_text t e) = e_class e" "e_kind (set_text t e) = e_kind e"
  "e_source (set_text t e) = e_source e" "e_freshness (set_text t e) = e_freshness e"
  "e_evidence (set_text t e) = e_evidence e" "e_unconfirmed (set_text t e) = e_unconfirmed e"
  "e_utility (set_text t e) = e_utility e" "e_usage (set_text t e) = e_usage e"
  "e_retired (set_text t e) = e_retired e" "e_superseded_by (set_text t e) = e_superseded_by e"
  "e_bindings (set_text t e) = e_bindings e" "e_premises (set_text t e) = e_premises e"
  "cf_text (e_fold (set_text t e)) = t"
  by (simp_all add: set_text_def)

lemma ledger_redact_ok: "ledger_ok l \<Longrightarrow> ledger_ok (ledger_redact l leaf)"
  by (rule ledger_ok_map [where l = l and g = "\<lambda>e. if e_id e \<in> dependent_facts leaf (bt_values (l_entries l))
    then set_text TOMBSTONE (e\<lparr>e_evidence := Unverified, e_freshness := UnknownFresh\<rparr>) else e"])
    (auto simp: ledger_redact_def Let_def keeps_def entry_ok_def)

lemma flagged_set:
  "(\<Union>n \<in> set (filter P (bt_values m)). PremiseInvalidated (e_id n) ` (e_premises n \<inter> I)) =
     {PremiseInvalidated (e_id n) p | k n p. (k, n) \<in> set m \<and> P n \<and> p \<in> e_premises n \<and> p \<in> I}"
  by force

lemma invalidate_Inr:
  assumes "invalidate l result writes = Inr l'"
  shows "l_entries l' = bt_map_values (\<lambda>e. if goes_stale writes e then e\<lparr>e_freshness := Stale\<rparr> else e) (l_entries l)"
    and "l_params l' = l_params l" and "l_attempts l' = l_attempts l"
    and "l_versions l' = bt_extend (l_versions l) writes"
    and "l_tool_results l' = insert (tw_call_id result) (l_tool_results l)"
    and "tw_call_id result \<notin> l_tool_results l"
    and "\<And>d v old. (d, v) \<in> set writes \<Longrightarrow> bt_get (l_versions l) d = Some old \<Longrightarrow> old < v"
    and "l_conflicts l' = l_conflicts l \<union>
      {PremiseInvalidated (e_id n) p | k n p. (k, n) \<in> set (l_entries l') \<and> e_kind n = Normative \<and>
        \<not> e_retired n \<and> p \<in> e_premises n \<and> p \<in> invalidated_facts writes (bt_values (l_entries l))}"
proof -
  note d = assms [unfolded invalidate_def Let_def]
  show "l_entries l' = bt_map_values (\<lambda>e. if goes_stale writes e then e\<lparr>e_freshness := Stale\<rparr> else e) (l_entries l)"
    "l_params l' = l_params l" "l_attempts l' = l_attempts l"
    "l_versions l' = bt_extend (l_versions l) writes"
    "l_tool_results l' = insert (tw_call_id result) (l_tool_results l)"
    "tw_call_id result \<notin> l_tool_results l"
    using d by (auto split: if_splits)
  show "old < v" if "(d, v) \<in> set writes" "bt_get (l_versions l) d = Some old" for d v old
    using d that by (fastforce simp: list_ex_iff split: if_splits)
  show "l_conflicts l' = l_conflicts l \<union>
      {PremiseInvalidated (e_id n) p | k n p. (k, n) \<in> set (l_entries l') \<and> e_kind n = Normative \<and>
        \<not> e_retired n \<and> p \<in> e_premises n \<and> p \<in> invalidated_facts writes (bt_values (l_entries l))}"
    using d by (clarsimp simp only: flagged_set simp_thms split: if_splits) simp
qed

lemma invalidate_ok:
  assumes "ledger_ok l" and "invalidate l result writes = Inr l'"
  shows "ledger_ok l'"
proof (rule ledger_ok_map [OF assms(1), where g = "\<lambda>e. if goes_stale writes e then e\<lparr>e_freshness := Stale\<rparr> else e"])
  note i = invalidate_Inr [OF assms(2)]
  from assms(1) have ok: "entries_ok l" by (simp add: ledger_ok_def)
  show "l_entries l' = bt_map_values (\<lambda>e. if goes_stale writes e then e\<lparr>e_freshness := Stale\<rparr> else e) (l_entries l)"
    and "l_params l' = l_params l" by (fact i)+
  fix c f assume c: "c \<in> l_conflicts l'" "mentions f c"
  show "c \<in> l_conflicts l \<or> live_fact l f"
  proof (cases "c \<in> l_conflicts l")
    case False
    with c(1) obtain m n p where n: "c = PremiseInvalidated (e_id n) p" "(m, n) \<in> set (l_entries l')"
      "\<not> e_retired n" and p: "p \<in> invalidated_facts writes (bt_values (l_entries l))"
      unfolding i(8) by auto
    from n(2) obtain k e where e: "(k, e) \<in> set (l_entries l)"
      "n = (if goes_stale writes e then e\<lparr>e_freshness := Stale\<rparr> else e)"
      unfolding i(1) by (auto simp: bt_map_values_def)
    then have "live_fact l (e_id n)" using n(3) live_fact_member [OF ok e(1)] by (auto split: if_splits)
    moreover have "live_fact l p"
      using p live_fact_member [OF ok] by (auto simp: invalidated_facts_def goes_stale_def)
    ultimately show ?thesis using c(2) n(1) by auto
  qed simp
qed (auto simp: keeps_def entry_ok_def)

text \<open>Rewriting one live entry that stays live, and retiring one live entry together with its conflicts.\<close>

lemma ledger_ok_adjust:
  assumes "ledger_ok l" and "ledger_live l f = Inr e" and "keeps (l_params l) e (g e)" and "\<not> e_retired (g e)"
  shows "ledger_ok (adjust_entry f g l)"
proof -
  have "entries_ok (adjust_entry f g l)"
    by (rule entries_ok_adjust [where l = l and f = f and g = g])
      (use assms in \<open>auto simp: ledger_ok_def ledger_live_Inr\<close>)
  moreover have "conflicts_live (adjust_entry f g l)"
    by (rule conflicts_live_mono [where l = l])
      (use assms in \<open>auto simp: ledger_ok_def live_fact_adjust ledger_live_Inr\<close>)
  ultimately show ?thesis by (simp add: ledger_ok_def)
qed

lemma ledger_ok_retire:
  assumes "ledger_ok l" and "\<And>e. entry_ok (l_params l) e \<Longrightarrow> keeps (l_params l) e (g e)"
  shows "ledger_ok (remove_conflicts (adjust_entry f g l) f)"
proof -
  have "entries_ok (remove_conflicts (adjust_entry f g l) f)"
    by (rule entries_ok_adjust [where l = l and f = f and g = g])
      (use assms entries_ok_entry in \<open>auto simp: ledger_ok_def\<close>)
  moreover have "conflicts_live (remove_conflicts (adjust_entry f g l) f)"
    by (rule conflicts_live_retire [where l = l and f = f])
      (use assms in \<open>auto simp: ledger_ok_def live_fact_def\<close>)
  ultimately show ?thesis by (simp add: ledger_ok_def)
qed

lemma live_entry_ok:
  "ledger_ok l \<Longrightarrow> ledger_live l f = Inr e \<Longrightarrow> entry_ok (l_params l) e \<and> e_id e = f \<and> \<not> e_retired e"
  using entries_ok_entry entries_ok_id by (auto simp: ledger_ok_def ledger_live_Inr)

lemma demote_ok: "ledger_ok l \<Longrightarrow> demote l f r = Inr l' \<Longrightarrow> ledger_ok l'"
  by (auto simp: demote_def keeps_def entry_ok_def split: if_splits dest: live_entry_ok intro!: ledger_ok_adjust)

lemma decay_ok: "ledger_ok l \<Longrightarrow> decay l f u q = Inr l' \<Longrightarrow> ledger_ok l'"
  by (auto simp: decay_def keeps_def entry_ok_def split: if_splits dest: live_entry_ok intro!: ledger_ok_adjust)

lemma promote_ok: "ledger_ok l \<Longrightarrow> promote l f src a s = Inr l' \<Longrightarrow> ledger_ok l'"
  by (auto simp: promote_def keeps_def entry_ok_def Let_def split: if_splits dest: live_entry_ok
    intro!: ledger_ok_adjust)

lemma retract_ok: "ledger_ok l \<Longrightarrow> retract l f p = Inr l' \<Longrightarrow> ledger_ok l'"
  by (auto simp: retract_def keeps_def entry_ok_def split: if_splits dest: live_entry_ok intro!: ledger_ok_retire)

lemma bt_adjust_adjust: "bt_adjust f g (bt_adjust f h m) = bt_adjust f (\<lambda>v. g (h v)) m"
  by (auto simp: bt_adjust_def)

definition retire_as :: "fact_id \<Rightarrow> string \<Rightarrow> entry \<Rightarrow> entry" where
  "retire_as n t e = set_text t (e\<lparr>e_retired := True, e_superseded_by := Some n\<rparr>)"

lemma retire_as_simps [simp]:
  "e_id (retire_as n t e) = e_id e" "e_class (retire_as n t e) = e_class e"
  "e_unconfirmed (retire_as n t e) = e_unconfirmed e" "e_retired (retire_as n t e)"
  "cf_text (e_fold (retire_as n t e)) = t"
  by (simp_all add: retire_as_def)

lemma retire_as_keeps [simp]: "entry_ok p e \<Longrightarrow> keeps p e (retire_as n t e)"
  by (simp add: keeps_def entry_ok_def retire_as_def)

lemma retire_as_alt [simp]:
  "(set_text t (e\<lparr>e_superseded_by := Some n\<rparr>))\<lparr>e_retired := True\<rparr> = retire_as n t e"
  "set_text t (e\<lparr>e_superseded_by := Some n, e_retired := True\<rparr>) = retire_as n t e"
  "set_text t (e\<lparr>e_retired := True, e_superseded_by := Some n\<rparr>) = retire_as n t e"
  by (simp_all add: retire_as_def set_text_def)

lemma retire_keeps [simp]: "entry_ok p e \<Longrightarrow> keeps p e (e\<lparr>e_retired := True\<rparr>)"
  by (simp add: keeps_def entry_ok_def)

lemma discharge_Inr:
  assumes "discharge l f ev scopes = Inr l'"
  obtains e g where "ledger_live l f = Inr e" and "e_class e = Obligation"
    and "discharge_allowed l e f scopes ev" and "l' = remove_conflicts (adjust_entry f g l) f"
    and "g = (\<lambda>e. e\<lparr>e_retired := True\<rparr>) \<or> (\<exists>n t. g = retire_as n t)"
proof -
  from assms obtain e where e: "ledger_live l f = Inr e" "e_class e = Obligation"
    "discharge_allowed l e f scopes ev"
    by (auto simp: discharge_def split: if_splits)
  show ?thesis
  proof (cases ev)
    case (SupersededBy n)
    with assms e obtain n' where "l' = remove_conflicts (adjust_entry f
        (\<lambda>e. (set_text (e_text n') (e\<lparr>e_superseded_by := Some n\<rparr>))\<lparr>e_retired := True\<rparr>) l) f"
      by (auto simp: discharge_def bt_adjust_adjust)
    then have "l' = remove_conflicts (adjust_entry f (retire_as n (e_text n')) l) f" by simp
    with that e show ?thesis by blast
  qed (use assms e that in \<open>auto simp: discharge_def split: if_splits\<close>)
qed

lemma discharge_ok:
  assumes "ledger_ok l" and "discharge l f ev scopes = Inr l'"
  shows "ledger_ok l'"
  using assms(2)
proof (rule discharge_Inr)
  fix g assume l': "l' = remove_conflicts (adjust_entry f g l) f"
    and g: "g = (\<lambda>e. e\<lparr>e_retired := True\<rparr>) \<or> (\<exists>n t. g = retire_as n t)"
  from g show ?thesis unfolding l' by (intro ledger_ok_retire [OF assms(1)]) auto
qed

lemma check_entry_mono:
  assumes "check_entry l e scopes = Inr u" and "l_params l' = l_params l"
    and "\<And>k. bt_contains (l_entries l') k = bt_contains (l_entries l) k"
    and "count_of is_live (l_entries l') \<le> count_of is_live (l_entries l)"
  shows "check_entry l' e scopes = Inr ()"
  using assms unfolding check_entry_def live_counts by (auto split: if_splits)

lemma count_live_adjust:
  assumes "\<And>e. e_retired e \<Longrightarrow> e_retired (g e)"
  shows "count_of is_live (bt_adjust f g m) \<le> count_of is_live m"
  unfolding bt_adjust_def by (rule weigh_rewrite) (auto simp: is_live_def assms split: if_splits)

lemma remove_put_commute: "remove_conflicts (put_entry r l) f = put_entry r (remove_conflicts l f)"
  by (cases l) (simp add: remove_conflicts_def)

lemma amend_Inr:
  assumes "amend l f r p scopes = Inr l'"
  obtains old where "ledger_live l f = Inr old" and "e_class old = Convenience" and "e_class r = Convenience"
    and "authorized p old" and "so_authority (e_source r) \<le> so_authority p"
    and "e_kind r = e_kind old" and "check_entry l r scopes = Inr ()"
    and "l' = record_conflicts (put_entry r
      (remove_conflicts (adjust_entry f (retire_as (e_id r) (e_text r)) l) f)) r"
proof -
  from assms obtain old where "ledger_live l f = Inr old" "e_class old \<noteq> Obligation" "e_class r = e_class old"
    "authorized p old" "so_authority (e_source r) \<le> so_authority p" "e_kind r = e_kind old"
    "check_entry l r scopes = Inr ()"
    "l' = record_conflicts (put_entry r
      (remove_conflicts (adjust_entry f (retire_as (e_id r) (e_text r)) l) f)) r"
    by (auto simp: amend_def Let_def not_less remove_put_commute split: if_splits)
  moreover from this have "e_class old = Convenience" by (cases "e_class old") auto
  ultimately show ?thesis using that by simp
qed

lemma amend_ok:
  assumes "ledger_ok l" and "amend l f r p scopes = Inr l'"
  shows "ledger_ok l'"
  using assms(2)
proof (rule amend_Inr)
  let ?m = "remove_conflicts (adjust_entry f (retire_as (e_id r) (e_text r)) l) f"
  assume r: "e_class r = Convenience" and check: "check_entry l r scopes = Inr ()"
    and l': "l' = record_conflicts (put_entry r ?m) r"
  have m: "entries_ok ?m" "conflicts_live ?m"
    using ledger_ok_retire [OF assms(1), of "retire_as (e_id r) (e_text r)" f]
    by (simp_all add: ledger_ok_def del: remove_conflicts_simps)
  have check': "check_entry ?m r scopes = Inr ()"
  proof (rule check_entry_mono [OF check])
    show "count_of is_live (l_entries ?m) \<le> count_of is_live (l_entries l)"
      unfolding remove_conflicts_simps by (simp del: One_nat_def) (rule count_live_adjust, simp)
  qed simp_all
  note c = check_entry_Inr [OF check]
  have e: "entry_ok (l_params l) r" using r c by (simp add: entry_ok_def)
  have put: "entries_ok (put_entry r ?m)"
    by (rule entries_ok_put [OF m(1) check']) (use e r in auto)
  have "conflicts_live (put_entry r ?m)"
    by (rule conflicts_live_mono [OF m(2)]) (use c(2) in \<open>auto simp: live_fact_def\<close>)
  then have "conflicts_live l'" unfolding l'
    by (rule conflicts_live_record [OF put]) (use c(2) in \<open>simp add: live_fact_def\<close>)
  moreover have "entries_ok l'" using put by (simp add: l' entries_ok_def)
  ultimately show ?thesis by (simp add: ledger_ok_def)
qed

lemma retire_into_alt: "retire_into c l f = remove_conflicts (adjust_entry f (retire_as (e_id c) (e_text c)) l) f"
  by (simp add: retire_into_def)

lemma retire_all_ok: "ledger_ok l \<Longrightarrow> ledger_ok (foldl (retire_into c) l fs)"
proof (induction fs arbitrary: l)
  case (Cons f fs)
  have "ledger_ok (retire_into c l f)" unfolding retire_into_alt
    by (rule ledger_ok_retire [OF Cons.prems]) simp
  then show ?case by (simp add: Cons.IH)
qed simp

lemma consolidate_scan_Inr:
  "consolidate_scan l c fs b n = Inr (b', n') \<Longrightarrow>
     (\<forall>f \<in> set fs. \<exists>e. ledger_live l f = Inr e \<and> e_class e = Obligation \<and>
        fi_scope (e_id e) = fi_scope (e_id c) \<and> so_authority (e_source e) \<le> so_authority (e_source c) \<and>
        e_bindings e \<subseteq> b') \<and> b \<subseteq> b'"
proof (induction fs arbitrary: b n)
  case (Cons f fs)
  from Cons.prems obtain e where e: "ledger_live l f = Inr e" "e_class e = Obligation"
    "fi_scope (e_id e) = fi_scope (e_id c)" "so_authority (e_source e) \<le> so_authority (e_source c)"
    and rest: "consolidate_scan l c fs (b \<union> e_bindings e) (add64 n (length (e_text e))) = Inr (b', n')"
    by (auto split: if_splits simp: not_less)
  from Cons.IH [OF rest] e show ?case by auto
qed simp

lemma consolidate_Inr:
  assumes "consolidate l facts c s reclaim scopes = Inr l'"
  shows "l_attempts l < pa_consolidation_attempts (l_params l)"
    and "admit_obligation (foldl (retire_into c) (l\<lparr>l_attempts := l_attempts l + 1\<rparr>) (sorted_list_of_set facts))
      c ObligationGrammar scopes = Inr l'"
    and "finite facts" and "supported s (e_id c) (e_text c)"
    and "f \<in> facts \<Longrightarrow> \<exists>e. ledger_live l f = Inr e \<and> e_class e = Obligation \<and>
      fi_scope (e_id e) = fi_scope (e_id c) \<and> so_authority (e_source e) \<le> so_authority (e_source c) \<and>
      e_bindings e \<subseteq> e_bindings c"
proof -
  have fin: "finite facts" if "2 \<le> card facts" using that card.infinite by fastforce
  show "l_attempts l < pa_consolidation_attempts (l_params l)"
    "admit_obligation (foldl (retire_into c) (l\<lparr>l_attempts := l_attempts l + 1\<rparr>) (sorted_list_of_set facts))
      c ObligationGrammar scopes = Inr l'"
    "finite facts" "supported s (e_id c) (e_text c)"
    using assms fin by (auto simp: consolidate_def split: if_splits)
  then show "\<exists>e. ledger_live l f = Inr e \<and> e_class e = Obligation \<and>
      fi_scope (e_id e) = fi_scope (e_id c) \<and> so_authority (e_source e) \<le> so_authority (e_source c) \<and>
      e_bindings e \<subseteq> e_bindings c" if "f \<in> facts"
    using assms that by (fastforce simp: consolidate_def split: if_splits dest: consolidate_scan_Inr)
qed

lemma consolidate_ok:
  assumes "ledger_ok l" and "consolidate l facts c s reclaim scopes = Inr l'"
  shows "ledger_ok l'"
proof -
  have "ledger_ok (l\<lparr>l_attempts := l_attempts l + 1\<rparr>)"
    using assms(1) by (simp add: ledger_ok_def entries_ok_def conflicts_live_def live_fact_def)
  then show ?thesis
    by (rule admit_obligation_ok [OF retire_all_ok consolidate_Inr(2) [OF assms(2)]])
qed

lemmas ledger_op_ok = admit_obligation_ok admit_convenience_ok invalidate_ok revalidate_ok decay_ok
  demote_ok discharge_ok consolidate_ok amend_ok retract_ok promote_ok

lemma ledger_apply_ok:
  assumes "ledger_ok l" and "ledger_apply l c q scopes = Inr l'"
  shows "ledger_ok l'"
  using assms by (cases c) (auto simp: ledger_apply_def stale_demote_ok ledger_redact_ok dest: ledger_op_ok)

type_synonym ledger_input = "ledger_command \<times> u64 \<times> scope_registry"

fun ledger_step :: "ledger \<Rightarrow> ledger_input \<Rightarrow> ledger_error + ledger" where
  "ledger_step l (c, q, scopes) = ledger_apply l c q scopes"

interpretation ledgers: guarded_machine ledger_step ledger_ok
  by unfold_locales (auto dest: ledger_apply_ok)

end
