(* ===== verification/LedgerHistory.thy ===== *)
theory LedgerHistory
  imports LedgerLaws
begin

text \<open>
  What the fact ledger never does over time: the byte bound on protected obligations, the history
  relation \<open>ledger_later\<close>, the only two ways an obligation ends, and the reach of a redaction.
\<close>

section \<open>The byte bound on obligations\<close>

abbreviation obligation_weight :: "ledger \<Rightarrow> nat" where
  "obligation_weight l \<equiv> weigh (\<lambda>e. length (e_text e)) live_obligation (l_entries l)"

definition bytes_ok :: "ledger \<Rightarrow> bool" where
  "bytes_ok l \<longleftrightarrow>
     pa_protection_bytes (l_params l) < u64_max \<and> obligation_weight l \<le> pa_protection_bytes (l_params l)"

lemma bytes_ok_default [simp]: "bytes_ok ledger_default"
  by (simp add: bytes_ok_def ledger_default_def default_params_def)

lemma obligation_bytes_exact: "bytes_ok l \<Longrightarrow> obligation_bytes l = obligation_weight l"
  unfolding obligation_bytes_def bytes_ok_def by (subst sum64_exact) (simp_all add: live_counts(3))

definition no_heavier :: "entry \<Rightarrow> entry \<Rightarrow> bool" where
  "no_heavier e e' \<longleftrightarrow>
     (live_obligation e' \<longrightarrow> live_obligation e \<and> length (e_text e') \<le> length (e_text e))"

lemma bytes_ok_rewrite:
  assumes "bytes_ok l" and "l_entries l' = map (\<lambda>(k, e). (k, h k e)) (l_entries l)"
    and "l_params l' = l_params l" and "\<And>k e. no_heavier e (h k e)"
  shows "bytes_ok l'"
proof -
  have "obligation_weight l' \<le> obligation_weight l"
    unfolding assms(2) by (rule weigh_rewrite) (use assms(4) in \<open>auto simp: no_heavier_def\<close>)
  with assms(1) show ?thesis by (simp add: bytes_ok_def assms(3))
qed

lemma bytes_ok_map:
  assumes "bytes_ok l" and "l_entries l' = bt_map_values g (l_entries l)"
    and "l_params l' = l_params l" and "\<And>e. no_heavier e (g e)"
  shows "bytes_ok l'"
  using assms by (intro bytes_ok_rewrite [of l l' "\<lambda>k. g"]) (auto simp: bt_map_values_def)

lemma bytes_ok_adjust:
  assumes "bytes_ok l" and "l_entries l' = bt_adjust f g (l_entries l)"
    and "l_params l' = l_params l" and "\<And>e. no_heavier e (g e)"
  shows "bytes_ok l'"
  using assms by (intro bytes_ok_rewrite [of l l' "\<lambda>k e. if k = f then g e else e"])
    (auto simp: bt_adjust_def no_heavier_def)

lemma no_heavier_retired [simp]: "e_retired e' \<Longrightarrow> no_heavier e e'"
  by (simp add: no_heavier_def live_obligation_def)

lemma admit_obligation_bytes:
  assumes "bytes_ok l" and "admit_obligation l e g scopes = Inr l'"
  shows "bytes_ok l'"
proof -
  note a = admit_obligation_Inr [OF assms(2)]
  have "saturating_add (obligation_weight l) (length (e_text e)) \<le> pa_protection_bytes (l_params l)"
    using check_obligation_bound_Inr(2) [OF a(2)] by (simp add: obligation_bytes_exact [OF assms(1)])
  then have "obligation_weight l + length (e_text e) \<le> pa_protection_bytes (l_params l)"
    using assms(1) by (auto simp: saturating_add_def bytes_ok_def min_def split: if_splits)
  with assms(1) show ?thesis
    by (auto simp: bytes_ok_def a(3) weigh_insert [OF check_entry_Inr(1) [OF a(1)]])
qed

lemma retire_all_bytes: "bytes_ok l \<Longrightarrow> bytes_ok (foldl (retire_into c) l fs)"
proof (induction fs arbitrary: l)
  case (Cons f fs)
  have "bytes_ok (retire_into c l f)"
    by (rule bytes_ok_adjust [OF Cons.prems, of _ f "retire_as (e_id c) (e_text c)"]) (auto simp: retire_into_alt)
  then show ?case by (simp add: Cons.IH)
qed simp

lemma amend_bytes:
  assumes "bytes_ok l" and "amend l f r p scopes = Inr l'"
  shows "bytes_ok l'"
  using assms(2)
proof (rule amend_Inr)
  let ?m = "adjust_entry f (retire_as (e_id r) (e_text r)) l"
  assume r: "e_class r = Convenience" and check: "check_entry l r scopes = Inr ()"
    and l': "l' = record_conflicts (put_entry r (remove_conflicts ?m f)) r"
  have "bytes_ok ?m"
    by (rule bytes_ok_adjust [OF assms(1), of _ f "retire_as (e_id r) (e_text r)"]) auto
  moreover from check_entry_Inr(1) [OF check] have "bt_get (l_entries ?m) (e_id r) = None" by auto
  ultimately show ?thesis using r by (auto simp: bytes_ok_def l' weigh_insert live_obligation_def)
qed

lemma convenience_bytes:
  assumes "bytes_ok l" and "admit_convenience l e scopes = Inr l'"
  shows "bytes_ok l'"
proof -
  note a = admit_convenience_Inr [OF assms(2)]
  from assms(1) show ?thesis
    by (auto simp: bytes_ok_def a(2,3) weigh_insert [OF check_entry_Inr(1) [OF a(1)]] live_obligation_def)
qed

lemma discharge_bytes:
  assumes "bytes_ok l" and "discharge l f ev scopes = Inr l'"
  shows "bytes_ok l'"
  using assms(2)
proof (rule discharge_Inr)
  fix g assume l': "l' = remove_conflicts (adjust_entry f g l) f"
    and g: "g = (\<lambda>e. e\<lparr>e_retired := True\<rparr>) \<or> (\<exists>n t. g = retire_as n t)"
  show ?thesis by (rule bytes_ok_adjust [OF assms(1), of _ f g]) (use g in \<open>auto simp: l'\<close>)
qed

lemma consolidate_bytes:
  assumes "bytes_ok l" and "consolidate l facts c s reclaim scopes = Inr l'"
  shows "bytes_ok l'"
proof -
  have "bytes_ok (l\<lparr>l_attempts := l_attempts l + 1\<rparr>)" using assms(1) by (simp add: bytes_ok_def)
  then show ?thesis
    by (rule admit_obligation_bytes [OF retire_all_bytes consolidate_Inr(2) [OF assms(2)]])
qed

lemma invalidate_bytes: "bytes_ok l \<Longrightarrow> invalidate l r w = Inr l' \<Longrightarrow> bytes_ok l'"
  by (rule bytes_ok_map, assumption, rule invalidate_Inr(1), assumption, rule invalidate_Inr(2), assumption)
    (simp add: no_heavier_def live_obligation_def)

lemma revalidate_bytes: "bytes_ok l \<Longrightarrow> revalidate l ob = Inr l' \<Longrightarrow> bytes_ok l'"
  by (rule bytes_ok_map [where l = l and g = "revalidate_entry (l_versions l) ob"])
    (auto simp: revalidate_def revalidate_entry_def no_heavier_def live_obligation_def Let_def split: if_splits)

lemma stale_demote_bytes: "bytes_ok l \<Longrightarrow> bytes_ok (stale_demote l domains)"
  by (rule bytes_ok_map [where l = l and g = "\<lambda>e.
    if e_freshness e = Stale \<and> reads_any e (\<lambda>d. d \<in> domains) then e\<lparr>e_evidence := Unverified\<rparr> else e"])
    (auto simp: stale_demote_def no_heavier_def live_obligation_def)

lemma adjust_bytes:
  "bytes_ok l \<Longrightarrow> demote l f r = Inr l' \<Longrightarrow> bytes_ok l'"
  "bytes_ok l \<Longrightarrow> decay l f u q = Inr l' \<Longrightarrow> bytes_ok l'"
  "bytes_ok l \<Longrightarrow> promote l f src a s = Inr l' \<Longrightarrow> bytes_ok l'"
  "bytes_ok l \<Longrightarrow> retract l f p = Inr l' \<Longrightarrow> bytes_ok l'"
  by (auto simp: demote_def decay_def promote_def retract_def Let_def split: if_splits
    elim!: bytes_ok_adjust simp: no_heavier_def live_obligation_def)

lemmas ledger_op_bytes = admit_obligation_bytes convenience_bytes invalidate_bytes revalidate_bytes
  discharge_bytes consolidate_bytes amend_bytes adjust_bytes

text \<open>A redaction writes a tombstone of thirty bytes over each text it erases, so it is the one command
  that can lengthen an obligation.\<close>

lemma ledger_apply_bytes:
  assumes "bytes_ok l" and "ledger_apply l c q scopes = Inr l'" and "\<And>leaf. c \<noteq> RedactLeaf leaf"
  shows "bytes_ok l'"
  using assms by (cases c) (auto simp: ledger_apply_def stale_demote_bytes dest: ledger_op_bytes)

section \<open>The reach of a redaction\<close>

inductive depends :: "entry list \<Rightarrow> string \<Rightarrow> fact_id \<Rightarrow> bool" for es leaf where
  seed: "e \<in> set es \<Longrightarrow> so_leaf (e_source e) = leaf \<or> leaf \<in> e_bindings e \<Longrightarrow> depends es leaf (e_id e)"
| via: "e \<in> set es \<Longrightarrow> p \<in> e_premises e \<Longrightarrow> depends es leaf p \<Longrightarrow> depends es leaf (e_id e)"

lemma redact_pass_closed:
  assumes "e \<in> set es" and "e_premises e \<inter> dep \<noteq> {}"
  shows "e_id e \<in> redact_pass es dep"
  using assms
proof (induction es arbitrary: dep)
  case (Cons x xs)
  have sub: "redact_visit x dep \<subseteq> redact_pass xs (redact_visit x dep)" by (rule redact_pass_bounds)
  have pass: "redact_pass (x # xs) dep = redact_pass xs (redact_visit x dep)" by (simp add: redact_pass_def)
  show ?case
  proof (cases "e = x")
    case True
    with Cons.prems(2) have "e_id e \<in> redact_visit x dep" by (simp add: redact_visit_def)
    with sub pass show ?thesis by auto
  next
    case False
    moreover have "e_premises e \<inter> redact_visit x dep \<noteq> {}" using Cons.prems(2) by (auto simp: redact_visit_def)
    ultimately show ?thesis using Cons.IH [of "redact_visit x dep"] Cons.prems(1) pass by simp
  qed
qed simp

lemma redact_pass_sound:
  assumes "dep \<subseteq> {f. depends es leaf f}" and "set xs \<subseteq> set es"
  shows "redact_pass xs dep \<subseteq> {f. depends es leaf f}"
  using assms
proof (induction xs arbitrary: dep)
  case (Cons x xs)
  then have "redact_visit x dep \<subseteq> {f. depends es leaf f}" by (auto simp: redact_visit_def intro: via)
  with Cons show ?case by (simp add: redact_pass_def)
qed (simp add: redact_pass_def)

lemma redact_close_sound: "dep \<subseteq> {f. depends es leaf f} \<Longrightarrow> redact_close es dep \<subseteq> {f. depends es leaf f}"
proof (induction es dep rule: redact_close.induct)
  case (1 es dep)
  from redact_pass_sound [OF 1(2) subset_refl] show ?case
    using 1(1) [OF refl] by (subst redact_close.simps) (simp add: Let_def)
qed

lemma redact_close_fixpoint:
  assumes "finite dep"
  shows "dep \<subseteq> redact_close es dep \<and> redact_pass es (redact_close es dep) = redact_close es dep"
  using assms
proof (induction es dep rule: redact_close.induct)
  case (1 es dep)
  let ?dep = "redact_pass es dep"
  have sub: "dep \<subseteq> ?dep" by (rule redact_pass_bounds)
  have fin: "finite ?dep" using finite_subset [OF redact_pass_bounds(2)] 1(2) by simp
  show ?case
  proof (cases "card ?dep = card dep")
    case True
    then have "?dep = dep" using card_subset_eq [OF fin sub] by simp
    then show ?thesis by (subst (1 2 3) redact_close.simps) (simp add: Let_def)
  next
    case False
    with 1(1) [OF refl False fin] sub show ?thesis
      by (subst (1 2 3) redact_close.simps) (auto simp: Let_def)
  qed
qed

text \<open>The loop of \<open>redact\<close> ends with exactly the facts that depend on the leaf, directly or through
  any chain of premises.\<close>

lemma dependent_facts_iff: "f \<in> dependent_facts leaf es \<longleftrightarrow> depends es leaf f"
proof
  have seeds: "redact_seeds leaf es \<subseteq> {f. depends es leaf f}" by (auto simp: redact_seeds_def intro: seed)
  show "f \<in> dependent_facts leaf es \<Longrightarrow> depends es leaf f"
    using redact_close_sound [OF seeds] by (auto simp: dependent_facts_def)
  have closed: "redact_seeds leaf es \<subseteq> dependent_facts leaf es"
    "redact_pass es (dependent_facts leaf es) = dependent_facts leaf es"
    using redact_close_fixpoint [of "redact_seeds leaf es" es] by (auto simp: dependent_facts_def redact_seeds_def)
  assume "depends es leaf f"
  then show "f \<in> dependent_facts leaf es"
  proof induction
    case (seed e)
    then have "e_id e \<in> redact_seeds leaf es" by (auto simp: redact_seeds_def)
    with closed(1) show ?case by blast
  next
    case (via e p)
    then have "e_id e \<in> redact_pass es (dependent_facts leaf es)" by (intro redact_pass_closed) auto
    with closed(2) show ?case by simp
  qed
qed

lemma redact_entry:
  "bt_get (l_entries (ledger_redact l leaf)) f =
     map_option (\<lambda>e. if depends (bt_values (l_entries l)) leaf (e_id e)
       then set_text TOMBSTONE (e\<lparr>e_evidence := Unverified, e_freshness := UnknownFresh\<rparr>) else e)
     (bt_get (l_entries l) f)"
  by (simp add: ledger_redact_def Let_def dependent_facts_iff)

section \<open>History\<close>

definition entry_later :: "entry \<Rightarrow> entry \<Rightarrow> bool" where
  "entry_later e e' \<longleftrightarrow>
     e_id e' = e_id e \<and> e_class e' = e_class e \<and> e_bindings e' = e_bindings e \<and>
     e_premises e' = e_premises e \<and> e_unconfirmed e' = e_unconfirmed e \<and>
     (e_retired e \<longrightarrow> e_retired e')"

definition ledger_later :: "ledger \<Rightarrow> ledger \<Rightarrow> bool" where
  "ledger_later l l' \<longleftrightarrow>
     l_params l' = l_params l \<and> l_attempts l \<le> l_attempts l' \<and> l_tool_results l \<subseteq> l_tool_results l' \<and>
     (\<forall>d v. bt_get (l_versions l) d = Some v \<longrightarrow> (\<exists>v'. bt_get (l_versions l') d = Some v' \<and> v \<le> v')) \<and>
     (\<forall>f e. bt_get (l_entries l) f = Some e \<longrightarrow> (\<exists>e'. bt_get (l_entries l') f = Some e' \<and> entry_later e e'))"

lemma entry_later_refl [simp]: "entry_later e e"
  by (simp add: entry_later_def)

lemma entry_later_trans: "entry_later a b \<Longrightarrow> entry_later b c \<Longrightarrow> entry_later a c"
  by (simp add: entry_later_def)

lemma ledger_later_refl [simp]: "ledger_later l l"
  by (simp add: ledger_later_def)

lemma ledger_laterD:
  assumes "ledger_later l l'"
  shows "bt_get (l_versions l) d = Some v \<Longrightarrow> \<exists>v'. bt_get (l_versions l') d = Some v' \<and> v \<le> v'"
    and "bt_get (l_entries l) f = Some e \<Longrightarrow> \<exists>e'. bt_get (l_entries l') f = Some e' \<and> entry_later e e'"
  using assms unfolding ledger_later_def by blast+

lemma ledger_later_trans:
  assumes ab: "ledger_later a b" and bc: "ledger_later b c"
  shows "ledger_later a c"
proof -
  have "\<exists>v''. bt_get (l_versions c) d = Some v'' \<and> v \<le> v''" if v: "bt_get (l_versions a) d = Some v" for d v
    using ledger_laterD(1) [OF ab v] ledger_laterD(1) [OF bc] order_trans by blast
  moreover have "\<exists>e''. bt_get (l_entries c) f = Some e'' \<and> entry_later e e''"
    if e: "bt_get (l_entries a) f = Some e" for f e
    using ledger_laterD(2) [OF ab e] ledger_laterD(2) [OF bc] entry_later_trans by blast
  moreover have "l_params c = l_params a" "l_attempts a \<le> l_attempts c" "l_tool_results a \<subseteq> l_tool_results c"
    using ab bc by (auto simp: ledger_later_def)
  ultimately show ?thesis by (simp add: ledger_later_def)
qed

lemma later_map:
  assumes "l_entries l' = bt_map_values g (l_entries l)" and "\<And>e. entry_later e (g e)"
    and "l_params l' = l_params l" "l_attempts l' = l_attempts l" "l_tool_results l \<subseteq> l_tool_results l'"
    and "\<And>d v. bt_get (l_versions l) d = Some v \<Longrightarrow> \<exists>v'. bt_get (l_versions l') d = Some v' \<and> v \<le> v'"
  shows "ledger_later l l'"
  using assms by (simp add: ledger_later_def)

lemma later_adjust:
  assumes "l_entries l' = bt_adjust f g (l_entries l)" and "\<And>e. entry_later e (g e)"
    and "l_params l' = l_params l" "l_attempts l' = l_attempts l" "l_tool_results l' = l_tool_results l"
    "l_versions l' = l_versions l"
  shows "ledger_later l l'"
  using assms by (auto simp: ledger_later_def)

lemma later_put:
  assumes "bt_get (l_entries l) (e_id e) = None" and "l_entries l' = bt_insert (e_id e) e (l_entries l)"
    and "l_params l' = l_params l" "l_attempts l' = l_attempts l" "l_tool_results l' = l_tool_results l"
    "l_versions l' = l_versions l"
  shows "ledger_later l l'"
  using assms by (auto simp: ledger_later_def)

lemma bt_extend_cases:
  "bt_get (bt_extend m n) k = bt_get m k \<or> (\<exists>v. (k, v) \<in> set n \<and> bt_get (bt_extend m n) k = Some v)"
  unfolding bt_extend_def
proof (induction n arbitrary: m)
  case (Cons kv n)
  from Cons.IH [of "bt_insert (fst kv) (snd kv) m"] show ?case
    by (cases kv) (auto split: if_splits)
qed simp

lemma invalidate_later:
  assumes "invalidate l r w = Inr l'"
  shows "ledger_later l l'"
proof (rule later_map [OF invalidate_Inr(1) [OF assms]])
  fix d v assume "bt_get (l_versions l) d = Some v"
  then show "\<exists>v'. bt_get (l_versions l') d = Some v' \<and> v \<le> v'"
    using bt_extend_cases [of "l_versions l" w d] invalidate_Inr(7) [OF assms, of d]
    by (fastforce simp: invalidate_Inr(4) [OF assms])
qed (use invalidate_Inr [OF assms] in \<open>auto simp: entry_later_def\<close>)

lemma retire_as_later [simp]: "entry_later e (retire_as n t e)"
  by (simp add: entry_later_def retire_as_def del: retire_as_alt)

lemma retire_later [simp]: "entry_later e (e\<lparr>e_retired := True\<rparr>)"
  by (simp add: entry_later_def)

lemma retire_all_later: "ledger_later l (foldl (retire_into c) l fs)"
proof (induction fs arbitrary: l)
  case (Cons f fs)
  have "ledger_later l (retire_into c l f)"
    by (rule later_adjust [where f = f and g = "retire_as (e_id c) (e_text c)"]) (simp_all add: retire_into_alt)
  with Cons.IH [of "retire_into c l f"] show ?case by (simp add: ledger_later_trans)
qed simp

lemma admit_obligation_later:
  assumes "admit_obligation l e g scopes = Inr l'"
  shows "ledger_later l l'"
  using admit_obligation_Inr [OF assms] check_entry_Inr(1) by (auto intro!: later_put)

lemma admit_convenience_later:
  assumes "admit_convenience l e scopes = Inr l'"
  shows "ledger_later l l'"
  using admit_convenience_Inr [OF assms] check_entry_Inr(1) by (auto intro!: later_put)

lemma discharge_later:
  assumes "discharge l f ev scopes = Inr l'"
  shows "ledger_later l l'"
  using assms
proof (rule discharge_Inr)
  fix g assume l': "l' = remove_conflicts (adjust_entry f g l) f"
    and g: "g = (\<lambda>e. e\<lparr>e_retired := True\<rparr>) \<or> (\<exists>n t. g = retire_as n t)"
  show ?thesis by (rule later_adjust [where f = f and g = g]) (use g in \<open>auto simp: l'\<close>)
qed

lemma amend_later:
  assumes "amend l f r p scopes = Inr l'"
  shows "ledger_later l l'"
  using assms
proof (rule amend_Inr)
  let ?m = "remove_conflicts (adjust_entry f (retire_as (e_id r) (e_text r)) l) f"
  assume check: "check_entry l r scopes = Inr ()" and l': "l' = record_conflicts (put_entry r ?m) r"
  have "ledger_later l ?m"
    by (rule later_adjust [where f = f and g = "retire_as (e_id r) (e_text r)"]) simp_all
  moreover have "ledger_later ?m l'"
    by (rule later_put [where e = r]) (use check_entry_Inr(1) [OF check] in \<open>auto simp: l'\<close>)
  ultimately show ?thesis by (rule ledger_later_trans)
qed

lemma consolidate_later:
  assumes "consolidate l facts c s reclaim scopes = Inr l'"
  shows "ledger_later l l'"
proof -
  have "ledger_later l (l\<lparr>l_attempts := l_attempts l + 1\<rparr>)" by (simp add: ledger_later_def)
  then show ?thesis
    using retire_all_later admit_obligation_later [OF consolidate_Inr(2) [OF assms]] ledger_later_trans by blast
qed

lemma adjust_later:
  "demote l f r = Inr l' \<Longrightarrow> ledger_later l l'"
  "decay l f u q = Inr l' \<Longrightarrow> ledger_later l l'"
  "promote l f src a s = Inr l' \<Longrightarrow> ledger_later l l'"
  "retract l f p = Inr l' \<Longrightarrow> ledger_later l l'"
  by (auto simp: demote_def decay_def promote_def retract_def Let_def entry_later_def split: if_splits
    intro!: later_adjust)

lemma map_later:
  "revalidate l ob = Inr l' \<Longrightarrow> ledger_later l l'"
  "ledger_later l (stale_demote l domains)"
  "ledger_later l (ledger_redact l leaf)"
proof -
  show "revalidate l ob = Inr l' \<Longrightarrow> ledger_later l l'"
    by (rule later_map [where g = "revalidate_entry (l_versions l) ob"])
      (auto simp: revalidate_def revalidate_entry_def entry_later_def Let_def split: if_splits)
qed (simp_all add: ledger_later_def stale_demote_def ledger_redact_def Let_def entry_later_def)

lemmas ledger_op_later = admit_obligation_later admit_convenience_later invalidate_later discharge_later
  consolidate_later amend_later adjust_later map_later

lemma ledger_apply_later: "ledger_apply l c q scopes = Inr l' \<Longrightarrow> ledger_later l l'"
  by (cases c) (auto simp: ledger_apply_def intro: ledger_op_later)

interpretation ledger_history: monotone_machine ledger_step ledger_later
  by unfold_locales (auto intro: ledger_later_trans ledger_apply_later)

section \<open>How an obligation ends\<close>

lemma retire_all_other:
  "f \<notin> set fs \<Longrightarrow> bt_get (l_entries (foldl (retire_into c) l fs)) f = bt_get (l_entries l) f"
  by (induction fs arbitrary: l) (simp_all add: retire_into_alt)

lemma admitted_live: "admit_obligation l e g scopes = Inr l' \<Longrightarrow> live_fact l' (e_id e)"
  using admit_obligation_Inr [of l e g scopes l'] check_entry_Inr(2) by (auto simp: live_fact_def)

text \<open>A live entry survives, live, every operation that does not name it.\<close>

lemma put_live:
  assumes "check_entry l e scopes = Inr u" and "l_entries l' = bt_insert (e_id e) e (l_entries l)"
    and "live_fact l f"
  shows "live_fact l' f"
  using assms(3) check_entry_Inr(1) [OF assms(1)] by (auto simp: live_fact_def assms(2))

lemma map_live:
  assumes "l_entries l' = bt_map_values g (l_entries l)" and "\<And>e. e_retired (g e) = e_retired e"
  shows "live_fact l' f \<longleftrightarrow> live_fact l f"
  by (auto simp: live_fact_def assms)

lemma freshness_live:
  "invalidate l r w = Inr l' \<Longrightarrow> live_fact l' f = live_fact l f"
  "revalidate l ob = Inr l' \<Longrightarrow> live_fact l' f = live_fact l f"
  "live_fact (stale_demote l domains) f = live_fact l f"
  "live_fact (ledger_redact l leaf) f = live_fact l f"
proof -
  show "invalidate l r w = Inr l' \<Longrightarrow> live_fact l' f = live_fact l f"
    by (rule map_live [OF invalidate_Inr(1)]) auto
  show "revalidate l ob = Inr l' \<Longrightarrow> live_fact l' f = live_fact l f"
    by (rule map_live [where g = "revalidate_entry (l_versions l) ob"])
      (auto simp: revalidate_def revalidate_entry_def Let_def split: if_splits)
  show "live_fact (stale_demote l domains) f = live_fact l f"
    by (rule map_live [where g = "\<lambda>e. if e_freshness e = Stale \<and> reads_any e (\<lambda>d. d \<in> domains)
      then e\<lparr>e_evidence := Unverified\<rparr> else e"]) (simp_all add: stale_demote_def)
  show "live_fact (ledger_redact l leaf) f = live_fact l f"
    by (rule map_live [where g = "\<lambda>e. if e_id e \<in> dependent_facts leaf (bt_values (l_entries l))
      then set_text TOMBSTONE (e\<lparr>e_evidence := Unverified, e_freshness := UnknownFresh\<rparr>) else e"])
      (simp_all add: ledger_redact_def Let_def)
qed

lemma adjust_live:
  "demote l g r = Inr l' \<Longrightarrow> live_fact l f \<Longrightarrow> live_fact l' f"
  "decay l g u q = Inr l' \<Longrightarrow> live_fact l f \<Longrightarrow> live_fact l' f"
  "promote l g src a s = Inr l' \<Longrightarrow> live_fact l f \<Longrightarrow> live_fact l' f"
  by (auto simp: demote_def decay_def promote_def Let_def live_fact_def split: if_splits)

lemma obligation_ends:
  assumes app: "ledger_apply l c q scopes = Inr l'" and e: "bt_get (l_entries l) f = Some e"
    "\<not> e_retired e" "e_class e = Obligation" and gone: "\<not> live_fact l' f"
  shows "(\<exists>ev. c = Discharge f ev \<and> discharge_allowed l e f scopes ev) \<or>
    (\<exists>facts comp s r. c = Consolidate facts comp s r \<and> f \<in> facts \<and> e_bindings e \<subseteq> e_bindings comp \<and>
      so_authority (e_source e) \<le> so_authority (e_source comp) \<and>
      supported s (e_id comp) (e_text comp) \<and> live_fact l' (e_id comp))"
proof -
  from e have live: "live_fact l f" by (simp add: live_fact_def)
  show ?thesis
proof (cases c)
  case (AdmitObligation x g)
  with app have "admit_obligation l x g scopes = Inr l'" by (simp add: ledger_apply_def)
  from put_live [OF admit_obligation_Inr(1) [OF this] _ live] admit_obligation_Inr(3) [OF this] gone
  show ?thesis by simp
next
  case (AdmitConvenience x)
  with app have "admit_convenience l x scopes = Inr l'" by (simp add: ledger_apply_def)
  from put_live [OF admit_convenience_Inr(1) [OF this] _ live] admit_convenience_Inr(2) [OF this] gone
  show ?thesis by simp
next
  case (Discharge g ev)
  with app have d: "discharge l g ev scopes = Inr l'" by (simp add: ledger_apply_def)
  obtain x h where x: "ledger_live l g = Inr x" "discharge_allowed l x g scopes ev"
    "l' = remove_conflicts (adjust_entry g h l) g" by (rule discharge_Inr [OF d])
  with e gone have "g = f" by (auto simp: live_fact_def split: if_splits)
  with x(1,2) e Discharge show ?thesis by (auto simp: ledger_live_Inr)
next
  case (Consolidate facts comp s r)
  with app have k: "consolidate l facts comp s r scopes = Inr l'" by (simp add: ledger_apply_def)
  note k2 = consolidate_Inr(2) [OF k]
  have "f \<in> facts"
  proof (rule ccontr)
    assume "f \<notin> facts"
    with consolidate_Inr(3) [OF k] e have "live_fact (foldl (retire_into comp)
        (l\<lparr>l_attempts := l_attempts l + 1\<rparr>) (sorted_list_of_set facts)) f"
      by (simp add: live_fact_def retire_all_other)
    then show False
      using put_live [OF admit_obligation_Inr(1) [OF k2]] admit_obligation_Inr(3) [OF k2] gone by simp
  qed
  with consolidate_Inr(5) [OF k this] e consolidate_Inr(4) [OF k] admitted_live [OF k2] Consolidate
  show ?thesis by (auto simp: ledger_live_Inr)
next
  case (Amend g r p)
  with app have "amend l g r p scopes = Inr l'" by (simp add: ledger_apply_def)
  then obtain old where "ledger_live l g = Inr old" "e_class old = Convenience"
    "check_entry l r scopes = Inr ()" "l' = record_conflicts (put_entry r
      (remove_conflicts (adjust_entry g (retire_as (e_id r) (e_text r)) l) g)) r"
    by (rule amend_Inr)
  moreover from this(1,2) e have "g \<noteq> f" by (auto simp: ledger_live_Inr)
  ultimately show ?thesis using e gone check_entry_Inr(1) by (auto simp: live_fact_def split: if_splits)
next
  case (Retract g p)
  with app e gone show ?thesis
    by (auto simp: ledger_apply_def retract_def ledger_live_Inr live_fact_def split: if_splits)
qed (use app gone live in \<open>auto simp: ledger_apply_def freshness_live dest: adjust_live\<close>)
qed

end
