(* ===== verification/LedgerProperties.thy ===== *)
theory LedgerProperties
  imports LedgerHistory
begin

text \<open>
  The properties of the fact ledger.  The witnesses run one obligation through its life: admitted in an
  open scope, and discharged once the scope is closed.
\<close>

section \<open>A concrete ledger\<close>

abbreviation demo_scopes :: "scope_state \<Rightarrow> scope_registry" where
  "demo_scopes st \<equiv>
     \<lparr>sr_scopes = [\<lparr>sc_id = 1, sc_parent = None, sc_state = st, sc_opened_sequence = 1,
        sc_closed_sequence = None, sc_last_item_sequence = 1\<rparr>], sr_idleness_window = 32\<rparr>"

abbreviation demo_fact :: fact_id where
  "demo_fact \<equiv> FactId ''build'' ''must pass'' 1"

abbreviation demo_entry :: entry where
  "demo_entry \<equiv>
     \<lparr>e_id = demo_fact, e_class = Obligation, e_kind = Normative,
      e_source = \<lparr>so_leaf = ''leaf-1'', so_authority = UserAuthority, so_origin = IngressOrigin, so_scope = 1\<rparr>,
      e_freshness = CurrentFresh, e_evidence = Verified, e_unconfirmed = False, e_utility = 0,
      e_usage = \<lparr>us_accesses = 0, us_reuses = 0, us_age_windows = 0\<rparr>, e_read_set = [], e_premises = {},
      e_bindings = {''leaf-2''}, e_fold = \<lparr>cf_text = ''the build must pass'', cf_depth = 0\<rparr>, e_rendered = True,
      e_retired = False, e_last_decay = 0, e_superseded_by = None\<rparr>"

abbreviation demo_inputs :: "ledger_input list" where
  "demo_inputs \<equiv> [(AdmitObligation demo_entry ObligationGrammar, 2, demo_scopes Open)]"

lemmas ledger_eval = ledger_apply_def admit_obligation_def check_entry_def check_obligation_bound_def
  obligation_bytes_def scope_is_open_def scope_is_closed_def scope_state_of_def scope_lookup_def is_open_def
  ledger_default_def default_params_def utility_valid_def utility_of_def UTILITY_ONE_def bt_contains_def
  record_conflicts_def saturating_add_def saturating_sub_def sum64_def less_eq_authority_def less_authority_def
  discharge_def ledger_live_def ledger_entry_def remove_conflicts_def

lemma demo_run: "\<exists>l. run_steps ledger_step ledger_default demo_inputs = Inr l"
  by (simp add: ledger_eval)

section \<open>Properties\<close>

text \<open>C28: after any sequence of accepted commands the ledger is within its bounds: live entries within
  the capacity, unconfirmed obligations within theirs; every entry is filed under its own fact, carries
  the utility its usage earns, is verified if it is current, and is retired if it is superseded; every
  obligation is normative and came from ingress with more than environment authority; and every
  surfaced conflict names two live facts.\<close>

theorem ledger_within_bounds:
  assumes "run_steps ledger_step ledger_default inputs = Inr l"
  shows "length (live_entries l) \<le> pa_capacity (l_params l) \<and>
    length (filter e_unconfirmed (live_obligations l)) \<le> pa_unconfirmed_capacity (l_params l) \<and>
    (\<forall>f e. ledger_entry l f = Some e \<longrightarrow> e_id e = f \<and> entry_ok (l_params l) e) \<and>
    (\<forall>c \<in> l_conflicts l. \<forall>f. mentions f c \<longrightarrow> is_ok (ledger_live l f))"
proof -
  have ok: "ledger_ok l" by (rule ledgers.run_keeps [OF ledger_ok_default assms])
  then have e: "entries_ok l" and c: "conflicts_live l" by (simp_all add: ledger_ok_def)
  from c have "is_ok (ledger_live l f)" if "x \<in> l_conflicts l" "mentions f x" for f x
    using that ledger_live_Inr by (auto simp: conflicts_live_def live_fact_def is_ok_iff)
  moreover have "e_id x = f \<and> entry_ok (l_params l) x" if "ledger_entry l f = Some x" for f x
    using that entries_ok_id [OF e] entries_ok_entry [OF e] by (simp add: ledger_entry_def)
  moreover have "length (live_entries l) \<le> pa_capacity (l_params l)"
    "length (filter e_unconfirmed (live_obligations l)) \<le> pa_unconfirmed_capacity (l_params l)"
    using e unfolding live_counts entries_ok_def by blast+
  ultimately show ?thesis by blast
qed

theorem ledger_within_bounds_witness:
  "\<exists>l. run_steps ledger_step ledger_default demo_inputs = Inr l \<and>
     length (live_entries l) \<le> pa_capacity (l_params l)"
  using demo_run ledger_within_bounds [where inputs = demo_inputs] by blast

text \<open>As long as no leaf is redacted, the texts of the live obligations together stay within the
  protection bytes.\<close>

lemma obligations_within_protection:
  assumes "run_steps ledger_step ledger_default inputs = Inr l"
    and "\<forall>(c, q, scopes) \<in> set inputs. \<forall>leaf. c \<noteq> RedactLeaf leaf"
  shows "sum_list (map (\<lambda>e. length (e_text e)) (live_obligations l)) \<le> pa_protection_bytes (l_params l)"
proof -
  have "bytes_ok l'" if "bytes_ok m" "run_steps ledger_step m inputs = Inr l'" for m l'
    using that assms(2)
  proof (induction inputs arbitrary: m)
    case (Cons x inputs)
    obtain c q scopes where x: "x = (c, q, scopes)" by (cases x) auto
    from Cons.prems(2) x obtain m' where m': "ledger_apply m c q scopes = Inr m'"
      and rest: "run_steps ledger_step m' inputs = Inr l'" by auto
    have "bytes_ok m'" by (rule ledger_apply_bytes [OF Cons.prems(1) m']) (use Cons.prems(3) x in auto)
    from Cons.IH [OF this rest] Cons.prems(3) show ?case by auto
  qed simp
  from this [OF bytes_ok_default assms(1)] show ?thesis by (simp add: bytes_ok_def live_counts(3))
qed

text \<open>C26: history is never lost: whatever commands are accepted, a recorded fact stays recorded with its
  class, bindings and premises, a retired one stays retired, accepted tool results stay known, and the
  version of a domain never decreases.\<close>

theorem ledger_history_kept:
  assumes "run_steps ledger_step l inputs = Inr l'"
  shows "(\<forall>f e. ledger_entry l f = Some e \<longrightarrow> (\<exists>e'. ledger_entry l' f = Some e' \<and> e_class e' = e_class e \<and>
      e_bindings e' = e_bindings e \<and> e_premises e' = e_premises e \<and> (e_retired e \<longrightarrow> e_retired e'))) \<and>
    (\<forall>d v. bt_get (l_versions l) d = Some v \<longrightarrow> (\<exists>v'. bt_get (l_versions l') d = Some v' \<and> v \<le> v')) \<and>
    l_tool_results l \<subseteq> l_tool_results l'"
proof -
  have "ledger_later l l'" by (rule ledger_history.run_below [OF assms])
  then show ?thesis
    unfolding ledger_later_def ledger_entry_def entry_later_def by blast
qed

theorem ledger_history_kept_witness:
  "\<exists>l. run_steps ledger_step ledger_default demo_inputs = Inr l \<and>
     l_tool_results ledger_default \<subseteq> l_tool_results l"
  using demo_run ledger_history_kept [where inputs = demo_inputs and l = ledger_default] by blast

text \<open>C24: an obligation ends only by a discharge whose evidence is accepted, or by a consolidation into a
  supported entry of at least its authority that carries its bindings and is live afterwards.  No decay,
  demotion, retraction, amendment, invalidation or redaction removes it.\<close>

theorem obligation_ends_only_by_evidence:
  assumes "ledger_apply l c q scopes = Inr l'" and "ledger_live l f = Inr e" and "e_class e = Obligation"
    and "\<not> is_ok (ledger_live l' f)"
  shows "(\<exists>ev. c = Discharge f ev \<and> discharge_allowed l e f scopes ev) \<or>
    (\<exists>facts comp s r. c = Consolidate facts comp s r \<and> f \<in> facts \<and> e_bindings e \<subseteq> e_bindings comp \<and>
      so_authority (e_source e) \<le> so_authority (e_source comp) \<and>
      supported s (e_id comp) (e_text comp) \<and> is_ok (ledger_live l' (e_id comp)))"
proof -
  have live: "is_ok (ledger_live m g) \<longleftrightarrow> live_fact m g" for m g
    by (auto simp: is_ok_iff ledger_live_Inr live_fact_def)
  show ?thesis
    using obligation_ends [OF assms(1), of f e] assms(2-4) by (simp add: ledger_live_Inr live)
qed

theorem obligation_ends_only_by_evidence_witness:
  "\<exists>l l' e ev. run_steps ledger_step ledger_default demo_inputs = Inr l \<and>
     ledger_apply l (Discharge demo_fact ScopeClosedEvidence) 3 (demo_scopes ClosedByEvent) = Inr l' \<and>
     ledger_live l demo_fact = Inr e \<and> \<not> is_ok (ledger_live l' demo_fact) \<and>
     Discharge demo_fact ScopeClosedEvidence = Discharge demo_fact ev \<and>
     discharge_allowed l e demo_fact (demo_scopes ClosedByEvent) ev"
proof -
  obtain l where l: "run_steps ledger_step ledger_default demo_inputs = Inr l" using demo_run by blast
  obtain l' e where d: "ledger_apply l (Discharge demo_fact ScopeClosedEvidence) 3 (demo_scopes ClosedByEvent) = Inr l'"
    and e: "ledger_live l demo_fact = Inr e" "e_class e = Obligation" and gone: "\<not> is_ok (ledger_live l' demo_fact)"
    using l by (auto simp: ledger_eval)
  from obligation_ends_only_by_evidence [OF d e gone] l d e gone show ?thesis by auto
qed

text \<open>Redacting a leaf reaches exactly the facts that rest on it, directly or through premises, at any
  distance: their text becomes the tombstone and they lose freshness and verification; every other entry
  is unchanged.  The loop that computes the reach ends.\<close>

lemma redaction_reaches_dependents:
  "ledger_entry (ledger_redact l leaf) f =
     (case ledger_entry l f of
        None \<Rightarrow> None
      | Some e \<Rightarrow>
          if depends (bt_values (l_entries l)) leaf (e_id e)
          then Some (set_text TOMBSTONE (e\<lparr>e_evidence := Unverified, e_freshness := UnknownFresh\<rparr>))
          else Some e)"
  by (simp add: ledger_entry_def redact_entry split: option.splits)

end
