(* ===== verification/Security.thy ===== *)
theory Security
  imports LedgerTypes
begin

text \<open>
  The authenticated security lifecycle of \<^verbatim>\<open>src/context_kernel/security/\<close>: pins, escalations and
  erasures (\<open>state.rs\<close>), and the delegated configuration and retrieval floor of \<open>authority.rs\<close>.
  \<open>hash\<close>, the SHA-256 of the \<open>sha2\<close> crate, is an argument of the definitions that call it.
\<close>

section \<open>State\<close>

record pin =
  pn_item :: u64
  pn_owner :: source
  pn_expires :: u64

record escalation =
  es_id :: string
  es_operator :: source
  es_before :: u64
  es_after :: u64
  es_envelope_ceiling :: u64
  es_complete :: bool

record erasure =
  er_leaf :: string
  er_vault_handle :: string
  er_post_checkpoint :: string
  er_pre_hashes_unverifiable :: bool

datatype security_event =
    PinEvent pin
  | UnpinEvent u64 source
  | ExpireEvent u64
  | EscalatePending escalation
  | EscalateComplete string source
  | EraseEvent erasure

fun security_operation :: "security_event \<Rightarrow> string" where
  "security_operation (PinEvent p) = ''pin''"
| "security_operation (UnpinEvent i s) = ''unpin''"
| "security_operation (ExpireEvent q) = ''expire-pin''"
| "security_operation (EscalatePending r) = ''escalate-pending''"
| "security_operation (EscalateComplete i s) = ''escalate-complete''"
| "security_operation (EraseEvent e) = ''redact''"

datatype security_error =
    QuotingError | AuthorityError | DelegationError | PinError | EscalationError | ErasureError

record security_state =
  ss_pins :: "(u64, pin) btree"
  ss_escalations :: "(string, escalation) btree"
  ss_erased :: "(string, erasure) btree"

definition PIN_CAP :: nat where "PIN_CAP = 32"
definition PIN_TTL :: u64 where "PIN_TTL = 32"

definition security_default :: security_state where
  "security_default = \<lparr>ss_pins = [], ss_escalations = [], ss_erased = []\<rparr>"

definition revoke_item :: "security_state \<Rightarrow> u64 \<Rightarrow> security_state" where
  "revoke_item s i = s\<lparr>ss_pins := bt_remove i (ss_pins s)\<rparr>"

definition is_principal :: "source \<Rightarrow> bool" where
  "is_principal s \<longleftrightarrow> so_origin s = IngressOrigin \<and> AgentAuthority \<le> so_authority s \<and> so_leaf s \<noteq> []"

definition is_operator :: "source \<Rightarrow> bool" where
  "is_operator s \<longleftrightarrow> is_principal s \<and> so_authority s = OperatorAuthority"

definition hash_char :: "char \<Rightarrow> bool" where
  "hash_char c \<longleftrightarrow> (CHR ''0'' \<le> c \<and> c \<le> CHR ''9'') \<or> (CHR ''a'' \<le> c \<and> c \<le> CHR ''f'')"

definition valid_hash :: "string \<Rightarrow> bool" where
  "valid_hash v \<longleftrightarrow> length v = 64 \<and> list_all hash_char v"

definition pending :: "security_state \<Rightarrow> escalation \<Rightarrow> security_error + security_state" where
  "pending s r =
     (if es_id r = [] \<or> 256 \<le> length (ss_escalations s) \<or> bt_contains (ss_escalations s) (es_id r) \<or>
         es_complete r \<or> \<not> is_operator (es_operator r) \<or> es_after r \<le> es_before r \<or>
         es_envelope_ceiling r < es_after r
      then Inl EscalationError
      else Inr (s\<lparr>ss_escalations := bt_insert (es_id r) r (ss_escalations s)\<rparr>))"

fun security_apply ::
  "security_state \<Rightarrow> security_event \<Rightarrow> u64 \<Rightarrow> u64 set \<Rightarrow> security_error + security_state" where
  "security_apply s (PinEvent p) sequence placed =
     (if PIN_CAP \<le> length (ss_pins s) \<or> bt_contains (ss_pins s) (pn_item p) \<or> pn_item p \<notin> placed \<or>
         \<not> is_principal (pn_owner p) \<or> pn_expires p \<le> sequence \<or>
         saturating_add sequence PIN_TTL < pn_expires p
      then Inl PinError
      else Inr (s\<lparr>ss_pins := bt_insert (pn_item p) p (ss_pins s)\<rparr>))"
| "security_apply s (UnpinEvent i owner) sequence placed =
     (if \<not> (case bt_get (ss_pins s) i of None \<Rightarrow> False | Some p \<Rightarrow> pn_owner p = owner)
      then Inl PinError
      else Inr (s\<lparr>ss_pins := bt_remove i (ss_pins s)\<rparr>))"
| "security_apply s (ExpireEvent expiry) sequence placed =
     (if sequence < expiry then Inl PinError
      else Inr (s\<lparr>ss_pins := bt_retain (\<lambda>i p. sequence < pn_expires p) (ss_pins s)\<rparr>))"
| "security_apply s (EscalatePending r) sequence placed = pending s r"
| "security_apply s (EscalateComplete i operator) sequence placed =
     res_bind (ok_or (bt_get (ss_escalations s) i) EscalationError) (\<lambda>r.
       if es_complete r \<or> es_operator r \<noteq> operator then Inl EscalationError
       else Inr (s\<lparr>ss_escalations := bt_adjust i (\<lambda>r. r\<lparr>es_complete := True\<rparr>) (ss_escalations s)\<rparr>))"
| "security_apply s (EraseEvent e) sequence placed =
     (if er_leaf e = [] \<or> er_vault_handle e = [] \<or> \<not> valid_hash (er_post_checkpoint e) \<or>
         \<not> er_pre_hashes_unverifiable e \<or> bt_contains (ss_erased s) (er_leaf e)
      then Inl ErasureError
      else Inr (s\<lparr>ss_erased := bt_insert (er_leaf e) e (ss_erased s)\<rparr>))"

section \<open>Delegated configuration\<close>

record delegation =
  dg_path :: string
  dg_digest :: string
  dg_scope :: u64
  dg_authority :: authority

type_synonym delegated_config = "(string, delegation) btree"

text \<open>The segments of a path between its slashes.  The components of a relative path are its
  non-empty segments; a leading slash is the root component, a leading \<^verbatim>\<open>.\<close> segment the current
  directory, later \<^verbatim>\<open>.\<close> segments are dropped, and \<^verbatim>\<open>..\<close> is the parent directory.\<close>

fun path_segments :: "string \<Rightarrow> string \<Rightarrow> string list" where
  "path_segments acc [] = [rev acc]"
| "path_segments acc (c # cs) =
     (if c = CHR ''/'' then rev acc # path_segments [] cs else path_segments (c # acc) cs)"

definition normal_components :: "string \<Rightarrow> bool" where
  "normal_components path \<longleftrightarrow>
     (case path_segments [] path of
        [] \<Rightarrow> True
      | first # rest \<Rightarrow>
          (first = [] \<longrightarrow> rest = []) \<and> first \<noteq> ''.'' \<and> list_all (\<lambda>s. s \<noteq> ''..'') (first # rest))"

definition valid_path :: "string \<Rightarrow> bool" where
  "valid_path path \<longleftrightarrow>
     path \<noteq> [] \<and> length path \<le> 4096 \<and> CHR 0x00 \<notin> set path \<and> normal_components path"

fun add_files :: "source \<Rightarrow> delegated_config \<Rightarrow> delegation list \<Rightarrow> security_error + delegated_config" where
  "add_files operator cfg [] = Inr cfg"
| "add_files operator cfg (f # fs) =
     (if \<not> valid_path (dg_path f) \<or> \<not> valid_hash (dg_digest f) \<or> dg_scope f \<noteq> so_scope operator \<or>
         so_authority operator < dg_authority f \<or> bt_contains cfg (dg_path f)
      then Inl DelegationError
      else add_files operator (bt_insert (dg_path f) f cfg) fs)"

definition from_envelope ::
  "(source \<Rightarrow> bool) \<Rightarrow> delegation list \<Rightarrow> source \<Rightarrow> security_error + delegated_config" where
  "from_envelope operator_authenticated files operator =
     (if so_authority operator \<noteq> OperatorAuthority \<or> so_origin operator \<noteq> IngressOrigin \<or>
         \<not> operator_authenticated operator \<or> 256 < length files
      then Inl AuthorityError
      else add_files operator [] files)"

definition resolve_config ::
  "(byte list \<Rightarrow> string) \<Rightarrow> delegated_config \<Rightarrow> string \<Rightarrow> byte list \<Rightarrow> u64 \<Rightarrow> security_error + authority" where
  "resolve_config hash cfg path bytes sc =
     res_bind (ok_or (bt_get cfg path) DelegationError) (\<lambda>f.
       if dg_scope f \<noteq> sc \<or> dg_digest f \<noteq> hash bytes then Inl DelegationError
       else Inr (dg_authority f))"

section \<open>The retrieval floor\<close>

fun take_ranked :: "nat \<Rightarrow> string list \<Rightarrow> string list \<Rightarrow> string list" where
  "take_ranked cap result [] = result"
| "take_ranked cap result (i # ids) =
     (if cap \<le> length result then result
      else take_ranked cap (if i \<notin> set result then result @ [i] else result) ids)"

definition retrieval_candidates ::
  "string set \<Rightarrow> string list \<Rightarrow> nat \<Rightarrow> security_error + string list" where
  "retrieval_candidates floor ranked cap =
     (if cap < card floor then Inl PinError
      else Inr (take_ranked cap (sorted_list_of_set floor) ranked))"

section \<open>The invariant\<close>

definition pin_ok :: "u64 \<Rightarrow> pin \<Rightarrow> bool" where
  "pin_ok i p \<longleftrightarrow> pn_item p = i \<and> is_principal (pn_owner p)"

definition escalation_ok :: "string \<Rightarrow> escalation \<Rightarrow> bool" where
  "escalation_ok i r \<longleftrightarrow>
     es_id r = i \<and> is_operator (es_operator r) \<and> es_before r < es_after r \<and>
     es_after r \<le> es_envelope_ceiling r"

definition security_ok :: "security_state \<Rightarrow> bool" where
  "security_ok s \<longleftrightarrow>
     bt_ok (ss_pins s) \<and> bt_ok (ss_escalations s) \<and> bt_ok (ss_erased s) \<and>
     length (ss_pins s) \<le> PIN_CAP \<and> length (ss_escalations s) \<le> 256 \<and>
     (\<forall>i p. bt_get (ss_pins s) i = Some p \<longrightarrow> pin_ok i p) \<and>
     (\<forall>i r. bt_get (ss_escalations s) i = Some r \<longrightarrow> escalation_ok i r)"

lemma security_ok_default [simp]: "security_ok security_default"
  by (simp add: security_ok_def security_default_def PIN_CAP_def)

lemma length_filter_Suc_le: "length xs \<le> n \<Longrightarrow> length (filter P xs) \<le> n"
  using length_filter_le order_trans by blast

lemma security_apply_ok:
  assumes "security_ok s" and "security_apply s ev q placed = Inr s'"
  shows "security_ok s'"
proof (cases ev)
  case (PinEvent p)
  with assms show ?thesis
    by (auto simp: security_ok_def pin_ok_def bt_contains_def length_insert_absent PIN_CAP_def split: if_splits)
next
  case (UnpinEvent i owner)
  with assms show ?thesis
    by (auto simp: security_ok_def bt_remove_def [of i "ss_pins s", THEN arg_cong [of _ _ length]]
      length_filter_Suc_le split: if_splits)
next
  case (ExpireEvent e)
  with assms show ?thesis
    by (auto simp: security_ok_def get_retain bt_retain_def [THEN arg_cong [of _ _ length]]
      length_filter_Suc_le split: if_splits option.splits)
next
  case (EscalatePending r)
  with assms show ?thesis
    by (auto simp: security_ok_def pending_def escalation_ok_def bt_contains_def length_insert_absent
      split: if_splits)
next
  case (EscalateComplete i op)
  with assms show ?thesis
    by (auto simp: security_ok_def escalation_ok_def split: if_splits)
next
  case (EraseEvent e)
  with assms show ?thesis by (auto simp: security_ok_def split: if_splits)
qed

lemma revoke_item_ok: "security_ok s \<Longrightarrow> security_ok (revoke_item s i)"
  by (auto simp: security_ok_def revoke_item_def bt_remove_def [of i "ss_pins s", THEN arg_cong [of _ _ length]]
    length_filter_Suc_le split: if_splits)

type_synonym security_input = "security_event \<times> u64 \<times> u64 set"

fun security_step :: "security_state \<Rightarrow> security_input \<Rightarrow> security_error + security_state" where
  "security_step s (ev, q, placed) = security_apply s ev q placed"

interpretation securities: guarded_machine security_step security_ok
  by unfold_locales (auto dest: security_apply_ok)

section \<open>Lifecycle laws\<close>

text \<open>A pin leaves only by its owner's release or by expiry.\<close>

lemma pin_leaves:
  assumes "security_ok s" and "security_apply s ev q placed = Inr s'"
    and "bt_get (ss_pins s) i = Some p" and "bt_get (ss_pins s') i \<noteq> Some p"
  shows "ev = UnpinEvent i (pn_owner p) \<or> (\<exists>e. ev = ExpireEvent e \<and> e \<le> q \<and> pn_expires p \<le> q)"
  using assms(2-4)
proof (cases ev)
  case (UnpinEvent j owner)
  with assms(2-4) show ?thesis by (auto split: if_splits)
next
  case (ExpireEvent e)
  with assms show ?thesis by (auto simp: security_ok_def get_retain split: if_splits)
qed (auto simp: pending_def bt_contains_def split: if_splits)

text \<open>What a later state keeps: escalations and erasures stay, a completed escalation stays complete.\<close>

definition escalation_later :: "escalation \<Rightarrow> escalation \<Rightarrow> bool" where
  "escalation_later r r' \<longleftrightarrow> r' = r \<or> r' = r\<lparr>es_complete := True\<rparr>"

definition security_later :: "security_state \<Rightarrow> security_state \<Rightarrow> bool" where
  "security_later s s' \<longleftrightarrow>
     (\<forall>i r. bt_get (ss_escalations s) i = Some r \<longrightarrow>
        (\<exists>r'. bt_get (ss_escalations s') i = Some r' \<and> escalation_later r r')) \<and>
     (\<forall>f e. bt_get (ss_erased s) f = Some e \<longrightarrow> bt_get (ss_erased s') f = Some e)"

lemma escalation_later_refl [simp]: "escalation_later r r"
  by (simp add: escalation_later_def)

lemma escalation_later_trans: "escalation_later a b \<Longrightarrow> escalation_later b c \<Longrightarrow> escalation_later a c"
  by (auto simp: escalation_later_def)

lemma security_later_refl [simp]: "security_later s s"
  by (simp add: security_later_def)

lemma security_later_trans: "security_later a b \<Longrightarrow> security_later b c \<Longrightarrow> security_later a c"
  unfolding security_later_def by (auto; metis escalation_later_trans)

lemma security_apply_later: "security_apply s ev q placed = Inr s' \<Longrightarrow> security_later s s'"
  by (cases ev) (auto simp: security_later_def escalation_later_def pending_def bt_contains_def split: if_splits)

interpretation security_history: monotone_machine security_step security_later
  by unfold_locales (auto intro: security_later_trans security_apply_later)

lemma take_ranked_spec:
  assumes "length result \<le> cap" and "distinct result"
  shows "\<exists>tail. take_ranked cap result ids = result @ tail \<and> set tail \<subseteq> set ids \<and>
    distinct (result @ tail) \<and> length (result @ tail) \<le> cap"
  using assms
proof (induction ids arbitrary: result)
  case (Cons i ids)
  show ?case
  proof (cases "cap \<le> length result \<or> i \<in> set result")
    case True
    with Cons show ?thesis by fastforce
  next
    case False
    with Cons.prems have "length (result @ [i]) \<le> cap" "distinct (result @ [i])" by auto
    from Cons.IH [OF this] False show ?thesis by fastforce
  qed
qed simp

end
