(* ===== verification/Branches.thy ===== *)
theory Branches
  imports Security
begin

text \<open>
  Read-only branch namespaces: \<^verbatim>\<open>src/context_kernel/branch/\<close>.  \<open>branches_ok\<close> is the contract: nesting
  and concurrency stay within every active branch's own limits, spends within their allotments,
  only read-only tools run, and a parent stays active as long as a child is.
\<close>

section \<open>Definitions\<close>

record tool_contract =
  tc_name :: string
  tc_read_only :: bool
  tc_reads :: "string set"
  tc_writes :: "string set"

definition permits_branch :: "tool_contract \<Rightarrow> bool" where
  "permits_branch t \<longleftrightarrow>
     tc_read_only t \<and> tc_writes t = {} \<and>
     tc_name t \<in> {''read_file'', ''list_directory'', ''search_file_content''}"

record limits =
  lm_depth :: nat
  lm_concurrency :: nat
  lm_context :: u64
  lm_management :: u64

definition default_limits :: limits where
  "default_limits = \<lparr>lm_depth = 4, lm_concurrency = 4, lm_context = 65536, lm_management = 1000000\<rparr>"

record spawn =
  sp_namespace :: string
  sp_parent :: "string option"
  sp_parent_version :: u64
  sp_scope :: u64
  sp_constitutional :: "(string, string) btree"
  sp_notes :: "string set"
  sp_limits :: limits
  sp_tools :: "tool_contract list"

record branch_round =
  rd_call :: string
  rd_tool :: string
  rd_reads :: "(string, u64) btree"
  rd_store_handle :: string
  rd_context_spend :: u64
  rd_management_spend :: u64
  rd_complete :: bool

datatype return_status = CurrentEvidence | SuggestionNeedsRevalidation

record branch_return =
  rt_handle :: string
  rt_digest :: string
  rt_status :: return_status
  rt_revalidate :: "string set"

record branch =
  br_spawn :: spawn
  br_depth :: nat
  br_rounds :: "branch_round list"
  br_reads :: "(string, u64) btree"
  br_context_spend :: u64
  br_management_spend :: u64
  br_returned :: "branch_return option"
  br_aborted :: bool

definition branch_active :: "branch \<Rightarrow> bool" where
  "branch_active b \<longleftrightarrow> \<not> br_aborted b \<and> br_returned b = None"

datatype branch_event =
    BranchOpen spawn
  | BranchRound string branch_round
  | BranchReturn string branch_return
  | BranchAbort string

fun branch_operation :: "branch_event \<Rightarrow> string" where
  "branch_operation (BranchOpen s) = ''branch-open''"
| "branch_operation (BranchReturn n r) = ''branch-return''"
| "branch_operation (BranchRound n r) = ''admit-observation''"
| "branch_operation (BranchAbort n) = ''branch-abort''"

datatype branch_error = BNamespace | BConstitution | BLimit | BTool | BReceipt

type_synonym branch_state = "(string, branch) btree"

definition active_slots :: "branch_state \<Rightarrow> nat" where
  "active_slots s = length (filter branch_active (bt_values s))"

definition branch_live :: "branch_state \<Rightarrow> string \<Rightarrow> branch_error + branch" where
  "branch_live s n =
     ok_or (case bt_get s n of None \<Rightarrow> None | Some b \<Rightarrow> if branch_active b then Some b else None) BNamespace"

definition no_children :: "branch_state \<Rightarrow> string \<Rightarrow> branch_error + unit" where
  "no_children s n =
     ensure (\<not> list_ex (\<lambda>b. branch_active b \<and> sp_parent (br_spawn b) = Some n) (bt_values s)) BNamespace"

definition check_limits :: "branch_state \<Rightarrow> limits \<Rightarrow> branch_error + unit" where
  "check_limits s lm =
     (if lm_depth lm = 0 \<or> lm_depth default_limits < lm_depth lm \<or>
         lm_concurrency lm = 0 \<or> lm_concurrency default_limits < lm_concurrency lm \<or>
         lm_context lm = 0 \<or> lm_context default_limits < lm_context lm \<or>
         lm_management lm = 0 \<or> lm_management default_limits < lm_management lm \<or>
         lm_concurrency lm \<le> active_slots s \<or>
         list_ex (\<lambda>b. branch_active b \<and> lm_concurrency (sp_limits (br_spawn b)) \<le> active_slots s)
           (bt_values s)
      then Inl BLimit else Inr ())"

definition open_depth :: "branch_state \<Rightarrow> spawn \<Rightarrow> branch_error + nat" where
  "open_depth s sp =
     (case sp_parent sp of
        None \<Rightarrow> Inr 1
      | Some p \<Rightarrow> res_bind (branch_live s p) (\<lambda>parent.
          let lm = sp_limits sp; pl = sp_limits (br_spawn parent)
          in if lm_depth pl < lm_depth lm \<or> lm_concurrency pl < lm_concurrency lm \<or>
               lm_context pl < lm_context lm \<or> lm_management pl < lm_management lm
             then Inl BLimit else Inr (br_depth parent + 1)))"

definition new_branch :: "spawn \<Rightarrow> nat \<Rightarrow> branch" where
  "new_branch sp d =
     \<lparr>br_spawn = sp, br_depth = d, br_rounds = [], br_reads = [], br_context_spend = 0,
      br_management_spend = 0, br_returned = None, br_aborted = False\<rparr>"

definition branch_open ::
  "branch_state \<Rightarrow> spawn \<Rightarrow> (string, string) btree \<Rightarrow> branch_error + branch_state" where
  "branch_open s sp constitution =
     (if sp_namespace sp = [] \<or> 256 < length (sp_namespace sp) \<or> sp_parent_version sp = 0 \<or>
         bt_contains s (sp_namespace sp) \<or> 4096 \<le> length s
      then Inl BNamespace
      else if sp_constitutional sp \<noteq> constitution then Inl BConstitution
      else if sp_tools sp = [] \<or> list_ex (\<lambda>t. \<not> permits_branch t) (sp_tools sp) \<or>
        card (set (map tc_name (sp_tools sp))) \<noteq> length (sp_tools sp)
      then Inl BTool
      else res_bind (check_limits s (sp_limits sp)) (\<lambda>_.
           res_bind (open_depth s sp) (\<lambda>d.
             if lm_depth (sp_limits sp) < d then Inl BLimit
             else Inr (bt_insert (sp_namespace sp) (new_branch sp d) s))))"

definition branch_round_op :: "branch_state \<Rightarrow> string \<Rightarrow> branch_round \<Rightarrow> branch_error + branch_state" where
  "branch_round_op s n r =
     res_bind (branch_live s n) (\<lambda>b.
     res_bind (ok_or (find (\<lambda>t. tc_name t = rd_tool r) (sp_tools (br_spawn b))) BTool) (\<lambda>tool.
       if \<not> permits_branch tool then Inl BTool
       else if rd_call r = [] \<or> rd_store_handle r = [] \<or> 4096 \<le> length (br_rounds b) \<or>
         set (bt_keys (rd_reads r)) \<noteq> tc_reads tool \<or>
         list_ex (\<lambda>x. rd_call x = rd_call r) (br_rounds b) \<or>
         list_ex (\<lambda>(d, v). case bt_get (rd_reads r) d of None \<Rightarrow> False | Some w \<Rightarrow> w \<noteq> v) (br_reads b)
       then Inl BReceipt
       else res_bind (ok_or (checked_add (br_context_spend b) (rd_context_spend r)) BLimit) (\<lambda>cs.
            res_bind (ok_or (checked_add (br_management_spend b) (rd_management_spend r)) BLimit) (\<lambda>ms.
              if lm_context (sp_limits (br_spawn b)) < cs \<or> lm_management (sp_limits (br_spawn b)) < ms
              then Inl BLimit
              else Inr (bt_adjust n (\<lambda>b. b\<lparr>br_context_spend := cs, br_management_spend := ms,
                br_reads := bt_extend (br_reads b) (rd_reads r), br_rounds := br_rounds b @ [r]\<rparr>) s)))))"

definition read_conflicts :: "branch \<Rightarrow> (string, u64) btree \<Rightarrow> string set" where
  "read_conflicts b versions =
     set (map fst (filter (\<lambda>(d, v). (case bt_get versions d of Some w \<Rightarrow> w | None \<Rightarrow> 0) \<noteq> v) (br_reads b)))"

definition status_of :: "string set \<Rightarrow> return_status" where
  "status_of cs = (if cs = {} then CurrentEvidence else SuggestionNeedsRevalidation)"

definition branch_return_status :: "branch_state \<Rightarrow> string \<Rightarrow> (string, u64) btree \<Rightarrow> branch_error + (return_status \<times> string set)" where
  "branch_return_status s n versions =
     res_bind (branch_live s n) (\<lambda>b.
       let cs = read_conflicts b versions in Inr (status_of cs, cs))"

fun branch_apply ::
  "branch_state \<Rightarrow> branch_event \<Rightarrow> (string, string) btree \<Rightarrow> (string, u64) btree \<Rightarrow>
     branch_error + branch_state" where
  "branch_apply s (BranchOpen sp) constitution versions = branch_open s sp constitution"
| "branch_apply s (BranchRound n r) constitution versions = branch_round_op s n r"
| "branch_apply s (BranchReturn n rt) constitution versions =
     res_bind (branch_live s n) (\<lambda>b.
       let cs = read_conflicts b versions
       in if rt_handle rt = [] \<or> \<not> valid_hash (rt_digest rt) \<or> rt_status rt \<noteq> status_of cs \<or>
            rt_revalidate rt \<noteq> cs \<or> list_ex (\<lambda>r. \<not> rd_complete r) (br_rounds b)
          then Inl BReceipt
          else res_bind (no_children s n) (\<lambda>_. Inr (bt_adjust n (\<lambda>b. b\<lparr>br_returned := Some rt\<rparr>) s)))"
| "branch_apply s (BranchAbort n) constitution versions =
     res_bind (branch_live s n) (\<lambda>_.
     res_bind (no_children s n) (\<lambda>_. Inr (bt_adjust n (\<lambda>b. b\<lparr>br_aborted := True\<rparr>) s)))"

section \<open>The contract\<close>

definition within :: "limits \<Rightarrow> limits \<Rightarrow> bool" where
  "within a b \<longleftrightarrow>
     lm_depth a \<le> lm_depth b \<and> lm_concurrency a \<le> lm_concurrency b \<and>
     lm_context a \<le> lm_context b \<and> lm_management a \<le> lm_management b"

definition branch_ok :: "branch \<Rightarrow> bool" where
  "branch_ok b \<longleftrightarrow>
     within (sp_limits (br_spawn b)) default_limits \<and>
     1 \<le> br_depth b \<and> br_depth b \<le> lm_depth (sp_limits (br_spawn b)) \<and>
     br_context_spend b \<le> lm_context (sp_limits (br_spawn b)) \<and>
     br_management_spend b \<le> lm_management (sp_limits (br_spawn b)) \<and>
     br_context_spend b = sum_list (map rd_context_spend (br_rounds b)) \<and>
     br_management_spend b = sum_list (map rd_management_spend (br_rounds b)) \<and>
     distinct (map rd_call (br_rounds b)) \<and>
     list_all permits_branch (sp_tools (br_spawn b)) \<and>
     rd_tool ` set (br_rounds b) \<subseteq> tc_name ` set (sp_tools (br_spawn b))"

definition parent_ok :: "branch_state \<Rightarrow> branch \<Rightarrow> bool" where
  "parent_ok s b \<longleftrightarrow>
     (\<forall>p. sp_parent (br_spawn b) = Some p \<longrightarrow>
        (\<exists>pb. bt_get s p = Some pb \<and> branch_active pb \<and> br_depth b = br_depth pb + 1 \<and>
           within (sp_limits (br_spawn b)) (sp_limits (br_spawn pb))))"

definition branch_entry_ok :: "branch_state \<Rightarrow> string \<Rightarrow> branch \<Rightarrow> bool" where
  "branch_entry_ok s n b \<longleftrightarrow>
     sp_namespace (br_spawn b) = n \<and> branch_ok b \<and>
     (branch_active b \<longrightarrow> active_slots s \<le> lm_concurrency (sp_limits (br_spawn b)) \<and> parent_ok s b)"

definition branches_ok :: "branch_state \<Rightarrow> bool" where
  "branches_ok s \<longleftrightarrow>
     bt_ok s \<and> length s \<le> 4096 \<and> (\<forall>n b. bt_get s n = Some b \<longrightarrow> branch_entry_ok s n b)"

lemma branches_okD:
  assumes "branches_ok s"
  shows "bt_ok s" and "length s \<le> 4096" and "bt_get s n = Some b \<Longrightarrow> branch_entry_ok s n b"
    and "bt_get s n = Some b \<Longrightarrow> branch_ok b"
  using assms unfolding branches_ok_def branch_entry_ok_def by blast+

lemma branches_okI:
  assumes "bt_ok s" and "length s \<le> 4096" and "\<And>n b. bt_get s n = Some b \<Longrightarrow> branch_entry_ok s n b"
  shows "branches_ok s"
  using assms unfolding branches_ok_def by blast

lemma branches_ok_new [simp]: "branches_ok []"
  by (simp add: branches_ok_def)

lemma branch_live_Inr: "branch_live s n = Inr b \<longleftrightarrow> bt_get s n = Some b \<and> branch_active b"
  by (auto simp: branch_live_def split: option.splits)

lemma no_children_Inr:
  assumes "bt_ok s"
  shows "no_children s n = Inr u \<longleftrightarrow>
    (\<forall>k b. bt_get s k = Some b \<longrightarrow> branch_active b \<longrightarrow> sp_parent (br_spawn b) \<noteq> Some n)"
  using bt_values_iff [OF assms] unfolding no_children_def list_ex_iff ensure_Inr by blast

lemma active_slots_count: "active_slots s = count_of branch_active s"
  by (simp only: active_slots_def count_of_length)

lemma active_slots_insert:
  "bt_get s n = None \<Longrightarrow> active_slots (bt_insert n b s) = active_slots s + (if branch_active b then 1 else 0)"
  unfolding active_slots_count by (rule weigh_insert)

lemma active_slots_adjust:
  assumes "\<And>b. branch_active (f b) \<Longrightarrow> branch_active b"
  shows "active_slots (bt_adjust n f s) \<le> active_slots s"
  unfolding active_slots_count bt_adjust_def
  by (rule weigh_rewrite) (use assms in \<open>auto split: if_splits\<close>)

text \<open>Rewriting one active branch: its spawn and depth stay; if it ends, it has no active child.\<close>

lemma branches_ok_adjust:
  assumes ok: "branches_ok s" and b: "bt_get s n = Some b" "branch_active b"
    and f: "\<And>b. br_spawn (f b) = br_spawn b" "\<And>b. br_depth (f b) = br_depth b"
      "\<And>b. branch_active (f b) \<Longrightarrow> branch_active b"
    and fb: "branch_ok (f b)" and ends: "\<not> branch_active (f b) \<Longrightarrow> no_children s n = Inr ()"
  shows "branches_ok (bt_adjust n f s)"
proof -
  note bt = branches_okD(1) [OF ok]
  have slots: "active_slots (bt_adjust n f s) \<le> active_slots s" by (rule active_slots_adjust) (rule f)
  have entry: "branch_entry_ok (bt_adjust n f s) k c"
    if c: "bt_get (bt_adjust n f s) k = Some c" for k c
  proof -
    from c b(1) obtain a where a: "bt_get s k = Some a" "c = (if k = n then f a else a)"
      by (auto split: if_splits)
    from branches_okD(3) [OF ok a(1)] have aok: "sp_namespace (br_spawn a) = k" "branch_ok a"
      "branch_active a \<Longrightarrow> active_slots s \<le> lm_concurrency (sp_limits (br_spawn a)) \<and> parent_ok s a"
      by (simp_all add: branch_entry_ok_def)
    have same: "br_spawn c = br_spawn a" "br_depth c = br_depth a" using a(2) f by auto
    have act: "branch_active a" if "branch_active c" using that a(2) f(3) by (auto split: if_splits)
    have "parent_ok (bt_adjust n f s) c" if "branch_active c"
    proof -
      from aok(3) act that have par: "parent_ok s a" by simp
      show ?thesis unfolding parent_ok_def same
      proof (intro allI impI)
        fix p assume p: "sp_parent (br_spawn a) = Some p"
        with par obtain pb where pb: "bt_get s p = Some pb" "branch_active pb" "br_depth a = br_depth pb + 1"
          "within (sp_limits (br_spawn a)) (sp_limits (br_spawn pb))"
          unfolding parent_ok_def by blast
        have "branch_active (f b)" if "p = n"
          using that p act [OF \<open>branch_active c\<close>] a(1) ends no_children_Inr [OF bt, of n] by blast
        with pb b f(1,2) show "\<exists>pb. bt_get (bt_adjust n f s) p = Some pb \<and> branch_active pb \<and>
            br_depth a = br_depth pb + 1 \<and> within (sp_limits (br_spawn a)) (sp_limits (br_spawn pb))"
          by (cases "p = n") simp_all
      qed
    qed
    moreover have "branch_ok c" using a b fb aok(2) by (cases "k = n") simp_all
    moreover have "active_slots (bt_adjust n f s) \<le> lm_concurrency (sp_limits (br_spawn c))" if "branch_active c"
      using aok(3) [OF act [OF that]] slots same(1) by simp
    ultimately show ?thesis using aok(1) same(1) by (simp add: branch_entry_ok_def)
  qed
  show ?thesis by (rule branches_okI) (use bt branches_okD(2) [OF ok] entry in simp_all)
qed

lemma check_limits_Inr:
  assumes "bt_ok s"
  shows "check_limits s lm = Inr u \<longleftrightarrow>
    within lm default_limits \<and> 0 < lm_depth lm \<and> 0 < lm_concurrency lm \<and> 0 < lm_context lm \<and>
    0 < lm_management lm \<and> active_slots s < lm_concurrency lm \<and>
    (\<forall>n b. bt_get s n = Some b \<longrightarrow> branch_active b \<longrightarrow>
       active_slots s < lm_concurrency (sp_limits (br_spawn b)))"
proof -
  have ex: "list_ex (\<lambda>b. branch_active b \<and> lm_concurrency (sp_limits (br_spawn b)) \<le> active_slots s) (bt_values s)
      \<longleftrightarrow> \<not> (\<forall>n b. bt_get s n = Some b \<longrightarrow> branch_active b \<longrightarrow>
        active_slots s < lm_concurrency (sp_limits (br_spawn b)))"
    using bt_values_iff [OF assms] unfolding list_ex_iff not_less [symmetric] by blast
  show ?thesis unfolding check_limits_def ex within_def by (auto simp: not_le not_less)
qed

lemma open_depth_Inr:
  "open_depth s sp = Inr d \<longleftrightarrow>
     (case sp_parent sp of None \<Rightarrow> d = 1
      | Some p \<Rightarrow> \<exists>pb. bt_get s p = Some pb \<and> branch_active pb \<and> d = br_depth pb + 1 \<and>
          within (sp_limits sp) (sp_limits (br_spawn pb)))"
  by (auto simp: open_depth_def branch_live_Inr within_def Let_def not_less split: option.splits if_splits)

lemma branch_open_Inr:
  assumes "branches_ok s" and "branch_open s sp constitution = Inr s'"
  obtains d where "s' = bt_insert (sp_namespace sp) (new_branch sp d) s" and "bt_get s (sp_namespace sp) = None"
    and "length s < 4096" and "sp_constitutional sp = constitution" and "list_all permits_branch (sp_tools sp)"
    and "check_limits s (sp_limits sp) = Inr ()" and "open_depth s sp = Inr d" and "d \<le> lm_depth (sp_limits sp)"
  using assms by (auto simp: branch_open_def bt_contains_def list_ex_iff list_all_iff not_less split: if_splits)

lemma branch_open_ok:
  assumes ok: "branches_ok s" and op: "branch_open s sp constitution = Inr s'"
  shows "branches_ok s'"
proof -
  obtain d where s': "s' = bt_insert (sp_namespace sp) (new_branch sp d) s" and new: "bt_get s (sp_namespace sp) = None"
    and len: "length s < 4096" and tools: "list_all permits_branch (sp_tools sp)"
    and limits: "check_limits s (sp_limits sp) = Inr ()" and depth: "open_depth s sp = Inr d"
    "d \<le> lm_depth (sp_limits sp)" by (rule branch_open_Inr [OF ok op])
  note bt = branches_okD(1) [OF ok]
  note lim = limits [unfolded check_limits_Inr [OF bt]]
  have slots: "active_slots s' = active_slots s + 1"
    by (simp add: s' active_slots_insert [OF new] new_branch_def branch_active_def)
  have parents: "parent_ok s' b" if "parent_ok s b" for b
    using that new unfolding parent_ok_def s' by fastforce
  have "1 \<le> d" using depth(1) by (auto simp: open_depth_Inr split: option.splits)
  then have "branch_ok (new_branch sp d)"
    using lim depth(2) tools by (auto simp: branch_ok_def new_branch_def)
  moreover have "parent_ok s' (new_branch sp d)"
    using depth(1) parents [of "new_branch sp d"]
    by (auto simp: open_depth_Inr parent_ok_def new_branch_def split: option.splits)
  ultimately have nb: "branch_ok (new_branch sp d)" "parent_ok s' (new_branch sp d)" by simp_all
  have entry: "branch_entry_ok s' k c" if c: "bt_get s' k = Some c" for k c
  proof (cases "k = sp_namespace sp")
    case True
    with c have "c = new_branch sp d" by (simp add: s')
    with nb lim slots True show ?thesis by (simp add: new_branch_def branch_entry_ok_def)
  next
    case False
    with c have c': "bt_get s k = Some c" by (simp add: s')
    with lim have "branch_active c \<Longrightarrow> active_slots s' \<le> lm_concurrency (sp_limits (br_spawn c))"
      unfolding slots by fastforce
    with branches_okD(3) [OF ok c'] parents [of c] show ?thesis by (simp add: branch_entry_ok_def)
  qed
  show ?thesis by (rule branches_okI) (use bt len entry in \<open>simp_all add: s' length_insert_absent [OF new]\<close>)
qed

lemma branch_round_Inr:
  assumes "branch_round_op s n r = Inr s'"
  obtains b t where "bt_get s n = Some b" and "branch_active b" and "t \<in> set (sp_tools (br_spawn b))"
    and "tc_name t = rd_tool r" and "permits_branch t" and "set (bt_keys (rd_reads r)) = tc_reads t"
    and "rd_call r \<notin> rd_call ` set (br_rounds b)"
    and "br_context_spend b + rd_context_spend r \<le> lm_context (sp_limits (br_spawn b))"
    and "br_management_spend b + rd_management_spend r \<le> lm_management (sp_limits (br_spawn b))"
    and "s' = bt_adjust n (\<lambda>x. x\<lparr>br_context_spend := br_context_spend b + rd_context_spend r,
      br_management_spend := br_management_spend b + rd_management_spend r,
      br_reads := bt_extend (br_reads x) (rd_reads r), br_rounds := br_rounds x @ [r]\<rparr>) s"
proof -
  from assms obtain b t where "bt_get s n = Some b" "branch_active b"
    and t: "find (\<lambda>t. tc_name t = rd_tool r) (sp_tools (br_spawn b)) = Some t"
    and "permits_branch t" "set (bt_keys (rd_reads r)) = tc_reads t"
    and call: "\<not> list_ex (\<lambda>x. rd_call x = rd_call r) (br_rounds b)"
    and "\<not> lm_context (sp_limits (br_spawn b)) < br_context_spend b + rd_context_spend r"
    and "\<not> lm_management (sp_limits (br_spawn b)) < br_management_spend b + rd_management_spend r"
    and "s' = bt_adjust n (\<lambda>x. x\<lparr>br_context_spend := br_context_spend b + rd_context_spend r,
      br_management_spend := br_management_spend b + rd_management_spend r,
      br_reads := bt_extend (br_reads x) (rd_reads r), br_rounds := br_rounds x @ [r]\<rparr>) s"
    unfolding branch_round_op_def branch_live_Inr res_bind_Inr ok_or_Inr
    by (clarsimp simp del: not_less split: if_split_asm)
  moreover from call have "rd_call r \<notin> rd_call ` set (br_rounds b)" by (auto simp: list_ex_iff)
  ultimately show ?thesis using find_SomeD [OF t] by (intro that [of b t]) (simp_all add: not_less)
qed

lemma branch_round_ok:
  assumes ok: "branches_ok s" and op: "branch_round_op s n r = Inr s'"
  shows "branches_ok s'"
  using op
proof (rule branch_round_Inr)
  fix b :: branch and t :: tool_contract
  let ?f = "\<lambda>x. x\<lparr>br_context_spend := br_context_spend b + rd_context_spend r,
      br_management_spend := br_management_spend b + rd_management_spend r,
      br_reads := bt_extend (br_reads x) (rd_reads r), br_rounds := br_rounds x @ [r]\<rparr>"
  assume b: "bt_get s n = Some b" "branch_active b" and t: "t \<in> set (sp_tools (br_spawn b))" "tc_name t = rd_tool r"
    and call: "rd_call r \<notin> rd_call ` set (br_rounds b)"
    and spend: "br_context_spend b + rd_context_spend r \<le> lm_context (sp_limits (br_spawn b))"
      "br_management_spend b + rd_management_spend r \<le> lm_management (sp_limits (br_spawn b))"
    and s': "s' = bt_adjust n ?f s"
  have "branch_ok b" by (rule branches_okD(4) [OF ok b(1)])
  moreover from t have "rd_tool r \<in> tc_name ` set (sp_tools (br_spawn b))" by (metis imageI)
  ultimately have "branch_ok (?f b)" using call spend by (auto simp: branch_ok_def)
  moreover have "branch_active (?f b)" using b(2) by (simp add: branch_active_def)
  ultimately show ?thesis unfolding s'
    by (intro branches_ok_adjust [OF ok b]) (simp_all add: branch_active_def)
qed

lemma branch_end_ok:
  assumes ok: "branches_ok s" and b: "bt_get s n = Some b" "branch_active b" and kids: "no_children s n = Inr ()"
  shows "branches_ok (bt_adjust n (\<lambda>b. b\<lparr>br_returned := Some rt\<rparr>) s)"
    and "branches_ok (bt_adjust n (\<lambda>b. b\<lparr>br_aborted := True\<rparr>) s)"
proof -
  have "branch_ok b" by (rule branches_okD(4) [OF ok b(1)])
  then have "branch_ok (b\<lparr>br_returned := Some rt\<rparr>)" "branch_ok (b\<lparr>br_aborted := True\<rparr>)"
    by (simp_all add: branch_ok_def)
  with kids show "branches_ok (bt_adjust n (\<lambda>b. b\<lparr>br_returned := Some rt\<rparr>) s)"
    and "branches_ok (bt_adjust n (\<lambda>b. b\<lparr>br_aborted := True\<rparr>) s)"
    by (auto intro!: branches_ok_adjust [OF ok b] simp: branch_active_def)
qed

lemma branch_apply_ok:
  assumes "branches_ok s" and "branch_apply s ev constitution versions = Inr s'"
  shows "branches_ok s'"
proof (cases ev)
  case (BranchOpen sp)
  with assms show ?thesis by (auto intro: branch_open_ok)
next
  case (BranchRound n r)
  with assms show ?thesis by (auto intro: branch_round_ok)
next
  case (BranchReturn n rt)
  with assms show ?thesis by (auto simp: branch_live_Inr Let_def split: if_splits intro: branch_end_ok)
next
  case (BranchAbort n)
  with assms show ?thesis by (auto simp: branch_live_Inr intro: branch_end_ok)
qed

type_synonym branch_input = "branch_event \<times> (string, string) btree \<times> (string, u64) btree"

fun branch_step :: "branch_state \<Rightarrow> branch_input \<Rightarrow> branch_error + branch_state" where
  "branch_step s (ev, constitution, versions) = branch_apply s ev constitution versions"

interpretation branches: guarded_machine branch_step branches_ok
  by unfold_locales (auto dest: branch_apply_ok)

end
