(* ===== verification/Provenance.thy ===== *)
theory Provenance
  imports Branches
begin

text \<open>
  The data of the validation gate (\<^verbatim>\<open>src/context_kernel/validation/types.rs\<close>) and the provenance walk
  of \<^verbatim>\<open>src/context_kernel/validation/provenance.rs\<close>: an iterative depth-first search over the summary
  graph, whose \<open>VecDeque\<close> is a list with its back end first.  The walk always ends, and when it
  accepts, every root is grounded in ingress leaves and the result is exactly the set of ingress
  leaves the roots reach.
\<close>

section \<open>Data\<close>

definition THETA :: nat where "THETA = 9500"
definition MAX_GRAPH_NODES :: nat where "MAX_GRAPH_NODES = 4096"
definition MAX_ASSERTIONS :: nat where "MAX_ASSERTIONS = 64"
definition MAX_ARTIFACT_BYTES :: nat where "MAX_ARTIFACT_BYTES = 65536"
definition MAX_ENVELOPE_BYTES :: nat where "MAX_ENVELOPE_BYTES = MAX_ARTIFACT_BYTES * 8"

datatype bound_fact =
  BoundFact (bf_statement: string) (bf_subject: string) (bf_predicate: string) (bf_scope: u64)
    (bf_command: string) (bf_negated: bool) (bf_temporal: string)

abbreviation bound_key :: "bound_fact \<Rightarrow> string \<times> string \<times> string \<times> u64 \<times> string \<times> bool \<times> string" where
  "bound_key f \<equiv>
     (bf_statement f, bf_subject f, bf_predicate f, bf_scope f, bf_command f, bf_negated f, bf_temporal f)"

instantiation bound_fact :: linorder
begin

definition less_eq_bound_fact :: "bound_fact \<Rightarrow> bound_fact \<Rightarrow> bool" where
  "less_eq_bound_fact a b \<longleftrightarrow> bound_key a \<le> bound_key b"

definition less_bound_fact :: "bound_fact \<Rightarrow> bound_fact \<Rightarrow> bool" where
  "less_bound_fact a b \<longleftrightarrow> bound_key a < bound_key b"

instance
proof
  fix x y z :: bound_fact
  show "x < y \<longleftrightarrow> x \<le> y \<and> \<not> y \<le> x"
    by (simp only: less_bound_fact_def less_eq_bound_fact_def less_le_not_le)
  show "x \<le> x"
    by (simp only: less_eq_bound_fact_def order_refl)
  show "x \<le> y \<Longrightarrow> y \<le> z \<Longrightarrow> x \<le> z"
    unfolding less_eq_bound_fact_def by (rule order_trans)
  show "x \<le> y \<Longrightarrow> y \<le> x \<Longrightarrow> x = y"
    unfolding less_eq_bound_fact_def by (drule (1) order_antisym) (simp add: bound_fact.expand)
  show "x \<le> y \<or> y \<le> x"
    by (simp only: less_eq_bound_fact_def linear)
qed

end

datatype pointer = IngressPtr string | GeneratedPtr string

record candidate =
  ca_artifact :: string
  ca_rendered_text :: string
  ca_rendered :: "bound_fact list"
  ca_roots :: "pointer list"
  ca_graph :: "(string, pointer list) btree"
  ca_pending_notes :: "string set"
  ca_scope :: u64

datatype provenance_failure = CycleFailure | UngroundedRoot

datatype verdict =
    Pass
  | FailCompleteness "bound_fact list"
  | FailPrecision "string list"
  | FailProvenance provenance_failure

record validation_record =
  vr_candidate_digest :: string
  vr_verdict :: verdict
  vr_support :: "(string, string set) btree"
  vr_cap_pressure :: bool
  vr_refreshed :: nat
  vr_required_refinement_unavailable :: bool

record leaf =
  lf_id :: string
  lf_source :: source
  lf_sanitized :: string

definition is_ingress :: "leaf \<Rightarrow> bool" where
  "is_ingress l \<longleftrightarrow> so_origin (lf_source l) = IngressOrigin \<and> so_leaf (lf_source l) = lf_id l"

definition leaf_authority :: "leaf \<Rightarrow> authority" where
  "leaf_authority l = so_authority (lf_source l)"

text \<open>The trait \<open>LeafStore\<close> is its one method.\<close>

type_synonym leaf_store = "string \<Rightarrow> leaf option"

datatype gate_error = ConsumerError string | BoundsError | IndependenceError

datatype gate_response =
    Commit | RestoreRequired | RegenerateFromIngress | RepairProvenance | DeterministicEmergency

fun verdict_response :: "verdict \<Rightarrow> gate_response" where
  "verdict_response Pass = Commit"
| "verdict_response (FailCompleteness m) = RestoreRequired"
| "verdict_response (FailPrecision u) = RegenerateFromIngress"
| "verdict_response (FailProvenance p) = RepairProvenance"

section \<open>The walk\<close>

type_synonym graph = "(string, pointer list) btree"
type_synonym walk_stack = "(pointer \<times> bool) list"

function (sequential) walk ::
  "graph \<Rightarrow> walk_stack \<Rightarrow> string set \<Rightarrow> string set \<Rightarrow> string set \<Rightarrow> provenance_failure + string set" where
  "walk g [] leaves active visited = Inr leaves"
| "walk g ((IngressPtr i, exit) # stack) leaves active visited =
     (if MAX_GRAPH_NODES < card (insert i leaves) then Inl UngroundedRoot
      else walk g stack (insert i leaves) active visited)"
| "walk g ((GeneratedPtr i, True) # stack) leaves active visited =
     walk g stack leaves (active - {i}) (insert i visited)"
| "walk g ((GeneratedPtr i, False) # stack) leaves active visited =
     (if i \<in> active then Inl CycleFailure
      else if i \<in> visited then walk g stack leaves active visited
      else case bt_get g i of
             None \<Rightarrow> Inl UngroundedRoot
           | Some children \<Rightarrow>
               if children = [] then Inl UngroundedRoot
               else
                 let stack' = rev (map (\<lambda>p. (p, False)) children) @ (GeneratedPtr i, True) # stack
                 in if MAX_GRAPH_NODES < length stack' + card visited then Inl UngroundedRoot
                    else if MAX_GRAPH_NODES < card leaves then Inl UngroundedRoot
                    else walk g stack' leaves (insert i active) visited)"
  by pat_completeness auto

lemma unentered_less:
  assumes "bt_get g i = Some children" and "i \<notin> active" and "i \<notin> visited"
  shows "card (fst ` set g - insert i (active \<union> visited)) < card (fst ` set g - (active \<union> visited))"
proof (rule psubset_card_mono)
  from assms(1) have "i \<in> fst ` set g" by (force dest: map_of_SomeD)
  with assms(2,3) show "fst ` set g - insert i (active \<union> visited) \<subset> fst ` set g - (active \<union> visited)"
    by blast
qed simp

lemma unentered_exit:
  "card (set (bt_keys g) - ((active - {i}) \<union> insert i visited)) \<le> card (set (bt_keys g) - (active \<union> visited))"
  by (rule card_mono) auto

termination walk
proof (relation "measures [\<lambda>(g, stack, leaves, active, visited). card (set (bt_keys g) - (active \<union> visited)),
    \<lambda>(g, stack, leaves, active, visited). length stack]")
  fix g i stack leaves active visited
  show "((g, stack, leaves, active - {i}, insert i visited),
      g, (GeneratedPtr i, True) # stack, leaves, active, visited)
    \<in> measures [\<lambda>(g, stack, leaves, active, visited). card (set (bt_keys g) - (active \<union> visited)),
      \<lambda>(g, stack, leaves, active, visited). length stack]"
    using unentered_exit [of g active i visited] by auto
qed (auto intro: unentered_less)

definition provenance_roots :: "candidate \<Rightarrow> provenance_failure + string set" where
  "provenance_roots c =
     (if MAX_GRAPH_NODES < length (ca_graph c) \<or>
         MAX_GRAPH_NODES < sum64 (map length (bt_values (ca_graph c))) \<or>
         MAX_GRAPH_NODES < length (ca_roots c)
      then Inl UngroundedRoot
      else res_bind (walk (ca_graph c) (rev (map (\<lambda>p. (p, False)) (ca_roots c))) {} {} {}) (\<lambda>leaves.
        if leaves = {} then Inl UngroundedRoot else Inr leaves))"

section \<open>Specification\<close>

text \<open>A pointer is grounded when it is an ingress leaf, or a generated node with at least one child
  whose children are all grounded; the derivations are finite, so a grounded node lies on no cycle.
  \<open>reaches\<close> is reachability from the roots.\<close>

inductive grounded :: "graph \<Rightarrow> pointer \<Rightarrow> bool" for g where
  leaf: "grounded g (IngressPtr i)"
| node: "bt_get g i = Some cs \<Longrightarrow> cs \<noteq> [] \<Longrightarrow> (\<And>c. c \<in> set cs \<Longrightarrow> grounded g c) \<Longrightarrow> grounded g (GeneratedPtr i)"

inductive reaches :: "graph \<Rightarrow> pointer list \<Rightarrow> pointer \<Rightarrow> bool" for g rs where
  root: "p \<in> set rs \<Longrightarrow> reaches g rs p"
| child: "reaches g rs (GeneratedPtr i) \<Longrightarrow> bt_get g i = Some cs \<Longrightarrow> c \<in> set cs \<Longrightarrow> reaches g rs c"

inductive_cases grounded_node [elim!]: "grounded g (GeneratedPtr i)"

fun finished :: "string set \<Rightarrow> string set \<Rightarrow> pointer \<Rightarrow> bool" where
  "finished leaves visited (IngressPtr i) = (i \<in> leaves)"
| "finished leaves visited (GeneratedPtr i) = (i \<in> visited)"

text \<open>\<open>marked_ok\<close>: below an exit marker every child of the marked node is finished or is still above
  the marker on the stack.\<close>

definition marked_ok :: "graph \<Rightarrow> string set \<Rightarrow> string set \<Rightarrow> walk_stack \<Rightarrow> bool" where
  "marked_ok g leaves visited stack \<longleftrightarrow>
     (\<forall>pre i post. stack = pre @ (GeneratedPtr i, True) # post \<longrightarrow>
        (\<exists>cs. bt_get g i = Some cs \<and> cs \<noteq> [] \<and>
           (\<forall>c \<in> set cs. finished leaves visited c \<or> c \<in> fst ` set pre)))"

definition visited_ok :: "graph \<Rightarrow> string set \<Rightarrow> string set \<Rightarrow> bool" where
  "visited_ok g leaves visited \<longleftrightarrow>
     (\<forall>i \<in> visited. grounded g (GeneratedPtr i) \<and>
        (\<forall>cs c. bt_get g i = Some cs \<longrightarrow> c \<in> set cs \<longrightarrow> finished leaves visited c))"

definition walk_ok ::
  "graph \<Rightarrow> pointer list \<Rightarrow> walk_stack \<Rightarrow> string set \<Rightarrow> string set \<Rightarrow> bool" where
  "walk_ok g rs stack leaves visited \<longleftrightarrow>
     marked_ok g leaves visited stack \<and> visited_ok g leaves visited \<and>
     (\<forall>r \<in> set rs. finished leaves visited r \<or> r \<in> fst ` set stack) \<and>
     (\<forall>p \<in> fst ` set stack. reaches g rs p) \<and> (\<forall>i \<in> leaves. reaches g rs (IngressPtr i)) \<and>
     (\<forall>i \<in> visited. reaches g rs (GeneratedPtr i))"

lemma finished_mono:
  "finished leaves visited c \<Longrightarrow> leaves \<subseteq> leaves' \<Longrightarrow> visited \<subseteq> visited' \<Longrightarrow> finished leaves' visited' c"
  by (cases c) auto

lemma visited_ok_leaf: "visited_ok g leaves visited \<Longrightarrow> visited_ok g (insert i leaves) visited"
  unfolding visited_ok_def by (meson finished_mono subset_insertI subset_refl)

lemma visited_ok_node:
  assumes "visited_ok g leaves visited" and "grounded g (GeneratedPtr i)"
    and "bt_get g i = Some cs" and "\<forall>c \<in> set cs. finished leaves visited c"
  shows "visited_ok g leaves (insert i visited)"
proof -
  have mono: "finished leaves visited c \<Longrightarrow> finished leaves (insert i visited) c" for c
    by (rule finished_mono) auto
  have "grounded g (GeneratedPtr j) \<and>
      (\<forall>ds d. bt_get g j = Some ds \<longrightarrow> d \<in> set ds \<longrightarrow> finished leaves (insert i visited) d)"
    if "j \<in> insert i visited" for j
    using that assms mono unfolding visited_ok_def by (cases "j = i") auto
  then show ?thesis by (simp add: visited_ok_def)
qed

text \<open>Popping an entry that is finished afterwards keeps the invariant.\<close>

lemma walk_ok_pop:
  assumes "walk_ok g rs ((p, e) # stack) leaves visited"
    and mono: "leaves \<subseteq> leaves'" "visited \<subseteq> visited'" and p: "finished leaves' visited' p"
    and visited: "visited_ok g leaves' visited'"
    and reach: "\<forall>i \<in> leaves'. reaches g rs (IngressPtr i)" "\<forall>i \<in> visited'. reaches g rs (GeneratedPtr i)"
  shows "walk_ok g rs stack leaves' visited'"
proof -
  have "marked_ok g leaves' visited' stack" unfolding marked_ok_def
  proof (intro allI impI)
    fix pre i post assume "stack = pre @ (GeneratedPtr i, True) # post"
    then have "(p, e) # stack = ((p, e) # pre) @ (GeneratedPtr i, True) # post" by simp
    with assms(1) obtain cs where cs: "bt_get g i = Some cs" "cs \<noteq> []"
      and kids: "\<forall>c \<in> set cs. finished leaves visited c \<or> c \<in> fst ` set ((p, e) # pre)"
      unfolding walk_ok_def marked_ok_def by blast
    from kids p mono have "\<forall>c \<in> set cs. finished leaves' visited' c \<or> c \<in> fst ` set pre"
      by (auto intro: finished_mono)
    with cs show "\<exists>cs. bt_get g i = Some cs \<and> cs \<noteq> [] \<and>
        (\<forall>c \<in> set cs. finished leaves' visited' c \<or> c \<in> fst ` set pre)" by blast
  qed
  moreover have "\<forall>r \<in> set rs. finished leaves' visited' r \<or> r \<in> fst ` set stack"
    using assms(1) p mono unfolding walk_ok_def by (auto intro: finished_mono)
  ultimately show ?thesis using assms(1) visited reach by (simp add: walk_ok_def)
qed

lemma split_after:
  assumes "xs @ ys = pre @ x # post" and "x \<notin> set xs"
  obtains pre' where "pre = xs @ pre'" and "ys = pre' @ x # post"
  using assms by (auto simp: append_eq_append_conv2 append_eq_Cons_conv)

lemma walk_ok_enter:
  assumes ok: "walk_ok g rs ((GeneratedPtr i, False) # stack) leaves visited"
    and cs: "bt_get g i = Some cs" "cs \<noteq> []"
  shows "walk_ok g rs (rev (map (\<lambda>p. (p, False)) cs) @ (GeneratedPtr i, True) # stack) leaves visited"
proof -
  let ?kids = "rev (map (\<lambda>p. (p, False)) cs)"
  have fst_kids: "fst ` set ?kids = set cs" by force
  have "marked_ok g leaves visited (?kids @ (GeneratedPtr i, True) # stack)" unfolding marked_ok_def
  proof (intro allI impI)
    fix pre j post assume "?kids @ (GeneratedPtr i, True) # stack = pre @ (GeneratedPtr j, True) # post"
    moreover have "(GeneratedPtr j, True) \<notin> set ?kids" by auto
    ultimately obtain pre' where pre: "pre = ?kids @ pre'"
      and rest: "(GeneratedPtr i, True) # stack = pre' @ (GeneratedPtr j, True) # post"
      by (rule split_after)
    show "\<exists>cs. bt_get g j = Some cs \<and> cs \<noteq> [] \<and> (\<forall>c \<in> set cs. finished leaves visited c \<or> c \<in> fst ` set pre)"
    proof (cases pre')
      case Nil
      with rest cs fst_kids show ?thesis by (simp add: pre)
    next
      case (Cons m pre'')
      with rest have m: "m = (GeneratedPtr i, True)" and st: "stack = pre'' @ (GeneratedPtr j, True) # post" by auto
      then have "(GeneratedPtr i, False) # stack = ((GeneratedPtr i, False) # pre'') @ (GeneratedPtr j, True) # post"
        by simp
      with ok obtain ds where "bt_get g j = Some ds" "ds \<noteq> []"
        "\<forall>c \<in> set ds. finished leaves visited c \<or> c \<in> fst ` set ((GeneratedPtr i, False) # pre'')"
        unfolding walk_ok_def marked_ok_def by blast
      then show ?thesis by (auto simp: pre Cons m)
    qed
  qed
  moreover have "reaches g rs c" if "c \<in> set cs" for c
    using ok cs(1) that by (auto simp: walk_ok_def intro: child)
  ultimately show ?thesis using ok fst_kids by (auto simp: walk_ok_def)
qed

lemma walk_ok_exit:
  assumes ok: "walk_ok g rs ((GeneratedPtr i, True) # stack) leaves visited"
  shows "walk_ok g rs stack leaves (insert i visited)"
proof -
  from ok obtain cs where cs: "bt_get g i = Some cs" "cs \<noteq> []" "\<forall>c \<in> set cs. finished leaves visited c"
    unfolding walk_ok_def marked_ok_def by (metis append_Nil empty_iff image_empty list.set(1))
  from ok have visited: "visited_ok g leaves visited" by (simp add: walk_ok_def)
  have "grounded g c" if c: "c \<in> set cs" for c
  proof (cases c)
    case (GeneratedPtr j)
    with c cs(3) visited show ?thesis by (auto simp: visited_ok_def )
  qed (simp add: leaf)
  with cs(1,2) have "grounded g (GeneratedPtr i)" by (rule node)
  with visited cs have "visited_ok g leaves (insert i visited)" by (intro visited_ok_node)
  then show ?thesis
    using ok by (intro walk_ok_pop [OF ok subset_refl]) (auto simp: walk_ok_def)
qed

lemma walk_sound:
  assumes "walk g stack leaves active visited = Inr result" and "walk_ok g rs stack leaves visited"
  shows "\<exists>visited'. walk_ok g rs [] result visited'"
  using assms
proof (induction g stack leaves active visited rule: walk.induct)
  case (1 g leaves active visited)
  then show ?case by auto
next
  case (2 g i ex stack leaves active visited)
  have "visited_ok g (insert i leaves) visited"
    using 2(3) visited_ok_leaf by (simp add: walk_ok_def)
  then have "walk_ok g rs stack (insert i leaves) visited"
    using 2(3) by (intro walk_ok_pop [OF 2(3) subset_insertI subset_refl]) (auto simp: walk_ok_def)
  with 2 show ?case by (simp split: if_splits)
next
  case (3 g i stack leaves active visited)
  with walk_ok_exit [OF 3(3)] show ?case by simp
next
  case (4 g i stack leaves active visited)
  show ?case
  proof (cases "i \<in> visited")
    case True
    then have "walk_ok g rs stack leaves visited"
      by (intro walk_ok_pop [OF 4(4) subset_refl subset_refl]) (use 4(4) in \<open>auto simp: walk_ok_def\<close>)
    with 4 True show ?thesis by (simp split: if_splits)
  next
    case False
    with 4(3) obtain cs where cs: "bt_get g i = Some cs" "cs \<noteq> []" by (auto split: if_splits option.splits)
    from 4 False cs walk_ok_enter [OF 4(4) cs] show ?thesis by (simp add: Let_def split: if_splits)
  qed
qed

text \<open>What an accepted walk means: every root is grounded, and the leaves are those the roots reach.\<close>

lemma provenance_roots_Inr:
  assumes "provenance_roots c = Inr leaves"
  shows "leaves \<noteq> {}" and "r \<in> set (ca_roots c) \<Longrightarrow> grounded (ca_graph c) r"
    and "i \<in> leaves \<longleftrightarrow> reaches (ca_graph c) (ca_roots c) (IngressPtr i)"
proof -
  let ?g = "ca_graph c" and ?rs = "ca_roots c"
  from assms have walk: "walk ?g (rev (map (\<lambda>p. (p, False)) ?rs)) {} {} {} = Inr leaves" and ne: "leaves \<noteq> {}"
    by (auto simp: provenance_roots_def split: if_splits)
  have "walk_ok ?g ?rs (rev (map (\<lambda>p. (p, False)) ?rs)) {} {}"
    by (force simp: walk_ok_def marked_ok_def visited_ok_def intro: root dest: arg_cong [of _ _ set])
  from walk_sound [OF walk this] obtain visited where ok: "walk_ok ?g ?rs [] leaves visited" by blast
  have fin: "finished leaves visited p" if "reaches ?g ?rs p" for p
    using that
  proof induction
    case (root p)
    with ok show ?case by (simp add: walk_ok_def)
  next
    case (child j cs d)
    then have "j \<in> visited" by simp
    with child ok show ?case by (auto simp: walk_ok_def visited_ok_def)
  qed
  show "leaves \<noteq> {}" by (rule ne)
  show "i \<in> leaves \<longleftrightarrow> reaches ?g ?rs (IngressPtr i)"
    using ok fin [of "IngressPtr i"] by (auto simp: walk_ok_def)
  show "grounded ?g r" if "r \<in> set ?rs"
  proof (cases r)
    case (GeneratedPtr j)
    with fin [OF root [OF that]] ok show ?thesis by (simp add: walk_ok_def visited_ok_def)
  qed (simp add: leaf)
qed

end
