(* ===== verification/Gate.thy ===== *)
theory Gate
  imports Provenance LedgerHistory Lanes
begin

text \<open>
  The validation gate of \<^verbatim>\<open>src/context_kernel/validation/gate.rs\<close> and the lane authority of
  \<^verbatim>\<open>src/context_kernel/security/authority.rs\<close>.  The extractor and scorer models behind \<open>GateConsumers\<close>
  and the authenticated store behind \<open>LeafStore\<close> are arguments; a consumer is a record of functions
  on its own state, which every call threads, so a consumer may answer differently each time.  The
  digest of a candidate (\<open>serde_json\<close> then SHA-256) is an argument too.
\<close>

section \<open>Strings\<close>

text \<open>\<open>str::contains\<close>, \<open>str::lines\<close>, \<open>slice::chunks\<close>, \<open>[String]::join\<close>, and \<open>trim().is_empty()\<close>: a string
  is blank when it is a sequence of characters with the Unicode property \<^verbatim>\<open>White_Space\<close>, here by
  their UTF-8 encodings.\<close>

fun starts_with :: "string \<Rightarrow> string \<Rightarrow> bool" where
  "starts_with [] s = True"
| "starts_with (p # ps) [] = False"
| "starts_with (p # ps) (c # cs) = (p = c \<and> starts_with ps cs)"

fun str_contains :: "string \<Rightarrow> string \<Rightarrow> bool" where
  "str_contains pat [] = starts_with pat []"
| "str_contains pat (c # cs) = (starts_with pat (c # cs) \<or> str_contains pat cs)"

definition strip_cr :: "string \<Rightarrow> string" where
  "strip_cr s = (if s \<noteq> [] \<and> last s = CHR 0x0D then butlast s else s)"

fun lines_from :: "string \<Rightarrow> string \<Rightarrow> string list" where
  "lines_from acc [] = (if acc = [] then [] else [rev acc])"
| "lines_from acc (c # cs) =
     (if c = CHR 0x0A then strip_cr (rev acc) # lines_from [] cs else lines_from (c # acc) cs)"

definition str_lines :: "string \<Rightarrow> string list" where
  "str_lines s = lines_from [] s"

fun join_lines :: "string list \<Rightarrow> string" where
  "join_lines [] = []"
| "join_lines [s] = s"
| "join_lines (s # t # ss) = s @ CHR 0x0A # join_lines (t # ss)"

definition byte_between :: "char \<Rightarrow> nat \<Rightarrow> nat \<Rightarrow> bool" where
  "byte_between c a b \<longleftrightarrow> a \<le> of_char c \<and> of_char c \<le> b"

fun is_blank :: "string \<Rightarrow> bool" where
  "is_blank [] = True"
| "is_blank (a # s) =
     (if byte_between a 0x09 0x0D \<or> byte_between a 0x20 0x20 then is_blank s
      else case s of
        b # t \<Rightarrow>
          if byte_between a 0xC2 0xC2 \<and> (byte_between b 0x85 0x85 \<or> byte_between b 0xA0 0xA0)
          then is_blank t
          else (case t of
            c # u \<Rightarrow>
              (byte_between a 0xE1 0xE1 \<and> byte_between b 0x9A 0x9A \<and> byte_between c 0x80 0x80 \<or>
               byte_between a 0xE2 0xE2 \<and> byte_between b 0x80 0x80 \<and>
                 (byte_between c 0x80 0x8A \<or> byte_between c 0xA8 0xA9 \<or> byte_between c 0xAF 0xAF) \<or>
               byte_between a 0xE2 0xE2 \<and> byte_between b 0x81 0x81 \<and> byte_between c 0x9F 0x9F \<or>
               byte_between a 0xE3 0xE3 \<and> byte_between b 0x80 0x80 \<and> byte_between c 0x80 0x80) \<and>
              is_blank u
          | [] \<Rightarrow> False)
      | [] \<Rightarrow> False)"

fun chunks :: "nat \<Rightarrow> 'a list \<Rightarrow> 'a list list" where
  "chunks 0 xs = []"
| "chunks (Suc n) [] = []"
| "chunks (Suc n) (x # xs) = take (Suc n) (x # xs) # chunks (Suc n) (drop n xs)"

section \<open>Lane authority\<close>

record adoption =
  ad_principal :: source
  ad_candidate_digest :: string
  ad_lane :: nat
  ad_scope :: u64

record lane_authority =
  la_source :: source
  la_adoption :: "adoption option"

definition minimum_authority :: "nat \<Rightarrow> authority" where
  "minimum_authority lane = (if lane = 1 then UserAuthority else AgentAuthority)"

definition check_authority ::
  "leaf_store \<Rightarrow> (adoption \<Rightarrow> bool) option \<Rightarrow> lane_authority \<Rightarrow> nat \<Rightarrow> u64 \<Rightarrow> validation_record \<Rightarrow> bool" where
  "check_authority store auth la lane sc vr =
     (let direct = (case store (so_leaf (la_source la)) of
            None \<Rightarrow> False
          | Some l \<Rightarrow> is_ingress l \<and> lf_source l = la_source la \<and> so_scope (lf_source l) = sc \<and>
              minimum_authority lane \<le> leaf_authority l \<and> vr_support vr \<noteq> [] \<and>
              list_all (\<lambda>leaves. lf_id l \<in> leaves) (bt_values (vr_support vr)));
          adopted = (case la_adoption la of
            None \<Rightarrow> False
          | Some a \<Rightarrow> ad_candidate_digest a = vr_candidate_digest vr \<and> ad_lane a = lane \<and>
              ad_scope a = sc \<and> so_scope (ad_principal a) = sc \<and>
              so_origin (ad_principal a) = IngressOrigin \<and>
              minimum_authority lane \<le> so_authority (ad_principal a) \<and>
              (case auth of None \<Rightarrow> False | Some f \<Rightarrow> f a))
      in direct \<or> adopted)"

definition replay_valid :: "lane_authority \<Rightarrow> nat \<Rightarrow> u64 \<Rightarrow> string \<Rightarrow> bool" where
  "replay_valid la lane sc dig =
     (let src = (case la_adoption la of None \<Rightarrow> la_source la | Some a \<Rightarrow> ad_principal a)
      in so_origin src = IngressOrigin \<and> minimum_authority lane \<le> so_authority src \<and> so_scope src = sc \<and>
         so_leaf src \<noteq> [] \<and>
         (case la_adoption la of None \<Rightarrow> True
          | Some a \<Rightarrow> ad_lane a = lane \<and> ad_scope a = sc \<and> ad_candidate_digest a = dig))"

section \<open>The deterministic floor\<close>

definition obligation_fact :: "entry \<Rightarrow> bound_fact" where
  "obligation_fact e =
     BoundFact (e_text e) (fi_subject (e_id e)) (fi_predicate (e_id e)) (fi_scope (e_id e))
       (join_lines (sorted_list_of_set (e_bindings e))) False []"

definition lane_required :: "lane_policy_registry \<Rightarrow> lane \<Rightarrow> bool" where
  "lane_required reg l =
     (case registry_policy reg l of Inl e \<Rightarrow> False
      | Inr p \<Rightarrow> lp_survival p = Protected \<or> lp_survival p = Required)"

definition deterministic_required ::
  "ledger \<Rightarrow> (lane \<times> bound_fact) list \<Rightarrow> bound_fact list \<Rightarrow> lane_policy_registry \<Rightarrow> u64 \<Rightarrow> bound_fact list" where
  "deterministic_required l items patterns reg sc =
     sorted_list_of_set
       (set patterns \<union>
        set (map snd (filter (\<lambda>(lane, f). lane_required reg lane \<and> (lane = Constitutional \<or> bf_scope f = sc)) items)) \<union>
        set (map obligation_fact (live_obligations l)))"

section \<open>The gate\<close>

record independence =
  in_compactor :: string
  in_scorer :: string

record score =
  sc_entailment :: nat
  sc_contradiction :: bool

record gate =
  gt_leaf_cap :: nat
  gt_independence :: independence

record 'c gate_consumers =
  gc_independence :: "'c \<Rightarrow> independence"
  gc_required_facts :: "bound_fact list \<Rightarrow> 'c \<Rightarrow> 'c \<times> (gate_error + bound_fact list)"
  gc_assertions :: "string \<Rightarrow> 'c \<Rightarrow> 'c \<times> (gate_error + string list)"
  gc_score :: "string \<Rightarrow> leaf list \<Rightarrow> bound_fact list \<Rightarrow> 'c \<Rightarrow> 'c \<times> (gate_error + score)"

definition gate_new :: "nat \<Rightarrow> independence \<Rightarrow> gate_error + gate" where
  "gate_new cap ind =
     (if cap = 0 \<or> MAX_GRAPH_NODES < cap then Inl BoundsError
      else if in_compactor ind = [] \<or> in_scorer ind = [] \<or> in_compactor ind = in_scorer ind
      then Inl IndependenceError
      else Inr \<lparr>gt_leaf_cap = cap, gt_independence = ind\<rparr>)"

definition input_bounds ::
  "candidate \<Rightarrow> bound_fact list \<Rightarrow> bound_fact list \<Rightarrow> gate_error + unit" where
  "input_bounds c required always_checked =
     (if ca_artifact c = [] \<or> MAX_ARTIFACT_BYTES < length (ca_artifact c) \<or>
         MAX_GRAPH_NODES < length required \<or> MAX_GRAPH_NODES < length (ca_rendered c) \<or>
         MAX_ENVELOPE_BYTES < length (ca_rendered_text c) \<or> MAX_GRAPH_NODES < length always_checked
      then Inl BoundsError else Inr ())"

definition required_union ::
  "'c gate_consumers \<Rightarrow> bound_fact list \<Rightarrow> 'c \<Rightarrow> 'c \<times> bound_fact set \<times> bool" where
  "required_union gc required st =
     (case gc_required_facts gc required st of
        (st', Inr refined) \<Rightarrow>
          if length refined \<le> MAX_GRAPH_NODES then (st', set required \<union> set refined, False)
          else (st', set required, True)
      | (st', Inl e) \<Rightarrow> (st', set required, True))"

definition extract_assertions ::
  "'c gate_consumers \<Rightarrow> candidate \<Rightarrow> 'c \<Rightarrow> 'c \<times> (gate_error + string set)" where
  "extract_assertions gc c st =
     (case gc_assertions gc (ca_artifact c) st of
        (st', Inl e) \<Rightarrow> (st', Inl e)
      | (st', Inr extracted) \<Rightarrow>
          (st',
           if extracted = [] \<or> MAX_ASSERTIONS < length extracted \<or>
              list_ex (\<lambda>s. is_blank s \<or> MAX_ARTIFACT_BYTES < length s) extracted
           then Inl BoundsError
           else let all = set extracted \<union> set (filter (\<lambda>s. \<not> is_blank s) (str_lines (ca_artifact c)))
                in if MAX_ASSERTIONS < card all then Inl BoundsError else Inr all))"

fun load_leaves :: "leaf_store \<Rightarrow> string list \<Rightarrow> gate_error + leaf list" where
  "load_leaves store [] = Inr []"
| "load_leaves store (i # ids) =
     res_bind (ok_or (case store i of None \<Rightarrow> None | Some l \<Rightarrow> if is_ingress l then Some l else None)
       (ConsumerError ''leaf-store'')) (\<lambda>l.
     res_bind (load_leaves store ids) (\<lambda>ls. Inr (l # ls)))"

text \<open>\<open>support_pages\<close> is the loop over the pages of leaves; it also returns the number of leaves
  refreshed after the first page.\<close>

fun support_pages ::
  "'c gate_consumers \<Rightarrow> leaf_store \<Rightarrow> string \<Rightarrow> bound_fact list \<Rightarrow> bool \<Rightarrow> string list list \<Rightarrow> string set \<Rightarrow> nat \<Rightarrow> 'c \<Rightarrow>
     'c \<times> nat \<times> (gate_error + string set)" where
  "support_pages gc store a contra first [] acc refreshed st = (st, refreshed, Inr acc)"
| "support_pages gc store a contra first (chunk # pages) acc refreshed st =
     (case load_leaves store chunk of
        Inl e \<Rightarrow> (st, refreshed, Inl e)
      | Inr leaves \<Rightarrow>
          if list_ex (\<lambda>l. MAX_ARTIFACT_BYTES < length (lf_sanitized l)) leaves
          then (st, refreshed, Inl BoundsError)
          else
            let refreshed' = (if first then refreshed else refreshed + length leaves)
            in (case gc_score gc a leaves contra st of
                 (st', Inl e) \<Rightarrow> (st', refreshed', Inl e)
               | (st', Inr s) \<Rightarrow>
                   if 10000 < sc_entailment s then (st', refreshed', Inl BoundsError)
                   else if sc_contradiction s then (st', refreshed', Inr {})
                   else support_pages gc store a contra False pages
                          (if THETA \<le> sc_entailment s then acc \<union> set (map lf_id leaves) else acc)
                          refreshed' st'))"

definition assertion_support ::
  "gate \<Rightarrow> 'c gate_consumers \<Rightarrow> leaf_store \<Rightarrow> string \<Rightarrow> string set \<Rightarrow> bound_fact list \<Rightarrow> nat \<Rightarrow> 'c \<Rightarrow>
     'c \<times> nat \<times> (gate_error + string set)" where
  "assertion_support gt gc store a ids contra refreshed st =
     support_pages gc store a contra True (chunks (gt_leaf_cap gt) (sorted_list_of_set ids)) {} refreshed st"

text \<open>\<open>check_assertions\<close> is the loop over the assertions; it collects the supported ones with their
  leaves and the unsupported ones.\<close>

fun check_assertions ::
  "gate \<Rightarrow> 'c gate_consumers \<Rightarrow> leaf_store \<Rightarrow> string set \<Rightarrow> bound_fact list \<Rightarrow> string list \<Rightarrow>
     (string, string set) btree \<Rightarrow> string list \<Rightarrow> nat \<Rightarrow> 'c \<Rightarrow>
     'c \<times> (gate_error + ((string, string set) btree \<times> string list \<times> nat))" where
  "check_assertions gt gc store ids contra [] sups unsup refreshed st = (st, Inr (sups, unsup, refreshed))"
| "check_assertions gt gc store ids contra (a # todo) sups unsup refreshed st =
     (case assertion_support gt gc store a ids contra refreshed st of
        (st', refreshed', Inl e) \<Rightarrow> (st', Inl e)
      | (st', refreshed', Inr s) \<Rightarrow>
          if s = {} then check_assertions gt gc store ids contra todo sups (unsup @ [a]) refreshed' st'
          else check_assertions gt gc store ids contra todo (bt_insert a s sups) unsup refreshed' st')"

definition missing_facts :: "candidate \<Rightarrow> bound_fact set \<Rightarrow> bound_fact list" where
  "missing_facts c facts =
     filter (\<lambda>f. f \<notin> set (ca_rendered c) \<or> \<not> str_contains (bf_statement f) (ca_rendered_text c))
       (sorted_list_of_set facts)"

definition gate_validate ::
  "(candidate \<Rightarrow> string) \<Rightarrow> gate \<Rightarrow> candidate \<Rightarrow> bound_fact list \<Rightarrow> bound_fact list \<Rightarrow> leaf_store \<Rightarrow>
     'c gate_consumers \<Rightarrow> 'c \<Rightarrow> 'c \<times> (gate_error + validation_record)" where
  "gate_validate dig gt c required always_checked store gc st =
     (if gc_independence gc st \<noteq> gt_independence gt then (st, Inl IndependenceError)
      else case input_bounds c required always_checked of
        Inl e \<Rightarrow> (st, Inl e)
      | Inr _ \<Rightarrow>
          let vr = \<lparr>vr_candidate_digest = dig c, vr_verdict = Pass, vr_support = [], vr_cap_pressure = False,
                    vr_refreshed = 0, vr_required_refinement_unavailable = False\<rparr>
          in case provenance_roots c of
               Inl reason \<Rightarrow> (st, Inr (vr\<lparr>vr_verdict := FailProvenance reason\<rparr>))
             | Inr ids \<Rightarrow>
                 if \<exists>i \<in> ids. \<not> (case store i of None \<Rightarrow> False | Some l \<Rightarrow> is_ingress l)
                 then (st, Inr (vr\<lparr>vr_verdict := FailProvenance UngroundedRoot\<rparr>))
                 else
                   let (st1, facts, unavailable) = required_union gc required st;
                       vr1 = vr\<lparr>vr_required_refinement_unavailable := unavailable\<rparr>;
                       missing = missing_facts c facts
                   in if missing \<noteq> [] \<or> ca_pending_notes c \<noteq> {}
                      then (st1, Inr (vr1\<lparr>vr_verdict := FailCompleteness missing\<rparr>))
                      else case extract_assertions gc c st1 of
                        (st2, Inl e) \<Rightarrow> (st2, Inl e)
                      | (st2, Inr assertions) \<Rightarrow>
                          let contra = filter (\<lambda>f. bf_scope f = ca_scope c) (sorted_list_of_set facts) @ always_checked;
                              vr2 = vr1\<lparr>vr_cap_pressure := (gt_leaf_cap gt < card ids)\<rparr>
                          in case check_assertions gt gc store ids contra (sorted_list_of_set assertions) [] [] 0 st2 of
                               (st3, Inl e) \<Rightarrow> (st3, Inl e)
                             | (st3, Inr (sups, unsup, refreshed)) \<Rightarrow>
                                 (st3, Inr (vr2\<lparr>vr_support := sups, vr_refreshed := refreshed,
                                   vr_verdict := (if unsup = [] then Pass else FailPrecision unsup)\<rparr>)))"

section \<open>What the gate's verdict means\<close>

lemma starts_with_iff: "starts_with p s \<longleftrightarrow> (\<exists>r. s = p @ r)"
  by (induction p s rule: starts_with.induct) auto

lemma str_contains_iff: "str_contains p s \<longleftrightarrow> (\<exists>a b. s = a @ p @ b)"
proof (induction s)
  case (Cons c cs)
  have "(\<exists>a b. c # cs = a @ p @ b) \<longleftrightarrow> (\<exists>b. c # cs = p @ b) \<or> (\<exists>a b. cs = a @ p @ b)"
    by (metis append_Cons append_Nil list.sel(3) tl_append2)
  with Cons show ?case by (simp add: starts_with_iff)
qed (simp add: starts_with_iff)

lemma chunks_members: "set (concat (chunks n xs)) \<subseteq> set xs"
  by (induction n xs rule: chunks.induct) (auto dest: in_set_takeD in_set_dropD)

lemma chunks_concat: "0 < n \<Longrightarrow> concat (chunks n xs) = xs"
  by (induction n xs rule: chunks.induct) auto

definition loaded :: "leaf_store \<Rightarrow> string set \<Rightarrow> string set" where
  "loaded store ids = {lf_id l | i l. i \<in> ids \<and> store i = Some l \<and> is_ingress l}"

lemma loaded_mono: "A \<subseteq> B \<Longrightarrow> loaded store A \<subseteq> loaded store B"
  unfolding loaded_def by blast

lemma loaded_self: "store i = Some l \<Longrightarrow> is_ingress l \<Longrightarrow> i \<in> A \<Longrightarrow> lf_id l \<in> loaded store A"
  unfolding loaded_def by blast

lemma load_leaves_Inr: "load_leaves store ids = Inr ls \<Longrightarrow> lf_id ` set ls \<subseteq> loaded store (set ids)"
proof (induction ids arbitrary: ls)
  case (Cons i ids)
  then obtain l ls' where "store i = Some l" "is_ingress l" "ls = l # ls'" "load_leaves store ids = Inr ls'"
    by (auto split: option.splits if_splits)
  with Cons.IH [of ls'] loaded_mono [of "set ids" "set (i # ids)" store] loaded_self [of store i l "set (i # ids)"]
  show ?case by auto
qed simp

lemma support_pages_Inr:
  assumes "support_pages gc store a contra first pages acc n st = (st', n', Inr s)"
    and "acc \<subseteq> loaded store ids" and "set (concat pages) \<subseteq> ids"
  shows "s \<subseteq> loaded store ids"
  using assms
proof (induction gc store a contra first pages acc n st rule: support_pages.induct)
  case (2 gc store a contra first chunk pages acc n st)
  from 2(2) obtain ls where ls: "load_leaves store chunk = Inr ls" by (auto split: sum.splits)
  have "lf_id ` set ls \<subseteq> loaded store ids"
    using load_leaves_Inr [OF ls] loaded_mono [of "set chunk" ids store] 2(4) by auto
  with 2(2,3) have acc: "acc \<union> lf_id ` set ls \<subseteq> loaded store ids" by simp
  show ?case using 2(1) [OF ls _ refl] 2(2,4) acc
    by (auto simp: ls Let_def split: if_splits prod.splits sum.splits)
qed simp

lemma check_assertions_Inr:
  assumes "check_assertions gt gc store ids contra todo sups unsup n st = (st', Inr (sups', unsup', n'))"
    and "finite ids" and "\<And>a s. bt_get sups a = Some s \<Longrightarrow> s \<noteq> {} \<and> s \<subseteq> loaded store ids"
  shows "(\<forall>a \<in> set todo. a \<in> set unsup' \<or> bt_get sups' a \<noteq> None) \<and> set unsup \<subseteq> set unsup' \<and>
    (\<forall>a. bt_get sups a \<noteq> None \<longrightarrow> bt_get sups' a \<noteq> None) \<and>
    (\<forall>a s. bt_get sups' a = Some s \<longrightarrow> s \<noteq> {} \<and> s \<subseteq> loaded store ids)"
  using assms
proof (induction todo arbitrary: sups unsup n st)
  case (Cons a todo)
  from Cons.prems(1) obtain st1 n1 s where s: "assertion_support gt gc store a ids contra n st = (st1, n1, Inr s)"
    by (auto split: prod.splits sum.splits)
  have "s \<subseteq> loaded store ids"
    using support_pages_Inr [OF s [unfolded assertion_support_def], of ids]
      chunks_members [of "gt_leaf_cap gt" "sorted_list_of_set ids"] Cons.prems(2) by simp
  then have ok: "\<And>b t. bt_get (if s = {} then sups else bt_insert a s sups) b = Some t \<Longrightarrow>
      t \<noteq> {} \<and> t \<subseteq> loaded store ids"
    using Cons.prems(3) by (auto split: if_splits)
  have rest: "check_assertions gt gc store ids contra todo (if s = {} then sups else bt_insert a s sups)
      (if s = {} then unsup @ [a] else unsup) n1 st1 = (st', Inr (sups', unsup', n'))"
    using Cons.prems(1) by (simp add: s split: if_splits)
  note IH = Cons.IH [OF rest Cons.prems(2) ok]
  show ?case
  proof (cases "s = {}")
    case True
    with IH show ?thesis by simp
  next
    case False
    from IH False have kept: "\<And>b. bt_get (bt_insert a s sups) b \<noteq> None \<Longrightarrow> bt_get sups' b \<noteq> None" by simp
    have "bt_get sups' a \<noteq> None" by (rule kept) simp
    moreover have "bt_get sups' b \<noteq> None" if "bt_get sups b \<noteq> None" for b
      by (rule kept) (use that in simp)
    ultimately show ?thesis using IH False by simp
  qed
qed simp

text \<open>A passing record: provenance is grounded in authenticated ingress, every required fact is rendered,
  no note is pending, and every non-blank line of the artifact is supported by ingress leaves.\<close>

lemma gate_validate_Pass:
  assumes "gate_validate dig gt c required always store gc st = (st', Inr vr)" and "vr_verdict vr = Pass"
  obtains ids facts where "provenance_roots c = Inr ids"
    and "\<And>i. i \<in> ids \<Longrightarrow> \<exists>l. store i = Some l \<and> is_ingress l"
    and "set required \<subseteq> facts" and "finite facts" and "missing_facts c facts = []" and "ca_pending_notes c = {}"
    and "vr_candidate_digest vr = dig c"
    and "finite ids \<Longrightarrow> \<forall>a \<in> set (str_lines (ca_artifact c)). \<not> is_blank a \<longrightarrow> bt_get (vr_support vr) a \<noteq> None"
    and "finite ids \<Longrightarrow> \<forall>a s. bt_get (vr_support vr) a = Some s \<longrightarrow> s \<noteq> {} \<and> s \<subseteq> loaded store ids"
proof -
  from assms obtain ids where ids: "provenance_roots c = Inr ids"
    and auth: "\<not> (\<exists>i \<in> ids. \<not> (case store i of None \<Rightarrow> False | Some l \<Rightarrow> is_ingress l))"
    by (auto simp: gate_validate_def Let_def split: if_splits sum.splits)
  obtain st1 facts unavailable where ru: "required_union gc required st = (st1, facts, unavailable)"
    by (cases "required_union gc required st")
  from assms ids auth ru have complete: "missing_facts c facts = []" "ca_pending_notes c = {}"
    by (auto simp: gate_validate_def Let_def split: if_splits sum.splits)
  from assms ids auth ru complete obtain st2 assertions where
    ex: "extract_assertions gc c st1 = (st2, Inr assertions)"
    by (cases "extract_assertions gc c st1") (auto simp: gate_validate_def Let_def split: if_splits sum.splits)
  define contra where "contra = filter (\<lambda>f. bf_scope f = ca_scope c) (sorted_list_of_set facts) @ always"
  obtain st3 r where ck: "check_assertions gt gc store ids contra (sorted_list_of_set assertions) [] [] 0 st2 = (st3, r)"
    by (cases "check_assertions gt gc store ids contra (sorted_list_of_set assertions) [] [] 0 st2")
  from assms ids auth ru complete ex ck obtain sups refreshed where r: "r = Inr (sups, [], refreshed)"
    and vr: "vr_support vr = sups" "vr_candidate_digest vr = dig c"
    by (auto simp: gate_validate_def Let_def contra_def split: if_splits sum.splits prod.splits)
  have "set required \<subseteq> facts \<and> finite facts" using ru by (auto simp: required_union_def split: prod.splits sum.splits if_splits)
  moreover have lines: "finite assertions" "\<And>a. a \<in> set (str_lines (ca_artifact c)) \<Longrightarrow> \<not> is_blank a \<Longrightarrow> a \<in> assertions"
    using ex by (auto simp: extract_assertions_def Let_def split: prod.splits sum.splits if_splits)
  moreover have "\<exists>l. store i = Some l \<and> is_ingress l" if "i \<in> ids" for i
    using auth that by (auto split: option.splits)
  moreover note check_assertions_Inr [OF ck [unfolded r]]
  ultimately show ?thesis using that [of ids facts] ids complete vr by simp
qed

end
