(* ===== verification/Text.thy ===== *)
theory Text
  imports Canonical
begin

text \<open>
  Numbers and bytes as text: the standard library's decimal formatting and parsing of unsigned integers, its
  hexadecimal formatting, and the two hex helpers of \<^verbatim>\<open>src/context_store/vault.rs\<close>, with their round trips.
\<close>

section \<open>Decimal numbers\<close>

definition digit :: "nat \<Rightarrow> char" where
  "digit n = char_of (48 + n)"

fun decimal :: "nat \<Rightarrow> string" where
  "decimal n = (if n < 10 then [digit n] else decimal (n div 10) @ [digit (n mod 10)])"

declare decimal.simps [simp del]

lemma digit_value: "n < 10 \<Longrightarrow> (of_char (digit n) :: nat) = 48 + n"
  by (simp add: digit_def take_bit_nat_eq_self of_char_of)

lemma decimal_value: "foldl (\<lambda>a c. a * 10 + (of_char c - 48)) 0 (decimal n) = n"
proof (induction n rule: decimal.induct)
  case (1 n)
  show ?case
  proof (cases "n < 10")
    case True
    then have "decimal n = [digit n]" by (simp add: decimal.simps [of n])
    with True show ?thesis by (simp add: digit_value)
  next
    case False
    then have "decimal n = decimal (n div 10) @ [digit (n mod 10)]" by (simp add: decimal.simps [of n])
    moreover have "n mod 10 < 10" by simp
    ultimately show ?thesis using 1 [OF False] by (simp add: digit_value)
  qed
qed

definition is_digit :: "char \<Rightarrow> bool" where
  "is_digit c \<longleftrightarrow> 48 \<le> (of_char c :: nat) \<and> (of_char c :: nat) \<le> 57"

text \<open>\<open>str::parse::<u64>\<close>: an optional plus sign, at least one digit, and no overflow.\<close>

definition parse_u64 :: "string \<Rightarrow> u64 option" where
  "parse_u64 s =
     (let ds = (case s of c # cs \<Rightarrow> if c = CHR ''+'' then cs else s | [] \<Rightarrow> s);
          n = foldl (\<lambda>a c. a * 10 + (of_char c - 48)) 0 ds
      in if ds = [] \<or> \<not> list_all is_digit ds \<or> u64_modulus \<le> n then None else Some n)"

lemma is_digit_digit: "n < 10 \<Longrightarrow> is_digit (digit n)"
  by (simp add: is_digit_def digit_value)

lemma decimal_digits: "decimal n \<noteq> [] \<and> list_all is_digit (decimal n)"
proof (induction n rule: decimal.induct)
  case (1 n)
  then show ?case
    by (cases "n < 10") (simp_all add: decimal.simps [of n] is_digit_digit)
qed

lemma parse_decimal: "n < u64_modulus \<Longrightarrow> parse_u64 (decimal n) = Some n"
proof -
  assume n: "n < u64_modulus"
  obtain c cs where d: "decimal n = c # cs" using decimal_digits [of n] by (cases "decimal n") auto
  then have "is_digit c" using decimal_digits [of n] by simp
  then have "c \<noteq> CHR ''+''" by (auto simp: is_digit_def)
  then have "(case decimal n of c # cs \<Rightarrow> if c = CHR ''+'' then cs else decimal n | [] \<Rightarrow> decimal n) = decimal n"
    by (simp add: d)
  with n decimal_digits [of n] decimal_value [of n] show ?thesis by (simp add: parse_u64_def Let_def)
qed

section \<open>Hexadecimal\<close>

definition hex_digit :: "nat \<Rightarrow> char" where
  "hex_digit n = (if n < 10 then char_of (48 + n) else char_of (87 + n))"

text \<open>\<open>char::to_digit(16)\<close> also reads upper case.\<close>

definition hex_value :: "char \<Rightarrow> nat option" where
  "hex_value c =
     (let n = of_char c :: nat
      in if 48 \<le> n \<and> n \<le> 57 then Some (n - 48)
         else if 97 \<le> n \<and> n \<le> 102 then Some (n - 87)
         else if 65 \<le> n \<and> n \<le> 70 then Some (n - 55)
         else None)"

definition hex :: "byte list \<Rightarrow> string" where
  "hex bs = concat (map (\<lambda>b. [hex_digit (unat b div 16), hex_digit (unat b mod 16)]) bs)"

fun unhex :: "string \<Rightarrow> byte list option" where
  "unhex [] = Some []"
| "unhex [c] = None"
| "unhex (c # d # cs) =
     (case hex_value c of
        None \<Rightarrow> None
      | Some high \<Rightarrow>
          (case hex_value d of
             None \<Rightarrow> None
           | Some low \<Rightarrow> map_option (\<lambda>bs. word_of_nat (16 * high + low) # bs) (unhex cs)))"

text \<open>The format \<open>{:016x}\<close> of a 64-bit word.\<close>

fun hex_digits :: "nat \<Rightarrow> nat \<Rightarrow> string" where
  "hex_digits 0 n = []"
| "hex_digits (Suc k) n = hex_digits k (n div 16) @ [hex_digit (n mod 16)]"

definition hex16 :: "digest \<Rightarrow> string" where
  "hex16 d = hex_digits 16 (unat d)"

lemma hex_value_digit: "n < 16 \<Longrightarrow> hex_value (hex_digit n) = Some n"
  by (auto simp: hex_value_def hex_digit_def Let_def of_char_of take_bit_nat_eq_self)

lemma hex_Cons: "hex (b # bs) = hex_digit (unat b div 16) # hex_digit (unat b mod 16) # hex bs"
  by (simp add: hex_def)

lemma unhex_hex: "unhex (hex bs) = Some bs"
proof (induction bs)
  case (Cons b bs)
  have "unat b < 256" using unsigned_less [of b] by simp
  then have "hex_value (hex_digit (unat b div 16)) = Some (unat b div 16)"
    "hex_value (hex_digit (unat b mod 16)) = Some (unat b mod 16)"
    by (simp_all add: hex_value_digit)
  moreover have "(word_of_nat (16 * (unat b div 16) + unat b mod 16) :: byte) = b" by simp
  ultimately show ?case using Cons by (simp add: hex_Cons)
qed (simp add: hex_def)

end
