(* ===== verification/Semantics.thy ===== *)
theory Semantics
  imports Gate Text
begin

text \<open>
  The semantic projection of \<^verbatim>\<open>src/context_kernel/validation/state.rs\<close>: validated artifacts that are put,
  flushed, reclassified, split and erased.  Every operation works on a clone, so it either returns
  the new projection or an error.  \<open>dig\<close> is the digest of a candidate.
\<close>

section \<open>Definitions\<close>

datatype semantic_operation = Note | ReadBack | Reopen | Fold | Compact | Condense | Regenerate

fun semantic_name :: "semantic_operation \<Rightarrow> string" where
  "semantic_name Note = ''note''"
| "semantic_name ReadBack = ''read-back''"
| "semantic_name Reopen = ''reopen''"
| "semantic_name Fold = ''fold''"
| "semantic_name Compact = ''compact''"
| "semantic_name Condense = ''condense''"
| "semantic_name Regenerate = ''regenerate''"

definition lossy :: "semantic_operation \<Rightarrow> bool" where
  "lossy op \<longleftrightarrow> op \<in> {Fold, Compact, Condense, Regenerate}"

record semantic_command =
  cm_operation :: semantic_operation
  cm_key :: string
  cm_sources :: "string list"
  cm_lane :: nat
  cm_candidate :: candidate
  cm_store_handle :: string
  cm_authority :: "lane_authority option"

record semantic_artifact =
  sa_command :: semantic_command
  sa_validation :: validation_record
  sa_rendered :: bool
  sa_depth :: nat

datatype semantic_event =
    SemanticPut semantic_command validation_record
  | FlushNotes
  | Reclassify string nat
  | SemanticResegment string "string list"

fun semantic_event_operation :: "semantic_event \<Rightarrow> string" where
  "semantic_event_operation (SemanticPut c v) = semantic_name (cm_operation c)"
| "semantic_event_operation FlushNotes = ''flush-notes''"
| "semantic_event_operation (Reclassify k l) = ''reclassify''"
| "semantic_event_operation (SemanticResegment k ps) = ''resegment''"

type_synonym semantic_state = "(string, semantic_artifact) btree"

definition rendered_bytes :: "semantic_state \<Rightarrow> u64" where
  "rendered_bytes s =
     sum64 (map (\<lambda>a. length (ca_artifact (cm_candidate (sa_command a)))) (filter sa_rendered (bt_values s)))"

definition lane_code :: "lane \<Rightarrow> nat" where
  "lane_code l = (case l of Constitutional \<Rightarrow> 1 | Decisional \<Rightarrow> 2 | Evidential \<Rightarrow> 3 | Ephemeral \<Rightarrow> 4)"

definition erase_artifact :: "(candidate \<Rightarrow> string) \<Rightarrow> semantic_artifact \<Rightarrow> semantic_artifact" where
  "erase_artifact dig a =
     (let c = (cm_candidate (sa_command a))\<lparr>ca_artifact := TOMBSTONE, ca_rendered_text := TOMBSTONE, ca_rendered := []\<rparr>
      in a\<lparr>sa_command := (sa_command a)\<lparr>cm_candidate := c\<rparr>,
           sa_validation := (sa_validation a)\<lparr>vr_support := [], vr_candidate_digest := dig c,
             vr_verdict := FailProvenance UngroundedRoot\<rparr>\<rparr>)"

definition semantic_erase :: "(candidate \<Rightarrow> string) \<Rightarrow> semantic_state \<Rightarrow> string \<Rightarrow> semantic_state" where
  "semantic_erase dig s leaf =
     bt_map_values (\<lambda>a.
       if list_ex (\<lambda>ls. leaf \<in> ls) (bt_values (vr_support (sa_validation a))) then erase_artifact dig a else a) s"

definition replay_authority :: "semantic_command \<Rightarrow> validation_record \<Rightarrow> gate_error + unit" where
  "replay_authority c v =
     ensure (2 < cm_lane c \<or>
       (case cm_authority c of None \<Rightarrow> False
        | Some a \<Rightarrow> replay_valid a (cm_lane c) (ca_scope (cm_candidate c)) (vr_candidate_digest v))) BoundsError"

text \<open>\<open>source_depth\<close> is the loop over the sources of a lossy command: each must be rendered, of the same
  lane and scope; it returns the greatest depth.  Depths are 32-bit.\<close>

fun source_depth :: "semantic_state \<Rightarrow> semantic_command \<Rightarrow> string list \<Rightarrow> nat \<Rightarrow> gate_error + nat" where
  "source_depth s c [] d = Inr d"
| "source_depth s c (k # ks) d =
     res_bind (ok_or (bt_get s k) BoundsError) (\<lambda>a.
       if \<not> sa_rendered a \<or> cm_lane (sa_command a) \<noteq> cm_lane c \<or>
         ca_scope (cm_candidate (sa_command a)) \<noteq> ca_scope (cm_candidate c)
       then Inl BoundsError
       else source_depth s c ks (max d (sa_depth a)))"

definition checked_add32 :: "nat \<Rightarrow> nat \<Rightarrow> nat option" where
  "checked_add32 a b = (if a + b < 4294967296 then Some (a + b) else None)"

definition put_depth :: "semantic_state \<Rightarrow> semantic_command \<Rightarrow> scope_registry \<Rightarrow> gate_error + nat" where
  "put_depth s c scopes =
     (if lossy (cm_operation c)
      then if cm_sources c = [] \<or> cm_lane c = 1 then Inl BoundsError
        else res_bind (source_depth s c (cm_sources c) 0) (\<lambda>d.
             res_bind
               (if cm_operation c = Fold
                then res_bind (map_err (\<lambda>_. BoundsError) (scope_state_of scopes (ca_scope (cm_candidate c)))) (\<lambda>st.
                  ensure (\<not> is_open st) BoundsError)
                else Inr ()) (\<lambda>_.
             if cm_operation c = Regenerate then Inr 0 else ok_or (checked_add32 d 1) BoundsError))
      else if cm_sources c \<noteq> [] then Inl BoundsError
      else Inr 0)"

definition semantic_put ::
  "(candidate \<Rightarrow> string) \<Rightarrow> semantic_state \<Rightarrow> semantic_command \<Rightarrow> validation_record \<Rightarrow> scope_registry \<Rightarrow>
     gate_error + semantic_state" where
  "semantic_put dig s c v scopes =
     (if bt_contains s (cm_key c) \<or> cm_key c = [] \<or> 256 < length (cm_key c) \<or> cm_store_handle c = [] \<or>
         vr_verdict v \<noteq> Pass \<or> vr_candidate_digest v \<noteq> dig (cm_candidate c) \<or>
         \<not> (1 \<le> cm_lane c \<and> cm_lane c \<le> 4) \<or> MAX_GRAPH_NODES \<le> length s
      then Inl BoundsError
      else res_bind (replay_authority c v) (\<lambda>_.
           res_bind (put_depth s c scopes) (\<lambda>d.
             if card (set (cm_sources c)) \<noteq> length (cm_sources c) then Inl BoundsError
             else Inr (bt_insert (cm_key c)
               \<lparr>sa_command = c, sa_validation = v, sa_rendered = (cm_operation c \<noteq> Note), sa_depth = d\<rparr>
               (fold bt_remove (cm_sources c) s)))))"

definition child_key :: "string \<Rightarrow> nat \<Rightarrow> string" where
  "child_key k i = k @ CHR ''/'' # decimal i"

definition split_child :: "(candidate \<Rightarrow> string) \<Rightarrow> semantic_artifact \<Rightarrow> string \<Rightarrow> string \<Rightarrow> semantic_artifact" where
  "split_child dig original i t =
     (let c = (cm_candidate (sa_command original))\<lparr>ca_artifact := t\<rparr>
      in original\<lparr>sa_command := (sa_command original)\<lparr>cm_key := i, cm_candidate := c\<rparr>,
           sa_validation := (sa_validation original)\<lparr>vr_candidate_digest := dig c\<rparr>\<rparr>)"

fun insert_children ::
  "(candidate \<Rightarrow> string) \<Rightarrow> semantic_artifact \<Rightarrow> string \<Rightarrow> nat \<Rightarrow> string list \<Rightarrow> semantic_state \<Rightarrow> gate_error + semantic_state" where
  "insert_children dig original k n [] s = Inr s"
| "insert_children dig original k n (t # ts) s =
     (if bt_contains s (child_key k n) then Inl BoundsError
      else insert_children dig original k (Suc n) ts
        (bt_insert (child_key k n) (split_child dig original (child_key k n) t) s))"

definition semantic_split ::
  "(candidate \<Rightarrow> string) \<Rightarrow> semantic_state \<Rightarrow> string \<Rightarrow> string list \<Rightarrow> gate_error + semantic_state" where
  "semantic_split dig s k parts =
     res_bind (ok_or (bt_get s k) BoundsError) (\<lambda>original.
       if length parts < 2 \<or> MAX_ASSERTIONS < length parts \<or> [] \<in> set parts \<or>
         concat parts \<noteq> ca_artifact (cm_candidate (sa_command original)) \<or>
         MAX_GRAPH_NODES < length s + length parts
       then Inl BoundsError
       else insert_children dig original k 0 parts (bt_remove k s))"

fun semantic_apply ::
  "(candidate \<Rightarrow> string) \<Rightarrow> semantic_state \<Rightarrow> semantic_event \<Rightarrow> scope_registry \<Rightarrow> gate_error + semantic_state" where
  "semantic_apply dig s (SemanticPut c v) scopes = semantic_put dig s c v scopes"
| "semantic_apply dig s FlushNotes scopes = Inr (bt_map_values (\<lambda>a. a\<lparr>sa_rendered := True\<rparr>) s)"
| "semantic_apply dig s (Reclassify k lane) scopes =
     res_bind (ok_or (bt_get s k) BoundsError) (\<lambda>a.
       if lane < cm_lane (sa_command a) \<or> 4 < lane then Inl BoundsError
       else Inr (bt_adjust k (\<lambda>a. a\<lparr>sa_command := (sa_command a)\<lparr>cm_lane := lane\<rparr>\<rparr>) s))"
| "semantic_apply dig s (SemanticResegment k parts) scopes = semantic_split dig s k parts"

section \<open>The invariant\<close>

definition artifact_ok :: "(candidate \<Rightarrow> string) \<Rightarrow> string \<Rightarrow> semantic_artifact \<Rightarrow> bool" where
  "artifact_ok dig k a \<longleftrightarrow>
     cm_key (sa_command a) = k \<and> 1 \<le> cm_lane (sa_command a) \<and> cm_lane (sa_command a) \<le> 4 \<and>
     vr_candidate_digest (sa_validation a) = dig (cm_candidate (sa_command a)) \<and>
     (vr_verdict (sa_validation a) = Pass \<or>
      vr_verdict (sa_validation a) = FailProvenance UngroundedRoot \<and> vr_support (sa_validation a) = [])"

definition semantics_ok :: "(candidate \<Rightarrow> string) \<Rightarrow> semantic_state \<Rightarrow> bool" where
  "semantics_ok dig s \<longleftrightarrow>
     bt_ok s \<and> length s \<le> MAX_GRAPH_NODES \<and> (\<forall>k a. bt_get s k = Some a \<longrightarrow> artifact_ok dig k a)"

lemma semantics_ok_new [simp]: "semantics_ok dig []"
  by (simp add: semantics_ok_def)

lemma bt_ok_remove_all [simp]: "bt_ok m \<Longrightarrow> bt_ok (fold bt_remove ks m)"
  by (rule bt.ok_del_all)

lemma get_remove_all: "bt_ok m \<Longrightarrow> bt_get (fold bt_remove ks m) k = (if k \<in> set ks then None else bt_get m k)"
  by (rule bt.get_del_all)

lemma length_remove: "length (bt_remove k m) \<le> length m"
  by (simp add: bt_remove_def)

lemma length_remove_present: "bt_get m k = Some v \<Longrightarrow> length (bt_remove k m) < length m"
proof (induction m)
  case (Cons kv m)
  then show ?case using length_remove [of k m] by (cases kv) (auto simp: bt_remove_def less_Suc_eq_le split: if_splits)
qed simp

lemma length_remove_all: "length (fold bt_remove ks m) \<le> length m"
proof (induction ks arbitrary: m)
  case (Cons k ks)
  from Cons [of "bt_remove k m"] length_remove [of k m] show ?case by simp
qed simp

lemma semantic_put_Inr:
  assumes "semantic_put dig s c v scopes = Inr s'"
  obtains d where "bt_get s (cm_key c) = None" and "length s < MAX_GRAPH_NODES" and "vr_verdict v = Pass"
    and "vr_candidate_digest v = dig (cm_candidate c)" and "1 \<le> cm_lane c" and "cm_lane c \<le> 4"
    and "replay_authority c v = Inr ()" and "put_depth s c scopes = Inr d" and "distinct (cm_sources c)"
    and "s' = bt_insert (cm_key c)
      \<lparr>sa_command = c, sa_validation = v, sa_rendered = (cm_operation c \<noteq> Note), sa_depth = d\<rparr>
      (fold bt_remove (cm_sources c) s)"
proof -
  from assms obtain d where "put_depth s c scopes = Inr d" "replay_authority c v = Inr ()"
    "card (set (cm_sources c)) = length (cm_sources c)"
    "bt_get s (cm_key c) = None" "length s < MAX_GRAPH_NODES" "vr_verdict v = Pass"
    "vr_candidate_digest v = dig (cm_candidate c)" "1 \<le> cm_lane c" "cm_lane c \<le> 4"
    "s' = bt_insert (cm_key c)
      \<lparr>sa_command = c, sa_validation = v, sa_rendered = (cm_operation c \<noteq> Note), sa_depth = d\<rparr>
      (fold bt_remove (cm_sources c) s)"
    by (auto simp: semantic_put_def bt_contains_def not_le split: if_splits)
  with that show ?thesis by (simp add: card_distinct)
qed

lemma semantic_put_ok:
  assumes ok: "semantics_ok dig s" and put: "semantic_put dig s c v scopes = Inr s'"
  shows "semantics_ok dig s'"
  using put
proof (rule semantic_put_Inr)
  fix d
  let ?m = "fold bt_remove (cm_sources c) s"
  assume new: "bt_get s (cm_key c) = None" and len: "length s < MAX_GRAPH_NODES" and v: "vr_verdict v = Pass"
    "vr_candidate_digest v = dig (cm_candidate c)" "1 \<le> cm_lane c" "cm_lane c \<le> 4"
    and s': "s' = bt_insert (cm_key c)
      \<lparr>sa_command = c, sa_validation = v, sa_rendered = (cm_operation c \<noteq> Note), sa_depth = d\<rparr> ?m"
  have bt: "bt_ok s" using ok by (simp add: semantics_ok_def)
  have get: "bt_get ?m k = (if k \<in> set (cm_sources c) then None else bt_get s k)" for k
    by (rule get_remove_all [OF bt])
  have "bt_get ?m (cm_key c) = None" using new by (simp add: get)
  then have "length s' \<le> MAX_GRAPH_NODES"
    using length_remove_all [of "cm_sources c" s] len by (simp add: s' length_insert_absent)
  with ok v bt show ?thesis
    by (auto simp: semantics_ok_def s' get artifact_ok_def split: if_splits)
qed

section \<open>Splitting\<close>

lemma child_key_inject [simp]: "child_key k i = child_key k j \<longleftrightarrow> i = j"
proof
  assume "child_key k i = child_key k j"
  then have "decimal i = decimal j" by (simp add: child_key_def)
  then show "i = j" by (metis decimal_value)
qed simp

lemma child_key_other [simp]: "child_key k i \<noteq> k" "k \<noteq> child_key k i"
  by (simp_all add: child_key_def)

text \<open>The children a split inserts, with their keys.\<close>

fun split_bindings ::
  "(candidate \<Rightarrow> string) \<Rightarrow> semantic_artifact \<Rightarrow> string \<Rightarrow> nat \<Rightarrow> string list \<Rightarrow> (string \<times> semantic_artifact) list" where
  "split_bindings dig original k n [] = []"
| "split_bindings dig original k n (t # ts) =
     (child_key k n, split_child dig original (child_key k n) t) # split_bindings dig original k (Suc n) ts"

lemma split_bindings_keys: "map fst (split_bindings dig a k n ts) = map (child_key k) [n ..< n + length ts]"
  by (induction ts arbitrary: n) (simp_all add: upt_rec)

lemma split_bindings_distinct: "distinct (map fst (split_bindings dig a k n ts))"
  by (simp add: split_bindings_keys distinct_map inj_on_def)

lemma split_bindings_member:
  "(j, x) \<in> set (split_bindings dig a k n ts) \<Longrightarrow> \<exists>t. t \<in> set ts \<and> x = split_child dig a j t"
  by (induction ts arbitrary: n) fastforce+

lemma split_bindings_texts:
  "map (\<lambda>(k, x). ca_artifact (cm_candidate (sa_command x))) (split_bindings dig a k n ts) = ts"
  by (induction ts arbitrary: n) (simp_all add: split_child_def Let_def)

lemma insert_children_iff:
  assumes "bt_ok s"
  shows "insert_children dig a k n ts s = Inr s' \<longleftrightarrow>
    (\<forall>i \<in> {n ..< n + length ts}. bt_get s (child_key k i) = None) \<and>
    s' = fold (\<lambda>(k, v). bt_insert k v) (split_bindings dig a k n ts) s"
  using assms
proof (induction ts arbitrary: n s)
  case (Cons t ts)
  let ?s = "bt_insert (child_key k n) (split_child dig a (child_key k n) t) s"
  have range: "{n ..< n + length (t # ts)} = insert n {Suc n ..< Suc n + length ts}" by auto
  have "(\<forall>i \<in> {Suc n ..< Suc n + length ts}. bt_get ?s (child_key k i) = None) \<longleftrightarrow>
      (\<forall>i \<in> {Suc n ..< Suc n + length ts}. bt_get s (child_key k i) = None)"
    by auto
  with Cons.IH [of ?s "Suc n"] Cons.prems show ?case unfolding range by (auto simp: bt_contains_def)
qed auto

lemma fold_insert_fresh:
  assumes "distinct (map fst kvs)" and "\<forall>k \<in> fst ` set kvs. bt_get m k = None"
  shows "length (fold (\<lambda>(k, v). bt_insert k v) kvs m) = length m + length kvs \<and>
    weigh w P (fold (\<lambda>(k, v). bt_insert k v) kvs m) = weigh w P m + sum_list (map w (filter P (map snd kvs)))"
  using assms
proof (induction kvs arbitrary: m)
  case (Cons kv kvs)
  obtain k v where kv: "kv = (k, v)" by (cases kv)
  have "\<forall>j \<in> fst ` set kvs. bt_get (bt_insert k v m) j = None"
    using Cons.prems by (auto simp: kv)
  with Cons.IH [of "bt_insert k v m"] Cons.prems show ?case
    by (simp add: kv length_insert_absent weigh_insert)
qed simp

lemma semantic_split_Inr:
  assumes ok: "semantics_ok dig s" and split: "semantic_split dig s k parts = Inr s'"
  obtains a where "bt_get s k = Some a" and "concat parts = ca_artifact (cm_candidate (sa_command a))"
    and "2 \<le> length parts" and "length s + length parts \<le> MAX_GRAPH_NODES" and "[] \<notin> set parts"
    and "s' = fold (\<lambda>(k, v). bt_insert k v) (split_bindings dig a k 0 parts) (bt_remove k s)"
    and "\<forall>j \<in> fst ` set (split_bindings dig a k 0 parts). bt_get (bt_remove k s) j = None"
proof -
  from split obtain a where a: "bt_get s k = Some a" "concat parts = ca_artifact (cm_candidate (sa_command a))"
    "2 \<le> length parts" "length s + length parts \<le> MAX_GRAPH_NODES" "[] \<notin> set parts"
    and ins: "insert_children dig a k 0 parts (bt_remove k s) = Inr s'"
    by (auto simp: semantic_split_def split: if_splits)
  have bt: "bt_ok (bt_remove k s)" using ok by (simp add: semantics_ok_def)
  note i = ins [unfolded insert_children_iff [OF bt]]
  have "fst ` set (split_bindings dig a k 0 parts) = child_key k ` {0 ..< length parts}"
    using arg_cong [OF split_bindings_keys [of dig a k 0 parts], of set] by simp
  with i have "\<forall>j \<in> fst ` set (split_bindings dig a k 0 parts). bt_get (bt_remove k s) j = None" by auto
  with i a show ?thesis by (intro that [of a]) simp_all
qed

lemma semantic_split_ok:
  assumes ok: "semantics_ok dig s" and split: "semantic_split dig s k parts = Inr s'"
  shows "semantics_ok dig s'"
proof -
  obtain a where a: "bt_get s k = Some a" "length s + length parts \<le> MAX_GRAPH_NODES"
    and s': "s' = fold (\<lambda>(k, v). bt_insert k v) (split_bindings dig a k 0 parts) (bt_remove k s)"
    and new: "\<forall>j \<in> fst ` set (split_bindings dig a k 0 parts). bt_get (bt_remove k s) j = None"
    by (rule semantic_split_Inr [OF ok split])
  let ?b = "split_bindings dig a k 0 parts"
  have bt: "bt_ok (bt_remove k s)" using ok by (simp add: semantics_ok_def)
  have d: "distinct (map fst ?b)" by (rule split_bindings_distinct)
  have "length ?b = length parts"
    using arg_cong [OF split_bindings_keys [of dig a k 0 parts], of length] by simp
  then have "length s' \<le> MAX_GRAPH_NODES"
    using fold_insert_fresh [OF d new] a(2) length_remove [of k s] by (simp add: s')
  moreover have "artifact_ok dig j x" if "bt_get s' j = Some x" for j x
  proof -
    from that have "map_of ?b j = Some x \<or> bt_get s j = Some x"
      using bt.get_put_all [OF bt d] by (auto simp: s' map_add_Some_iff split: if_splits)
    then show ?thesis
    proof
      assume "map_of ?b j = Some x"
      then have "\<exists>t. x = split_child dig a j t" by (blast dest: map_of_SomeD split_bindings_member)
      moreover have "artifact_ok dig k a" using ok a(1) by (simp add: semantics_ok_def)
      ultimately show ?thesis by (auto simp: artifact_ok_def split_child_def Let_def)
    qed (use ok in \<open>simp add: semantics_ok_def\<close>)
  qed
  moreover have "bt_ok s'" unfolding s' by (rule bt.ok_put_all [OF bt])
  ultimately show ?thesis by (simp add: semantics_ok_def)
qed

section \<open>Every event keeps the invariant\<close>

lemma semantics_ok_map:
  assumes "semantics_ok dig s" and "\<And>k a. artifact_ok dig k a \<Longrightarrow> artifact_ok dig k (f a)"
  shows "semantics_ok dig (bt_map_values f s)"
  using assms by (auto simp: semantics_ok_def)

lemma semantic_erase_ok: "semantics_ok dig s \<Longrightarrow> semantics_ok dig (semantic_erase dig s leaf)"
  unfolding semantic_erase_def
  by (erule semantics_ok_map) (auto simp: artifact_ok_def erase_artifact_def Let_def)

lemma semantic_apply_ok:
  assumes "semantics_ok dig s" and "semantic_apply dig s ev scopes = Inr s'"
  shows "semantics_ok dig s'"
proof (cases ev)
  case FlushNotes
  with assms show ?thesis by (auto simp: artifact_ok_def intro: semantics_ok_map)
next
  case (Reclassify k lane)
  with assms obtain a where a: "bt_get s k = Some a" "cm_lane (sa_command a) \<le> lane" "lane \<le> 4"
    and s': "s' = bt_adjust k (\<lambda>a. a\<lparr>sa_command := (sa_command a)\<lparr>cm_lane := lane\<rparr>\<rparr>) s"
    by (auto split: if_splits)
  from assms(1) a(1) have "artifact_ok dig k a" by (simp add: semantics_ok_def)
  with a(2,3) have "artifact_ok dig k (a\<lparr>sa_command := (sa_command a)\<lparr>cm_lane := lane\<rparr>\<rparr>)"
    by (simp add: artifact_ok_def)
  with assms(1) a(1) show ?thesis by (auto simp: s' semantics_ok_def split: if_splits)
qed (use assms in \<open>auto dest: semantic_put_ok semantic_split_ok\<close>)

type_synonym semantic_input = "semantic_event \<times> scope_registry"

fun semantic_step ::
  "(candidate \<Rightarrow> string) \<Rightarrow> semantic_state \<Rightarrow> semantic_input \<Rightarrow> gate_error + semantic_state" where
  "semantic_step dig s (ev, scopes) = semantic_apply dig s ev scopes"

interpretation semantics: guarded_machine "semantic_step dig" "semantics_ok dig" for dig
  by unfold_locales (auto dest: semantic_apply_ok)

section \<open>Constitutional artifacts and splitting\<close>

lemma source_depth_Inr:
  "source_depth s c ks d = Inr d' \<Longrightarrow> k \<in> set ks \<Longrightarrow>
     \<exists>a. bt_get s k = Some a \<and> cm_lane (sa_command a) = cm_lane c \<and> sa_rendered a \<and>
       ca_scope (cm_candidate (sa_command a)) = ca_scope (cm_candidate c)"
  by (induction ks arbitrary: d) (auto split: if_splits)

text \<open>A constitutional artifact is never the source of a lossy operation, so no event but its own split
  removes it.\<close>

lemma constitutional_stays:
  assumes ok: "semantics_ok dig s" and app: "semantic_apply dig s ev scopes = Inr s'"
    and a: "bt_get s k = Some a" "cm_lane (sa_command a) = 1" and gone: "bt_get s' k = None"
  shows "\<exists>parts. ev = SemanticResegment k parts"
proof (cases ev)
  case (SemanticPut c v)
  with app have "semantic_put dig s c v scopes = Inr s'" by simp
  then obtain d where depth: "put_depth s c scopes = Inr d"
    and s': "s' = bt_insert (cm_key c)
      \<lparr>sa_command = c, sa_validation = v, sa_rendered = (cm_operation c \<noteq> Note), sa_depth = d\<rparr>
      (fold bt_remove (cm_sources c) s)"
    by (rule semantic_put_Inr)
  have "bt_ok s" using ok by (simp add: semantics_ok_def)
  with gone a(1) have "k \<in> set (cm_sources c)" by (auto simp: s' get_remove_all split: if_splits)
  moreover from this depth have "lossy (cm_operation c)" "cm_lane c \<noteq> 1"
    by (auto simp: put_depth_def split: if_splits)
  moreover from this depth obtain d' where "source_depth s c (cm_sources c) 0 = Inr d'"
    by (auto simp: put_depth_def split: if_splits)
  ultimately show ?thesis using source_depth_Inr [of s c "cm_sources c" 0 d' k] a by auto
next
  case (Reclassify j lane)
  with app a gone show ?thesis by (auto split: if_splits)
next
  case (SemanticResegment j parts)
  with app have split: "semantic_split dig s j parts = Inr s'" by simp
  have "k = j"
  proof (rule ccontr)
    assume "k \<noteq> j"
    obtain x where s': "s' = fold (\<lambda>(k, v). bt_insert k v) (split_bindings dig x j 0 parts) (bt_remove j s)"
      by (rule semantic_split_Inr [OF ok split])
    have "bt_ok (bt_remove j s)" using ok by (simp add: semantics_ok_def)
    from bt.get_put_all [OF this split_bindings_distinct] gone a(1) \<open>k \<noteq> j\<close> show False
      by (simp add: s' map_add_def split: option.splits)
  qed
  with SemanticResegment show ?thesis by blast
qed (use app a gone in auto)

lemma weigh_remove:
  assumes "bt_ok m" and "bt_get m k = Some v"
  shows "weigh w P m = weigh w P (bt_remove k m) + (if P v then w v else 0)"
  using assms
proof (induction m)
  case (Cons kv m)
  obtain j x where kv: "kv = (j, x)" by (cases kv)
  have ok: "bt_ok m" and fresh: "j \<notin> fst ` set m" using Cons.prems(1) by (auto simp: bt_ok_def kv)
  show ?case
  proof (cases "j = k")
    case True
    with fresh have "bt_remove k m = m" unfolding bt_remove_def by (force intro: filter_True)
    with True Cons.prems(2) show ?thesis by (simp add: kv weigh_def bt_remove_def)
  next
    case False
    with Cons ok show ?thesis by (simp add: kv weigh_def bt_remove_def)
  qed
qed simp

lemma rendered_bytes_weigh:
  "rendered_bytes s = weigh (\<lambda>a. length (ca_artifact (cm_candidate (sa_command a)))) sa_rendered s mod u64_modulus"
  by (simp add: rendered_bytes_def weigh_def sum64_mod)

text \<open>A split is byte exact: the rendered bytes of the projection do not change.\<close>

lemma split_rendered_bytes:
  assumes ok: "semantics_ok dig s" and split: "semantic_split dig s k parts = Inr s'"
  shows "rendered_bytes s' = rendered_bytes s"
proof -
  let ?w = "\<lambda>a. length (ca_artifact (cm_candidate (sa_command a)))"
  obtain a where a: "bt_get s k = Some a" "concat parts = ca_artifact (cm_candidate (sa_command a))"
    and s': "s' = fold (\<lambda>(k, v). bt_insert k v) (split_bindings dig a k 0 parts) (bt_remove k s)"
    and new: "\<forall>j \<in> fst ` set (split_bindings dig a k 0 parts). bt_get (bt_remove k s) j = None"
    by (rule semantic_split_Inr [OF ok split])
  let ?b = "split_bindings dig a k 0 parts"
  have rendered: "sa_rendered x = sa_rendered a" if "x \<in> set (map snd ?b)" for x
    using that by (auto simp: split_child_def Let_def dest!: split_bindings_member)
  have "sum_list (map ?w (filter sa_rendered (map snd ?b))) = (if sa_rendered a then ?w a else 0)"
  proof (cases "sa_rendered a")
    case True
    with rendered have "filter sa_rendered (map snd ?b) = map snd ?b" by (simp add: filter_True)
    moreover have "map ?w (map snd ?b) = map length parts"
      using arg_cong [OF split_bindings_texts [of dig a k 0 parts], of "map length"]
      by (simp add: comp_def case_prod_unfold)
    ultimately show ?thesis using True a(2) by (simp add: length_concat flip: a(2))
  next
    case False
    with rendered have "filter sa_rendered (map snd ?b) = []" by (simp add: filter_False)
    with False show ?thesis by simp
  qed
  then have "weigh ?w sa_rendered s' = weigh ?w sa_rendered s"
    using fold_insert_fresh [OF split_bindings_distinct new, of ?w sa_rendered] ok
      weigh_remove [of s k a ?w sa_rendered] a(1)
    by (simp add: s' semantics_ok_def)
  then show ?thesis by (simp add: rendered_bytes_weigh)
qed

end
