(* ===== verification/TrustProperties.thy ===== *)
theory TrustProperties
  imports Semantics
begin

text \<open>
  The properties of the components that decide what may be trusted: pins and erasures, read-only
  branches, provenance, the validation gate and the semantic projection.
\<close>

section \<open>Security\<close>

abbreviation demo_owner :: source where
  "demo_owner \<equiv> \<lparr>so_leaf = ''leaf-1'', so_authority = UserAuthority, so_origin = IngressOrigin, so_scope = 2\<rparr>"

abbreviation demo_pin :: pin where
  "demo_pin \<equiv> \<lparr>pn_item = 7, pn_owner = demo_owner, pn_expires = 20\<rparr>"

abbreviation demo_pins :: security_state where
  "demo_pins \<equiv> security_default\<lparr>ss_pins := [(7, demo_pin)]\<rparr>"

lemmas security_eval = security_default_def PIN_CAP_def PIN_TTL_def is_principal_def bt_contains_def
  saturating_add_def less_eq_authority_def bt_remove_def

text \<open>Whatever security events are accepted, at most 32 items are pinned, each pin is owned by an
  ingress principal of at least agent authority, and every escalation was requested by an operator
  and stays below its envelope's ceiling.\<close>

lemma security_bounded:
  assumes "run_steps security_step security_default inputs = Inr s"
  shows "length (ss_pins s) \<le> 32 \<and>
    (\<forall>i p. bt_get (ss_pins s) i = Some p \<longrightarrow> pn_item p = i \<and> is_principal (pn_owner p)) \<and>
    (\<forall>i r. bt_get (ss_escalations s) i = Some r \<longrightarrow>
       is_operator (es_operator r) \<and> es_before r < es_after r \<and> es_after r \<le> es_envelope_ceiling r)"
  using securities.run_keeps [OF security_ok_default assms]
  by (auto simp: security_ok_def PIN_CAP_def pin_ok_def escalation_ok_def)

text \<open>A pin leaves the state only by its own owner's release, or by an expiry event at a sequence
  the pin's expiry has reached.\<close>

lemma pin_released_by_owner_or_expiry:
  assumes "run_steps security_step security_default inputs = Inr s" and "security_apply s ev q placed = Inr s'"
    and "bt_get (ss_pins s) i = Some p" and "bt_get (ss_pins s') i \<noteq> Some p"
  shows "ev = UnpinEvent i (pn_owner p) \<or> (\<exists>e. ev = ExpireEvent e \<and> e \<le> q \<and> pn_expires p \<le> q)"
  by (rule pin_leaves [OF securities.run_keeps [OF security_ok_default assms(1)] assms(2-4)])

text \<open>An erasure is permanent: no later event removes or rewrites its record, and erasing the same
  leaf again is refused.\<close>

lemma erasure_permanent:
  assumes "run_steps security_step s inputs = Inr s'" and "bt_get (ss_erased s) leaf = Some er"
  shows "bt_get (ss_erased s') leaf = Some er \<and>
    (\<forall>er'. er_leaf er' = leaf \<longrightarrow> security_apply s' (EraseEvent er') q placed = Inl ErasureError)"
  using security_history.run_below [OF assms(1)] assms(2) by (auto simp: security_later_def bt_contains_def)

abbreviation demo_erasure :: erasure where
  "demo_erasure \<equiv> \<lparr>er_leaf = ''leaf-1'', er_vault_handle = ''vault'', er_post_checkpoint = replicate 64 CHR ''0'',
     er_pre_hashes_unverifiable = True\<rparr>"

section \<open>Branches\<close>

abbreviation demo_tool :: tool_contract where
  "demo_tool \<equiv> \<lparr>tc_name = ''read_file'', tc_read_only = True, tc_reads = {}, tc_writes = {}\<rparr>"

abbreviation demo_spawn :: spawn where
  "demo_spawn \<equiv> \<lparr>sp_namespace = ''n'', sp_parent = None, sp_parent_version = 1, sp_scope = 1,
     sp_constitutional = [], sp_notes = {}, sp_limits = default_limits, sp_tools = [demo_tool]\<rparr>"

lemmas branch_eval = branch_open_def check_limits_def open_depth_def default_limits_def active_slots_def
  permits_branch_def bt_contains_def branch_live_def branch_active_def no_children_def

text \<open>Every branch is within its budgets: its spend is the sum of its rounds' and within its limits,
  which are within its parent's and the defaults; its depth counts its ancestors; every call is
  recorded once and used a granted read-only tool; and the active branches together never exceed the
  concurrency any of them was granted.\<close>

lemma branches_within_limits:
  assumes "run_steps branch_step [] inputs = Inr s" and "bt_get s n = Some b"
  shows "branch_ok b \<and> (branch_active b \<longrightarrow>
    active_slots s \<le> lm_concurrency (sp_limits (br_spawn b)) \<and> parent_ok s b)"
  using branches_okD(3) [OF branches.run_keeps [OF branches_ok_new assms(1)] assms(2)]
  by (simp add: branch_entry_ok_def)

text \<open>An accepted return tells the truth about its evidence: it claims to be current exactly when
  every domain the branch read still has the version it read, it lists exactly the domains that moved,
  all its rounds were complete, and it ends the branch.\<close>

lemma branch_return_truthful:
  assumes "branch_apply s (BranchReturn n rt) constitution versions = Inr s'" and "bt_get s n = Some b"
  shows "(rt_status rt = CurrentEvidence \<longleftrightarrow>
      (\<forall>(d, v) \<in> set (br_reads b). (case bt_get versions d of Some w \<Rightarrow> w | None \<Rightarrow> 0) = v)) \<and>
    rt_revalidate rt = {d. \<exists>v. (d, v) \<in> set (br_reads b) \<and> (case bt_get versions d of Some w \<Rightarrow> w | None \<Rightarrow> 0) \<noteq> v} \<and>
    list_all rd_complete (br_rounds b) \<and>
    bt_get s' n = Some (b\<lparr>br_returned := Some rt\<rparr>)"
proof -
  from assms have rt: "rt_status rt = status_of (read_conflicts b versions)" "rt_revalidate rt = read_conflicts b versions"
    "list_all rd_complete (br_rounds b)" "bt_get s' n = Some (b\<lparr>br_returned := Some rt\<rparr>)"
    by (auto simp: branch_live_def Let_def list_all_iff list_ex_iff split: if_splits)
  have cs: "read_conflicts b versions =
      {d. \<exists>v. (d, v) \<in> set (br_reads b) \<and> (case bt_get versions d of Some w \<Rightarrow> w | None \<Rightarrow> 0) \<noteq> v}"
    by (force simp: read_conflicts_def)
  have "rt_status rt = CurrentEvidence \<longleftrightarrow> read_conflicts b versions = {}" using rt(1) by (simp add: status_of_def)
  then show ?thesis using rt(2-4) by (auto simp: cs)
qed

section \<open>Provenance and the gate\<close>

text \<open>The provenance walk ends on every candidate.  If it accepts, every root is grounded in ingress,
  which excludes cycles, and the leaves it returns are exactly those the roots reach, at least one.\<close>

lemma provenance_grounded:
  assumes "provenance_roots c = Inr leaves"
  shows "leaves \<noteq> {} \<and> (\<forall>r \<in> set (ca_roots c). grounded (ca_graph c) r) \<and>
    (\<forall>i. i \<in> leaves \<longleftrightarrow> reaches (ca_graph c) (ca_roots c) (IngressPtr i))"
  using provenance_roots_Inr [OF assms] by blast

abbreviation demo_candidate :: candidate where
  "demo_candidate \<equiv> \<lparr>ca_artifact = ''ok'', ca_rendered_text = ''ok'', ca_rendered = [],
     ca_roots = [GeneratedPtr ''g''], ca_graph = [(''g'', [IngressPtr ''l''])], ca_pending_notes = {}, ca_scope = 2\<rparr>"

lemma demo_roots: "provenance_roots demo_candidate = Inr {''l''}"
  by (simp add: provenance_roots_def MAX_GRAPH_NODES_def sum64_def)

lemma walk_finite: "walk g stack leaves active visited = Inr r \<Longrightarrow> finite leaves \<Longrightarrow> finite r"
  by (induction g stack leaves active visited rule: walk.induct)
    (auto simp: Let_def split: if_splits option.splits)

text \<open>C23: what a passing verdict of the gate means, whatever the model's consumers answer: the candidate's
  roots are grounded and every leaf they reach is authentic ingress of the store; every required fact is
  rendered and its statement occurs in the rendered text; no note is pending; and every non-blank line
  of the artifact is supported by at least one of those leaves.\<close>

theorem gate_pass_sound:
  assumes "gate_validate dig gt c required always store gc st = (st', Inr vr)" and "vr_verdict vr = Pass"
  shows "\<exists>ids. provenance_roots c = Inr ids \<and>
    (\<forall>i \<in> ids. \<exists>l. store i = Some l \<and> is_ingress l) \<and>
    (\<forall>f \<in> set required. f \<in> set (ca_rendered c) \<and> (\<exists>a b. ca_rendered_text c = a @ bf_statement f @ b)) \<and>
    ca_pending_notes c = {} \<and>
    (\<forall>a \<in> set (str_lines (ca_artifact c)). \<not> is_blank a \<longrightarrow>
       (\<exists>s. bt_get (vr_support vr) a = Some s \<and> s \<noteq> {} \<and> s \<subseteq> loaded store ids))"
  using assms
proof (rule gate_validate_Pass)
  fix ids facts
  assume g: "provenance_roots c = Inr ids" "\<And>i. i \<in> ids \<Longrightarrow> \<exists>l. store i = Some l \<and> is_ingress l"
    "set required \<subseteq> facts" and fin_facts: "finite facts" and m: "missing_facts c facts = []" "ca_pending_notes c = {}"
    and lines: "finite ids \<Longrightarrow> \<forall>a \<in> set (str_lines (ca_artifact c)). \<not> is_blank a \<longrightarrow> bt_get (vr_support vr) a \<noteq> None"
      "finite ids \<Longrightarrow> \<forall>a s. bt_get (vr_support vr) a = Some s \<longrightarrow> s \<noteq> {} \<and> s \<subseteq> loaded store ids"
  have fin: "finite ids"
    using g(1) by (auto simp: provenance_roots_def split: if_splits dest: walk_finite)
  have "f \<in> set (ca_rendered c) \<and> (\<exists>a b. ca_rendered_text c = a @ bf_statement f @ b)" if "f \<in> set required" for f
    using that g(3) m(1) fin_facts by (auto simp: missing_facts_def filter_empty_conv str_contains_iff)
  moreover have "\<exists>s. bt_get (vr_support vr) a = Some s \<and> s \<noteq> {} \<and> s \<subseteq> loaded store ids"
    if "a \<in> set (str_lines (ca_artifact c))" "\<not> is_blank a" for a
    using lines [OF fin] that by (metis option.exhaust)
  ultimately show ?thesis using g(1,2) m(2) by simp
qed

abbreviation demo_consumers :: "unit gate_consumers" where
  "demo_consumers \<equiv> \<lparr>gc_independence = (\<lambda>_. \<lparr>in_compactor = ''a'', in_scorer = ''b''\<rparr>),
     gc_required_facts = (\<lambda>fs st. (st, Inr [])), gc_assertions = (\<lambda>t st. (st, Inr [t])),
     gc_score = (\<lambda>a ls fs st. (st, Inr \<lparr>sc_entailment = 10000, sc_contradiction = False\<rparr>))\<rparr>"

abbreviation demo_gate :: gate where
  "demo_gate \<equiv> \<lparr>gt_leaf_cap = 1, gt_independence = \<lparr>in_compactor = ''a'', in_scorer = ''b''\<rparr>\<rparr>"

abbreviation demo_store :: leaf_store where
  "demo_store \<equiv> (\<lambda>i. Some \<lparr>lf_id = i, lf_source = \<lparr>so_leaf = i, so_authority = UserAuthority,
     so_origin = IngressOrigin, so_scope = 2\<rparr>, lf_sanitized = ''ok''\<rparr>)"

theorem gate_pass_sound_witness:
  "\<exists>vr ids. gate_validate (\<lambda>_. ''digest'') demo_gate demo_candidate [] [] demo_store demo_consumers () = ((), Inr vr) \<and>
     vr_verdict vr = Pass \<and> provenance_roots demo_candidate = Inr ids \<and> ca_pending_notes demo_candidate = {}"
proof -
  have "\<exists>vr. gate_validate (\<lambda>_. ''digest'') demo_gate demo_candidate [] [] demo_store demo_consumers () = ((), Inr vr) \<and>
      vr_verdict vr = Pass"
    by (simp add: gate_validate_def input_bounds_def demo_roots Let_def required_union_def missing_facts_def
      extract_assertions_def str_lines_def strip_cr_def is_ingress_def assertion_support_def
      MAX_GRAPH_NODES_def MAX_ARTIFACT_BYTES_def MAX_ENVELOPE_BYTES_def MAX_ASSERTIONS_def THETA_def byte_between_def)
  then obtain vr where "gate_validate (\<lambda>_. ''digest'') demo_gate demo_candidate [] [] demo_store demo_consumers () = ((), Inr vr)"
    "vr_verdict vr = Pass" by blast
  with gate_pass_sound [OF this] show ?thesis by blast
qed

section \<open>The semantic projection\<close>

text \<open>A constitutional artifact is never condensed away: no event but its own resegmentation removes
  it, and resegmenting keeps the rendered bytes of the projection.\<close>

lemma constitutional_artifact_stays:
  assumes "run_steps (semantic_step dig) [] inputs = Inr s" and "semantic_apply dig s ev scopes = Inr s'"
    and "bt_get s k = Some a" and "cm_lane (sa_command a) = 1" and "bt_get s' k = None"
  shows "\<exists>parts. ev = SemanticResegment k parts \<and> concat parts = ca_artifact (cm_candidate (sa_command a)) \<and>
    rendered_bytes s' = rendered_bytes s"
proof -
  have ok: "semantics_ok dig s" by (rule semantics.run_keeps [OF semantics_ok_new assms(1)])
  from constitutional_stays [OF ok assms(2-5)] obtain parts where ev: "ev = SemanticResegment k parts" by blast
  with assms(2) have split: "semantic_split dig s k parts = Inr s'" by simp
  obtain a' where "bt_get s k = Some a'" "concat parts = ca_artifact (cm_candidate (sa_command a'))"
    by (rule semantic_split_Inr [OF ok split])
  with ev assms(3) split_rendered_bytes [OF ok split] show ?thesis by simp
qed

abbreviation demo_authority :: lane_authority where
  "demo_authority \<equiv> \<lparr>la_source = demo_owner, la_adoption = None\<rparr>"

abbreviation demo_command :: semantic_command where
  "demo_command \<equiv> \<lparr>cm_operation = ReadBack, cm_key = ''k'', cm_sources = [], cm_lane = 1,
     cm_candidate = demo_candidate, cm_store_handle = ''h'', cm_authority = Some demo_authority\<rparr>"

abbreviation demo_validation :: validation_record where
  "demo_validation \<equiv> \<lparr>vr_candidate_digest = ''d'', vr_verdict = Pass, vr_support = [(''ok'', {''l''})],
     vr_cap_pressure = False, vr_refreshed = 0, vr_required_refinement_unavailable = False\<rparr>"

abbreviation no_scopes :: scope_registry where
  "no_scopes \<equiv> scopes_new 32"

text \<open>Whatever semantic events are accepted, each artifact is filed under its own key in a defined lane,
  the digest on its validation record is its candidate's, and its verdict is either a pass or, for an
  erased one, the ungrounded verdict without any support left.\<close>

lemma artifacts_validated:
  assumes "run_steps (semantic_step dig) [] inputs = Inr s"
  shows "length s \<le> MAX_GRAPH_NODES \<and> (\<forall>k a. bt_get s k = Some a \<longrightarrow> artifact_ok dig k a)"
  using semantics.run_keeps [OF semantics_ok_new assms] by (simp add: semantics_ok_def)

end
