(* ===== verification/Events.thy ===== *)
theory Events
  imports Conversation Semantics
begin

text \<open>
  The append-only event log of \<^verbatim>\<open>src/context_kernel/events.rs\<close>: canonical event bodies, sealing and
  verifying, the single-writer sequencer and the log.  \<open>json\<close> stands for \<open>serde_json::to_vec\<close> on the
  types whose canonical encoding embeds JSON.
\<close>

section \<open>Definitions\<close>

record json_codec =
  js_semantic_event :: "semantic_event \<Rightarrow> byte list"
  js_branch_event :: "branch_event \<Rightarrow> byte list"
  js_security_event :: "security_event \<Rightarrow> byte list"
  js_ledger_command :: "ledger_command \<Rightarrow> byte list"
  js_params :: "ledger_params \<Rightarrow> byte list"
  js_entry :: "entry \<Rightarrow> byte list"
  js_conflicts :: "conflict set \<Rightarrow> byte list"
  js_versions :: "(string, u64) btree \<Rightarrow> byte list"
  js_tool_results :: "string set \<Rightarrow> byte list"
  js_branches :: "branch_state \<Rightarrow> byte list"
  js_security :: "security_state \<Rightarrow> byte list"
  js_semantics :: "semantic_state \<Rightarrow> byte list"

definition EVENT_SCHEMA_VERSION :: u64 where "EVENT_SCHEMA_VERSION = 3"
definition FIRST_SEQUENCE :: u64 where "FIRST_SEQUENCE = 1"
definition GENESIS_CHECKSUM :: digest where "GENESIS_CHECKSUM = 0"
definition V2 :: u64 where "V2 = 2"
definition V3 :: u64 where "V3 = 3"

datatype append_source = UserSource | AssistantSource | ToolResultSource string string

fun encode_append_source :: "append_source \<Rightarrow> sink \<Rightarrow> sink" where
  "encode_append_source UserSource s = sink_tag ''user'' s"
| "encode_append_source AssistantSource s = sink_tag ''assistant'' s"
| "encode_append_source (ToolResultSource call_id tool) s =
     sink_blob (string_bytes tool) (sink_blob (string_bytes call_id) (sink_tag ''tool-result'' s))"

datatype operation_class =
    OpScopeOpen | OpScopeCloseByEvent | OpScopeCloseByDeclaration | OpResegment | OpPlace | OpUnplace
  | OpPin | OpUnpin | OpLanePolicyUpdate | OpMigrationSelect | OpAdmitIngress | OpSanitize | OpRedact
  | OpImport | OpRuleUpdate | OpVocabularyUpdate | OpIndexRebuild | OpStoreMode | OpQuiesceUnwritable

fun operation_class_name :: "operation_class \<Rightarrow> string" where
  "operation_class_name OpScopeOpen = ''scope-open''"
| "operation_class_name OpScopeCloseByEvent = ''scope-close-by-event''"
| "operation_class_name OpScopeCloseByDeclaration = ''scope-close-by-declaration''"
| "operation_class_name OpResegment = ''resegment''"
| "operation_class_name OpPlace = ''place''"
| "operation_class_name OpUnplace = ''unplace''"
| "operation_class_name OpPin = ''pin''"
| "operation_class_name OpUnpin = ''unpin''"
| "operation_class_name OpLanePolicyUpdate = ''lane-policy-update''"
| "operation_class_name OpMigrationSelect = ''migration-select''"
| "operation_class_name OpAdmitIngress = ''admit-ingress''"
| "operation_class_name OpSanitize = ''sanitize''"
| "operation_class_name OpRedact = ''redact''"
| "operation_class_name OpImport = ''import''"
| "operation_class_name OpRuleUpdate = ''rule-update''"
| "operation_class_name OpVocabularyUpdate = ''vocabulary-update''"
| "operation_class_name OpIndexRebuild = ''index-rebuild''"
| "operation_class_name OpStoreMode = ''store-mode''"
| "operation_class_name OpQuiesceUnwritable = ''quiesce-unwritable''"

datatype provider_turn_kind = ConversationTurn | ManagementTurn

datatype event_kind =
    AppendEvent append_source "byte list" scope_id "segment_claim list"
  | SemanticKind semantic_event
  | BranchKind branch_event
  | SecurityKind security_event
  | LedgerKind ledger_command
  | OperationCommit operation_class u64 u64
  | ProviderTurn provider_turn_kind u64

definition encode_claim :: "segment_claim \<Rightarrow> sink \<Rightarrow> sink" where
  "encode_claim c s =
     (case cl_class c of Some k \<Rightarrow> encode_structural_class k | None \<Rightarrow> sink_tag ''unclassified'')
       (sink_int (sr_length (cl_span c)) (sink_int (sr_offset (cl_span c)) s))"

fun encode_kind :: "json_codec \<Rightarrow> event_kind \<Rightarrow> sink \<Rightarrow> sink" where
  "encode_kind json (AppendEvent src sanitized sc claims) s =
     foldl (\<lambda>s c. encode_claim c s)
       (sink_int (length claims) (sink_int sc (sink_blob sanitized
         (encode_append_source src (sink_tag ''append'' s))))) claims"
| "encode_kind json (SemanticKind ev) s = sink_blob (js_semantic_event json ev) (sink_tag ''semantic'' s)"
| "encode_kind json (BranchKind ev) s = sink_blob (js_branch_event json ev) (sink_tag ''branch'' s)"
| "encode_kind json (SecurityKind ev) s = sink_blob (js_security_event json ev) (sink_tag ''security'' s)"
| "encode_kind json (LedgerKind c) s = sink_blob (js_ledger_command json c) (sink_tag ''ledger'' s)"
| "encode_kind json (OperationCommit cls subject argument) s =
     sink_int argument (sink_int subject (sink_tag (operation_class_name cls) (sink_tag ''operation'' s)))"
| "encode_kind json (ProviderTurn k units) s =
     sink_int units (sink_int (case k of ConversationTurn \<Rightarrow> 1 | ManagementTurn \<Rightarrow> 2) (sink_tag ''provider-turn'' s))"

fun structural_lane :: "append_source \<Rightarrow> lane" where
  "structural_lane UserSource = Constitutional"
| "structural_lane AssistantSource = Decisional"
| "structural_lane (ToolResultSource call_id tool) = Evidential"

record recorded_event =
  ev_sequence :: u64
  ev_epoch :: u64
  ev_recorded_unix_ms :: u64
  ev_schema_version :: u64
  ev_store_version :: u64
  ev_kind :: event_kind
  ev_body_digest :: digest
  ev_checksum :: digest

definition event_identity :: "recorded_event \<Rightarrow> u64 \<times> digest" where
  "event_identity e = (ev_sequence e, ev_body_digest e)"

definition encode_body :: "json_codec \<Rightarrow> recorded_event \<Rightarrow> byte list" where
  "encode_body json e =
     encode_kind json (ev_kind e)
       (sink_int (ev_store_version e) (sink_int (ev_schema_version e)
         (sink_int (ev_recorded_unix_ms e) (sink_int (ev_epoch e)
           (sink_byte_order_mark (sink_int (ev_sequence e) sink_new))))))"

definition seal ::
  "json_codec \<Rightarrow> u64 \<Rightarrow> u64 \<Rightarrow> u64 \<Rightarrow> u64 \<Rightarrow> event_kind \<Rightarrow> digest \<Rightarrow> recorded_event" where
  "seal json sequence epoch recorded_unix_ms store_version kind previous =
     (let e = \<lparr>ev_sequence = sequence, ev_epoch = epoch, ev_recorded_unix_ms = recorded_unix_ms,
               ev_schema_version = EVENT_SCHEMA_VERSION, ev_store_version = store_version, ev_kind = kind,
               ev_body_digest = 0, ev_checksum = 0\<rparr>;
          e1 = e\<lparr>ev_body_digest := scope_digest EventChain (encode_body json e)\<rparr>
      in e1\<lparr>ev_checksum := scope_chain EventChain previous (encode_body json e1)\<rparr>)"

definition verify :: "json_codec \<Rightarrow> recorded_event \<Rightarrow> digest \<Rightarrow> bool" where
  "verify json e previous \<longleftrightarrow>
     ev_body_digest e = scope_digest EventChain (encode_body json e) \<and>
     ev_checksum e = scope_chain EventChain previous (encode_body json e)"

record event_log =
  el_events :: "recorded_event list"
  el_store_version :: u64
  el_resume :: "(u64 \<times> digest) option"

definition log_new :: "u64 \<Rightarrow> event_log" where
  "log_new store_version = \<lparr>el_events = [], el_store_version = store_version, el_resume = None\<rparr>"

definition log_resuming :: "u64 \<Rightarrow> u64 \<Rightarrow> digest \<Rightarrow> event_log" where
  "log_resuming store_version next_sequence last_checksum =
     \<lparr>el_events = [], el_store_version = store_version, el_resume = Some (next_sequence, last_checksum)\<rparr>"

definition log_next_sequence :: "event_log \<Rightarrow> u64" where
  "log_next_sequence log =
     (case el_resume log of
        Some (n, c) \<Rightarrow> add64 n (length (el_events log))
      | None \<Rightarrow> add64 (length (el_events log)) FIRST_SEQUENCE)"

definition head_checksum :: "event_log \<Rightarrow> digest" where
  "head_checksum log =
     (if el_events log \<noteq> [] then ev_checksum (last (el_events log))
      else case el_resume log of None \<Rightarrow> GENESIS_CHECKSUM | Some (n, c) \<Rightarrow> c)"

record sequencer =
  sq_next_sequence :: u64
  sq_last_checksum :: digest
  sq_recorded_unix_ms :: u64
  sq_epoch :: u64

definition sequencer_new :: "u64 \<Rightarrow> u64 \<Rightarrow> u64 \<Rightarrow> sequencer" where
  "sequencer_new next_sequence epoch ms =
     \<lparr>sq_next_sequence = next_sequence, sq_last_checksum = GENESIS_CHECKSUM, sq_recorded_unix_ms = ms, sq_epoch = epoch\<rparr>"

definition sequencer_resume :: "u64 \<Rightarrow> digest \<Rightarrow> u64 \<Rightarrow> u64 \<Rightarrow> sequencer" where
  "sequencer_resume next_sequence last_checksum epoch ms =
     \<lparr>sq_next_sequence = next_sequence, sq_last_checksum = last_checksum, sq_recorded_unix_ms = ms, sq_epoch = epoch\<rparr>"

definition sequencer_continuing :: "event_log \<Rightarrow> u64 \<Rightarrow> u64 \<Rightarrow> sequencer" where
  "sequencer_continuing log epoch ms = sequencer_resume (log_next_sequence log) (head_checksum log) epoch ms"

definition advance_clock :: "sequencer \<Rightarrow> u64 \<Rightarrow> sequencer" where
  "advance_clock sq ms = sq\<lparr>sq_recorded_unix_ms := ms\<rparr>"

definition sequencer_append_at ::
  "json_codec \<Rightarrow> sequencer \<Rightarrow> event_kind \<Rightarrow> u64 \<Rightarrow> u64 \<Rightarrow> recorded_event \<times> sequencer" where
  "sequencer_append_at json sq kind store_version ms =
     (let e = seal json (sq_next_sequence sq) (sq_epoch sq) ms store_version kind (sq_last_checksum sq)
      in (e, sq\<lparr>sq_next_sequence := add64 (sq_next_sequence sq) 1, sq_last_checksum := ev_checksum e,
             sq_recorded_unix_ms := ms\<rparr>))"

definition sequencer_append :: "json_codec \<Rightarrow> sequencer \<Rightarrow> event_kind \<Rightarrow> u64 \<Rightarrow> recorded_event \<times> sequencer" where
  "sequencer_append json sq kind store_version =
     sequencer_append_at json sq kind store_version (sq_recorded_unix_ms sq)"

datatype log_error =
    SequenceGap u64 u64
  | DuplicateSequence u64
  | ChecksumMismatch u64
  | SchemaVersion u64 u64
  | StoreVersionOlder u64 u64 u64
  | StoreVersionNewer u64 u64 u64
  | StoreVersionUnknown u64 u64 u64

definition known_version :: "u64 \<Rightarrow> bool" where
  "known_version v \<longleftrightarrow> v = V2 \<or> v = V3"

definition store_version_error :: "u64 \<Rightarrow> u64 \<Rightarrow> u64 \<Rightarrow> log_error" where
  "store_version_error sequence log event =
     (if known_version log \<and> known_version event \<and> event < log then StoreVersionOlder sequence log event
      else if known_version log \<and> known_version event then StoreVersionNewer sequence log event
      else StoreVersionUnknown sequence log event)"

fun migratable :: "log_error \<Rightarrow> bool" where
  "migratable (StoreVersionOlder q l e) = True"
| "migratable err = False"

definition log_append :: "json_codec \<Rightarrow> event_log \<Rightarrow> recorded_event \<Rightarrow> log_error + event_log" where
  "log_append json log e =
     (let expected = log_next_sequence log
      in if ev_schema_version e \<noteq> EVENT_SCHEMA_VERSION
         then Inl (SchemaVersion (ev_sequence e) (ev_schema_version e))
         else if ev_store_version e \<noteq> el_store_version log
         then Inl (store_version_error (ev_sequence e) (el_store_version log) (ev_store_version e))
         else if ev_sequence e \<noteq> expected then Inl (SequenceGap expected (ev_sequence e))
         else if \<not> verify json e (head_checksum log) then Inl (ChecksumMismatch (ev_sequence e))
         else Inr (log\<lparr>el_events := el_events log @ [e]\<rparr>))"

definition log_prefix :: "event_log \<Rightarrow> nat \<Rightarrow> event_log" where
  "log_prefix log n = log\<lparr>el_events := take n (el_events log)\<rparr>"

type_synonym replay_clock = "(u64 \<times> u64) list"

definition log_replay_clock :: "event_log \<Rightarrow> replay_clock" where
  "log_replay_clock log = map (\<lambda>e. (ev_sequence e, ev_recorded_unix_ms e)) (el_events log)"

definition clock_recorded :: "replay_clock \<Rightarrow> u64 \<Rightarrow> u64 option" where
  "clock_recorded clock sequence = map_option snd (find (\<lambda>st. fst st = sequence) clock)"

definition clock_last :: "replay_clock \<Rightarrow> u64" where
  "clock_last clock = (if clock = [] then 0 else snd (last clock))"

section \<open>The chain\<close>

definition log_base :: "event_log \<Rightarrow> u64 \<times> digest" where
  "log_base log = (case el_resume log of None \<Rightarrow> (FIRST_SEQUENCE, GENESIS_CHECKSUM) | Some b \<Rightarrow> b)"

text \<open>\<open>chain_ok\<close>: from a base position, sequences are consecutive, versions are the log's, and each
  checksum commits to its predecessor.\<close>

fun chain_ok :: "json_codec \<Rightarrow> u64 \<Rightarrow> u64 \<Rightarrow> digest \<Rightarrow> recorded_event list \<Rightarrow> bool" where
  "chain_ok json sv sequence previous [] = True"
| "chain_ok json sv sequence previous (e # es) =
     (ev_sequence e = sequence \<and> ev_schema_version e = EVENT_SCHEMA_VERSION \<and> ev_store_version e = sv \<and>
      verify json e previous \<and> chain_ok json sv (add64 sequence 1) (ev_checksum e) es)"

definition log_ok :: "json_codec \<Rightarrow> event_log \<Rightarrow> bool" where
  "log_ok json log \<longleftrightarrow>
     chain_ok json (el_store_version log) (fst (log_base log)) (snd (log_base log)) (el_events log) \<and>
     fst (log_base log) < u64_modulus"

lemma add64_less [simp]: "add64 a b < u64_modulus"
  by (simp add: add64_def)

lemma add64_Suc: "add64 (add64 a n) (Suc 0) = add64 a (Suc n)"
  by (simp add: add64_def mod_simps)

lemma chain_ok_append:
  assumes "sequence < u64_modulus"
  shows "chain_ok json sv sequence previous (es @ [e]) \<longleftrightarrow>
    chain_ok json sv sequence previous es \<and> ev_sequence e = add64 sequence (length es) \<and>
    ev_schema_version e = EVENT_SCHEMA_VERSION \<and> ev_store_version e = sv \<and>
    verify json e (if es = [] then previous else ev_checksum (last es))"
  using assms
proof (induction es arbitrary: sequence previous)
  case (Cons x es)
  have "add64 (add64 sequence 1) (length es) = add64 sequence (Suc (length es))"
    by (simp add: add64_def mod_simps)
  with Cons.IH [of "add64 sequence 1" "ev_checksum x"] show ?case by auto
qed (auto simp: add64_def)

lemma chain_ok_take: "chain_ok json sv sequence previous es \<Longrightarrow> chain_ok json sv sequence previous (take n es)"
  by (induction json sv sequence previous es arbitrary: n rule: chain_ok.induct)
    (auto simp: take_Cons split: nat.splits)

lemma chain_ok_sequence:
  assumes "chain_ok json sv sequence previous es" and "sequence < u64_modulus" and "i < length es"
  shows "ev_sequence (es ! i) = add64 sequence i"
  using assms
proof (induction json sv sequence previous es arbitrary: i rule: chain_ok.induct)
  case (2 json sv sequence previous e es)
  show ?case
  proof (cases i)
    case (Suc j)
    have "add64 (add64 sequence 1) j = add64 sequence (Suc j)" by (simp add: add64_def mod_simps)
    with 2 Suc show ?thesis by simp
  qed (use 2 in \<open>simp add: add64_def\<close>)
qed simp

lemma log_next_sequence_base:
  "fst (log_base log) < u64_modulus \<Longrightarrow> log_next_sequence log = add64 (fst (log_base log)) (length (el_events log))"
  by (auto simp: log_next_sequence_def log_base_def add64_def add.commute split: option.splits)

lemma head_checksum_base:
  "head_checksum log = (if el_events log = [] then snd (log_base log) else ev_checksum (last (el_events log)))"
  by (auto simp: head_checksum_def log_base_def split: option.splits)

lemma log_append_Inr:
  "log_append json log e = Inr log' \<longleftrightarrow>
     ev_schema_version e = EVENT_SCHEMA_VERSION \<and> ev_store_version e = el_store_version log \<and>
     ev_sequence e = log_next_sequence log \<and> verify json e (head_checksum log) \<and>
     log' = log\<lparr>el_events := el_events log @ [e]\<rparr>"
  by (auto simp: log_append_def Let_def)

lemma log_append_ok:
  assumes "log_ok json log" and "log_append json log e = Inr log'"
  shows "log_ok json log'"
proof -
  from assms(1) have base: "fst (log_base log) < u64_modulus" by (simp add: log_ok_def)
  from assms(2) have "log_base log' = log_base log" "el_store_version log' = el_store_version log"
    by (auto simp: log_append_Inr log_base_def)
  with assms base show ?thesis
    by (auto simp: log_ok_def log_append_Inr chain_ok_append log_next_sequence_base head_checksum_base
      split: if_splits)
qed

lemma log_ok_new [simp]: "log_ok json (log_new sv)"
  by (simp add: log_ok_def log_new_def log_base_def FIRST_SEQUENCE_def)

lemma log_ok_resuming: "n < u64_modulus \<Longrightarrow> log_ok json (log_resuming sv n c)"
  by (simp add: log_ok_def log_resuming_def log_base_def)

lemma log_prefix_ok: "log_ok json log \<Longrightarrow> log_ok json (log_prefix log n)"
  by (simp add: log_ok_def log_prefix_def log_base_def chain_ok_take)

interpretation logs: guarded_machine "log_append json" "log_ok json" for json
  by unfold_locales (rule log_append_ok)

definition log_extends :: "event_log \<Rightarrow> event_log \<Rightarrow> bool" where
  "log_extends log log' \<longleftrightarrow>
     (\<exists>es. el_events log' = el_events log @ es) \<and> el_store_version log' = el_store_version log \<and>
     el_resume log' = el_resume log"

interpretation log_history: monotone_machine "log_append json" log_extends for json
proof
  show "log_extends s s" for s by (simp add: log_extends_def)
  show "log_extends s u" if "log_extends s t" "log_extends t u" for s t u
    using that by (auto simp: log_extends_def)
  show "log_extends s s'" if "log_append json s c = Inr s'" for s c s'
    using that by (auto simp: log_extends_def log_append_Inr)
qed

section \<open>The sequencer and the log agree\<close>

lemma encode_body_fields [simp]:
  "encode_body json (e\<lparr>ev_body_digest := d\<rparr>) = encode_body json e"
  "encode_body json (e\<lparr>ev_checksum := d\<rparr>) = encode_body json e"
  by (simp_all add: encode_body_def)

lemma seal_simps [simp]:
  "ev_sequence (seal json q ep ms sv k p) = q"
  "ev_schema_version (seal json q ep ms sv k p) = EVENT_SCHEMA_VERSION"
  "ev_store_version (seal json q ep ms sv k p) = sv"
  "ev_kind (seal json q ep ms sv k p) = k"
  "ev_recorded_unix_ms (seal json q ep ms sv k p) = ms"
  by (simp_all add: seal_def Let_def)

lemma seal_verifies [simp]: "verify json (seal json q ep ms sv k p) p"
  by (simp add: verify_def seal_def Let_def encode_body_def)

definition follows :: "sequencer \<Rightarrow> event_log \<Rightarrow> bool" where
  "follows sq log \<longleftrightarrow> sq_next_sequence sq = log_next_sequence log \<and> sq_last_checksum sq = head_checksum log"

lemma follows_continuing [simp]: "follows (sequencer_continuing log ep ms) log"
  by (simp add: follows_def sequencer_continuing_def sequencer_resume_def)

lemma sequencer_append_accepted:
  assumes "follows sq log" and "fst (log_base log) < u64_modulus"
    and "sequencer_append_at json sq k (el_store_version log) ms = (e, sq')"
  shows "\<exists>log'. log_append json log e = Inr log' \<and> follows sq' log' \<and> log_base log' = log_base log"
proof -
  from assms(1,3) have e: "e = seal json (log_next_sequence log) (sq_epoch sq) ms (el_store_version log) k (head_checksum log)"
    and sq': "sq_next_sequence sq' = add64 (log_next_sequence log) 1" "sq_last_checksum sq' = ev_checksum e"
    by (auto simp: sequencer_append_at_def Let_def follows_def)
  let ?log = "log\<lparr>el_events := el_events log @ [e]\<rparr>"
  have "log_append json log e = Inr ?log" by (simp add: log_append_Inr e)
  moreover have "log_base ?log = log_base log" by (simp add: log_base_def)
  moreover from this assms(2) have "follows sq' ?log"
    by (simp add: follows_def sq' log_next_sequence_base head_checksum_base add64_Suc)
  ultimately show ?thesis by blast
qed

end
