(* ===== verification/Reducer.thy ===== *)
theory Reducer
  imports Events LedgerHistory
begin

text \<open>
  The deterministic reducer of \<^verbatim>\<open>src/context_kernel/reducer.rs\<close> and \<^verbatim>\<open>reducer/security.rs\<close>: the typed state,
  one function per event kind and operation, and the fold over a log.  An operation returns the state
  it leaves behind together with its result, so that a refusal that mutates is visible.  \<open>kernel_env\<close>
  holds the library functions the reducer calls: \<open>serde_json\<close>, the SHA-256 of \<open>security::hash\<close>, and
  \<open>candidate_digest\<close>, which hashes a serialised candidate.
\<close>

section \<open>State\<close>

datatype quoting_convention = Fenced | XmlDelimited

fun quoting_name :: "quoting_convention \<Rightarrow> string" where
  "quoting_name Fenced = ''fenced''"
| "quoting_name XmlDelimited = ''xml-delimited''"

definition encode_quoting :: "quoting_convention \<Rightarrow> sink \<Rightarrow> sink" where
  "encode_quoting q = sink_tag (quoting_name q)"

record kernel_env =
  env_json :: json_codec
  env_hash :: "byte list \<Rightarrow> string"
  env_candidate_digest :: "candidate \<Rightarrow> string"

definition IDLENESS_WINDOW :: u64 where "IDLENESS_WINDOW = 32"
definition INITIAL_VERSION :: u64 where "INITIAL_VERSION = 1"
definition FILTER_RULE_LATEST_VERSION :: u64 where "FILTER_RULE_LATEST_VERSION = 1"
definition VOCABULARY_LATEST_VERSION :: u64 where "VOCABULARY_LATEST_VERSION = 1"
definition STORE_MODE_UNAVAILABLE :: u64 where "STORE_MODE_UNAVAILABLE = 3"

datatype reducer_error =
    BranchFailure branch_error
  | SecurityFailure security_error
  | SemanticFailure gate_error
  | LedgerFailure ledger_error
  | IrFailure ir_error
  | ScopeFailure scope_error
  | PolicyFailure policy_error
  | UnknownRegion u64
  | VersionConflict u64 u64
  | OperationNotLanded string
  | UnsupportedVersion u64 u64
  | UnknownStoreMode u64
  | StoreVersion u64 u64
  | UnknownScopeNamed scope_id
  | UnknownNamespaceNamed u64
  | MigrationTarget u64

record typed_state =
  ts_branches :: branch_state
  ts_security :: security_state
  ts_semantic :: semantic_state
  ts_ledger :: ledger
  ts_ir :: conversation_ir
  ts_scopes :: scope_registry
  ts_policies :: lane_policy_registry
  ts_version :: u64
  ts_state_hash :: digest
  ts_store_version :: u64
  ts_selected_store_version :: "u64 option"
  ts_pins :: "item_id list"
  ts_quoting :: quoting_convention
  ts_filter_rule_version :: u64
  ts_vocabulary_version :: u64
  ts_store_mode :: u64
  ts_quiesced :: bool
  ts_session_scope :: scope_id
  ts_next_offset :: u64
  ts_applied :: "(u64 \<times> digest) list"

definition resolve_or_latest :: "u64 \<Rightarrow> lane_policy_registry" where
  "resolve_or_latest v = (case resolve_registry v of Inr r \<Rightarrow> r | Inl e \<Rightarrow> latest_registry)"

definition genesis :: "u64 \<Rightarrow> u64 \<Rightarrow> typed_state" where
  "genesis idleness_window store_version =
     \<lparr>ts_branches = [], ts_security = security_default, ts_semantic = [], ts_ledger = ledger_default,
      ts_ir = ir_new, ts_scopes = scopes_new idleness_window,
      ts_policies = resolve_or_latest INITIAL_VERSION, ts_version = INITIAL_VERSION, ts_state_hash = 0,
      ts_store_version = store_version, ts_selected_store_version = None, ts_pins = [],
      ts_quoting = Fenced, ts_filter_rule_version = FILTER_RULE_LATEST_VERSION,
      ts_vocabulary_version = VOCABULARY_LATEST_VERSION, ts_store_mode = 1, ts_quiesced = False,
      ts_session_scope = 0, ts_next_offset = 0, ts_applied = []\<rparr>"

definition item_key :: "item_id \<Rightarrow> string" where
  "item_key i = decimal (namespace_code (ii_namespace i)) @ CHR '':'' # decimal (ii_value i)"

definition constitution :: "kernel_env \<Rightarrow> typed_state \<Rightarrow> (string, string) btree" where
  "constitution env s =
     foldl (\<lambda>m it. bt_insert (item_key (it_id it)) (env_hash env (encode_item it sink_new)) m) []
       (filter (\<lambda>it. it_lane it = Constitutional) (ir_items (ts_ir s)))"

definition is_applied :: "typed_state \<Rightarrow> u64 \<Rightarrow> digest \<Rightarrow> bool" where
  "is_applied s sequence body_digest \<longleftrightarrow>
     list_ex (\<lambda>i. fst i = sequence \<and> snd i = body_digest) (ts_applied s)"

section \<open>Encoding and hash\<close>

definition encode_ledger :: "json_codec \<Rightarrow> ledger \<Rightarrow> sink \<Rightarrow> sink" where
  "encode_ledger json l s =
     sink_blob (js_tool_results json (l_tool_results l))
       (sink_blob (js_versions json (l_versions l))
         (sink_blob (js_conflicts json (l_conflicts l))
           (foldl (\<lambda>s e. sink_blob (js_entry json e) s)
             (sink_int (l_attempts l) (sink_blob (js_params json (l_params l)) (sink_tag ''fact-ledger'' s)))
             (bt_values (l_entries l)))))"

definition encode_branches :: "json_codec \<Rightarrow> branch_state \<Rightarrow> sink \<Rightarrow> sink" where
  "encode_branches json b s = sink_blob (js_branches json b) (sink_tag ''context-branches'' s)"

definition encode_security :: "json_codec \<Rightarrow> security_state \<Rightarrow> sink \<Rightarrow> sink" where
  "encode_security json x s = sink_blob (js_security json x) (sink_tag ''context-security'' s)"

definition encode_semantic :: "json_codec \<Rightarrow> semantic_state \<Rightarrow> sink \<Rightarrow> sink" where
  "encode_semantic json x s = sink_blob (js_semantics json x) (sink_tag ''semantic-projection'' s)"

definition encode_state :: "json_codec \<Rightarrow> typed_state \<Rightarrow> sink \<Rightarrow> sink" where
  "encode_state json st s0 =
     (let s1 = sink_int (ts_next_offset st) (sink_int (ts_store_version st)
                 (sink_int (ts_version st) (sink_tag ''typed-state'' s0)));
          s2 = encode_ledger json (ts_ledger st) (encode_semantic json (ts_semantic st)
                 (encode_security json (ts_security st) (encode_branches json (ts_branches st) s1)));
          s3 = encode_registry (ts_policies st) (encode_scopes (ts_scopes st) (encode_ir (ts_ir st) s2));
          s4 = sink_int (ts_store_mode st) (sink_int (ts_vocabulary_version st)
                 (sink_int (ts_filter_rule_version st) (sink_tag (quoting_name (ts_quoting st)) s3)));
          s5 = sink_tag (if ts_quiesced st then ''quiesced'' else ''live'') s4;
          s6 = sink_int (case ts_selected_store_version st of Some v \<Rightarrow> v | None \<Rightarrow> 0) s5
      in foldl (\<lambda>s i. encode_item_id i s) s6 (ts_pins st))"

definition state_hash :: "json_codec \<Rightarrow> typed_state \<Rightarrow> digest" where
  "state_hash json st = scope_digest StateScope (encode_state json st sink_new)"

section \<open>Operations\<close>

type_synonym outcome = "typed_state \<times> (reducer_error + unit)"

text \<open>\<open>commit_to\<close> stores a component's new state, or maps its error and leaves the state alone.\<close>

definition commit_to ::
  "('c \<Rightarrow> typed_state \<Rightarrow> typed_state) \<Rightarrow> ('e \<Rightarrow> reducer_error) \<Rightarrow> typed_state \<Rightarrow> 'e + 'c \<Rightarrow> outcome" where
  "commit_to put err s r = (case r of Inl e \<Rightarrow> (s, Inl (err e)) | Inr x \<Rightarrow> (put x s, Inr ()))"

abbreviation put_ir :: "conversation_ir \<Rightarrow> typed_state \<Rightarrow> typed_state" where
  "put_ir x s \<equiv> s\<lparr>ts_ir := x\<rparr>"

abbreviation put_scopes :: "scope_registry \<Rightarrow> typed_state \<Rightarrow> typed_state" where
  "put_scopes x s \<equiv> s\<lparr>ts_scopes := x\<rparr>"

definition claim_lane :: "append_source \<Rightarrow> structural_class option \<Rightarrow> lane \<Rightarrow> lane" where
  "claim_lane src cls fallback =
     (case src of
        ToolResultSource call_id tool \<Rightarrow> Evidential
      | _ \<Rightarrow> (case cls of Some k \<Rightarrow> for_structural_class k | None \<Rightarrow> fallback))"

definition claims_of ::
  "segment_claim list \<Rightarrow> byte list \<Rightarrow> u64 \<Rightarrow> reducer_error + segment_claim list" where
  "claims_of claims sanitized sequence =
     (if claims = []
      then Inr [\<lparr>cl_span = \<lparr>sr_offset = 0, sr_length = length sanitized\<rparr>, cl_class = None\<rparr>]
      else if \<not> covers_exactly (map cl_span claims) [\<lparr>sr_offset = 0, sr_length = length sanitized\<rparr>]
      then Inl (IrFailure (ClaimsDontCover sequence))
      else Inr claims)"

fun attribute_error :: "scope_error \<Rightarrow> reducer_error" where
  "attribute_error (UnknownScope i) = UnknownScopeNamed i"
| "attribute_error e = ScopeFailure e"

definition attribute :: "typed_state \<Rightarrow> scope_id \<Rightarrow> u64 \<Rightarrow> outcome" where
  "attribute s sc sequence = commit_to put_scopes attribute_error s (attribute_item (ts_scopes s) sc sequence)"

text \<open>\<open>stage_claims\<close> is the staging loop of \<open>apply_append\<close>, at claim number \<open>index\<close>; \<open>insert_staged\<close> is
  its commit loop, which keeps what it has inserted when it stops.\<close>

definition staged_item ::
  "typed_state \<Rightarrow> append_source \<Rightarrow> scope_id \<Rightarrow> u64 \<Rightarrow> nat \<Rightarrow> segment_claim \<Rightarrow> item" where
  "staged_item s src sc watermark index c =
     item_new (id_append (add64 watermark index)) (claim_lane src (cl_class c) (structural_lane src))
       [\<lparr>sr_offset = add64 (ts_next_offset s) (sr_offset (cl_span c)), sr_length = sr_length (cl_span c)\<rparr>] sc"

fun stage_claims ::
  "typed_state \<Rightarrow> append_source \<Rightarrow> scope_id \<Rightarrow> u64 \<Rightarrow> nat \<Rightarrow> segment_claim list \<Rightarrow> reducer_error + item list" where
  "stage_claims s src sc watermark index [] = Inr []"
| "stage_claims s src sc watermark index (c # cs) =
     (if \<exists>it \<in> set (ir_items (ts_ir s)). it_id it = id_append (add64 watermark index)
      then Inl (IrFailure (DuplicateItem (add64 watermark index)))
      else res_bind (stage_claims s src sc watermark (Suc index) cs) (\<lambda>staged.
        Inr (staged_item s src sc watermark index c # staged)))"

fun insert_staged :: "typed_state \<Rightarrow> item list \<Rightarrow> outcome" where
  "insert_staged s [] = (s, Inr ())"
| "insert_staged s (it # its) =
     (case ir_insert (ts_ir s) it of
        Inl e \<Rightarrow> (s, Inl (IrFailure e))
      | Inr ir \<Rightarrow> insert_staged (put_ir ir s) its)"

definition apply_append ::
  "typed_state \<Rightarrow> u64 \<Rightarrow> append_source \<Rightarrow> byte list \<Rightarrow> scope_id \<Rightarrow> segment_claim list \<Rightarrow> outcome" where
  "apply_append s sequence src sanitized sc claims0 =
     (case claims_of claims0 sanitized sequence of
        Inl e \<Rightarrow> (s, Inl e)
      | Inr claims \<Rightarrow>
          (let watermark = namespace_watermark (ts_ir s) AppendNs
           in case stage_claims s src sc watermark 0 claims of
                Inl e \<Rightarrow> (s, Inl e)
              | Inr staged \<Rightarrow>
                  (case attribute s sc sequence of
                     (s1, Inl e) \<Rightarrow> (s1, Inl e)
                   | (s1, Inr u) \<Rightarrow>
                       (let final = id_append (sub64 (add64 watermark (length claims)) 1)
                        in case insert_staged (put_ir (note_minted_id (ts_ir s1) final) s1) staged of
                             (s2, Inl e) \<Rightarrow> (s2, Inl e)
                           | (s2, Inr u) \<Rightarrow>
                               (s2\<lparr>ts_next_offset := add64 (ts_next_offset s2) (length sanitized)\<rparr>, Inr ())))))"

definition admit_ingress :: "typed_state \<Rightarrow> u64 \<Rightarrow> u64 \<Rightarrow> u64 \<Rightarrow> outcome" where
  "admit_ingress s sequence subject argument =
     attribute (s\<lparr>ts_next_offset := add64 (ts_next_offset s) argument\<rparr>) subject sequence"

definition redact_item :: "typed_state \<Rightarrow> u64 \<Rightarrow> outcome" where
  "redact_item s subject =
     (let s1 = s\<lparr>ts_security := revoke_item (ts_security s) subject,
                 ts_pins := filter (\<lambda>p. ii_value p \<noteq> subject) (ts_pins s)\<rparr>
      in commit_to put_ir IrFailure s1 (ir_unplace (ts_ir s1) (id_new subject)))"

definition not_landed :: "operation_class \<Rightarrow> reducer_error" where
  "not_landed cls = OperationNotLanded (operation_class_name cls)"

definition commit_registry ::
  "typed_state \<Rightarrow> u64 \<Rightarrow> u64 \<Rightarrow> u64 \<Rightarrow> (u64 \<Rightarrow> typed_state \<Rightarrow> typed_state) \<Rightarrow> outcome" where
  "commit_registry s subject argument latest committed =
     (if argument \<noteq> ts_version s then (s, Inl (VersionConflict argument (ts_version s)))
      else if subject = 0 \<or> latest < subject then (s, Inl (UnsupportedVersion subject latest))
      else ((committed subject s)\<lparr>ts_version := subject\<rparr>, Inr ()))"

definition commit_store_mode :: "typed_state \<Rightarrow> u64 \<Rightarrow> outcome" where
  "commit_store_mode s subject =
     (if \<not> (1 \<le> subject \<and> subject \<le> STORE_MODE_UNAVAILABLE) then (s, Inl (UnknownStoreMode subject))
      else (s\<lparr>ts_store_mode := subject\<rparr>, Inr ()))"

definition select_migration :: "typed_state \<Rightarrow> u64 \<Rightarrow> outcome" where
  "select_migration s subject =
     (if subject \<noteq> V2 \<and> subject \<noteq> V3 then (s, Inl (MigrationTarget subject))
      else (s\<lparr>ts_selected_store_version := Some subject\<rparr>, Inr ()))"

definition resegment_ranges :: "u64 \<Rightarrow> item \<Rightarrow> nat \<Rightarrow> reducer_error + store_range list list" where
  "resegment_ranges subject parent parts =
     (let claims = normalize (it_provenance parent)
      in if 1 < length claims
         then if length claims \<noteq> parts then Inl (IrFailure (ClaimBoundary subject))
              else Inr (map (\<lambda>c. [c]) claims)
         else Inr (slice_into claims parts))"

definition resegment :: "typed_state \<Rightarrow> u64 \<Rightarrow> u64 \<Rightarrow> outcome" where
  "resegment s subject argument =
     (case ir_item (ts_ir s) (id_new subject) of
        Inl e \<Rightarrow> (s, Inl (IrFailure e))
      | Inr parent \<Rightarrow>
          (case resegment_ranges subject parent (max argument 1) of
             Inl e \<Rightarrow> (s, Inl e)
           | Inr ranges \<Rightarrow>
               (case ir_split (ts_ir s) (id_new subject) ranges
                       \<lparr>ct_namespace = Fresh, ct_parts = max argument 1, ct_split_points = map length ranges\<rparr> of
                  (ir, Inl e) \<Rightarrow> (put_ir ir s, Inl (IrFailure e))
                | (ir, Inr ids) \<Rightarrow>
                    (s\<lparr>ts_ir := ir, ts_next_offset := max (ts_next_offset s) (sr_end (it_byte_range parent))\<rparr>,
                     Inr ()))))"

definition place_op :: "typed_state \<Rightarrow> u64 \<Rightarrow> u64 \<Rightarrow> outcome" where
  "place_op s subject argument =
     (case region_from_rank argument of
        None \<Rightarrow> (s, Inl (UnknownRegion argument))
      | Some r \<Rightarrow> commit_to put_ir IrFailure s (ir_place (ts_ir s) (id_new subject) r))"

definition update_policy :: "typed_state \<Rightarrow> u64 \<Rightarrow> u64 \<Rightarrow> outcome" where
  "update_policy s subject argument =
     (if argument \<noteq> ts_version s then (s, Inl (VersionConflict argument (ts_version s)))
      else if LANE_POLICY_LATEST_VERSION < subject
      then (s, Inl (PolicyFailure (PolicyUnsupportedVersion subject LANE_POLICY_LATEST_VERSION)))
      else (s\<lparr>ts_policies := resolve_or_latest subject, ts_version := subject\<rparr>, Inr ()))"

definition scope_open_op :: "typed_state \<Rightarrow> u64 \<Rightarrow> u64 \<Rightarrow> u64 \<Rightarrow> outcome" where
  "scope_open_op s sequence subject argument =
     commit_to (\<lambda>x s. s\<lparr>ts_scopes := x,
         ts_session_scope := if ts_session_scope s = 0 then subject else ts_session_scope s\<rparr>)
       ScopeFailure s
       (scope_open (ts_scopes s) subject (if argument = 0 then None else Some argument) sequence)"

fun apply_operation :: "typed_state \<Rightarrow> u64 \<Rightarrow> operation_class \<Rightarrow> u64 \<Rightarrow> u64 \<Rightarrow> outcome" where
  "apply_operation s sequence OpScopeOpen subject argument = scope_open_op s sequence subject argument"
| "apply_operation s sequence OpScopeCloseByEvent subject argument =
     commit_to put_scopes ScopeFailure s (close_by_event (ts_scopes s) subject sequence)"
| "apply_operation s sequence OpScopeCloseByDeclaration subject argument =
     commit_to put_scopes ScopeFailure s (close_by_declaration (ts_scopes s) subject sequence)"
| "apply_operation s sequence OpResegment subject argument = resegment s subject argument"
| "apply_operation s sequence OpPlace subject argument = place_op s subject argument"
| "apply_operation s sequence OpUnplace subject argument =
     commit_to put_ir IrFailure s (ir_unplace (ts_ir s) (id_new subject))"
| "apply_operation s sequence OpPin subject argument = (s, Inl (SecurityFailure AuthorityError))"
| "apply_operation s sequence OpUnpin subject argument = (s, Inl (SecurityFailure AuthorityError))"
| "apply_operation s sequence OpLanePolicyUpdate subject argument = update_policy s subject argument"
| "apply_operation s sequence OpMigrationSelect subject argument = select_migration s subject"
| "apply_operation s sequence OpAdmitIngress subject argument = admit_ingress s sequence subject argument"
| "apply_operation s sequence OpSanitize subject argument = (s, Inl (not_landed OpSanitize))"
| "apply_operation s sequence OpImport subject argument = (s, Inl (not_landed OpImport))"
| "apply_operation s sequence OpIndexRebuild subject argument = (s, Inl (not_landed OpIndexRebuild))"
| "apply_operation s sequence OpRedact subject argument = redact_item s subject"
| "apply_operation s sequence OpRuleUpdate subject argument =
     commit_registry s subject argument FILTER_RULE_LATEST_VERSION (\<lambda>v s. s\<lparr>ts_filter_rule_version := v\<rparr>)"
| "apply_operation s sequence OpVocabularyUpdate subject argument =
     commit_registry s subject argument VOCABULARY_LATEST_VERSION (\<lambda>v s. s\<lparr>ts_vocabulary_version := v\<rparr>)"
| "apply_operation s sequence OpStoreMode subject argument = commit_store_mode s subject"
| "apply_operation s sequence OpQuiesceUnwritable subject argument = (s\<lparr>ts_quiesced := True\<rparr>, Inr ())"

text \<open>\<open>apply_ledger\<close> works on a clone of the state, so every refusal leaves the state alone.\<close>

definition ledger_admission :: "typed_state \<Rightarrow> u64 \<Rightarrow> ledger_command \<Rightarrow> outcome" where
  "ledger_admission s sequence command =
     (case command of
        FactInvalidate result writes \<Rightarrow>
          apply_append s sequence (ToolResultSource (tw_call_id result) (tw_tool result))
            (tw_sanitized result) (tw_scope result) []
      | _ \<Rightarrow> (s, Inr ()))"

definition apply_ledger :: "typed_state \<Rightarrow> u64 \<Rightarrow> ledger_command \<Rightarrow> outcome" where
  "apply_ledger s sequence command =
     (case ledger_admission s sequence command of
        (n, Inl e) \<Rightarrow> (s, Inl e)
      | (n, Inr u) \<Rightarrow>
          (case ledger_apply (ts_ledger n) command sequence (ts_scopes n) of
             Inl e \<Rightarrow> (s, Inl (LedgerFailure e))
           | Inr l \<Rightarrow> (n\<lparr>ts_ledger := l, ts_version := add64 (ts_version n) 1\<rparr>, Inr ())))"

definition placed_values :: "typed_state \<Rightarrow> u64 set" where
  "placed_values s =
     set (map (\<lambda>it. ii_value (it_id it)) (filter (\<lambda>it. item_region it \<noteq> None) (ir_items (ts_ir s))))"

definition apply_security :: "kernel_env \<Rightarrow> typed_state \<Rightarrow> security_event \<Rightarrow> u64 \<Rightarrow> outcome" where
  "apply_security env s ev sequence =
     (case security_apply (ts_security s) ev sequence (placed_values s) of
        Inl e \<Rightarrow> (s, Inl (SecurityFailure e))
      | Inr x \<Rightarrow>
          (let s1 = s\<lparr>ts_security := x, ts_pins := map id_new (bt_keys (ss_pins x))\<rparr>
           in case ev of
                EraseEvent er \<Rightarrow>
                  (let s2 = s1\<lparr>ts_semantic := semantic_erase (env_candidate_digest env) (ts_semantic s1) (er_leaf er)\<rparr>
                   in commit_to (\<lambda>l s. s\<lparr>ts_ledger := l\<rparr>) LedgerFailure s2
                        (ledger_apply (ts_ledger s2) (RedactLeaf (er_leaf er)) sequence (ts_scopes s2)))
              | _ \<Rightarrow> (s1, Inr ())))"

definition rests_on_erased :: "typed_state \<Rightarrow> validation_record \<Rightarrow> bool" where
  "rests_on_erased s v \<longleftrightarrow>
     list_ex (\<lambda>ls. \<exists>leaf \<in> ls. bt_contains (ss_erased (ts_security s)) leaf) (bt_values (vr_support v))"

definition erased_put :: "typed_state \<Rightarrow> semantic_event \<Rightarrow> bool" where
  "erased_put s ev \<longleftrightarrow> (case ev of SemanticPut c v \<Rightarrow> rests_on_erased s v | _ \<Rightarrow> False)"

fun apply_kind :: "kernel_env \<Rightarrow> typed_state \<Rightarrow> u64 \<Rightarrow> event_kind \<Rightarrow> outcome" where
  "apply_kind env s sequence (AppendEvent src sanitized sc claims) =
     apply_append s sequence src sanitized sc claims"
| "apply_kind env s sequence (SemanticKind ev) =
     (if erased_put s ev then (s, Inl (SecurityFailure ErasureError))
      else commit_to (\<lambda>x s. s\<lparr>ts_semantic := x\<rparr>) SemanticFailure s
        (semantic_apply (env_candidate_digest env) (ts_semantic s) ev (ts_scopes s)))"
| "apply_kind env s sequence (BranchKind ev) =
     commit_to (\<lambda>x s. s\<lparr>ts_branches := x\<rparr>) BranchFailure s
       (branch_apply (ts_branches s) ev (constitution env s) (l_versions (ts_ledger s)))"
| "apply_kind env s sequence (SecurityKind ev) = apply_security env s ev sequence"
| "apply_kind env s sequence (LedgerKind command) = apply_ledger s sequence command"
| "apply_kind env s sequence (OperationCommit cls subject argument) =
     apply_operation s sequence cls subject argument"
| "apply_kind env s sequence (ProviderTurn k units) = (s, Inr ())"

definition apply_event :: "kernel_env \<Rightarrow> typed_state \<Rightarrow> recorded_event \<Rightarrow> outcome" where
  "apply_event env s e = apply_kind env s (ev_sequence e) (ev_kind e)"

section \<open>The fold\<close>

fun fold_events :: "kernel_env \<Rightarrow> typed_state \<Rightarrow> recorded_event list \<Rightarrow> outcome" where
  "fold_events env s [] = (s, Inr ())"
| "fold_events env s (e # es) =
     (if is_applied s (ev_sequence e) (ev_body_digest e) then fold_events env s es
      else if ev_store_version e \<noteq> ts_store_version s
      then (s, Inl (StoreVersion (ts_store_version s) (ev_store_version e)))
      else case apply_event env s e of
             (s1, Inl err) \<Rightarrow> (s1, Inl err)
           | (s1, Inr u) \<Rightarrow> fold_events env (s1\<lparr>ts_applied := ts_applied s1 @ [event_identity e]\<rparr>) es)"

definition fold_from :: "kernel_env \<Rightarrow> typed_state \<Rightarrow> event_log \<Rightarrow> outcome" where
  "fold_from env s log =
     (case fold_events env s (el_events log) of
        (s1, Inl e) \<Rightarrow> (s1, Inl e)
      | (s1, Inr u) \<Rightarrow> (s1\<lparr>ts_state_hash := state_hash (env_json env) s1\<rparr>, Inr ()))"

definition fold_log :: "kernel_env \<Rightarrow> u64 \<Rightarrow> event_log \<Rightarrow> reducer_error + typed_state" where
  "fold_log env idleness_window log =
     (case fold_from env (genesis idleness_window (el_store_version log)) log of
        (s, Inl e) \<Rightarrow> Inl e
      | (s, Inr u) \<Rightarrow> Inr (s\<lparr>ts_state_hash := state_hash (env_json env) s\<rparr>))"

end
