(* ===== verification/ReducerLaws.thy ===== *)
theory ReducerLaws
  imports Reducer
begin

text \<open>
  Laws of the reducer: an append is atomic, a refused event leaves the state alone, every accepted
  event keeps the invariants of all components together with the links between them, and replay
  resumes from any prefix.
\<close>

section \<open>Appends\<close>

definition staged_items ::
  "typed_state \<Rightarrow> append_source \<Rightarrow> scope_id \<Rightarrow> u64 \<Rightarrow> nat \<Rightarrow> segment_claim list \<Rightarrow> item list" where
  "staged_items s src sc w k cs = map2 (staged_item s src sc w) [k ..< k + length cs] cs"

lemma staged_items_simps [simp]:
  "staged_items s src sc w k [] = []"
  "staged_items s src sc w k (c # cs) = staged_item s src sc w k c # staged_items s src sc w (Suc k) cs"
  by (simp_all add: staged_items_def upt_conv_Cons del: upt_Suc)

lemma staged_item_simps [simp]:
  "it_id (staged_item s src sc w k c) = id_append (add64 w k)"
  "it_scope (staged_item s src sc w k c) = sc"
  "it_placement (staged_item s src sc w k c) = StoreOnly"
  "it_lane (staged_item s src sc w k c) = claim_lane src (cl_class c) (structural_lane src)"
  "it_provenance (staged_item s src sc w k c) =
     [\<lparr>sr_offset = add64 (ts_next_offset s) (sr_offset (cl_span c)), sr_length = sr_length (cl_span c)\<rparr>]"
  by (simp_all add: staged_item_def item_new_def with_placement_def)

lemma staged_items_ids: "map it_id (staged_items s src sc w k cs) = map (\<lambda>i. id_append (add64 w i)) [k ..< k + length cs]"
  by (induction cs arbitrary: k) (simp_all add: upt_conv_Cons del: upt_Suc)

lemma staged_items_member:
  "it \<in> set (staged_items s src sc w k cs) \<Longrightarrow> \<exists>i c. c \<in> set cs \<and> it = staged_item s src sc w i c"
  by (induction cs arbitrary: k) (simp, metis list.set_intros set_ConsD staged_items_simps(2))

lemma known_id: "(\<exists>e \<in> set (ir_items ir). it_id e = i) \<longleftrightarrow> i \<in> set (ir_ids ir)"
  by (auto simp: ir_ids_def)

lemma stage_claims_Inr:
  "stage_claims s src sc w k cs = Inr staged \<longleftrightarrow>
     staged = staged_items s src sc w k cs \<and> set (map it_id staged) \<inter> set (ir_ids (ts_ir s)) = {}"
proof (induction cs arbitrary: k staged)
  case (Cons c cs)
  show ?case
    by (auto simp: known_id Cons.IH simp del: set_map split: if_splits)
qed auto

lemma add64_inject:
  assumes "add64 w i = add64 w j" and "i < u64_modulus" and "j < u64_modulus"
  shows "i = j"
proof (rule ccontr)
  assume "i \<noteq> j"
  moreover have "a = b" if "add64 w a = add64 w b" "a \<le> b" "b < u64_modulus" for a b
  proof -
    from that(1) have "u64_modulus dvd (w + b) - (w + a)"
      unfolding add64_def by (metis mod_eq_dvd_iff_nat add_left_mono that(2))
    then have "u64_modulus dvd b - a" by simp
    moreover from that(3) have "b - a < u64_modulus" by linarith
    ultimately have "b - a = 0" by (meson nat_dvd_not_less neq0_conv)
    with that(2) show "a = b" by simp
  qed
  ultimately show False using assms by (metis nat_le_linear)
qed

lemma staged_items_distinct:
  assumes "k + length cs \<le> u64_modulus"
  shows "distinct (map it_id (staged_items s src sc w k cs))"
proof -
  have "inj_on (\<lambda>i. id_append (add64 w i)) (set [k ..< k + length cs])"
  proof (rule inj_onI)
    fix i j assume "i \<in> set [k ..< k + length cs]" "j \<in> set [k ..< k + length cs]"
      and eq: "id_append (add64 w i) = id_append (add64 w j)"
    with assms have "i < u64_modulus" "j < u64_modulus" by auto
    moreover from eq have "add64 w i = add64 w j" by (simp add: id_append_def)
    ultimately show "i = j" by (rule_tac add64_inject)
  qed
  then show ?thesis by (simp add: staged_items_ids distinct_map)
qed

lemma insert_staged_total:
  assumes "distinct (map it_id its)" and "set (map it_id its) \<inter> set (ir_ids (ts_ir s)) = {}"
    and "\<forall>it \<in> set its. it_provenance it \<noteq> [] \<and> it_placement it = StoreOnly"
  shows "\<exists>ir. insert_staged s its = (put_ir ir s, Inr ()) \<and> ir_items ir = ir_items (ts_ir s) @ its \<and>
    ir_partitions ir = ir_partitions (ts_ir s)"
  using assms
proof (induction its arbitrary: s)
  case (Cons it its)
  let ?ir = "(note_minted_id (ts_ir s) (it_id it))\<lparr>ir_items := ir_items (ts_ir s) @ [it]\<rparr>"
  have new: "\<not> (\<exists>e \<in> set (ir_items (ts_ir s)). it_id e = it_id it)"
    using Cons.prems(2) by (simp add: known_id)
  have ins: "ir_insert (ts_ir s) it = Inr ?ir"
    using new Cons.prems(3) by (simp add: ir_insert_def Let_def id_fits_provenance_def item_region_def)
  have "\<exists>ir. insert_staged (put_ir ?ir s) its = (put_ir ir (put_ir ?ir s), Inr ()) \<and>
      ir_items ir = ir_items (ts_ir (put_ir ?ir s)) @ its \<and> ir_partitions ir = ir_partitions (ts_ir (put_ir ?ir s))"
    by (rule Cons.IH) (use Cons.prems in \<open>auto simp: ir_ids_def\<close>)
  then show ?case by (auto simp: ins)
next
  case (Nil s)
  show ?case by (rule exI [of _ "ts_ir s"]) simp
qed

abbreviation append_watermark :: "typed_state \<Rightarrow> u64" where
  "append_watermark s \<equiv> namespace_watermark (ts_ir s) AppendNs"

definition appended ::
  "typed_state \<Rightarrow> u64 \<Rightarrow> append_source \<Rightarrow> byte list \<Rightarrow> scope_id \<Rightarrow> segment_claim list \<Rightarrow> typed_state \<Rightarrow> bool" where
  "appended s sequence src sanitized sc claims s' \<longleftrightarrow>
     (\<exists>ir scopes. attribute_item (ts_scopes s) sc sequence = Inr scopes \<and>
        s' = s\<lparr>ts_ir := ir, ts_scopes := scopes,
               ts_next_offset := add64 (ts_next_offset s) (length sanitized)\<rparr> \<and>
        ir_items ir = ir_items (ts_ir s) @ staged_items s src sc (append_watermark s) 0 claims \<and>
        ir_partitions ir = ir_partitions (ts_ir s) \<and>
        distinct (map it_id (staged_items s src sc (append_watermark s) 0 claims)) \<and>
        set (map it_id (staged_items s src sc (append_watermark s) 0 claims)) \<inter> set (ir_ids (ts_ir s)) = {})"

lemma claims_of_length:
  "claims_of claims sanitized q = Inr claims' \<Longrightarrow> length claims \<le> u64_modulus \<Longrightarrow> length claims' \<le> u64_modulus"
  by (auto simp: claims_of_def split: if_splits)

text \<open>An append either leaves the state as it was, or lands every claim.\<close>

lemma apply_append_cases:
  assumes "length claims0 \<le> u64_modulus"
  obtains (refused) e where "apply_append s q src sanitized sc claims0 = (s, Inl e)"
  | (landed) claims s' where "apply_append s q src sanitized sc claims0 = (s', Inr ())"
      and "claims_of claims0 sanitized q = Inr claims" and "appended s q src sanitized sc claims s'"
proof (cases "claims_of claims0 sanitized q")
  case (Inl e)
  then show ?thesis by (auto intro: refused simp: apply_append_def)
next
  case claims: (Inr claims)
  let ?w = "append_watermark s"
  show ?thesis
  proof (cases "stage_claims s src sc ?w 0 claims")
    case (Inl e)
    with claims show ?thesis by (auto intro: refused simp: apply_append_def)
  next
    case staged: (Inr staged)
    show ?thesis
    proof (cases "attribute_item (ts_scopes s) sc q")
      case (Inl e)
      with claims staged show ?thesis
        by (auto intro: refused simp: apply_append_def attribute_def commit_to_def)
    next
      case scopes: (Inr scopes)
      let ?s = "put_ir (note_minted_id (ts_ir s) (id_append (sub64 (add64 ?w (length claims)) 1))) (put_scopes scopes s)"
      from staged have its: "staged = staged_items s src sc ?w 0 claims"
        and fresh: "set (map it_id staged) \<inter> set (ir_ids (ts_ir s)) = {}" by (auto simp: stage_claims_Inr)
      have dist: "distinct (map it_id staged)"
        unfolding its by (rule staged_items_distinct) (use claims_of_length [OF claims assms] in simp)
      have "\<exists>ir. insert_staged ?s staged = (put_ir ir ?s, Inr ()) \<and> ir_items ir = ir_items (ts_ir ?s) @ staged \<and>
          ir_partitions ir = ir_partitions (ts_ir ?s)"
        by (rule insert_staged_total)
          (use dist fresh in \<open>auto simp: its ir_ids_def dest: staged_items_member\<close>)
      then obtain ir where ins: "insert_staged ?s staged = (put_ir ir ?s, Inr ())"
        and ir: "ir_items ir = ir_items (ts_ir s) @ staged" "ir_partitions ir = ir_partitions (ts_ir s)" by auto
      show ?thesis
      proof (rule landed [OF _ claims])
        show "apply_append s q src sanitized sc claims0 =
            ((put_ir ir ?s)\<lparr>ts_next_offset := add64 (ts_next_offset s) (length sanitized)\<rparr>, Inr ())"
          using ins by (simp add: apply_append_def claims staged attribute_def commit_to_def scopes Let_def)
        show "appended s q src sanitized sc claims
            ((put_ir ir ?s)\<lparr>ts_next_offset := add64 (ts_next_offset s) (length sanitized)\<rparr>)"
          unfolding appended_def
          by (rule exI [of _ ir], rule exI [of _ scopes]) (use ir dist fresh scopes in \<open>simp add: its\<close>)
      qed
    qed
  qed
qed

lemma apply_append_Inl:
  "apply_append s q src sanitized sc claims = (s', Inl e) \<Longrightarrow> length claims \<le> u64_modulus \<Longrightarrow> s' = s"
  by (rule apply_append_cases [of claims s q src sanitized sc]) auto

text \<open>Success alone gives the second case: the insertions check every identifier again.\<close>

lemma insert_staged_Inr:
  assumes "insert_staged s its = (s', Inr u)" and "\<forall>it \<in> set its. it_placement it = StoreOnly"
  shows "\<exists>ir. s' = put_ir ir s \<and> ir_items ir = ir_items (ts_ir s) @ its \<and>
    ir_partitions ir = ir_partitions (ts_ir s) \<and> distinct (map it_id its) \<and>
    set (map it_id its) \<inter> set (ir_ids (ts_ir s)) = {}"
  using assms
proof (induction its arbitrary: s)
  case (Cons it its)
  then obtain ir where ins: "ir_insert (ts_ir s) it = Inr ir" and rest: "insert_staged (put_ir ir s) its = (s', Inr u)"
    by (auto split: sum.splits)
  from ins Cons.prems(2) have ir: "ir_items ir = ir_items (ts_ir s) @ [it]" "ir_partitions ir = ir_partitions (ts_ir s)"
    and new: "it_id it \<notin> set (ir_ids (ts_ir s))"
    by (auto simp: ir_insert_def Let_def item_region_def known_id split: if_splits)
  from Cons.IH [OF rest] Cons.prems(2) obtain ir' where "s' = put_ir ir' (put_ir ir s)"
    "ir_items ir' = ir_items ir @ its" "ir_partitions ir' = ir_partitions ir" "distinct (map it_id its)"
    "set (map it_id its) \<inter> set (ir_ids ir) = {}" by auto
  with ir new show ?case by (intro exI [of _ ir']) (auto simp: ir_ids_def)
next
  case (Nil s)
  then show ?case by (intro exI [of _ "ts_ir s"]) simp
qed

lemma apply_append_Inr:
  assumes "apply_append s q src sanitized sc claims0 = (s', Inr u)"
  obtains claims where "claims_of claims0 sanitized q = Inr claims" and "appended s q src sanitized sc claims s'"
proof -
  let ?w = "append_watermark s"
  from assms obtain claims scopes s2 where claims: "claims_of claims0 sanitized q = Inr claims"
    and staged: "stage_claims s src sc ?w 0 claims = Inr (staged_items s src sc ?w 0 claims)"
    and scopes: "attribute_item (ts_scopes s) sc q = Inr scopes"
    and ins: "insert_staged (put_ir (note_minted_id (ts_ir s) (id_append (sub64 (add64 ?w (length claims)) 1)))
      (put_scopes scopes s)) (staged_items s src sc ?w 0 claims) = (s2, Inr u)"
    and s': "s' = s2\<lparr>ts_next_offset := add64 (ts_next_offset s2) (length sanitized)\<rparr>"
    by (auto simp: apply_append_def attribute_def commit_to_def Let_def stage_claims_Inr
      split: sum.splits prod.splits)
  have "\<forall>it \<in> set (staged_items s src sc ?w 0 claims). it_placement it = StoreOnly"
    by (auto dest: staged_items_member)
  from insert_staged_Inr [OF ins this] obtain ir where
    ir: "s2 = put_ir ir (put_ir (note_minted_id (ts_ir s) (id_append (sub64 (add64 ?w (length claims)) 1)))
      (put_scopes scopes s))" "ir_items ir = ir_items (ts_ir s) @ staged_items s src sc ?w 0 claims"
      "ir_partitions ir = ir_partitions (ts_ir s)" "distinct (map it_id (staged_items s src sc ?w 0 claims))"
    by auto
  have "appended s q src sanitized sc claims s'" unfolding appended_def
    by (rule exI [of _ ir], rule exI [of _ scopes])
      (use scopes ir staged in \<open>simp add: s' stage_claims_Inr del: set_map\<close>)
  with claims show ?thesis by (rule that)
qed

lemma appended_ir_ok:
  assumes "appended s q src sanitized sc claims s'" and ok: "ir_ok (ts_ir s)"
  shows "ir_ok (ts_ir s')"
proof -
  let ?its = "staged_items s src sc (append_watermark s) 0 claims"
  from assms(1) have items: "ir_items (ts_ir s') = ir_items (ts_ir s) @ ?its"
    and parts: "ir_partitions (ts_ir s') = ir_partitions (ts_ir s)" and "distinct (map it_id ?its)"
    and "set (map it_id ?its) \<inter> set (ir_ids (ts_ir s)) = {}" by (auto simp: appended_def)
  moreover have "it_byte_range it = enclosing (it_provenance it)" if "it \<in> set ?its" for it
    using staged_items_member [OF that] by (auto simp: staged_item_def item_new_def with_placement_def)
  moreover have "placed_in ?its r = []" for r
    by (auto simp: placed_in_def filter_empty_conv dest: staged_items_member)
  ultimately show ?thesis
    by (intro ir_ok_push_all [OF ok _ _ _ items]) (use ok in \<open>simp_all add: ir_ok_def region_items_def\<close>)
qed

section \<open>Erased leaves\<close>

definition support_leaves :: "validation_record \<Rightarrow> string set" where
  "support_leaves v = \<Union> (set (bt_values (vr_support v)))"

definition erased_leaves :: "typed_state \<Rightarrow> string set" where
  "erased_leaves s = {leaf. bt_get (ss_erased (ts_security s)) leaf \<noteq> None}"

lemma rests_on_erased_iff: "rests_on_erased s v \<longleftrightarrow> support_leaves v \<inter> erased_leaves s \<noteq> {}"
  by (auto simp: rests_on_erased_def support_leaves_def erased_leaves_def bt_contains_def list_ex_iff)

definition supports :: "semantic_state \<Rightarrow> string set" where
  "supports m = (\<Union>a \<in> set (bt_values m). support_leaves (sa_validation a))"

lemma supports_get:
  "bt_ok m \<Longrightarrow> leaf \<in> supports m \<longleftrightarrow> (\<exists>k a. bt_get m k = Some a \<and> leaf \<in> support_leaves (sa_validation a))"
  unfolding supports_def using bt_values_iff [of m] by blast

lemma semantic_put_supports:
  assumes ok: "semantics_ok dig m" and put: "semantic_put dig m c v scopes = Inr m'"
  shows "supports m' \<subseteq> supports m \<union> support_leaves v"
proof
  fix leaf assume l: "leaf \<in> supports m'"
  have bt: "bt_ok m" "bt_ok m'" using ok semantic_put_ok [OF ok put] by (simp_all add: semantics_ok_def)
  from l obtain k a where a: "bt_get m' k = Some a" "leaf \<in> support_leaves (sa_validation a)"
    using supports_get [OF bt(2)] by blast
  from put have "sa_validation a = v \<or> bt_get m k = Some a"
    by (rule semantic_put_Inr) (use a bt in \<open>auto simp: get_remove_all split: if_splits\<close>)
  with a(2) show "leaf \<in> supports m \<union> support_leaves v" using supports_get [OF bt(1)] by blast
qed

lemma semantic_split_supports:
  assumes ok: "semantics_ok dig m" and split: "semantic_split dig m k parts = Inr m'"
  shows "supports m' \<subseteq> supports m"
proof
  fix leaf assume l: "leaf \<in> supports m'"
  have bt: "bt_ok m" "bt_ok m'" using ok semantic_split_ok [OF ok split] by (simp_all add: semantics_ok_def)
  from l obtain j x where x: "bt_get m' j = Some x" "leaf \<in> support_leaves (sa_validation x)"
    using supports_get [OF bt(2)] by blast
  obtain a where a: "bt_get m k = Some a"
    and m': "m' = fold (\<lambda>(k, v). bt_insert k v) (split_bindings dig a k 0 parts) (bt_remove k m)"
    by (rule semantic_split_Inr [OF ok split])
  have rm: "bt_ok (bt_remove k m)" using bt(1) by simp
  from x(1) have "map_of (split_bindings dig a k 0 parts) j = Some x \<or> bt_get m j = Some x"
    using bt.get_put_all [OF rm split_bindings_distinct] by (auto simp: m' map_add_Some_iff split: if_splits)
  then show "leaf \<in> supports m"
  proof
    assume "map_of (split_bindings dig a k 0 parts) j = Some x"
    then obtain t where "x = split_child dig a j t" by (blast dest: map_of_SomeD split_bindings_member)
    with x(2) have "leaf \<in> support_leaves (sa_validation a)"
      by (simp add: split_child_def Let_def support_leaves_def)
    with a show ?thesis using supports_get [OF bt(1)] by blast
  qed (use x(2) supports_get [OF bt(1)] in blast)
qed

lemma semantic_apply_supports:
  assumes ok: "semantics_ok dig m" and app: "semantic_apply dig m ev scopes = Inr m'"
  shows "supports m' \<subseteq> supports m \<union> (case ev of SemanticPut c v \<Rightarrow> support_leaves v | _ \<Rightarrow> {})"
proof (cases ev)
  case (SemanticPut c v)
  with assms show ?thesis by (simp add: semantic_put_supports)
next
  case FlushNotes
  with app have "m' = bt_map_values (\<lambda>a. a\<lparr>sa_rendered := True\<rparr>) m" by simp
  then show ?thesis by (auto simp: supports_def bt_map_values_def)
next
  case (Reclassify k lane)
  with app have "m' = bt_adjust k (\<lambda>a. a\<lparr>sa_command := (sa_command a)\<lparr>cm_lane := lane\<rparr>\<rparr>) m"
    by (auto split: if_splits)
  then show ?thesis by (auto simp: supports_def bt_adjust_def split: if_splits)
next
  case (SemanticResegment k parts)
  with assms semantic_split_supports [of dig m k parts m'] show ?thesis by simp
qed

lemma semantic_erase_supports: "supports (semantic_erase dig m leaf) \<subseteq> supports m - {leaf}"
  by (auto simp: supports_def semantic_erase_def bt_map_values_def list_ex_iff
    support_leaves_def erase_artifact_def Let_def split: if_splits) force+

section \<open>The invariant of the typed state\<close>

text \<open>\<open>linked\<close> relates the components to each other: the pins of the state are the pins of the security
  component, every item belongs to an opened scope, so does the session, and no semantic artifact
  rests on an erased leaf.\<close>

definition linked :: "typed_state \<Rightarrow> bool" where
  "linked s \<longleftrightarrow>
     ts_pins s = map id_new (bt_keys (ss_pins (ts_security s))) \<and>
     it_scope ` set (ir_items (ts_ir s)) \<subseteq> set (scope_ids (ts_scopes s)) \<and>
     ts_session_scope s \<in> insert 0 (set (scope_ids (ts_scopes s))) \<and>
     supports (ts_semantic s) \<inter> erased_leaves s = {}"

definition settings_ok :: "typed_state \<Rightarrow> bool" where
  "settings_ok s \<longleftrightarrow>
     complete_registry (ts_policies s) \<and> ts_store_mode s \<in> {1, 2, 3} \<and>
     1 \<le> ts_filter_rule_version s \<and> ts_filter_rule_version s \<le> FILTER_RULE_LATEST_VERSION \<and>
     1 \<le> ts_vocabulary_version s \<and> ts_vocabulary_version s \<le> VOCABULARY_LATEST_VERSION \<and>
     ts_selected_store_version s \<in> {None, Some V2, Some V3}"

definition state_ok :: "kernel_env \<Rightarrow> typed_state \<Rightarrow> bool" where
  "state_ok env s \<longleftrightarrow>
     ir_ok (ts_ir s) \<and> scopes_ok (ts_scopes s) \<and> ledger_ok (ts_ledger s) \<and> security_ok (ts_security s) \<and>
     branches_ok (ts_branches s) \<and> semantics_ok (env_candidate_digest env) (ts_semantic s) \<and>
     linked s \<and> settings_ok s"

lemmas state_defs = state_ok_def linked_def settings_ok_def erased_leaves_def

lemma complete_resolved [simp]: "complete_registry (resolve_or_latest v)"
  by (auto simp: resolve_or_latest_def resolve_registry_def latest_registry_eq build_complete split: sum.splits)

lemma state_ok_genesis: "state_ok env (genesis w sv)"
  by (simp add: state_defs genesis_def security_default_def supports_def ir_new_def
    FILTER_RULE_LATEST_VERSION_def VOCABULARY_LATEST_VERSION_def)
    (simp add: security_default_def [symmetric] ir_new_def [symmetric])

lemma scopes_later_ids: "scopes_later r r' \<Longrightarrow> set (scope_ids r) \<subseteq> set (scope_ids r')"
proof -
  assume "scopes_later r r'"
  then have "list_all2 scope_later (sr_scopes r) (take (length (sr_scopes r)) (sr_scopes r'))"
    by (simp add: scopes_later_def)
  then have "map sc_id (sr_scopes r) = map sc_id (take (length (sr_scopes r)) (sr_scopes r'))"
    by (induction rule: list_all2_induct) (auto simp: scope_later_def)
  then have "scope_ids r = take (length (sr_scopes r)) (scope_ids r')" by (simp add: scope_ids_def take_map)
  then show ?thesis by (metis set_take_subset)
qed

abbreviation item_scopes :: "conversation_ir \<Rightarrow> scope_id set" where
  "item_scopes ir \<equiv> it_scope ` set (ir_items ir)"

lemma item_mut_scopes: "(\<And>it. it_scope (f it) = it_scope it) \<Longrightarrow> item_scopes (item_mut_set ir i f) = item_scopes ir"
  unfolding item_mut_set_def
  using map_update_first [of "\<lambda>it. it_id it = i" it_scope f "ir_items ir"] by (simp flip: set_map)

lemma ir_place_scopes: "ir_place ir i r = Inr ir' \<Longrightarrow> item_scopes ir' = item_scopes ir"
  by (clarsimp simp: ir_place_def) (rule item_mut_scopes, simp)

lemma ir_unplace_scopes: "ir_unplace ir i = Inr ir' \<Longrightarrow> item_scopes ir' = item_scopes ir"
  by (clarsimp simp: ir_unplace_def) (rule item_mut_scopes, simp add: to_store_only_def)

lemma ir_split_scopes:
  assumes "ir_ok ir" and "ir_split ir i parts ct = (ir', Inr ids)"
  shows "item_scopes ir' \<subseteq> item_scopes ir"
proof (rule ir_split_Inr [OF assms])
  fix parent
  assume "ir_item ir i = Inr parent" "ir_items ir' = filter (\<lambda>it. it_id it \<noteq> i) (ir_items ir) @ split_items parent ids parts"
  then show ?thesis by (auto dest: ir_item_member split_items_member)
qed

lemma state_ok_ir:
  assumes "state_ok env s" and "ir_ok ir" and "item_scopes ir \<subseteq> item_scopes (ts_ir s)"
  shows "state_ok env (s\<lparr>ts_ir := ir\<rparr>)" and "state_ok env (s\<lparr>ts_ir := ir, ts_next_offset := n\<rparr>)"
  using assms by (auto simp: state_defs)

lemma state_ok_scopes:
  assumes "state_ok env s" and "scopes_ok reg" and "scopes_later (ts_scopes s) reg"
  shows "state_ok env (s\<lparr>ts_scopes := reg\<rparr>)"
  using assms scopes_later_ids [OF assms(3)] by (auto simp: state_defs)

lemma commit_to_Inr: "commit_to put err s r = (s', Inr u) \<longleftrightarrow> (\<exists>x. r = Inr x \<and> s' = put x s)"
  by (auto simp: commit_to_def split: sum.splits)

lemma commit_to_Inl: "commit_to put err s r = (s', Inl e) \<longleftrightarrow> (\<exists>e'. r = Inl e' \<and> s' = s \<and> e = err e')"
  by (auto simp: commit_to_def split: sum.splits)

lemma attribute_known: "attribute_item reg sc q = Inr reg' \<Longrightarrow> sc \<in> set (scope_ids reg)"
  by (auto simp: attribute_item_def scope_lookup_def scope_ids_def dest: find_SomeD)

lemma appended_state_ok:
  assumes ok: "state_ok env s" and app: "appended s q src sanitized sc claims s'"
  shows "state_ok env s'"
proof -
  from app obtain scopes where scopes: "attribute_item (ts_scopes s) sc q = Inr scopes"
    and s': "s' = s\<lparr>ts_ir := ts_ir s', ts_scopes := scopes, ts_next_offset := ts_next_offset s'\<rparr>"
    and items: "ir_items (ts_ir s') = ir_items (ts_ir s) @ staged_items s src sc (append_watermark s) 0 claims"
    by (auto simp: appended_def)
  have "ir_ok (ts_ir s')" using appended_ir_ok [OF app] ok by (simp add: state_ok_def)
  moreover have "scopes_ok scopes" using attribute_item_ok [OF _ scopes] ok by (simp add: state_ok_def)
  moreover have later: "set (scope_ids (ts_scopes s)) \<subseteq> set (scope_ids scopes)"
    by (rule scopes_later_ids [OF attribute_item_later [OF scopes]])
  moreover have "item_scopes (ts_ir s') \<subseteq> insert sc (item_scopes (ts_ir s))"
    by (auto simp: items dest: staged_items_member)
  moreover have "sc \<in> set (scope_ids scopes)" using attribute_known [OF scopes] later by blast
  ultimately show ?thesis using ok by (subst s') (auto simp: state_defs)
qed

lemma apply_append_state_ok:
  assumes "state_ok env s" and "apply_append s q src sanitized sc claims0 = (s', Inr u)"
  shows "state_ok env s'"
  using apply_append_Inr [OF assms(2)] appended_state_ok [OF assms(1)] by metis

lemma attribute_state_ok:
  assumes "state_ok env s" and "attribute s sc q = (s', Inr u)"
  shows "state_ok env s'"
  using assms state_ok_scopes [OF assms(1)]
  by (auto simp: attribute_def commit_to_Inr intro: attribute_item_later attribute_item_ok simp: state_ok_def)

lemma resegment_Inr:
  assumes "resegment s subject argument = (s', Inr u)"
  obtains parent ranges ir ids where "ir_item (ts_ir s) (id_new subject) = Inr parent"
    and "resegment_ranges subject parent (max argument 1) = Inr ranges"
    and "ir_split (ts_ir s) (id_new subject) ranges
      \<lparr>ct_namespace = Fresh, ct_parts = max argument 1, ct_split_points = map length ranges\<rparr> = (ir, Inr ids)"
    and "s' = s\<lparr>ts_ir := ir, ts_next_offset := max (ts_next_offset s) (sr_end (it_byte_range parent))\<rparr>"
  using assms that by (auto simp: resegment_def split: sum.splits prod.splits)

lemma resegment_state_ok:
  assumes ok: "state_ok env s" and "resegment s subject argument = (s', Inr u)"
  shows "state_ok env s'"
proof -
  have ir_ok: "ir_ok (ts_ir s)" using ok by (simp add: state_ok_def)
  from assms(2) show ?thesis
    by (rule resegment_Inr) (simp add: state_ok_ir [OF ok] ir_split_ok [OF ir_ok] ir_split_scopes [OF ir_ok])
qed

lemma redact_item_state_ok:
  assumes ok: "state_ok env s" and "redact_item s subject = (s', Inr u)"
  shows "state_ok env s'"
proof -
  let ?s = "s\<lparr>ts_security := revoke_item (ts_security s) subject,
      ts_pins := filter (\<lambda>p. ii_value p \<noteq> subject) (ts_pins s)\<rparr>"
  from assms(2) obtain ir where ir: "ir_unplace (ts_ir s) (id_new subject) = Inr ir" and s': "s' = ?s\<lparr>ts_ir := ir\<rparr>"
    by (auto simp: redact_item_def Let_def commit_to_Inr)
  have "filter (\<lambda>p. ii_value p \<noteq> subject) (map id_new ks) = map id_new (filter (\<lambda>k. k \<noteq> subject) ks)" for ks
    by (induction ks) (auto simp: id_new_def id_append_def)
  moreover have "bt_keys (bt_remove subject m) = filter (\<lambda>k. k \<noteq> subject) (bt_keys m)" for m :: "(u64, pin) btree"
    by (induction m) (auto simp: bt_remove_def)
  ultimately have "state_ok env ?s"
    using ok revoke_item_ok [of "ts_security s" subject] by (simp add: state_defs revoke_item_def del: map_map)
  then show ?thesis
    using ir_unplace_ok [OF _ ir] ir_unplace_scopes [OF ir] unfolding s'
    by (intro state_ok_ir(1)) (auto simp: state_ok_def)
qed

lemma apply_security_Inr:
  assumes "apply_security env s ev q = (s', Inr u)"
  obtains x where "security_apply (ts_security s) ev q (placed_values s) = Inr x"
    and "\<not> (\<exists>er. ev = EraseEvent er) \<Longrightarrow>
      s' = s\<lparr>ts_security := x, ts_pins := map id_new (bt_keys (ss_pins x))\<rparr>"
    and "\<And>er. ev = EraseEvent er \<Longrightarrow>
      s' = s\<lparr>ts_security := x, ts_pins := map id_new (bt_keys (ss_pins x)),
             ts_semantic := semantic_erase (env_candidate_digest env) (ts_semantic s) (er_leaf er),
             ts_ledger := ledger_redact (ts_ledger s) (er_leaf er)\<rparr>"
  using assms that
  by (auto simp: apply_security_def Let_def commit_to_Inr ledger_apply_def split: sum.splits security_event.splits)

lemma apply_security_state_ok:
  assumes ok: "state_ok env s" and "apply_security env s ev q = (s', Inr u)"
  shows "state_ok env s'"
  using assms(2)
proof (rule apply_security_Inr)
  fix x assume x: "security_apply (ts_security s) ev q (placed_values s) = Inr x"
    and plain: "\<not> (\<exists>er. ev = EraseEvent er) \<Longrightarrow> s' = s\<lparr>ts_security := x, ts_pins := map id_new (bt_keys (ss_pins x))\<rparr>"
    and erase: "\<And>er. ev = EraseEvent er \<Longrightarrow>
      s' = s\<lparr>ts_security := x, ts_pins := map id_new (bt_keys (ss_pins x)),
             ts_semantic := semantic_erase (env_candidate_digest env) (ts_semantic s) (er_leaf er),
             ts_ledger := ledger_redact (ts_ledger s) (er_leaf er)\<rparr>"
  have sec: "security_ok x" using security_apply_ok [OF _ x] ok by (simp add: state_ok_def)
  show ?thesis
  proof (cases "\<exists>er. ev = EraseEvent er")
    case False
    then have "ss_erased x = ss_erased (ts_security s)"
      using x by (cases ev) (auto simp: pending_def split: if_splits)
    with plain [OF False] ok sec show ?thesis by (simp add: state_defs)
  next
    case True
    then obtain er where er: "ev = EraseEvent er" by blast
    let ?m = "semantic_erase (env_candidate_digest env) (ts_semantic s) (er_leaf er)"
    have erased: "ss_erased x = bt_insert (er_leaf er) er (ss_erased (ts_security s))"
      using x by (auto simp: er split: if_splits)
    have "supports ?m \<inter> {leaf. bt_get (ss_erased x) leaf \<noteq> None} = {}"
      using semantic_erase_supports [of "env_candidate_digest env" "ts_semantic s" "er_leaf er"] ok
      by (auto simp: erased state_defs security_ok_def)
    moreover have "ledger_ok (ledger_redact (ts_ledger s) (er_leaf er))"
      using ok by (simp add: state_ok_def ledger_redact_ok)
    moreover have "semantics_ok (env_candidate_digest env) ?m" using ok by (simp add: state_ok_def semantic_erase_ok)
    ultimately show ?thesis using ok sec by (simp add: erase [OF er] state_defs)
  qed
qed

lemma apply_ledger_Inr:
  assumes "apply_ledger s q command = (s', Inr u)"
  obtains n l where "ledger_admission s q command = (n, Inr u)"
    and "ledger_apply (ts_ledger n) command q (ts_scopes n) = Inr l"
    and "s' = n\<lparr>ts_ledger := l, ts_version := add64 (ts_version n) 1\<rparr>"
  using assms that by (auto simp: apply_ledger_def split: sum.splits prod.splits)

lemma apply_ledger_state_ok:
  assumes ok: "state_ok env s" and "apply_ledger s q command = (s', Inr u)"
  shows "state_ok env s'"
  using assms(2)
proof (rule apply_ledger_Inr)
  fix n l assume adm: "ledger_admission s q command = (n, Inr u)"
    and l: "ledger_apply (ts_ledger n) command q (ts_scopes n) = Inr l"
    and s': "s' = n\<lparr>ts_ledger := l, ts_version := add64 (ts_version n) 1\<rparr>"
  have n: "state_ok env n"
    using adm ok by (cases command) (auto simp: ledger_admission_def intro: apply_append_state_ok)
  moreover have "ledger_ok l" using n l by (auto simp: state_ok_def intro: ledger_apply_ok)
  ultimately show ?thesis by (simp add: s' state_defs)
qed

lemma scope_close_state_ok:
  assumes "state_ok env s" and "scope_close (ts_scopes s) i q st = Inr reg" and "st \<noteq> Open"
  shows "state_ok env (put_scopes reg s)"
  using assms by (intro state_ok_scopes) (auto simp: state_ok_def intro: scope_close_ok scope_close_later)

lemma scope_open_state_ok:
  assumes ok: "state_ok env s" and "scope_open_op s q subject argument = (s', Inr u)"
  shows "state_ok env s'"
proof -
  from assms(2) obtain reg where reg: "scope_open (ts_scopes s) subject (if argument = 0 then None else Some argument) q = Inr reg"
    and s': "s' = s\<lparr>ts_scopes := reg,
         ts_session_scope := if ts_session_scope s = 0 then subject else ts_session_scope s\<rparr>"
    by (auto simp: scope_open_op_def commit_to_Inr)
  have "state_ok env (put_scopes reg s)"
    using ok by (intro state_ok_scopes) (auto simp: state_ok_def intro: scope_open_ok [OF _ reg] scope_open_later [OF reg])
  moreover have "subject \<in> set (scope_ids reg)"
    using reg by (auto simp: scope_open_def scope_ids_def split: if_splits option.splits)
  ultimately show ?thesis by (auto simp: s' state_defs)
qed

text \<open>The operations that only commit a setting.\<close>

definition same_components :: "typed_state \<Rightarrow> typed_state \<Rightarrow> bool" where
  "same_components s s' \<longleftrightarrow>
     ts_ir s' = ts_ir s \<and> ts_scopes s' = ts_scopes s \<and> ts_ledger s' = ts_ledger s \<and>
     ts_security s' = ts_security s \<and> ts_branches s' = ts_branches s \<and> ts_semantic s' = ts_semantic s \<and>
     ts_pins s' = ts_pins s \<and> ts_session_scope s' = ts_session_scope s"

lemma settings_state_ok: "state_ok env s \<Longrightarrow> same_components s s' \<Longrightarrow> settings_ok s' \<Longrightarrow> state_ok env s'"
  by (simp add: state_ok_def same_components_def linked_def erased_leaves_def)

lemma commit_registry_Inr:
  "commit_registry s subject argument latest committed = (s', Inr u) \<longleftrightarrow>
     argument = ts_version s \<and> 1 \<le> subject \<and> subject \<le> latest \<and> s' = (committed subject s)\<lparr>ts_version := subject\<rparr>"
  by (auto simp: commit_registry_def)

lemma commit_store_mode_Inr:
  "commit_store_mode s subject = (s', Inr u) \<longleftrightarrow> subject \<in> {1, 2, 3} \<and> s' = s\<lparr>ts_store_mode := subject\<rparr>"
  by (auto simp: commit_store_mode_def STORE_MODE_UNAVAILABLE_def)

lemma select_migration_Inr:
  "select_migration s subject = (s', Inr u) \<longleftrightarrow>
     subject \<in> {V2, V3} \<and> s' = s\<lparr>ts_selected_store_version := Some subject\<rparr>"
  by (auto simp: select_migration_def)

lemma update_policy_Inr:
  "update_policy s subject argument = (s', Inr u) \<longleftrightarrow>
     argument = ts_version s \<and> subject \<le> LANE_POLICY_LATEST_VERSION \<and>
     s' = s\<lparr>ts_policies := resolve_or_latest subject, ts_version := subject\<rparr>"
  by (auto simp: update_policy_def)

lemma place_state_ok:
  assumes ok: "state_ok env s" and "ir_place (ts_ir s) i r = Inr ir"
  shows "state_ok env (put_ir ir s)"
proof (rule state_ok_ir(1) [OF ok])
  show "ir_ok ir" by (rule ir_place_ok [OF _ assms(2)]) (use ok in \<open>simp add: state_ok_def\<close>)
qed (simp add: ir_place_scopes [OF assms(2)])

lemma unplace_state_ok:
  assumes ok: "state_ok env s" and "ir_unplace (ts_ir s) i = Inr ir"
  shows "state_ok env (put_ir ir s)"
proof (rule state_ok_ir(1) [OF ok])
  show "ir_ok ir" by (rule ir_unplace_ok [OF _ assms(2)]) (use ok in \<open>simp add: state_ok_def\<close>)
qed (simp add: ir_unplace_scopes [OF assms(2)])

lemma apply_operation_state_ok:
  assumes ok: "state_ok env s" and app: "apply_operation s q cls subject argument = (s', Inr u)"
  shows "state_ok env s'"
proof (cases cls)
  case OpAdmitIngress
  moreover have "state_ok env (s\<lparr>ts_next_offset := n\<rparr>)" for n
    using ok by (rule settings_state_ok) (use ok in \<open>simp_all add: same_components_def state_ok_def settings_ok_def\<close>)
  ultimately show ?thesis using app by (auto simp: admit_ingress_def intro: attribute_state_ok)
next
  case OpScopeOpen
  with app show ?thesis by (simp add: scope_open_state_ok [OF ok])
next
  case OpScopeCloseByEvent
  with app show ?thesis by (auto simp: commit_to_Inr close_by_event_def scope_close_state_ok [OF ok])
next
  case OpScopeCloseByDeclaration
  with app show ?thesis by (auto simp: commit_to_Inr close_by_declaration_def scope_close_state_ok [OF ok])
next
  case OpResegment
  with app show ?thesis by (simp add: resegment_state_ok [OF ok])
next
  case OpRedact
  with app show ?thesis by (simp add: redact_item_state_ok [OF ok])
next
  case OpPlace
  with app show ?thesis by (auto simp: place_op_def commit_to_Inr place_state_ok [OF ok] split: option.splits)
next
  case OpUnplace
  with app show ?thesis by (auto simp: commit_to_Inr unplace_state_ok [OF ok])
next
  case OpQuiesceUnwritable
  with app have "s' = s\<lparr>ts_quiesced := True\<rparr>" by auto
  then show ?thesis using ok by (simp add: state_defs)
qed (use app ok in \<open>simp_all add: state_defs commit_registry_Inr commit_store_mode_Inr
    select_migration_Inr update_policy_Inr\<close>)

lemma apply_semantic_state_ok:
  assumes ok: "state_ok env s" and put: "\<not> erased_put s ev"
    and app: "semantic_apply (env_candidate_digest env) (ts_semantic s) ev (ts_scopes s) = Inr m"
  shows "state_ok env (s\<lparr>ts_semantic := m\<rparr>)"
proof -
  let ?d = "env_candidate_digest env"
  have sem: "semantics_ok ?d (ts_semantic s)" using ok by (simp add: state_ok_def)
  have "(case ev of SemanticPut c v \<Rightarrow> support_leaves v | _ \<Rightarrow> {}) \<inter> erased_leaves s = {}"
    using put by (auto simp: erased_put_def rests_on_erased_iff split: semantic_event.splits)
  with semantic_apply_supports [OF sem app] ok have "supports m \<inter> erased_leaves s = {}"
    unfolding state_ok_def linked_def by blast
  moreover have "semantics_ok ?d m" by (rule semantic_apply_ok [OF sem app])
  ultimately show ?thesis using ok by (simp add: state_defs)
qed

lemma apply_kind_state_ok:
  assumes ok: "state_ok env s" and "apply_kind env s q k = (s', Inr u)"
  shows "state_ok env s'"
proof (cases k)
  case (BranchKind ev)
  with assms obtain b where "branch_apply (ts_branches s) ev (constitution env s) (l_versions (ts_ledger s)) = Inr b"
    and "s' = s\<lparr>ts_branches := b\<rparr>" by (auto simp: commit_to_Inr)
  with ok show ?thesis by (auto simp: state_defs intro: branch_apply_ok)
qed (use assms in \<open>auto simp: commit_to_Inr split: if_splits intro: apply_append_state_ok
    apply_security_state_ok apply_ledger_state_ok apply_operation_state_ok apply_semantic_state_ok\<close>)

section \<open>The fold as a machine\<close>

text \<open>\<open>fold_step\<close> is the body of the loop of \<open>fold_from\<close>, seen from outside: the state after an accepted
  event, or the error that ends the fold.\<close>

definition fold_step :: "kernel_env \<Rightarrow> typed_state \<Rightarrow> recorded_event \<Rightarrow> reducer_error + typed_state" where
  "fold_step env s e =
     (if is_applied s (ev_sequence e) (ev_body_digest e) then Inr s
      else if ev_store_version e \<noteq> ts_store_version s
      then Inl (StoreVersion (ts_store_version s) (ev_store_version e))
      else case apply_event env s e of
             (s1, Inl err) \<Rightarrow> Inl err
           | (s1, Inr u) \<Rightarrow> Inr (s1\<lparr>ts_applied := ts_applied s1 @ [event_identity e]\<rparr>))"

lemma fold_events_run:
  "run_steps (fold_step env) s es = (case fold_events env s es of (s', Inl e) \<Rightarrow> Inl e | (s', Inr u) \<Rightarrow> Inr s')"
  by (induction es arbitrary: s) (auto simp: fold_step_def split: prod.splits sum.splits)

lemma fold_events_Inr: "fold_events env s es = (s', Inr u) \<longleftrightarrow> run_steps (fold_step env) s es = Inr s'"
  by (auto simp: fold_events_run split: prod.splits sum.splits)

lemma state_ok_applied [simp]: "state_ok env (s\<lparr>ts_applied := xs\<rparr>) \<longleftrightarrow> state_ok env s"
  by (simp add: state_defs)

lemma state_ok_hash [simp]: "state_ok env (s\<lparr>ts_state_hash := h\<rparr>) \<longleftrightarrow> state_ok env s"
  by (simp add: state_defs)

lemma fold_step_ok: "state_ok env s \<Longrightarrow> fold_step env s e = Inr s' \<Longrightarrow> state_ok env s'"
  by (auto simp: fold_step_def apply_event_def split: if_splits prod.splits sum.splits dest: apply_kind_state_ok)

interpretation reducer: guarded_machine "fold_step env" "state_ok env" for env
  by unfold_locales (rule fold_step_ok)

lemma fold_log_Inr:
  assumes "fold_log env w log = Inr s"
  obtains s0 where "run_steps (fold_step env) (genesis w (el_store_version log)) (el_events log) = Inr s0"
    and "s = s0\<lparr>ts_state_hash := ts_state_hash s\<rparr>"
proof -
  from assms obtain s1 u where s1: "fold_from env (genesis w (el_store_version log)) log = (s1, Inr u)"
    and s: "s = s1\<lparr>ts_state_hash := state_hash (env_json env) s1\<rparr>"
    by (auto simp: fold_log_def split: prod.splits sum.splits)
  then obtain s0 where "fold_events env (genesis w (el_store_version log)) (el_events log) = (s0, Inr u)"
    and "s1 = s0\<lparr>ts_state_hash := state_hash (env_json env) s0\<rparr>"
    by (auto simp: fold_from_def split: prod.splits sum.splits)
  with s show ?thesis by (intro that [of s0]) (simp_all add: fold_events_Inr)
qed

section \<open>What folding keeps\<close>

definition identities :: "typed_state \<Rightarrow> (u64 \<times> digest) set" where
  "identities s = set (ts_applied s)"

lemma is_applied_iff: "is_applied s q d \<longleftrightarrow> (q, d) \<in> identities s"
  by (auto simp: is_applied_def identities_def list_ex_iff intro: bexI [of _ "(q, d)"])

definition untouched :: "typed_state \<Rightarrow> typed_state \<Rightarrow> bool" where
  "untouched s s' \<longleftrightarrow> ts_applied s' = ts_applied s \<and> ts_store_version s' = ts_store_version s"

lemma untouched_refl [simp]: "untouched s s"
  by (simp add: untouched_def)

lemma appended_untouched: "appended s q src sanitized sc claims s' \<Longrightarrow> untouched s s'"
  by (auto simp: appended_def untouched_def)

lemma apply_append_untouched: "apply_append s q src sanitized sc claims = (s', Inr u) \<Longrightarrow> untouched s s'"
  by (erule apply_append_Inr) (rule appended_untouched)

lemma apply_operation_untouched:
  assumes "apply_operation s q cls subject argument = (s', Inr u)"
  shows "untouched s s'"
proof (cases cls)
  case OpResegment
  with assms have "resegment s subject argument = (s', Inr u)" by simp
  then show ?thesis by (rule resegment_Inr) (simp add: untouched_def)
qed (use assms in \<open>auto simp: untouched_def scope_open_op_def commit_to_Inr place_op_def update_policy_Inr
    select_migration_Inr admit_ingress_def attribute_def redact_item_def Let_def commit_registry_Inr
    commit_store_mode_Inr split: option.splits\<close>)

lemma apply_kind_untouched:
  assumes "apply_kind env s q k = (s', Inr u)"
  shows "untouched s s'"
proof (cases k)
  case (AppendEvent src sanitized sc claims)
  with assms show ?thesis by (simp add: apply_append_untouched)
next
  case (LedgerKind command)
  with assms have "apply_ledger s q command = (s', Inr u)" by simp
  then obtain n where adm: "ledger_admission s q command = (n, Inr u)" and n: "untouched n s'"
    by (rule apply_ledger_Inr) (simp add: untouched_def)
  have "untouched s n" using adm
    by (cases command) (auto simp: ledger_admission_def intro: apply_append_untouched)
  with n show ?thesis by (simp add: untouched_def)
next
  case (SecurityKind ev)
  with assms show ?thesis
    by (auto simp: apply_security_def Let_def commit_to_Inr untouched_def split: sum.splits security_event.splits)
next
  case (OperationCommit cls subject argument)
  with assms show ?thesis by (simp add: apply_operation_untouched)
qed (use assms in \<open>auto simp: commit_to_Inr untouched_def split: if_splits\<close>)

lemma fold_step_Inr:
  "fold_step env s e = Inr s' \<longleftrightarrow>
     (event_identity e \<in> identities s \<and> s' = s) \<or>
     (event_identity e \<notin> identities s \<and> ev_store_version e = ts_store_version s \<and>
      (\<exists>s1. apply_event env s e = (s1, Inr ()) \<and> s' = s1\<lparr>ts_applied := ts_applied s1 @ [event_identity e]\<rparr>))"
  by (auto simp: fold_step_def is_applied_iff event_identity_def split: prod.splits sum.splits)

lemma fold_step_identities:
  "fold_step env s e = Inr s' \<Longrightarrow> identities s' = insert (event_identity e) (identities s)"
  by (auto simp: fold_step_Inr identities_def apply_event_def untouched_def dest!: apply_kind_untouched)

lemma fold_identities:
  "run_steps (fold_step env) s es = Inr s' \<Longrightarrow> identities s' = identities s \<union> event_identity ` set es"
  by (induction es arbitrary: s) (auto dest: fold_step_identities)

text \<open>Events already folded are skipped, so folding them again changes nothing.\<close>

lemma fold_replayed:
  "event_identity ` set es \<subseteq> identities s \<Longrightarrow> fold_events env s es = (s, Inr ())"
  by (induction es) (auto simp: is_applied_iff event_identity_def)

lemma fold_events_append:
  "fold_events env s (es @ es') =
     (case fold_events env s es of (s1, Inl e) \<Rightarrow> (s1, Inl e) | (s1, Inr u) \<Rightarrow> fold_events env s1 es')"
  by (induction es arbitrary: s) (auto split: prod.splits sum.splits)

lemma fold_events_resume:
  assumes "fold_events env s es = (s1, Inr u)"
  shows "fold_events env s1 (es @ es') = fold_events env s (es @ es')"
proof -
  have "event_identity ` set es \<subseteq> identities s1" using assms by (auto simp: fold_events_Inr dest: fold_identities)
  then show ?thesis using assms by (simp add: fold_events_append fold_replayed)
qed

end
