(* ===== verification/LogLaws.thy ===== *)
theory LogLaws
  imports ReducerLaws
begin

text \<open>
  What a reader may conclude from a log: where each event stands in the chain, that a changed body is
  noticed, and that a sequencer that follows a log keeps producing events the log accepts.
\<close>

lemma chain_ok_nth:
  assumes "chain_ok json sv sequence previous es" and "i < length es"
  shows "ev_store_version (es ! i) = sv \<and> ev_schema_version (es ! i) = EVENT_SCHEMA_VERSION \<and>
    verify json (es ! i) (if i = 0 then previous else ev_checksum (es ! (i - 1)))"
  using assms
proof (induction json sv sequence previous es arbitrary: i rule: chain_ok.induct)
  case (2 json sv sequence previous e es)
  show ?case
  proof (cases i)
    case (Suc j)
    with 2 have "ev_store_version (es ! j) = sv \<and> ev_schema_version (es ! j) = EVENT_SCHEMA_VERSION \<and>
      verify json (es ! j) (if j = 0 then ev_checksum e else ev_checksum (es ! (j - 1)))"
      by simp
    with Suc show ?thesis by (cases j) simp_all
  qed (use 2 in simp)
qed simp

lemma log_run_events:
  "run_steps (log_append json) log es = Inr log' \<Longrightarrow>
     log' = log\<lparr>el_events := el_events log @ es\<rparr>"
proof (induction es arbitrary: log)
  case (Cons e es)
  from Cons.prems have "run_steps (log_append json) (log\<lparr>el_events := el_events log @ [e]\<rparr>) es = Inr log'"
    by (auto simp: log_append_Inr)
  from Cons.IH [OF this] show ?case by simp
qed simp

lemma verify_changed_body:
  assumes "verify json e previous" and "encode_body json e = p @ b # r" and "encode_body json e' = p @ b' # r"
    and "b \<noteq> b'" and "ev_body_digest e' = ev_body_digest e \<or> ev_checksum e' = ev_checksum e"
  shows "\<not> verify json e' previous"
  using assms digest_changed_byte [OF assms(4), of "salt EventChain @ p" r]
    digest_changed_byte [OF assms(4), of "salt EventChain @ digest_bytes previous @ p" r]
  by (auto simp: verify_def scope_digest_def scope_chain_def)

fun sequence_all :: "json_codec \<Rightarrow> sequencer \<Rightarrow> u64 \<Rightarrow> (event_kind \<times> u64) list \<Rightarrow> recorded_event list" where
  "sequence_all json sq sv [] = []"
| "sequence_all json sq sv ((k, ms) # kts) =
     (let (e, sq') = sequencer_append_at json sq k sv ms in e # sequence_all json sq' sv kts)"

lemma append_store_version: "log_append json log e = Inr log' \<Longrightarrow> el_store_version log' = el_store_version log"
  by (auto simp: log_append_Inr)

lemma sequencer_run:
  assumes "follows sq log" and "fst (log_base log) < u64_modulus"
  shows "\<exists>log'. run_steps (log_append json) log (sequence_all json sq (el_store_version log) kts) = Inr log'"
  using assms
proof (induction kts arbitrary: sq log)
  case (Cons kt kts)
  obtain k ms where kt: "kt = (k, ms)" by (cases kt)
  obtain e sq' where s: "sequencer_append_at json sq k (el_store_version log) ms = (e, sq')"
    by (cases "sequencer_append_at json sq k (el_store_version log) ms")
  obtain log1 where l: "log_append json log e = Inr log1" "follows sq' log1" "log_base log1 = log_base log"
    using sequencer_append_accepted [OF Cons.prems s] by blast
  from Cons.IH [OF l(2)] Cons.prems(2) l append_store_version [OF l(1)] show ?case
    by (auto simp: kt s)
qed simp

lemma sequence_all_kinds: "map ev_kind (sequence_all json sq sv kts) = map fst kts"
  by (induction json sq sv kts rule: sequence_all.induct) (auto simp: sequencer_append_at_def Let_def)

lemma log_new_run:
  assumes "run_steps (log_append json) (log_new sv) es = Inr log"
  shows "log = (log_new sv)\<lparr>el_events := es\<rparr>" and "chain_ok json sv FIRST_SEQUENCE GENESIS_CHECKSUM es"
proof -
  show log: "log = (log_new sv)\<lparr>el_events := es\<rparr>"
    using log_run_events [OF assms] by (simp add: log_new_def)
  show "chain_ok json sv FIRST_SEQUENCE GENESIS_CHECKSUM es"
    using logs.run_keeps [OF log_ok_new assms] by (simp add: log_ok_def log log_base_def log_new_def)
qed

lemma ev_epoch_seal [simp]: "ev_epoch (seal json q ep ms sv k p) = ep"
  by (simp add: seal_def Let_def)

lemma encode_body_operation:
  "ev_kind e = OperationCommit cls subject argument \<Longrightarrow>
     encode_body json e = le_bytes (ev_sequence e) @ 0xff # le_bytes (ev_epoch e) @ le_bytes (ev_recorded_unix_ms e) @
       le_bytes (ev_schema_version e) @ le_bytes (ev_store_version e) @
       encode_kind json (OperationCommit cls subject argument) []"
  by (simp add: encode_body_def sink_defs)

lemma log_run_sequence:
  "run_steps (log_append json) log es = Inr log' \<Longrightarrow> log_next_sequence log' = add64 (log_next_sequence log) (length es)"
  by (drule log_run_events) (auto simp: log_next_sequence_def add64_def mod_simps ac_simps split: option.splits)

lemma chain_identities_distinct:
  assumes "chain_ok json sv sequence previous es" and "sequence < u64_modulus" and "length es \<le> u64_modulus"
  shows "distinct (map event_identity es)"
proof -
  have "map ev_sequence es = map (add64 sequence) [0 ..< length es]"
    using chain_ok_sequence [OF assms(1,2)] by (auto intro: nth_equalityI)
  moreover have "inj_on (add64 sequence) {0 ..< length es}"
    using assms(3) by (auto intro!: inj_onI dest: add64_inject)
  ultimately have "distinct (map ev_sequence es)" by (simp add: distinct_map)
  then show ?thesis by (auto simp: distinct_map event_identity_def inj_on_def)
qed

end
