(* ===== verification/Spine.thy ===== *)
theory Spine
  imports ReducerLaws
begin

text \<open>
  The store spine: the bytes the items of a typed state account for.  The reducer hands every appended
  byte to exactly one item and no later event loses, duplicates or moves it, as long as the spine
  stays below \<open>2^64\<close> bytes and the recorded spans end inside the 64-bit space.
\<close>

section \<open>Ranges\<close>

lemma slice_piece_fits:
  assumes "slice_piece left consumed target = (piece, left', consumed')"
    and "consumed \<le> first_length left" and "\<forall>r \<in> set left. fits r"
  shows "\<forall>r \<in> set piece. fits r"
  using assms
proof (induction left consumed target arbitrary: piece left' consumed' rule: slice_piece.induct)
  case (2 current rest consumed target)
  then show ?case
    by (auto simp: Let_def fits_def split: if_splits prod.splits)
qed simp

lemma slice_parts_fits:
  assumes "consumed \<le> first_length left" and "\<forall>r \<in> set left. fits r"
  shows "\<forall>r \<in> set (concat (slice_parts base extra part n left consumed)). fits r"
  using assms
proof (induction n arbitrary: part left consumed)
  case (Suc n)
  let ?t = "if part < extra then base + 1 else base"
  obtain piece left' consumed' where piece: "slice_piece left consumed ?t = (piece, left', consumed')"
    by (metis prod_cases3)
  from Suc.IH [of consumed' left' "Suc part"] slice_piece_positions [OF piece Suc.prems]
    slice_piece_fits [OF piece Suc.prems]
  show ?case by (auto simp: piece simp del: One_nat_def)
qed simp

lemma slice_into_fits: "\<forall>r \<in> set rs. fits r \<Longrightarrow> \<forall>r \<in> set (concat (slice_into rs parts)). fits r"
  unfolding slice_into_def using slice_parts_fits [of 0 rs] by (simp add: Let_def)

lemma concat_positions: "concat (map positions parts) = positions (concat parts)"
  by (induction parts) auto

lemma enclosing_end:
  assumes fit: "\<forall>r \<in> set rs. fits r" and "bytes_of rs \<subseteq> {..< n}"
  shows "sr_end (enclosing rs) \<le> n"
proof (cases "normalize rs")
  case Nil
  then show ?thesis by (simp add: enclosing_def sr_end_def)
next
  case (Cons first rest)
  have g: "gapped (first # rest)" and b: "bytes_of (first # rest) \<subseteq> {..< n}"
    using normalize_correct [OF fit] assms(2) by (simp_all add: Cons)
  have below: "sr_end r \<le> n \<and> fits r" if "r \<in> set (first # rest)" for r
  proof -
    from g that have "0 < sr_length r" "fits r" by (auto simp: gapped_def)
    moreover from this have "sr_offset r + sr_length r - 1 \<in> range_bytes r" by (auto simp: range_bytes_def)
    then have "sr_offset r + sr_length r - 1 \<in> bytes_of (first # rest)" using that by (auto simp: bytes_of_def)
    with b have "sr_offset r + sr_length r - 1 < n" by blast
    ultimately show ?thesis by simp
  qed
  have fold: "a \<le> foldl (\<lambda>e r. if e < sr_end r then sr_end r else e) a xs \<and>
      foldl (\<lambda>e r. if e < sr_end r then sr_end r else e) a xs \<le> n \<and>
      foldl (\<lambda>e r. if e < sr_end r then sr_end r else e) a xs < u64_modulus"
    if "a \<le> n" "a < u64_modulus" "\<forall>r \<in> set xs. sr_end r \<le> n" for a xs
    using that
  proof (induction xs arbitrary: a)
    case (Cons x xs)
    have "sr_end x < u64_modulus" by (simp add: sr_end_def)
    with Cons.IH [of "if a < sr_end x then sr_end x else a"] Cons.prems show ?case by auto
  qed simp
  let ?e = "foldl (\<lambda>e r. if e < sr_end r then sr_end r else e) (sr_end first) rest"
  have e: "sr_end first \<le> ?e" "?e \<le> n" "?e < u64_modulus"
    using fold [of "sr_end first" rest] below by (auto simp: sr_end_def)
  moreover have "sr_offset first \<le> sr_end first" using below [of first] by simp
  ultimately have "sr_offset first \<le> ?e" by linarith
  then have "sr_end (enclosing rs) = ?e" using e(3) by (simp add: enclosing_def Cons sr_end_def [of "\<lparr>sr_offset = _, sr_length = _\<rparr>"])
  with e(2) show ?thesis by simp
qed

section \<open>The spine\<close>

definition spine :: "typed_state \<Rightarrow> store_range list" where
  "spine s = concat (map it_provenance (ir_items (ts_ir s)))"

definition spine_ok :: "typed_state \<Rightarrow> bool" where
  "spine_ok s \<longleftrightarrow>
     (\<forall>r \<in> set (spine s). fits r) \<and> disjoint_ranges (spine s) \<and>
     bytes_of (spine s) \<subseteq> {..< ts_next_offset s} \<and> ts_next_offset s < u64_modulus"

text \<open>\<open>event_bytes\<close>: the bytes an event adds to the spine; \<open>appends\<close>: whether an item covers them.
  \<open>spans_fit\<close> bounds the recorded spans of an append.\<close>

fun event_bytes :: "event_kind \<Rightarrow> nat" where
  "event_bytes (AppendEvent src sanitized sc claims) = length sanitized"
| "event_bytes (LedgerKind (FactInvalidate result writes)) = length (tw_sanitized result)"
| "event_bytes (OperationCommit OpAdmitIngress subject argument) = argument"
| "event_bytes k = 0"

fun appends :: "event_kind \<Rightarrow> bool" where
  "appends (AppendEvent src sanitized sc claims) = True"
| "appends (LedgerKind (FactInvalidate result writes)) = True"
| "appends k = False"

fun spans_fit :: "event_kind \<Rightarrow> bool" where
  "spans_fit (AppendEvent src sanitized sc claims) =
     ((\<forall>c \<in> set claims. fits (cl_span c)) \<and> sum_list (map (\<lambda>c. sr_length (cl_span c)) claims) < u64_modulus)"
| "spans_fit k = True"

definition shift :: "nat \<Rightarrow> store_range \<Rightarrow> store_range" where
  "shift n r = \<lparr>sr_offset = n + sr_offset r, sr_length = sr_length r\<rparr>"

lemma range_bytes_shift: "range_bytes (shift n r) = (+) n ` range_bytes r"
  by (simp add: range_bytes_def shift_def ac_simps)

lemma bytes_of_shift: "bytes_of (map (shift n) rs) = (+) n ` bytes_of rs"
  by (induction rs) (auto simp: range_bytes_shift)

lemma disjoint_shift: "disjoint_ranges (map (shift n) rs) \<longleftrightarrow> disjoint_ranges rs"
  by (induction rs) (auto simp: range_bytes_shift bytes_of_shift)

lemma bytes_of_concat: "bytes_of (concat rss) = (\<Union>rs \<in> set rss. bytes_of rs)"
  by (induction rss) auto

text \<open>The ranges an append stages are its claims, shifted to the end of the spine.\<close>

lemma claims_of_cover:
  assumes "claims_of claims0 sanitized q = Inr claims" and "length sanitized < u64_modulus"
    and "\<forall>c \<in> set claims0. fits (cl_span c)" and "sum_list (map (\<lambda>c. sr_length (cl_span c)) claims0) < u64_modulus"
  shows "bytes_of (map cl_span claims) = {..< length sanitized}" and "disjoint_ranges (map cl_span claims)"
    and "\<forall>c \<in> set claims. fits (cl_span c)"
proof -
  let ?all = "[\<lparr>sr_offset = 0, sr_length = length sanitized\<rparr>]"
  have "bytes_of (map cl_span claims) = {..< length sanitized} \<and> disjoint_ranges (map cl_span claims) \<and>
    (\<forall>c \<in> set claims. fits (cl_span c))"
  proof (cases "claims0 = []")
    case True
    with assms(1,2) show ?thesis by (auto simp: claims_of_def range_bytes_def fits_def)
  next
    case False
    with assms(1) have c: "claims = claims0" and cov: "covers_exactly (map cl_span claims) ?all"
      by (auto simp: claims_of_def split: if_splits)
    have "covers_exactly (map cl_span claims) ?all \<longleftrightarrow>
        bytes_of (map cl_span claims) = bytes_of ?all \<and> disjoint_ranges (map cl_span claims)"
      by (rule covers_exactly_iff) (use assms in \<open>auto simp: c fits_def comp_def\<close>)
    with cov assms(3) show ?thesis by (auto simp: c range_bytes_def)
  qed
  then show "bytes_of (map cl_span claims) = {..< length sanitized}" "disjoint_ranges (map cl_span claims)"
    "\<forall>c \<in> set claims. fits (cl_span c)" by auto
qed

lemma span_inside:
  assumes "bytes_of (map cl_span claims) \<subseteq> {..< n}" and "c \<in> set claims" and "0 < sr_length (cl_span c)"
  shows "sr_offset (cl_span c) + sr_length (cl_span c) \<le> n"
proof -
  have "sr_offset (cl_span c) + sr_length (cl_span c) - 1 \<in> range_bytes (cl_span c)"
    using assms(3) by (auto simp: range_bytes_def)
  with assms(1,2) have "sr_offset (cl_span c) + sr_length (cl_span c) - 1 < n" by (auto simp: bytes_of_def)
  then show ?thesis by linarith
qed

text \<open>An empty claim covers nothing and may wrap; every other one is shifted exactly.\<close>

definition placed_span :: "nat \<Rightarrow> store_range \<Rightarrow> store_range" where
  "placed_span n r = \<lparr>sr_offset = add64 n (sr_offset r), sr_length = sr_length r\<rparr>"

lemma staged_provenance:
  "concat (map it_provenance (staged_items s src sc w k cs)) = map (placed_span (ts_next_offset s) \<circ> cl_span) cs"
  by (induction cs arbitrary: k) (simp_all add: placed_span_def)

lemma placed_span_bytes:
  assumes "bytes_of (map cl_span claims) \<subseteq> {..< n}" and "off + n < u64_modulus" and "c \<in> set claims"
  shows "range_bytes (placed_span off (cl_span c)) = range_bytes (shift off (cl_span c))"
    and "fits (placed_span off (cl_span c))"
proof -
  have "add64 off (sr_offset (cl_span c)) = off + sr_offset (cl_span c) \<or> sr_length (cl_span c) = 0"
    using span_inside [OF assms(1,3)] assms(2) by (cases "sr_length (cl_span c) = 0") auto
  then show "range_bytes (placed_span off (cl_span c)) = range_bytes (shift off (cl_span c))"
    by (auto simp: placed_span_def shift_def range_bytes_def)
  show "fits (placed_span off (cl_span c))"
  proof (cases "sr_length (cl_span c) = 0")
    case True
    then show ?thesis by (simp add: placed_span_def fits_def)
  next
    case False
    with span_inside [OF assms(1,3)] assms(2) show ?thesis by (simp add: placed_span_def fits_def)
  qed
qed

lemma disjoint_ranges_cong:
  "list_all2 (\<lambda>a b. range_bytes a = range_bytes b) rs rs' \<Longrightarrow>
     bytes_of rs = bytes_of rs' \<and> disjoint_ranges rs = disjoint_ranges rs'"
  by (induction rule: list_all2_induct) auto

lemma placed_claims:
  assumes cov: "bytes_of (map cl_span claims) = {..< n}" and "disjoint_ranges (map cl_span claims)"
    and "off + n < u64_modulus"
  defines "rs \<equiv> map (placed_span off \<circ> cl_span) claims"
  shows "bytes_of rs = {off ..< off + n}" and "disjoint_ranges rs" and "\<forall>r \<in> set rs. fits r"
proof -
  have eq: "list_all2 (\<lambda>a b. range_bytes a = range_bytes b) rs (map (shift off) (map cl_span claims))"
    unfolding rs_def list_all2_map1 list_all2_map2 list_all2_same
    using placed_span_bytes(1) [of claims n off] assms(1,3) by simp
  have img: "(+) off ` {..< n} = {off ..< off + n}"
    using image_add_atLeastLessThan [of off 0 n] by (simp add: lessThan_atLeast0 add.commute)
  show "bytes_of rs = {off ..< off + n}" "disjoint_ranges rs"
    using disjoint_ranges_cong [OF eq] assms(2) by (simp_all only: bytes_of_shift disjoint_shift cov img)
  show "\<forall>r \<in> set rs. fits r" using placed_span_bytes(2) [of claims n off] assms(1,3) by (auto simp: rs_def)
qed

section \<open>Every event keeps the spine\<close>

definition spine_grows :: "typed_state \<Rightarrow> typed_state \<Rightarrow> nat \<Rightarrow> nat set \<Rightarrow> bool" where
  "spine_grows s s' n new \<longleftrightarrow>
     spine_ok s' \<and> ts_next_offset s' = ts_next_offset s + n \<and> bytes_of (spine s') = bytes_of (spine s) \<union> new"

lemma spine_grows_same:
  assumes "spine_ok s" and "spine s' = spine s" and "ts_next_offset s' = ts_next_offset s + n"
    and "ts_next_offset s + n < u64_modulus"
  shows "spine_grows s s' n {}"
  using assms by (auto simp: spine_grows_def spine_ok_def)

lemma appended_spine:
  assumes ok: "spine_ok s" and app: "appended s q src sanitized sc claims s'"
    and "bytes_of (map cl_span claims) = {..< length sanitized}" and "disjoint_ranges (map cl_span claims)"
    and bound: "ts_next_offset s + length sanitized < u64_modulus"
  shows "spine_grows s s' (length sanitized) {ts_next_offset s ..< ts_next_offset s + length sanitized}"
proof -
  let ?new = "map (placed_span (ts_next_offset s) \<circ> cl_span) claims"
  from app have "spine s' = spine s @ ?new"
    by (auto simp: appended_def spine_def staged_provenance)
  moreover from app bound have "ts_next_offset s' = ts_next_offset s + length sanitized"
    by (auto simp: appended_def)
  ultimately show ?thesis
    using ok bound placed_claims [OF assms(3,4) bound]
    by (auto simp: spine_grows_def spine_ok_def disjoint_ranges_append bytes_of_def)
qed

lemma apply_append_spine:
  assumes ok: "spine_ok s" and app: "apply_append s q src sanitized sc claims0 = (s', Inr u)"
    and "\<forall>c \<in> set claims0. fits (cl_span c)" and "sum_list (map (\<lambda>c. sr_length (cl_span c)) claims0) < u64_modulus"
    and bound: "ts_next_offset s + length sanitized < u64_modulus"
  shows "spine_grows s s' (length sanitized) {ts_next_offset s ..< ts_next_offset s + length sanitized}"
proof -
  from app obtain claims where c: "claims_of claims0 sanitized q = Inr claims"
    and landed: "appended s q src sanitized sc claims s'" by (rule apply_append_Inr)
  have len: "length sanitized < u64_modulus" using bound by linarith
  show ?thesis
    by (rule appended_spine [OF ok landed claims_of_cover(1,2) [OF c len assms(3,4)] bound])
qed

lemma resegment_ranges_Inr:
  assumes "resegment_ranges subject parent parts = Inr ranges" and fit: "\<forall>r \<in> set (it_provenance parent). fits r"
    and "0 < parts"
  shows "\<forall>r \<in> set (concat ranges). fits r" and "sum_list (map sr_length (concat ranges)) < u64_modulus"
proof -
  let ?claims = "normalize (it_provenance parent)"
  have g: "gapped ?claims" by (rule normalize_gapped [OF fit])
  then have cfit: "\<forall>r \<in> set ?claims. fits r" by (simp add: gapped_def)
  have sum: "sum_list (map sr_length ?claims) < u64_modulus"
    using bytes_bounded [OF cfit] disjoint_card(2) [of ?claims] gapped_disjoint [OF g] by simp
  have "(\<forall>r \<in> set (concat ranges). fits r) \<and> sum_list (map sr_length (concat ranges)) < u64_modulus"
  proof (cases "1 < length ?claims")
    case True
    with assms(1) have "ranges = map (\<lambda>c. [c]) ?claims"
      by (auto simp: resegment_ranges_def Let_def split: if_splits)
    then have "concat ranges = ?claims" by (simp add: concat_map_singleton)
    with cfit sum show ?thesis by simp
  next
    case False
    with assms(1) have r: "ranges = slice_into ?claims parts" by (simp add: resegment_ranges_def Let_def)
    have "length (positions (concat ranges)) = length (positions ?claims)"
      using slice_into_partitions(2) [OF assms(3) cfit sum] by (simp only: r concat_positions)
    with sum slice_into_fits [OF cfit, of parts] show ?thesis by (simp add: r)
  qed
  then show "\<forall>r \<in> set (concat ranges). fits r" "sum_list (map sr_length (concat ranges)) < u64_modulus" by auto
qed

lemma resegment_spine:
  assumes ok: "spine_ok s" and ir: "ir_ok (ts_ir s)" and "resegment s subject argument = (s', Inr u)"
  shows "spine_grows s s' 0 {}"
  using assms(3)
proof (rule resegment_Inr)
  fix parent ranges ir' ids
  assume rr: "resegment_ranges subject parent (max argument 1) = Inr ranges"
    and split: "ir_split (ts_ir s) (id_new subject) ranges
      \<lparr>ct_namespace = Fresh, ct_parts = max argument 1, ct_split_points = map length ranges\<rparr> = (ir', Inr ids)"
    and item: "ir_item (ts_ir s) (id_new subject) = Inr parent"
    and s': "s' = s\<lparr>ts_ir := ir', ts_next_offset := max (ts_next_offset s) (sr_end (it_byte_range parent))\<rparr>"
  obtain parent' where p: "ir_item (ts_ir s) (id_new subject) = Inr parent'"
    and check: "split_check (ts_ir s) (id_new subject) ranges
      \<lparr>ct_namespace = Fresh, ct_parts = max argument 1, ct_split_points = map length ranges\<rparr> = Inr parent'"
    and len: "length ids = length ranges"
    and items: "ir_items ir' = filter (\<lambda>it. it_id it \<noteq> id_new subject) (ir_items (ts_ir s)) @ split_items parent' ids ranges"
    by (rule ir_split_Inr [OF ir split])
  with item have [simp]: "parent' = parent" by simp
  have mem: "parent \<in> set (ir_items (ts_ir s))" "it_id parent = id_new subject" using ir_item_member [OF item] by auto
  then obtain xs ys where xy: "ir_items (ts_ir s) = xs @ parent # ys" by (auto dest: split_list)
  have "distinct (map it_id (xs @ parent # ys))" using ir xy by (simp add: ir_ok_def ir_ids_def)
  then have flt: "filter (\<lambda>it. it_id it \<noteq> id_new subject) (ir_items (ts_ir s)) = xs @ ys"
  proof -
    assume d: "distinct (map it_id (xs @ parent # ys))"
    have "it_id it \<noteq> id_new subject" if "it \<in> set xs \<or> it \<in> set ys" for it
      using d mem(2) that by (auto simp: image_iff)
    then show ?thesis using mem(2) by (simp add: xy filter_True)
  qed
  let ?rest = "concat (map it_provenance xs) @ concat (map it_provenance ys)"
  have spine: "spine s = concat (map it_provenance xs) @ it_provenance parent @ concat (map it_provenance ys)"
    by (simp add: spine_def xy)
  have spine': "spine s' = ?rest @ concat ranges"
    by (simp add: spine_def s' items flt split_items_provenance [OF len])
  have fit: "\<forall>r \<in> set (it_provenance parent). fits r" using ok by (simp add: spine_ok_def spine)
  note rs = resegment_ranges_Inr [OF rr fit]
  have cov: "bytes_of (concat ranges) = bytes_of (it_provenance parent)" "disjoint_ranges (concat ranges)"
    using check covers_exactly_iff [OF _ fit rs(2)] rs(1) by (auto simp: split_check_Inr)
  have "it_byte_range parent = enclosing (it_provenance parent)" using ir mem(1) by (simp add: ir_ok_def)
  moreover have "bytes_of (it_provenance parent) \<subseteq> {..< ts_next_offset s}"
    using ok by (auto simp: spine_ok_def spine bytes_of_def)
  ultimately have "sr_end (it_byte_range parent) \<le> ts_next_offset s" using enclosing_end [OF fit] by simp
  then have off: "ts_next_offset s' = ts_next_offset s" by (simp add: s')
  have bytes: "bytes_of (spine s') = bytes_of (spine s)" using cov(1) by (auto simp: spine spine' bytes_of_def)
  have "disjoint_ranges (spine s')"
    using ok cov by (auto simp: spine_ok_def spine spine' disjoint_ranges_append)
  then show ?thesis
    using ok rs(1) bytes by (auto simp: spine_grows_def off spine_ok_def spine spine')
qed

lemma unplace_spine: "ir_unplace (ts_ir s) i = Inr ir \<Longrightarrow> concat (map it_provenance (ir_items ir)) = spine s"
  by (auto simp: ir_unplace_def spine_def item_mut_set_def to_store_only_def)

lemma place_spine: "ir_place (ts_ir s) i r = Inr ir \<Longrightarrow> concat (map it_provenance (ir_items ir)) = spine s"
  by (auto simp: ir_place_def spine_def item_mut_set_def)

lemma spine_put_ir [simp]: "spine (s\<lparr>ts_ir := ir\<rparr>) = concat (map it_provenance (ir_items ir))"
  by (simp add: spine_def)

lemma apply_operation_spine:
  assumes ok: "spine_ok s" and ir: "ir_ok (ts_ir s)" and app: "apply_operation s q cls subject argument = (s', Inr u)"
    and bound: "ts_next_offset s + event_bytes (OperationCommit cls subject argument) < u64_modulus"
  shows "spine_grows s s' (event_bytes (OperationCommit cls subject argument)) {}"
proof (cases "cls = OpResegment")
  case True
  with app have "resegment s subject argument = (s', Inr u)" by simp
  from resegment_spine [OF ok ir this] True show ?thesis by simp
next
  case False
  have "spine s' = spine s \<and>
      ts_next_offset s' = ts_next_offset s + event_bytes (OperationCommit cls subject argument)"
    using False app bound
    by (cases cls) (auto simp: scope_open_op_def commit_to_Inr place_op_def update_policy_Inr
      select_migration_Inr admit_ingress_def attribute_def redact_item_def Let_def commit_registry_Inr
      commit_store_mode_Inr spine_def split: option.splits dest!: unplace_spine place_spine)
  then show ?thesis using spine_grows_same [OF ok _ _ bound] by blast
qed

definition new_bytes :: "typed_state \<Rightarrow> event_kind \<Rightarrow> nat set" where
  "new_bytes s k = (if appends k then {ts_next_offset s ..< ts_next_offset s + event_bytes k} else {})"

lemma apply_kind_spine:
  assumes ok: "spine_ok s" and ir: "ir_ok (ts_ir s)" and app: "apply_kind env s q k = (s', Inr u)"
    and bound: "ts_next_offset s + event_bytes k < u64_modulus" and fit: "spans_fit k"
  shows "spine_grows s s' (event_bytes k) (new_bytes s k)"
proof (cases k)
  case (AppendEvent src sanitized sc claims)
  with assms show ?thesis by (auto simp: new_bytes_def intro: apply_append_spine)
next
  case (OperationCommit cls subject argument)
  with assms apply_operation_spine [OF ok ir, of q cls subject argument s' u] show ?thesis
    by (simp add: new_bytes_def)
next
  case (LedgerKind command)
  with app have "apply_ledger s q command = (s', Inr u)" by simp
  then obtain n l where adm: "ledger_admission s q command = (n, Inr u)"
    and s': "s' = n\<lparr>ts_ledger := l, ts_version := add64 (ts_version n) 1\<rparr>" by (rule apply_ledger_Inr)
  have "spine_grows s n (event_bytes k) (new_bytes s k)"
  proof (cases "\<exists>result writes. command = FactInvalidate result writes")
    case True
    then obtain result writes where c: "command = FactInvalidate result writes" by blast
    from adm have "apply_append s q (ToolResultSource (tw_call_id result) (tw_tool result))
        (tw_sanitized result) (tw_scope result) [] = (n, Inr u)" by (simp add: ledger_admission_def c)
    from apply_append_spine [OF ok this] bound show ?thesis by (simp add: LedgerKind c new_bytes_def)
  next
    case False
    then have "n = s" "event_bytes k = 0" "\<not> appends k"
      using adm by (cases command; simp add: ledger_admission_def LedgerKind)+
    with ok show ?thesis by (simp add: new_bytes_def spine_grows_def)
  qed
  moreover have "spine s' = spine n" "ts_next_offset s' = ts_next_offset n"
    "spine_ok s' \<longleftrightarrow> spine_ok n" by (simp_all add: s' spine_def spine_ok_def)
  ultimately show ?thesis by (simp add: spine_grows_def)
next
  case (SecurityKind ev)
  with app have "spine s' = spine s \<and> ts_next_offset s' = ts_next_offset s"
    by (auto simp: apply_security_def Let_def commit_to_Inr spine_def split: sum.splits security_event.splits)
  with SecurityKind ok show ?thesis by (simp add: new_bytes_def spine_grows_def spine_ok_def)
qed (use app ok in \<open>auto simp: commit_to_Inr new_bytes_def spine_grows_def spine_ok_def spine_def split: if_splits\<close>)

definition log_bytes :: "recorded_event list \<Rightarrow> nat" where
  "log_bytes es = sum_list (map (event_bytes \<circ> ev_kind) es)"

lemma spine_applied [simp]: "spine (s\<lparr>ts_applied := xs\<rparr>) = spine s" "spine (s\<lparr>ts_state_hash := h\<rparr>) = spine s"
  by (simp_all add: spine_def)

lemma spine_ok_applied [simp]:
  "spine_ok (s\<lparr>ts_applied := xs\<rparr>) \<longleftrightarrow> spine_ok s" "spine_ok (s\<lparr>ts_state_hash := h\<rparr>) \<longleftrightarrow> spine_ok s"
  by (simp_all add: spine_ok_def)

lemma fold_step_spine:
  assumes "spine_ok s" and "state_ok env s" and step: "fold_step env s e = Inr s'"
    and "ts_next_offset s + event_bytes (ev_kind e) < u64_modulus" and "spans_fit (ev_kind e)"
  shows "spine_ok s' \<and> bytes_of (spine s) \<subseteq> bytes_of (spine s') \<and> ts_next_offset s \<le> ts_next_offset s' \<and>
    ts_next_offset s' \<le> ts_next_offset s + event_bytes (ev_kind e)"
proof (cases "event_identity e \<in> identities s")
  case True
  with step assms(1) show ?thesis by (simp add: fold_step_Inr)
next
  case False
  with step obtain s1 where app: "apply_kind env s (ev_sequence e) (ev_kind e) = (s1, Inr ())"
    and s': "s' = s1\<lparr>ts_applied := ts_applied s1 @ [event_identity e]\<rparr>"
    by (auto simp: fold_step_Inr apply_event_def)
  from apply_kind_spine [OF assms(1) _ app assms(4,5)] assms(2)
  show ?thesis by (auto simp: s' spine_grows_def state_ok_def)
qed

lemma fold_spine:
  assumes "spine_ok s" and "state_ok env s" and "run_steps (fold_step env) s es = Inr s'"
    and "ts_next_offset s + log_bytes es < u64_modulus" and "\<forall>e \<in> set es. spans_fit (ev_kind e)"
  shows "spine_ok s' \<and> bytes_of (spine s) \<subseteq> bytes_of (spine s') \<and>
    ts_next_offset s' \<le> ts_next_offset s + log_bytes es"
  using assms
proof (induction es arbitrary: s)
  case (Cons e es)
  then obtain s1 where step: "fold_step env s e = Inr s1" and rest: "run_steps (fold_step env) s1 es = Inr s'"
    by auto
  have one: "spine_ok s1 \<and> bytes_of (spine s) \<subseteq> bytes_of (spine s1) \<and> ts_next_offset s \<le> ts_next_offset s1 \<and>
      ts_next_offset s1 \<le> ts_next_offset s + event_bytes (ev_kind e)"
    by (rule fold_step_spine [OF Cons.prems(1,2) step]) (use Cons.prems in \<open>auto simp: log_bytes_def\<close>)
  moreover have "state_ok env s1" by (rule fold_step_ok [OF Cons.prems(2) step])
  ultimately show ?case using Cons.IH [OF _ _ rest] Cons.prems(4,5) by (fastforce simp: log_bytes_def)
qed (simp add: log_bytes_def)

lemma spine_ok_genesis: "spine_ok (genesis w sv)"
  by (simp add: spine_ok_def spine_def genesis_def ir_new_def)

end
