(* ===== verification/Replay.thy ===== *)
theory Replay
  imports ReducerLaws
begin

text \<open>
  Replay: the stored state hash is never an input to an operation, so a fold may stop, publish its hash
  and resume; and a refused event leaves the state alone, apart from the two operations that mutate
  before they can fail.
\<close>

section \<open>The stored hash is not an input\<close>

definition rehash :: "digest \<Rightarrow> typed_state \<Rightarrow> typed_state" where
  "rehash h s = s\<lparr>ts_state_hash := h\<rparr>"

definition rehashed :: "digest \<Rightarrow> outcome \<Rightarrow> outcome" where
  "rehashed h o' = (rehash h (fst o'), snd o')"

lemma rehash_simps [simp]:
  "ts_ir (rehash h s) = ts_ir s" "ts_scopes (rehash h s) = ts_scopes s" "ts_ledger (rehash h s) = ts_ledger s"
  "ts_security (rehash h s) = ts_security s" "ts_branches (rehash h s) = ts_branches s"
  "ts_semantic (rehash h s) = ts_semantic s" "ts_version (rehash h s) = ts_version s"
  "ts_pins (rehash h s) = ts_pins s" "ts_next_offset (rehash h s) = ts_next_offset s"
  "ts_session_scope (rehash h s) = ts_session_scope s" "ts_applied (rehash h s) = ts_applied s"
  "ts_store_version (rehash h s) = ts_store_version s" "ts_state_hash (rehash h s) = h"
  "rehash h (rehash g s) = rehash h s"
  by (simp_all add: rehash_def)

lemma rehash_put [simp]:
  "(rehash h s)\<lparr>ts_ir := a\<rparr> = rehash h (s\<lparr>ts_ir := a\<rparr>)"
  "(rehash h s)\<lparr>ts_scopes := b\<rparr> = rehash h (s\<lparr>ts_scopes := b\<rparr>)"
  "(rehash h s)\<lparr>ts_ledger := c\<rparr> = rehash h (s\<lparr>ts_ledger := c\<rparr>)"
  "(rehash h s)\<lparr>ts_security := d\<rparr> = rehash h (s\<lparr>ts_security := d\<rparr>)"
  "(rehash h s)\<lparr>ts_branches := e\<rparr> = rehash h (s\<lparr>ts_branches := e\<rparr>)"
  "(rehash h s)\<lparr>ts_semantic := f\<rparr> = rehash h (s\<lparr>ts_semantic := f\<rparr>)"
  "(rehash h s)\<lparr>ts_version := n\<rparr> = rehash h (s\<lparr>ts_version := n\<rparr>)"
  "(rehash h s)\<lparr>ts_pins := p\<rparr> = rehash h (s\<lparr>ts_pins := p\<rparr>)"
  "(rehash h s)\<lparr>ts_next_offset := n\<rparr> = rehash h (s\<lparr>ts_next_offset := n\<rparr>)"
  "(rehash h s)\<lparr>ts_session_scope := n\<rparr> = rehash h (s\<lparr>ts_session_scope := n\<rparr>)"
  "(rehash h s)\<lparr>ts_applied := q\<rparr> = rehash h (s\<lparr>ts_applied := q\<rparr>)"
  "(rehash h s)\<lparr>ts_policies := r\<rparr> = rehash h (s\<lparr>ts_policies := r\<rparr>)"
  "(rehash h s)\<lparr>ts_selected_store_version := v\<rparr> = rehash h (s\<lparr>ts_selected_store_version := v\<rparr>)"
  "(rehash h s)\<lparr>ts_filter_rule_version := n\<rparr> = rehash h (s\<lparr>ts_filter_rule_version := n\<rparr>)"
  "(rehash h s)\<lparr>ts_vocabulary_version := n\<rparr> = rehash h (s\<lparr>ts_vocabulary_version := n\<rparr>)"
  "(rehash h s)\<lparr>ts_store_mode := n\<rparr> = rehash h (s\<lparr>ts_store_mode := n\<rparr>)"
  "(rehash h s)\<lparr>ts_quiesced := w\<rparr> = rehash h (s\<lparr>ts_quiesced := w\<rparr>)"
  by (simp_all add: rehash_def)

lemma rehashed_pair [simp]: "rehashed h (s, r) = (rehash h s, r)"
  by (simp add: rehashed_def)

lemma commit_to_rehash:
  "(\<And>x. put x (rehash h s) = rehash h (put x s)) \<Longrightarrow>
     commit_to put err (rehash h s) r = rehashed h (commit_to put err s r)"
  by (simp add: commit_to_def split: sum.splits)

lemma attribute_rehash: "attribute (rehash h s) sc q = rehashed h (attribute s sc q)"
  unfolding attribute_def by (simp add: commit_to_rehash)

lemma stage_claims_rehash: "stage_claims (rehash h s) src sc w k cs = stage_claims s src sc w k cs"
  by (induction cs arbitrary: k) (simp_all add: staged_item_def)

lemma insert_staged_rehash: "insert_staged (rehash h s) its = rehashed h (insert_staged s its)"
  by (induction its arbitrary: s) (simp_all split: sum.splits)

lemma apply_append_rehash:
  "apply_append (rehash h s) q src sanitized sc claims = rehashed h (apply_append s q src sanitized sc claims)"
proof (cases "claims_of claims sanitized q")
  case (Inr cs)
  show ?thesis
  proof (cases "stage_claims s src sc (append_watermark s) 0 cs")
    case staged: (Inr staged)
    obtain s1 r where a: "attribute s sc q = (s1, r)" by (cases "attribute s sc q")
    show ?thesis
    proof (cases r)
      case (Inr u)
      let ?final = "id_append (sub64 (add64 (append_watermark s) (length cs)) 1)"
      obtain s2 r2 where "insert_staged (put_ir (note_minted_id (ts_ir s1) ?final) s1) staged = (s2, r2)"
        by (cases "insert_staged (put_ir (note_minted_id (ts_ir s1) ?final) s1) staged")
      with Inr \<open>claims_of claims sanitized q = Inr cs\<close> staged a show ?thesis
        by (simp add: apply_append_def Let_def stage_claims_rehash attribute_rehash insert_staged_rehash split: sum.splits)
    qed (use Inr staged a in \<open>simp add: apply_append_def Let_def stage_claims_rehash attribute_rehash\<close>)
  qed (use Inr in \<open>simp add: apply_append_def Let_def stage_claims_rehash\<close>)
qed (simp add: apply_append_def)

lemma resegment_rehash: "resegment (rehash h s) subject argument = rehashed h (resegment s subject argument)"
  by (simp add: resegment_def split: sum.splits prod.splits)

lemma redact_item_rehash: "redact_item (rehash h s) subject = rehashed h (redact_item s subject)"
  by (simp add: redact_item_def Let_def commit_to_rehash)

lemma apply_operation_rehash:
  "apply_operation (rehash h s) q cls subject argument = rehashed h (apply_operation s q cls subject argument)"
  by (cases cls) (simp_all add: resegment_rehash redact_item_rehash scope_open_op_def commit_to_rehash place_op_def
    update_policy_def select_migration_def admit_ingress_def attribute_rehash commit_registry_def
    commit_store_mode_def split: option.splits)

lemma apply_ledger_rehash: "apply_ledger (rehash h s) q command = rehashed h (apply_ledger s q command)"
proof -
  have "ledger_admission (rehash h s) q command = rehashed h (ledger_admission s q command)"
    by (cases command) (simp_all add: ledger_admission_def apply_append_rehash)
  then show ?thesis
    by (cases "ledger_admission s q command") (simp add: apply_ledger_def split: sum.splits)
qed

lemma apply_security_rehash: "apply_security env (rehash h s) ev q = rehashed h (apply_security env s ev q)"
  by (simp add: apply_security_def placed_values_def Let_def commit_to_rehash split: sum.splits security_event.splits)

lemma apply_kind_rehash: "apply_kind env (rehash h s) q k = rehashed h (apply_kind env s q k)"
proof -
  have c: "constitution env (rehash h s) = constitution env s" by (simp add: constitution_def)
  have e: "erased_put (rehash h s) ev = erased_put s ev" for ev
    by (simp add: erased_put_def rests_on_erased_def split: semantic_event.splits)
  show ?thesis
    by (cases k) (simp_all add: apply_append_rehash apply_security_rehash apply_ledger_rehash
      apply_operation_rehash commit_to_rehash c e)
qed

lemma fold_events_rehash: "fold_events env (rehash h s) es = rehashed h (fold_events env s es)"
proof (induction es arbitrary: s)
  case (Cons e es)
  obtain s1 r where a: "apply_event env s e = (s1, r)" by (cases "apply_event env s e")
  have "apply_event env (rehash h s) e = rehashed h (apply_event env s e)"
    by (simp add: apply_event_def apply_kind_rehash)
  with a Cons show ?case by (simp add: is_applied_def split: sum.splits)
qed simp

lemma state_hash_rehash [simp]: "state_hash json (rehash h s) = state_hash json s"
  by (simp add: state_hash_def encode_state_def rehash_def)

text \<open>Folding a log into the state of one of its prefixes gives what folding it from the start gives.\<close>

lemma fold_from_resume:
  assumes "fold_from env s (log_prefix log n) = (s1, Inr u)"
  shows "snd (fold_from env s1 log) = snd (fold_from env s log)"
    and "is_ok (snd (fold_from env s log)) \<Longrightarrow> fst (fold_from env s1 log) = fst (fold_from env s log)"
proof -
  from assms obtain s0 where s0: "fold_events env s (take n (el_events log)) = (s0, Inr u)"
    and s1: "s1 = rehash (state_hash (env_json env) s0) s0"
    by (auto simp: fold_from_def log_prefix_def rehash_def split: prod.splits sum.splits)
  have "fold_events env s0 (el_events log) = fold_events env s (el_events log)"
    using fold_events_resume [OF s0, of "drop n (el_events log)"] by simp
  then have "fold_events env s1 (el_events log) = rehashed (state_hash (env_json env) s0) (fold_events env s (el_events log))"
    by (simp add: s1 fold_events_rehash)
  then show "snd (fold_from env s1 log) = snd (fold_from env s log)"
    and "is_ok (snd (fold_from env s log)) \<Longrightarrow> fst (fold_from env s1 log) = fst (fold_from env s log)"
    by (cases "fold_events env s (el_events log)"; simp add: fold_from_def rehash_def [symmetric] split: sum.splits)+
qed

section \<open>Refusals\<close>

text \<open>The events whose refusal leaves the state alone: all but ingress admissions and redactions, which
  move the offset or the pins before they can fail, and resegmentations whose children's identifiers
  would wrap around.\<close>

fun refusal_atomic :: "typed_state \<Rightarrow> event_kind \<Rightarrow> bool" where
  "refusal_atomic s (AppendEvent src sanitized sc claims) = (length claims \<le> u64_modulus)"
| "refusal_atomic s (OperationCommit cls subject argument) =
     (case cls of
        OpAdmitIngress \<Rightarrow> False
      | OpRedact \<Rightarrow> False
      | OpResegment \<Rightarrow> ids_below (ts_ir s) \<and> ir_next_split_id (ts_ir s) + max argument 1 < u64_modulus
      | _ \<Rightarrow> True)"
| "refusal_atomic s k = True"

lemma resegment_refused:
  assumes "resegment s subject argument = (s', Inl e)" and "ids_below (ts_ir s)"
    and "ir_next_split_id (ts_ir s) + max argument 1 < u64_modulus"
  shows "s' = s"
proof (cases "ir_item (ts_ir s) (id_new subject)")
  case parent: (Inr parent)
  show ?thesis
  proof (cases "resegment_ranges subject parent (max argument 1)")
    case ranges: (Inr ranges)
    let ?ct = "\<lparr>ct_namespace = Fresh, ct_parts = max argument 1, ct_split_points = map length ranges\<rparr>"
    show ?thesis
    proof (cases "split_check (ts_ir s) (id_new subject) ranges ?ct")
      case (Inl e')
      with assms(1) parent ranges show ?thesis by (simp add: resegment_def ir_split_def)
    next
      case (Inr p)
      then have "length ranges = max argument 1" by (simp add: split_check_Inr)
      with assms(3) have room: "ir_next_split_id (ts_ir s) + length ranges < u64_modulus" by simp
      obtain ir where "ir_split (ts_ir s) (id_new subject) ranges ?ct =
          (ir, Inr (map (\<lambda>k. id_split (ir_next_split_id (ts_ir s) + k)) [0 ..< length ranges]))"
        by (rule ir_split_total [OF assms(2) room Inr])
      with assms(1) parent ranges show ?thesis by (simp add: resegment_def)
    qed
  qed (use assms(1) parent in \<open>simp add: resegment_def\<close>)
qed (use assms(1) in \<open>simp add: resegment_def\<close>)

lemma apply_kind_refused:
  assumes "apply_kind env s q k = (s', Inl e)" and "refusal_atomic s k"
  shows "s' = s"
proof (cases k)
  case (AppendEvent src sanitized sc claims)
  with assms show ?thesis by (auto intro: apply_append_Inl)
next
  case (LedgerKind command)
  with assms show ?thesis by (auto simp: apply_ledger_def split: sum.splits prod.splits)
next
  case (SecurityKind ev)
  with assms show ?thesis
    by (auto simp: apply_security_def Let_def commit_to_Inl ledger_apply_def split: sum.splits security_event.splits)
next
  case (OperationCommit cls subject argument)
  with assms show ?thesis
    by (cases cls) (auto simp: scope_open_op_def commit_to_Inl place_op_def update_policy_def select_migration_def
      commit_registry_def commit_store_mode_def split: option.splits if_splits intro: resegment_refused)
qed (use assms in \<open>auto simp: commit_to_Inl split: if_splits\<close>)

end
