(* ===== verification/Legality.thy ===== *)
theory Legality
  imports ReducerLaws
begin

text \<open>
  The legality gate of \<^verbatim>\<open>src/context_kernel/legality.rs\<close>: a table of checks over a typed state and a
  render contract, run in precedence order.  \<open>legal\<close> says declaratively what the whole table demands;
  the gate accepts exactly the legal projections.
\<close>

section \<open>Contracts\<close>

datatype tool_role = CallRole | ResultRole

record tool_declaration =
  td_tool :: string
  td_call_id :: string
  td_role :: tool_role

record render_contract =
  rc_version :: u64
  rc_max_output_tokens :: u64
  rc_supports_notes_region :: bool
  rc_supports_placeholders :: bool
  rc_quoting_convention :: quoting_convention
  rc_profile_budget_units :: u64
  rc_region_budgets :: "(region \<times> u64) list"
  rc_tool_declarations :: "tool_declaration list"

definition contract_generous :: "u64 \<Rightarrow> render_contract" where
  "contract_generous version =
     \<lparr>rc_version = version, rc_max_output_tokens = 8192, rc_supports_notes_region = True,
      rc_supports_placeholders = True, rc_quoting_convention = Fenced, rc_profile_budget_units = 1000000,
      rc_region_budgets = map (\<lambda>r. (r, 1000000)) region_all, rc_tool_declarations = []\<rparr>"

definition contract_declare :: "render_contract \<Rightarrow> string \<Rightarrow> string \<Rightarrow> tool_role \<Rightarrow> render_contract" where
  "contract_declare c tool call_id role =
     c\<lparr>rc_tool_declarations := rc_tool_declarations c @
       [\<lparr>td_tool = tool, td_call_id = call_id, td_role = role\<rparr>]\<rparr>"

definition supports_region :: "render_contract \<Rightarrow> region \<Rightarrow> bool" where
  "supports_region c r \<longleftrightarrow> r \<noteq> Notes \<or> rc_supports_notes_region c"

definition region_budget :: "render_contract \<Rightarrow> region \<Rightarrow> u64" where
  "region_budget c r =
     (if \<not> supports_region c r then 0
      else case find (\<lambda>rb. fst rb = r) (rc_region_budgets c) of Some rb \<Rightarrow> snd rb | None \<Rightarrow> u64_max)"

section \<open>The checks\<close>

datatype violation =
    PairingViolation string
  | OrderingViolation string
  | PlaceholderIllegal string
  | RegionOverBudget string
  | FloorViolation string
  | PinViolation string
  | QuotingViolation string
  | ProfileOverBudget string

fun violation_kind :: "violation \<Rightarrow> string" where
  "violation_kind (PairingViolation p) = ''pairing''"
| "violation_kind (OrderingViolation p) = ''ordering''"
| "violation_kind (PlaceholderIllegal p) = ''placeholder-illegal''"
| "violation_kind (RegionOverBudget p) = ''region-over-budget''"
| "violation_kind (FloorViolation p) = ''floor''"
| "violation_kind (PinViolation p) = ''pin''"
| "violation_kind (QuotingViolation p) = ''quoting-convention''"
| "violation_kind (ProfileOverBudget p) = ''profile-over-budget''"

text \<open>\<open>first_some\<close> is a loop that returns at the first element with something to report.\<close>

fun first_some :: "('a \<Rightarrow> 'b option) \<Rightarrow> 'a list \<Rightarrow> 'b option" where
  "first_some f [] = None"
| "first_some f (x # xs) = (case f x of Some y \<Rightarrow> Some y | None \<Rightarrow> first_some f xs)"

definition count_role :: "render_contract \<Rightarrow> string \<Rightarrow> tool_role \<Rightarrow> nat" where
  "count_role c call_id role =
     length (filter (\<lambda>d. td_call_id d = call_id \<and> td_role d = role) (rc_tool_declarations c))"

definition check_pairing :: "typed_state \<Rightarrow> render_contract \<Rightarrow> violation option" where
  "check_pairing s c =
     first_some (\<lambda>d.
       let calls = count_role c (td_call_id d) CallRole;
           results = count_role c (td_call_id d) ResultRole
       in if calls \<noteq> 1 \<or> results \<noteq> 1
          then Some (PairingViolation (''call-result pairing for '' @ td_call_id d @ '' is '' @ decimal calls @
            '' call(s) and '' @ decimal results @ '' result(s)''))
          else None) (rc_tool_declarations c)"

fun ordering_from :: "region option \<Rightarrow> item list \<Rightarrow> violation option" where
  "ordering_from highest [] = None"
| "ordering_from highest (it # its) =
     (case item_region it of
        None \<Rightarrow> ordering_from highest its
      | Some r \<Rightarrow>
          (case highest of
             None \<Rightarrow> ordering_from (Some r) its
           | Some previous \<Rightarrow>
               if region_rank r < region_rank previous
               then Some (OrderingViolation (''item '' @ decimal (ii_value (it_id it)) @ '' placed in '' @
                 region_name r @ '' after '' @ region_name previous))
               else ordering_from (Some r) its))"

definition check_ordering :: "typed_state \<Rightarrow> render_contract \<Rightarrow> violation option" where
  "check_ordering s c = ordering_from None (ir_items (ts_ir s))"

definition check_placeholder :: "typed_state \<Rightarrow> render_contract \<Rightarrow> violation option" where
  "check_placeholder s c =
     (if rc_supports_placeholders c then None
      else first_some (\<lambda>it. if is_placeholder it
        then Some (PlaceholderIllegal (''item '' @ decimal (ii_value (it_id it)) @
          '' is a placeholder but the contract admits none''))
        else None) (ir_items (ts_ir s)))"

definition projection_units :: "typed_state \<Rightarrow> u64" where
  "projection_units s = foldl (\<lambda>t r. saturating_add t (region_occupancy (ts_ir s) r)) 0 region_all"

definition check_profile_budget :: "typed_state \<Rightarrow> render_contract \<Rightarrow> violation option" where
  "check_profile_budget s c =
     (if rc_profile_budget_units c < projection_units s
      then Some (ProfileOverBudget (''projection holds '' @ decimal (projection_units s) @
        '' unit(s) across all regions against a profile budget of '' @
        decimal (rc_profile_budget_units c) @ '' unit(s)''))
      else None)"

definition check_region_budget :: "typed_state \<Rightarrow> render_contract \<Rightarrow> violation option" where
  "check_region_budget s c =
     first_some (\<lambda>r.
       let occupancy = region_occupancy (ts_ir s) r; budget = region_budget c r
       in if budget < occupancy
          then Some (RegionOverBudget (''region '' @ region_name r @ '' holds '' @ decimal occupancy @
            '' unit(s) against a budget of '' @ decimal budget @ '' unit(s)''))
          else None) region_all"

definition check_floor :: "typed_state \<Rightarrow> render_contract \<Rightarrow> violation option" where
  "check_floor s c =
     first_some (\<lambda>l.
       case registry_policy (ts_policies s) l of
         Inl e \<Rightarrow> None
       | Inr policy \<Rightarrow>
           (let total = lane_units (ts_ir s) l; placed = lane_placed_units (ts_ir s) l
            in if placed < total \<and> placed < lp_floor_units policy
               then Some (FloorViolation (''lane '' @ lane_name l @ '' retains '' @ decimal placed @ '' of '' @
                 decimal total @ '' unit(s), below its floor of '' @ decimal (lp_floor_units policy) @ '' unit(s)''))
               else None)) lane_all"

definition check_pin :: "typed_state \<Rightarrow> render_contract \<Rightarrow> violation option" where
  "check_pin s c =
     first_some (\<lambda>pin.
       case ir_item (ts_ir s) pin of
         Inl e \<Rightarrow> Some (PinViolation (''pinned item '' @ decimal (ii_value pin) @
           '' is absent from the conversation ir''))
       | Inr it \<Rightarrow>
           if item_region it = None
           then Some (PinViolation (''pinned item '' @ decimal (ii_value pin) @ '' is unplaced''))
           else None) (ts_pins s)"

definition check_quoting :: "typed_state \<Rightarrow> render_contract \<Rightarrow> violation option" where
  "check_quoting s c =
     (if ts_quoting s = rc_quoting_convention c then None
      else Some (QuotingViolation (''state quotes '' @ quoting_name (ts_quoting s) @
        '' but the contract declares '' @ quoting_name (rc_quoting_convention c))))"

definition RULES :: "(string \<times> (typed_state \<Rightarrow> render_contract \<Rightarrow> violation option)) list" where
  "RULES =
     [(''pairing'', check_pairing), (''ordering'', check_ordering),
      (''placeholder-illegal'', check_placeholder), (''region-over-budget'', check_region_budget),
      (''profile-over-budget'', check_profile_budget), (''floor'', check_floor),
      (''pin'', check_pin), (''quoting-convention'', check_quoting)]"

record legal_context =
  lc_contract_version :: u64

definition sendable_with :: "legal_context \<Rightarrow> u64 \<Rightarrow> bool" where
  "sendable_with lc send_version \<longleftrightarrow> lc_contract_version lc = send_version"

definition is_legal :: "typed_state \<Rightarrow> render_contract \<Rightarrow> violation + legal_context" where
  "is_legal s c =
     (case first_some (\<lambda>rule. snd rule s c) RULES of
        Some v \<Rightarrow> Inl v
      | None \<Rightarrow> Inr \<lparr>lc_contract_version = rc_version c\<rparr>)"

section \<open>What the table demands\<close>

definition paired :: "render_contract \<Rightarrow> bool" where
  "paired c \<longleftrightarrow>
     (\<forall>d \<in> set (rc_tool_declarations c).
        count_role c (td_call_id d) CallRole = 1 \<and> count_role c (td_call_id d) ResultRole = 1)"

definition placed_regions :: "item list \<Rightarrow> region list" where
  "placed_regions its = List.map_filter item_region its"

definition layout_ordered :: "typed_state \<Rightarrow> bool" where
  "layout_ordered s \<longleftrightarrow> sorted (map region_rank (placed_regions (ir_items (ts_ir s))))"

definition within_budgets :: "typed_state \<Rightarrow> render_contract \<Rightarrow> bool" where
  "within_budgets s c \<longleftrightarrow>
     (\<forall>r. region_occupancy (ts_ir s) r \<le> region_budget c r) \<and>
     (sum_list (map (region_occupancy (ts_ir s)) region_all) \<le> rc_profile_budget_units c \<or>
      u64_max \<le> rc_profile_budget_units c)"

definition floors_kept :: "typed_state \<Rightarrow> bool" where
  "floors_kept s \<longleftrightarrow>
     (\<forall>l p. registry_policy (ts_policies s) l = Inr p \<longrightarrow>
        lane_units (ts_ir s) l \<le> lane_placed_units (ts_ir s) l \<or> lp_floor_units p \<le> lane_placed_units (ts_ir s) l)"

definition pins_placed :: "typed_state \<Rightarrow> bool" where
  "pins_placed s \<longleftrightarrow>
     (\<forall>i \<in> set (ts_pins s). \<exists>it \<in> set (ir_items (ts_ir s)). it_id it = i \<and> item_region it \<noteq> None)"

definition legal :: "typed_state \<Rightarrow> render_contract \<Rightarrow> bool" where
  "legal s c \<longleftrightarrow>
     paired c \<and> layout_ordered s \<and>
     (rc_supports_placeholders c \<or> (\<forall>it \<in> set (ir_items (ts_ir s)). \<not> is_placeholder it)) \<and>
     within_budgets s c \<and> floors_kept s \<and> pins_placed s \<and> ts_quoting s = rc_quoting_convention c"

lemma first_some_None: "first_some f xs = None \<longleftrightarrow> (\<forall>x \<in> set xs. f x = None)"
  by (induction xs) (auto split: option.splits)

lemma first_some_Some:
  "first_some f xs = Some y \<Longrightarrow> \<exists>i < length xs. f (xs ! i) = Some y \<and> (\<forall>j < i. f (xs ! j) = None)"
proof (induction xs)
  case (Cons x xs)
  show ?case
  proof (cases "f x")
    case None
    with Cons obtain i where i: "i < length xs" "f (xs ! i) = Some y" "\<forall>j < i. f (xs ! j) = None" by auto
    have "f ((x # xs) ! j) = None" if "j < Suc i" for j using that None i(3) by (cases j) auto
    with i show ?thesis by (intro exI [of _ "Suc i"]) simp
  qed (use Cons.prems in auto)
qed simp

lemma check_pairing_None: "check_pairing s c = None \<longleftrightarrow> paired c"
  by (auto simp: check_pairing_def first_some_None paired_def Let_def)

lemma ordering_from_None:
  "ordering_from highest its = None \<longleftrightarrow>
     sorted (map region_rank ((case highest of None \<Rightarrow> [] | Some r \<Rightarrow> [r]) @ placed_regions its))"
proof (induction highest its rule: ordering_from.induct)
  case (2 highest it its)
  show ?case
  proof (cases "item_region it")
    case None
    with 2 show ?thesis by (simp add: placed_regions_def map_filter_simps)
  next
    case (Some r)
    have hd: "placed_regions (it # its) = r # placed_regions its"
      by (simp add: placed_regions_def map_filter_simps Some)
    show ?thesis
    proof (cases highest)
      case None
      with 2 Some show ?thesis by (simp add: hd)
    next
      case (Some p)
      with 2 \<open>item_region it = Some r\<close> show ?thesis by (auto simp: hd)
    qed
  qed
qed (simp add: placed_regions_def map_filter_simps split: option.splits)

lemma check_ordering_None: "check_ordering s c = None \<longleftrightarrow> layout_ordered s"
  by (simp add: check_ordering_def ordering_from_None layout_ordered_def)

lemma check_placeholder_None:
  "check_placeholder s c = None \<longleftrightarrow>
     rc_supports_placeholders c \<or> (\<forall>it \<in> set (ir_items (ts_ir s)). \<not> is_placeholder it)"
  by (simp add: check_placeholder_def first_some_None)

lemma check_budgets_None:
  "check_region_budget s c = None \<and> check_profile_budget s c = None \<longleftrightarrow> within_budgets s c"
proof -
  have all: "(\<forall>r \<in> set region_all. P r) \<longleftrightarrow> (\<forall>r. P r)" for P
    by (auto simp: region_all_def) (metis region.exhaust)
  have "foldl (\<lambda>t r. saturating_add t (f r)) a rs = (if rs = [] then a else min (a + sum_list (map f rs)) u64_max)"
    for f :: "region \<Rightarrow> nat" and a rs
    by (induction rs arbitrary: a) (auto simp: saturating_add_def)
  then have "projection_units s = min (sum_list (map (region_occupancy (ts_ir s)) region_all)) u64_max"
    by (simp add: projection_units_def region_all_def)
  then have "check_profile_budget s c = None \<longleftrightarrow>
      sum_list (map (region_occupancy (ts_ir s)) region_all) \<le> rc_profile_budget_units c \<or>
      u64_max \<le> rc_profile_budget_units c"
    by (auto simp: check_profile_budget_def)
  moreover have "check_region_budget s c = None \<longleftrightarrow> (\<forall>r. region_occupancy (ts_ir s) r \<le> region_budget c r)"
    unfolding all [symmetric] check_region_budget_def by (auto simp: first_some_None Let_def not_less)
  ultimately show ?thesis by (simp add: within_budgets_def)
qed

lemma check_floor_None: "check_floor s c = None \<longleftrightarrow> floors_kept s"
  by (simp add: check_floor_def first_some_None floors_kept_def Let_def split: sum.splits) (meson not_le)

lemma check_pin_None:
  assumes "distinct (ir_ids (ts_ir s))"
  shows "check_pin s c = None \<longleftrightarrow> pins_placed s"
proof -
  have "(\<exists>it. ir_item (ts_ir s) i = Inr it \<and> item_region it \<noteq> None) \<longleftrightarrow>
      (\<exists>it \<in> set (ir_items (ts_ir s)). it_id it = i \<and> item_region it \<noteq> None)" for i
    using ir_item_Inr [OF assms] by auto
  moreover have "check_pin s c = None \<longleftrightarrow>
      (\<forall>i \<in> set (ts_pins s). \<exists>it. ir_item (ts_ir s) i = Inr it \<and> item_region it \<noteq> None)"
    unfolding check_pin_def first_some_None
  proof (rule ball_cong [OF refl])
    fix i
    show "(case ir_item (ts_ir s) i of
         Inl e \<Rightarrow> Some (PinViolation (''pinned item '' @ decimal (ii_value i) @
           '' is absent from the conversation ir''))
       | Inr it \<Rightarrow>
           if item_region it = None
           then Some (PinViolation (''pinned item '' @ decimal (ii_value i) @ '' is unplaced''))
           else None) = None \<longleftrightarrow> (\<exists>it. ir_item (ts_ir s) i = Inr it \<and> item_region it \<noteq> None)"
      by (cases "ir_item (ts_ir s) i") auto
  qed
  ultimately show ?thesis by (simp add: pins_placed_def)
qed

lemma check_quoting_None: "check_quoting s c = None \<longleftrightarrow> ts_quoting s = rc_quoting_convention c"
  by (simp add: check_quoting_def)

text \<open>The gate accepts exactly the legal projections, and a refusal reports the first row that is violated.\<close>

lemma is_legal_Inr:
  assumes "distinct (ir_ids (ts_ir s))"
  shows "is_legal s c = Inr lc \<longleftrightarrow> legal s c \<and> lc = \<lparr>lc_contract_version = rc_version c\<rparr>"
proof -
  have "first_some (\<lambda>rule. snd rule s c) RULES = None \<longleftrightarrow> legal s c"
    unfolding first_some_None legal_def check_budgets_None [symmetric] check_pairing_None [of s, symmetric]
      check_ordering_None [of s c, symmetric] check_placeholder_None [symmetric]
      check_floor_None [of s c, symmetric] check_pin_None [OF assms, of c, symmetric] check_quoting_None [symmetric]
    by (auto simp: RULES_def)
  then show ?thesis by (auto simp: is_legal_def split: option.splits)
qed

lemma rule_kinds:
  assumes "i < length RULES" and "snd (RULES ! i) s c = Some v"
  shows "violation_kind v = fst (RULES ! i)"
proof -
  have some: "first_some f xs = Some y \<Longrightarrow> \<exists>x. f x = Some y" for f :: "'a \<Rightarrow> violation option" and xs y
    by (blast dest: first_some_Some)
  have ord: "ordering_from h its = Some v \<Longrightarrow> violation_kind v = ''ordering''" for h its
    by (induction h its rule: ordering_from.induct) (auto split: option.splits if_splits)
  from assms(1) consider "i = 0" | "i = 1" | "i = 2" | "i = 3" | "i = 4" | "i = 5" | "i = 6" | "i = 7"
    by (fastforce simp: RULES_def)
  then show ?thesis
    by cases (use assms(2) in \<open>auto simp: RULES_def check_pairing_def check_ordering_def ord check_placeholder_def
      check_region_budget_def check_profile_budget_def check_floor_def check_pin_def check_quoting_def Let_def
      split: if_splits sum.splits dest!: some\<close>)
qed

lemma is_legal_Inl:
  assumes "is_legal s c = Inl v"
  obtains i where "i < length RULES" and "snd (RULES ! i) s c = Some v" and "violation_kind v = fst (RULES ! i)"
    and "\<And>j. j < i \<Longrightarrow> snd (RULES ! j) s c = None"
proof -
  from assms have "first_some (\<lambda>rule. snd rule s c) RULES = Some v" by (auto simp: is_legal_def split: option.splits)
  then obtain i where "i < length RULES" "snd (RULES ! i) s c = Some v" "\<forall>j < i. snd (RULES ! j) s c = None"
    by (blast dest: first_some_Some)
  with rule_kinds that show ?thesis by blast
qed

end
