(* ===== verification/Migration.thy ===== *)
theory Migration
  imports ReducerLaws
begin

text \<open>
  Context-store migration, \<^verbatim>\<open>src/context_kernel/migration.rs\<close>: the crash matrix, plans and private builds,
  their publication against the recorded log, and the slot pair whose swap moves visibility.
\<close>

section \<open>The crash matrix\<close>

datatype migration_decision = KeepV2 string | SelectV3 u64

fun decision_store_version :: "migration_decision \<Rightarrow> u64" where
  "decision_store_version (KeepV2 reason) = V2"
| "decision_store_version (SelectV3 q) = V3"

fun encode_decision :: "migration_decision \<Rightarrow> sink \<Rightarrow> sink" where
  "encode_decision (KeepV2 reason) s = sink_blob (string_bytes reason) (sink_tag ''keep-v2'' s)"
| "encode_decision (SelectV3 q) s = sink_int q (sink_tag ''select-v3'' s)"

fun selection_subject :: "event_kind \<Rightarrow> u64 option" where
  "selection_subject (OperationCommit OpMigrationSelect subject argument) = Some subject"
| "selection_subject k = None"

fun selection_from :: "u64 \<Rightarrow> recorded_event list \<Rightarrow> u64" where
  "selection_from target [] = 0"
| "selection_from target (e # es) =
     (if selection_subject (ev_kind e) = Some target then ev_sequence e else selection_from target es)"

definition selection_sequence :: "event_log \<Rightarrow> u64 \<Rightarrow> u64" where
  "selection_sequence log target = selection_from target (el_events log)"

fun decide_from :: "recorded_event list \<Rightarrow> migration_decision" where
  "decide_from [] = KeepV2 ''no complete v3 selection event in the recovered log''"
| "decide_from (e # es) =
     (case selection_subject (ev_kind e) of
        Some subject \<Rightarrow>
          if subject = V3 then SelectV3 (ev_sequence e)
          else KeepV2 ''selection named a version other than v3''
      | None \<Rightarrow> decide_from es)"

definition decide :: "event_log \<Rightarrow> migration_decision" where
  "decide log =
     (if el_store_version log = V3 then SelectV3 (selection_sequence log V3)
      else decide_from (el_events log))"

section \<open>Plans, builds and publications\<close>

record migration_plan =
  mp_target_version :: u64
  mp_ranges :: "store_range list"
  mp_source_checksum :: digest
  mp_planned_sequence :: u64

definition plan_from :: "u64 \<Rightarrow> store_range list \<Rightarrow> digest \<Rightarrow> migration_plan" where
  "plan_from target ranges checksum =
     \<lparr>mp_target_version = target, mp_ranges = ranges, mp_source_checksum = checksum, mp_planned_sequence = 0\<rparr>"

definition plan_for_log :: "u64 \<Rightarrow> store_range list \<Rightarrow> event_log \<Rightarrow> migration_plan" where
  "plan_for_log target ranges log =
     \<lparr>mp_target_version = target, mp_ranges = ranges, mp_source_checksum = head_checksum log,
      mp_planned_sequence = log_next_sequence log\<rparr>"

definition plan_units :: "migration_plan \<Rightarrow> u64" where
  "plan_units p = covered_units (mp_ranges p)"

definition encode_plan :: "migration_plan \<Rightarrow> sink \<Rightarrow> sink" where
  "encode_plan p s =
     foldl (\<lambda>s r. sink_int (sr_length r) (sink_int (sr_offset r) s))
       (sink_digest (mp_source_checksum p) (sink_int (mp_target_version p) (sink_tag ''migration-plan'' s)))
       (mp_ranges p)"

record private_build =
  pb_plan :: migration_plan
  pb_built_checksum :: "digest option"
  pb_complete :: bool

definition build_start :: "migration_plan \<Rightarrow> private_build" where
  "build_start plan = \<lparr>pb_plan = plan, pb_built_checksum = None, pb_complete = False\<rparr>"

definition complete_with :: "private_build \<Rightarrow> byte list \<Rightarrow> private_build" where
  "complete_with b bytes = b\<lparr>pb_built_checksum := Some (scope_digest StoreBuild bytes), pb_complete := True\<rparr>"

definition encode_build :: "private_build \<Rightarrow> sink \<Rightarrow> sink" where
  "encode_build b s =
     (case pb_built_checksum b of Some c \<Rightarrow> sink_digest c | None \<Rightarrow> sink_int 0)
       (sink_flag (pb_complete b) (encode_plan (pb_plan b) s))"

record publication =
  pu_store_version :: u64
  pu_built_checksum :: digest
  pu_published :: bool

definition publication_of :: "private_build \<Rightarrow> publication option" where
  "publication_of b =
     (case pb_built_checksum b of
        None \<Rightarrow> None
      | Some c \<Rightarrow> Some \<lparr>pu_store_version = mp_target_version (pb_plan b), pu_built_checksum = c, pu_published = False\<rparr>)"

datatype publication_error =
    NoBuildPending
  | BuildPending
  | SlotContract hash_scope hash_scope
  | AlreadyPublished
  | BuildIncomplete
  | SpineAdvanced u64 u64

definition adopt :: "private_build \<Rightarrow> event_log \<Rightarrow> publication_error + publication" where
  "adopt b log =
     (let recorded = log_next_sequence log
      in if mp_planned_sequence (pb_plan b) \<noteq> recorded
         then Inl (SpineAdvanced (mp_planned_sequence (pb_plan b)) recorded)
         else ok_or (publication_of b) BuildIncomplete)"

definition publication_verify :: "publication \<Rightarrow> byte list \<Rightarrow> bool" where
  "publication_verify p bytes \<longleftrightarrow> scope_digest StoreBuild bytes = pu_built_checksum p"

definition encode_publication :: "publication \<Rightarrow> sink \<Rightarrow> sink" where
  "encode_publication p s =
     sink_flag (pu_published p) (sink_digest (pu_built_checksum p)
       (sink_byte_order_mark (sink_int (pu_store_version p) (sink_tag ''publication'' s))))"

section \<open>Slots\<close>

datatype generation =
    Committed (gen_store_version: u64) (gen_bytes: u64) digest
  | Built (gen_store_version: u64) (gen_bytes: u64) digest

fun gen_scope :: "generation \<Rightarrow> hash_scope" where
  "gen_scope (Committed v b c) = EventChain"
| "gen_scope (Built v b c) = StoreBuild"

record slot_pair =
  sp_active :: generation
  sp_inactive :: "generation option"
  sp_published :: bool

definition slots_genesis :: "u64 \<Rightarrow> u64 \<Rightarrow> digest \<Rightarrow> slot_pair" where
  "slots_genesis sv b c = \<lparr>sp_active = Committed sv b c, sp_inactive = None, sp_published = False\<rparr>"

definition slots_land :: "slot_pair \<Rightarrow> generation \<Rightarrow> publication_error + slot_pair" where
  "slots_land sp g =
     (if sp_inactive sp \<noteq> None then Inl BuildPending
      else if gen_scope g \<noteq> StoreBuild then Inl (SlotContract StoreBuild (gen_scope g))
      else Inr (sp\<lparr>sp_inactive := Some g\<rparr>))"

definition slots_discard :: "slot_pair \<Rightarrow> publication_error + slot_pair" where
  "slots_discard sp =
     (if sp_inactive sp = None then Inl NoBuildPending else Inr (sp\<lparr>sp_inactive := None\<rparr>))"

definition slots_swap :: "slot_pair \<Rightarrow> digest \<Rightarrow> publication_error + (slot_pair \<times> generation)" where
  "slots_swap sp selection_chain =
     (if sp_published sp then Inl AlreadyPublished
      else case sp_inactive sp of
             None \<Rightarrow> Inl NoBuildPending
           | Some g \<Rightarrow>
               Inr (sp\<lparr>sp_active := Committed (gen_store_version g) (gen_bytes g) selection_chain,
                       sp_inactive := Some (sp_active sp), sp_published := True\<rparr>, g))"

record migration_descriptor =
  md_store_version :: u64
  md_build_checksum :: digest
  md_selection_chain :: digest
  md_published :: bool

definition descriptor_seal :: "u64 \<Rightarrow> digest \<Rightarrow> digest \<Rightarrow> migration_descriptor" where
  "descriptor_seal sv build_checksum selection_chain =
     \<lparr>md_store_version = sv, md_build_checksum = build_checksum, md_selection_chain = selection_chain,
      md_published = True\<rparr>"

definition descriptor_verify_build :: "migration_descriptor \<Rightarrow> byte list \<Rightarrow> bool" where
  "descriptor_verify_build d bytes \<longleftrightarrow> scope_digest StoreBuild bytes = md_build_checksum d"

definition descriptor_verify_chain :: "migration_descriptor \<Rightarrow> event_log \<Rightarrow> bool" where
  "descriptor_verify_chain d log \<longleftrightarrow> head_checksum log = md_selection_chain d"

definition encode_descriptor :: "migration_descriptor \<Rightarrow> sink \<Rightarrow> sink" where
  "encode_descriptor d s =
     sink_flag (md_published d) (sink_digest (md_selection_chain d) (sink_digest (md_build_checksum d)
       (sink_byte_order_mark (sink_int (md_store_version d) (sink_tag ''migration-descriptor'' s)))))"

section \<open>The slot pair as a machine\<close>

datatype slot_command = Land generation | Discard | Swap digest

fun slot_step :: "slot_pair \<Rightarrow> slot_command \<Rightarrow> publication_error + slot_pair" where
  "slot_step sp (Land g) = slots_land sp g"
| "slot_step sp Discard = slots_discard sp"
| "slot_step sp (Swap c) = res_bind (slots_swap sp c) (\<lambda>r. Inr (fst r))"

text \<open>Readers always resolve a committed generation; a pending slot holds a build until the swap, and
  afterwards the generation that was retired, unless it is discarded and a new build lands.\<close>

definition slots_ok :: "slot_pair \<Rightarrow> bool" where
  "slots_ok sp \<longleftrightarrow>
     gen_scope (sp_active sp) = EventChain \<and>
     (\<not> sp_published sp \<longrightarrow> (\<forall>g. sp_inactive sp = Some g \<longrightarrow> gen_scope g = StoreBuild))"

lemma slot_step_ok: "slots_ok sp \<Longrightarrow> slot_step sp c = Inr sp' \<Longrightarrow> slots_ok sp'"
  by (cases c) (auto simp: slots_ok_def slots_land_def slots_discard_def slots_swap_def split: if_splits option.splits)

interpretation slots: guarded_machine slot_step slots_ok
  by unfold_locales (rule slot_step_ok)

text \<open>Visibility moves at most once: once published, the active generation is fixed, and until then it is
  the one the pair started with.\<close>

definition slots_later :: "slot_pair \<Rightarrow> slot_pair \<Rightarrow> bool" where
  "slots_later a b \<longleftrightarrow>
     (sp_published a \<longrightarrow> sp_published b) \<and> (sp_published a = sp_published b \<longrightarrow> sp_active b = sp_active a)"

interpretation slots_history: monotone_machine slot_step slots_later
proof
  show "slots_later s s" for s by (simp add: slots_later_def)
  show "slots_later s u" if "slots_later s t" "slots_later t u" for s t u
    using that by (auto simp: slots_later_def)
  show "slots_later s s'" if "slot_step s c = Inr s'" for s c s'
    using that by (cases c)
      (auto simp: slots_later_def slots_land_def slots_discard_def slots_swap_def split: if_splits option.splits)
qed

fun is_swap :: "slot_command \<Rightarrow> bool" where
  "is_swap (Swap c) = True"
| "is_swap c = False"

lemma swaps_once:
  "run_steps slot_step sp cs = Inr sp' \<Longrightarrow>
     length (filter is_swap cs) = (if sp_published sp' \<and> \<not> sp_published sp then 1 else 0)"
proof (induction cs arbitrary: sp)
  case (Cons c cs)
  then obtain sp1 where step: "slot_step sp c = Inr sp1" and rest: "run_steps slot_step sp1 cs = Inr sp'" by auto
  have "sp_published sp1 \<longrightarrow> sp_published sp'"
    using slots_history.run_below [OF rest] by (simp add: slots_later_def)
  with Cons.IH [OF rest] step show ?case
    by (cases c) (auto simp: slots_land_def slots_discard_def slots_swap_def split: if_splits option.splits)
qed simp

section \<open>The crash matrix and the reducer\<close>

definition selections :: "recorded_event list \<Rightarrow> u64 list" where
  "selections es = List.map_filter (selection_subject \<circ> ev_kind) es"

lemma selections_simps [simp]:
  "selections [] = []"
  "selections (e # es) = (case selection_subject (ev_kind e) of Some v \<Rightarrow> v # selections es | None \<Rightarrow> selections es)"
  by (simp_all add: selections_def map_filter_simps split: option.split)

text \<open>The crash matrix reads the first selection of the log.\<close>

lemma decide_from_version:
  "decision_store_version (decide_from es) = (if selections es \<noteq> [] \<and> hd (selections es) = V3 then V3 else V2)"
  by (induction es) (auto split: option.splits)

lemma apply_kind_selected:
  assumes "apply_kind env s q k = (s', Inr u)"
  shows "ts_selected_store_version s' =
    (case selection_subject k of Some v \<Rightarrow> Some v | None \<Rightarrow> ts_selected_store_version s)"
proof (cases k)
  case (AppendEvent src sanitized sc claims)
  with assms have "apply_append s q src sanitized sc claims = (s', Inr u)" by simp
  then show ?thesis by (rule apply_append_Inr) (auto simp: AppendEvent appended_def)
next
  case (LedgerKind command)
  with assms have "apply_ledger s q command = (s', Inr u)" by simp
  then obtain n l where adm: "ledger_admission s q command = (n, Inr u)"
    and s': "s' = n\<lparr>ts_ledger := l, ts_version := add64 (ts_version n) 1\<rparr>" by (rule apply_ledger_Inr)
  have "ts_selected_store_version n = ts_selected_store_version s"
    using adm by (cases command) (auto simp: ledger_admission_def appended_def elim!: apply_append_Inr)
  then show ?thesis by (simp add: s' LedgerKind)
next
  case (SecurityKind ev)
  with assms show ?thesis
    by (auto simp: apply_security_def Let_def commit_to_Inr split: sum.splits security_event.splits)
next
  case (OperationCommit cls subject argument)
  show ?thesis
  proof (cases "cls = OpResegment")
    case True
    with OperationCommit assms have "resegment s subject argument = (s', Inr u)" by simp
    then show ?thesis by (rule resegment_Inr) (simp add: OperationCommit True)
  next
    case False
    with OperationCommit assms show ?thesis
      by (cases cls) (auto simp: scope_open_op_def commit_to_Inr place_op_def update_policy_Inr
        select_migration_Inr admit_ingress_def attribute_def redact_item_def Let_def commit_registry_Inr
        commit_store_mode_Inr split: option.splits)
  qed
qed (use assms in \<open>auto simp: commit_to_Inr split: if_splits\<close>)

text \<open>The reducer keeps the last one.\<close>

lemma fold_selected:
  assumes "run_steps (fold_step env) s es = Inr s'" and "distinct (map event_identity es)"
    and "event_identity ` set es \<inter> identities s = {}"
  shows "ts_selected_store_version s' =
    (if selections es = [] then ts_selected_store_version s else Some (last (selections es)))"
  using assms
proof (induction es arbitrary: s)
  case (Cons e es)
  then obtain s1 where step: "fold_step env s e = Inr s1" and rest: "run_steps (fold_step env) s1 es = Inr s'"
    by auto
  have "event_identity e \<notin> identities s" using Cons.prems(3) by simp
  with step obtain s0 where app: "apply_kind env s (ev_sequence e) (ev_kind e) = (s0, Inr ())"
    and s1: "s1 = s0\<lparr>ts_applied := ts_applied s0 @ [event_identity e]\<rparr>"
    by (auto simp: fold_step_Inr apply_event_def)
  have "event_identity ` set es \<inter> identities s1 = {}"
    using Cons.prems(2,3) fold_step_identities [OF step] by auto
  from Cons.IH [OF rest _ this] Cons.prems(2) apply_kind_selected [OF app] show ?case
    by (auto simp: s1 split: option.splits)
qed simp

end
