(* ===== verification/Operations.thy ===== *)
theory Operations
  imports Prelude
begin

text \<open>
  The closed operation registry of \<^verbatim>\<open>src/context_txn/operation.rs\<close> and the budget predicates of
  \<^verbatim>\<open>src/context_txn/budget.rs\<close> that its rows are judged by.
\<close>

section \<open>Budgets and margins\<close>

record margins =
  mg_version :: u64
  mg_per_tool_declaration :: u64
  mg_commit_frame :: u64

definition margins_v1 :: margins where
  "margins_v1 = \<lparr>mg_version = 1, mg_per_tool_declaration = 32, mg_commit_frame = 64\<rparr>"

definition recalibrate :: "margins \<Rightarrow> u64 \<Rightarrow> u64 \<Rightarrow> string + margins" where
  "recalibrate m version per_tool_declaration =
     (if version \<le> mg_version m then Inl ''margin version must be strictly newer''
      else Inr \<lparr>mg_version = version, mg_per_tool_declaration = per_tool_declaration,
               mg_commit_frame = mg_commit_frame m\<rparr>)"

definition tool_surface :: "margins \<Rightarrow> nat \<Rightarrow> u64" where
  "tool_surface m declarations = min (mg_per_tool_declaration m * min declarations 4294967295) u64_max"

record budget =
  bu_b :: u64
  bu_r :: u64
  bu_h :: u64

definition commit_ceiling :: "budget \<Rightarrow> u64" where
  "commit_ceiling bu = saturating_sub (saturating_sub (bu_b bu) (bu_r bu)) (bu_h bu)"

definition budget_fits :: "u64 \<Rightarrow> budget \<Rightarrow> bool" where
  "budget_fits bound bu \<longleftrightarrow> bound \<le> commit_ceiling bu"

definition feasible :: "u64 \<Rightarrow> budget \<Rightarrow> bool" where
  "feasible m bu \<longleftrightarrow> saturating_add (saturating_add m (bu_r bu)) (bu_h bu) \<le> bu_b bu"

definition net_reclaim_ok :: "u64 \<Rightarrow> u64 \<Rightarrow> u64 \<Rightarrow> bool" where
  "net_reclaim_ok phi_pre phi_post bar \<longleftrightarrow> phi_post \<le> phi_pre \<and> bar \<le> phi_pre - phi_post"

section \<open>Rows\<close>

datatype proposer = ProposerS | ProposerC | ProposerM | ProposerO | ProposerU | ProposerL

fun proposer_name :: "proposer \<Rightarrow> string" where
  "proposer_name ProposerS = ''S''"
| "proposer_name ProposerC = ''C''"
| "proposer_name ProposerM = ''M''"
| "proposer_name ProposerO = ''O''"
| "proposer_name ProposerU = ''U''"
| "proposer_name ProposerL = ''L''"

record precondition_facts =
  pf_parent_version :: u64
  pf_projected :: u64
  pf_budget :: budget
  pf_phi_pre :: u64
  pf_phi_post :: u64
  pf_bar :: u64
  pf_emergency :: bool

text \<open>The three implementations of the traits \<open>Precondition\<close> and \<open>Postcondition\<close>.\<close>

datatype predicate = Always | FitsBound | ReclaimsBar

fun condition_holds :: "predicate \<Rightarrow> precondition_facts \<Rightarrow> bool" where
  "condition_holds Always facts = True"
| "condition_holds FitsBound facts = budget_fits (pf_projected facts) (pf_budget facts)"
| "condition_holds ReclaimsBar facts =
     (if pf_emergency facts then pf_phi_post facts \<le> pf_phi_pre facts
      else net_reclaim_ok (pf_phi_pre facts) (pf_phi_post facts) (pf_bar facts))"

fun condition_text :: "predicate \<Rightarrow> string" where
  "condition_text Always = ''unconditional''"
| "condition_text FitsBound = ''projected occupancy fits B-R-H''"
| "condition_text ReclaimsBar = ''Phi nets at least the registered bar''"

record operation =
  op_name :: string
  op_proposer :: proposer
  op_authority :: "proposer option"
  op_precondition :: predicate
  op_postcondition :: predicate
  op_reclamation :: bool
  op_deterministic :: bool
  op_rebase_safe :: bool
  op_owner_phase :: nat
  op_bar :: u64
  op_emergency :: bool

definition facts_for_row :: "operation \<Rightarrow> u64 \<Rightarrow> budget \<Rightarrow> precondition_facts" where
  "facts_for_row row projected bu =
     \<lparr>pf_parent_version = 0, pf_projected = projected, pf_budget = bu, pf_phi_pre = 0, pf_phi_post = 0,
      pf_bar = op_bar row, pf_emergency = False\<rparr>"

abbreviation operation_row ::
  "string \<Rightarrow> proposer \<Rightarrow> proposer option \<Rightarrow> predicate \<Rightarrow> predicate \<Rightarrow> bool \<Rightarrow> bool \<Rightarrow> bool \<Rightarrow> nat \<Rightarrow> u64 \<Rightarrow> bool \<Rightarrow> operation" where
  "operation_row name p a pre post rec det reb phase bar em \<equiv>
     \<lparr>op_name = name, op_proposer = p, op_authority = a, op_precondition = pre, op_postcondition = post,
      op_reclamation = rec, op_deterministic = det, op_rebase_safe = reb, op_owner_phase = phase,
      op_bar = bar, op_emergency = em\<rparr>"

definition REGISTRY :: "operation list" where
  "REGISTRY =
     [
      operation_row ''admit-ingress'' ProposerS None FitsBound FitsBound False False False 2 0 False,
      operation_row ''admit-observation'' ProposerS None Always Always False False False 4 0 False,
      operation_row ''admit-as-handle'' ProposerS None Always Always False False False 4 0 False,
      operation_row ''admit-feedback'' ProposerS None Always Always False False False 4 0 False,
      operation_row ''pending-response-stage'' ProposerS None Always Always False False False 7 0 False,
      operation_row ''admit-response'' ProposerS None Always Always False False False 7 0 False,
      operation_row ''admit-obligation'' ProposerS None Always Always False False False 5 0 False,
      operation_row ''admit-convenience'' ProposerS None Always Always False False False 5 0 False,
      operation_row ''sanitize'' ProposerS None Always Always False False False 2 0 False,
      operation_row ''redact'' ProposerO None Always Always False False False 2 0 False,
      operation_row ''note'' ProposerM (Some ProposerC) FitsBound FitsBound False False True 6 0 False,
      operation_row ''read-back'' ProposerM None Always Always False False True 6 0 False,
      operation_row ''re-promote'' ProposerC None Always Always False False False 4 0 True,
      operation_row ''placeholder-collapse'' ProposerC None ReclaimsBar ReclaimsBar True False False 4 8 True,
      operation_row ''drop-with-handle'' ProposerC None ReclaimsBar ReclaimsBar True True False 4 8 True,
      operation_row ''fold-away-ephemeral'' ProposerC None ReclaimsBar ReclaimsBar True False False 4 8 True,
      operation_row ''condense'' ProposerC None ReclaimsBar ReclaimsBar True False False 6 8 True,
      operation_row ''fold'' ProposerC None ReclaimsBar ReclaimsBar True False False 6 8 True,
      operation_row ''compact'' ProposerC None ReclaimsBar ReclaimsBar True False False 6 8 True,
      operation_row ''regenerate'' ProposerC None ReclaimsBar ReclaimsBar True False False 6 8 True,
      operation_row ''pin-override-collapse'' ProposerC None ReclaimsBar ReclaimsBar True False False 4 8 True,
      operation_row ''demote'' ProposerL None ReclaimsBar ReclaimsBar True False False 5 8 True,
      operation_row ''discharge'' ProposerL None Always Always False False False 5 0 False,
      operation_row ''consolidate-obligations'' ProposerL None ReclaimsBar ReclaimsBar True False False 5 8 True,
      operation_row ''escalate-pending'' ProposerO None Always Always False False False 8 0 False,
      operation_row ''escalate-complete'' ProposerO None Always Always False False False 8 0 False,
      operation_row ''amend'' ProposerM None Always Always False False False 5 0 False,
      operation_row ''retract'' ProposerM None Always Always False False False 5 0 False,
      operation_row ''promote'' ProposerM None Always Always False False False 5 0 False,
      operation_row ''reclassify'' ProposerM None Always Always False False False 6 0 False,
      operation_row ''resegment'' ProposerM (Some ProposerC) Always Always False False False 6 0 False,
      operation_row ''reopen'' ProposerM None Always Always False False False 6 0 False,
      operation_row ''pin'' ProposerM None Always Always False False False 8 0 False,
      operation_row ''unpin'' ProposerM None Always Always False False False 8 0 False,
      operation_row ''expire-pin'' ProposerS None Always Always False False False 8 0 False,
      operation_row ''scope-close-by-declaration'' ProposerC None Always Always False False False 4 0 False,
      operation_row ''scope-open'' ProposerS None Always Always False False False 1 0 False,
      operation_row ''scope-close-by-event'' ProposerS None Always Always False False False 1 0 False,
      operation_row ''decay'' ProposerS None Always Always False False False 5 0 False,
      operation_row ''flush-notes'' ProposerS (Some ProposerC) Always Always False False False 4 0 False,
      operation_row ''arm'' ProposerS None Always Always False False False 4 0 False,
      operation_row ''disarm'' ProposerS None Always Always False False False 4 0 False,
      operation_row ''rule-update'' ProposerM (Some ProposerC) Always Always False False False 2 0 False,
      operation_row ''vocabulary-update'' ProposerM (Some ProposerC) Always Always False False False 2 0 False,
      operation_row ''fact-invalidate'' ProposerS None Always Always False False False 5 0 False,
      operation_row ''revalidate'' ProposerL None Always Always False False False 5 0 False,
      operation_row ''stale-demote'' ProposerS None Always Always False False False 5 0 False,
      operation_row ''repair-result'' ProposerS None Always Always False False False 7 0 False,
      operation_row ''branch-open'' ProposerM None Always Always False False False 8 0 False,
      operation_row ''branch-return'' ProposerM None Always Always False False False 8 0 False,
      operation_row ''branch-abort'' ProposerM (Some ProposerC) Always Always False False False 8 0 False,
      operation_row ''checkpoint'' ProposerS None Always Always False False False 1 0 False,
      operation_row ''lease-acquire'' ProposerS None Always Always False False False 4 0 True,
      operation_row ''render-contract-observed'' ProposerS None Always Always False False False 7 0 False,
      operation_row ''calibration-update'' ProposerS None Always Always False False False 4 0 False,
      operation_row ''margin-recalibrate'' ProposerS None Always Always False False False 4 0 False,
      operation_row ''store-mode'' ProposerS None Always Always False False False 2 0 False,
      operation_row ''queue-service'' ProposerS None Always Always False False False 4 0 False,
      operation_row ''spend-account'' ProposerS None Always Always False False False 4 0 True,
      operation_row ''journal-append'' ProposerS None Always Always False False False 4 0 True,
      operation_row ''wrap-up'' ProposerC None Always Always False False False 4 0 False,
      operation_row ''quiesce-unwritable'' ProposerS None Always Always False False False 4 0 False,
      operation_row ''index-rebuild'' ProposerS (Some ProposerO) Always Always False False False 2 0 False,
      operation_row ''import'' ProposerO None Always Always False False False 2 0 False,
      operation_row ''consolidate-head'' ProposerO None Always Always False False False 4 0 False,
      operation_row ''consolidate-notes'' ProposerC None ReclaimsBar ReclaimsBar True False False 4 8 True,
      operation_row ''place'' ProposerS None FitsBound FitsBound False True False 1 0 False,
      operation_row ''unplace'' ProposerS None Always Always False True False 1 0 False,
      operation_row ''lane-policy-update'' ProposerC None Always Always False True False 4 0 False,
      operation_row ''migration-select'' ProposerS None Always Always False True False 2 0 False]"

definition PHASES :: "(string \<times> nat) list" where
  "PHASES =
     [(''scope-open'', 1), (''scope-close-by-event'', 1), (''checkpoint'', 1), (''admit-ingress'', 2),
      (''sanitize'', 2), (''redact'', 2), (''import'', 2), (''rule-update'', 2), (''vocabulary-update'', 2),
      (''index-rebuild'', 2), (''store-mode'', 2), (''migration-select'', 2), (''lease-acquire'', 4),
      (''admit-observation'', 4), (''admit-as-handle'', 4), (''admit-feedback'', 4), (''re-promote'', 4),
      (''placeholder-collapse'', 4), (''drop-with-handle'', 4), (''fold-away-ephemeral'', 4),
      (''pin-override-collapse'', 4), (''scope-close-by-declaration'', 4), (''flush-notes'', 4),
      (''arm'', 4), (''disarm'', 4), (''queue-service'', 4), (''calibration-update'', 4),
      (''margin-recalibrate'', 4), (''wrap-up'', 4), (''quiesce-unwritable'', 4), (''consolidate-head'', 4),
      (''consolidate-notes'', 4), (''admit-obligation'', 5), (''admit-convenience'', 5), (''demote'', 5),
      (''discharge'', 5), (''consolidate-obligations'', 5), (''amend'', 5), (''retract'', 5),
      (''promote'', 5), (''fact-invalidate'', 5), (''revalidate'', 5), (''stale-demote'', 5),
      (''decay'', 5), (''note'', 6), (''read-back'', 6), (''condense'', 6), (''fold'', 6), (''compact'', 6),
      (''regenerate'', 6), (''reclassify'', 6), (''resegment'', 6), (''reopen'', 6),
      (''pending-response-stage'', 7), (''admit-response'', 7), (''render-contract-observed'', 7),
      (''repair-result'', 7), (''pin'', 8), (''unpin'', 8), (''expire-pin'', 8), (''escalate-pending'', 8),
      (''escalate-complete'', 8), (''branch-open'', 8), (''branch-return'', 8), (''branch-abort'', 8)]"

definition owner_phase :: "string \<Rightarrow> nat option" where
  "owner_phase name = map_option snd (find (\<lambda>row. fst row = name) PHASES)"

definition find_operation :: "string \<Rightarrow> operation option" where
  "find_operation name = find (\<lambda>row. op_name row = name) REGISTRY"

section \<open>Conformance\<close>

text \<open>The names are unique, every row of the source table is registered under the phase the table names, and
  the reclaiming rows are exactly those with a bar, all of them open to the emergency ladder.\<close>

lemma registry_length: "length REGISTRY = 70"
  by code_simp

lemma registry_distinct: "distinct (map op_name REGISTRY)"
  by code_simp

lemma registry_phases:
  "list_all (\<lambda>(n, p). case find_operation n of None \<Rightarrow> False | Some row \<Rightarrow> op_owner_phase row = p) PHASES"
  by code_simp

lemma registry_bars:
  "list_all (\<lambda>row. (op_reclamation row \<longleftrightarrow> 0 < op_bar row) \<and> (op_reclamation row \<longrightarrow> op_emergency row) \<and>
     (op_reclamation row \<longleftrightarrow> op_precondition row = ReclaimsBar) \<and> op_postcondition row = op_precondition row) REGISTRY"
  by code_simp

lemma find_operation_Some:
  "find_operation name = Some row \<longleftrightarrow> row \<in> set REGISTRY \<and> op_name row = name"
  unfolding find_operation_def by (rule find_eq_Some_key [OF registry_distinct])

text \<open>A fitting commit leaves the reserve and the headroom free.\<close>

lemma budget_fits_room: "budget_fits bound bu \<Longrightarrow> bu_r bu + bu_h bu \<le> bu_b bu \<Longrightarrow> bound + bu_r bu + bu_h bu \<le> bu_b bu"
  by (simp add: budget_fits_def commit_ceiling_def saturating_sub_def)

lemma net_reclaim_drop: "net_reclaim_ok pre post bar \<Longrightarrow> post + bar \<le> pre"
  by (auto simp: net_reclaim_ok_def)

end
