(* ===== verification/Queues.thy ===== *)
theory Queues
  imports Operations "HOL-Library.Multiset"
begin

text \<open>
  The classed proposal queues of \<^verbatim>\<open>src/context_policy/queue.rs\<close>: semantic deduplication, bounded
  reproposal, and service cycles with reserved shares.  The ordered sets and maps of the code are only
  asked for membership and values, so they are sets and maps here.
\<close>

section \<open>Definitions\<close>

abbreviation u32_max :: nat where
  "u32_max \<equiv> 4294967295"

datatype queue_class = SafetyClass | IngressClass | ModelClass | ControllerClass | MonitorClass

definition queue_class_all :: "queue_class list" where
  "queue_class_all = [SafetyClass, IngressClass, ModelClass, ControllerClass, MonitorClass]"

definition default_share :: "queue_class \<Rightarrow> nat" where
  "default_share c = 1"

record source_range =
  sg_start :: u64
  sg_len :: nat

text \<open>\<open>OperationClass\<close> is a validated index into the registry.\<close>

datatype operation_index = OperationIndex nat

fun index_of :: "string \<Rightarrow> nat \<Rightarrow> operation list \<Rightarrow> nat option" where
  "index_of name i [] = None"
| "index_of name i (row # rows) = (if op_name row = name then Some i else index_of name (Suc i) rows)"

definition index_from_name :: "string \<Rightarrow> operation_index option" where
  "index_from_name name =
     (case index_of name 0 REGISTRY of
        None \<Rightarrow> None
      | Some i \<Rightarrow> if i < 256 then Some (OperationIndex i) else None)"

fun index_name :: "operation_index \<Rightarrow> string" where
  "index_name (OperationIndex i) = op_name (REGISTRY ! i)"

record semantic_key =
  sk_operation :: operation_index
  sk_ranges :: "source_range list"
  sk_source_version :: u64

record proposal =
  pr_service_class :: queue_class
  pr_key :: semantic_key
  pr_priority :: nat
  pr_tokens :: u64

definition proposal_new :: "queue_class \<Rightarrow> semantic_key \<Rightarrow> u64 \<Rightarrow> proposal" where
  "proposal_new c k tokens = \<lparr>pr_service_class = c, pr_key = k, pr_priority = 0, pr_tokens = tokens\<rparr>"

record queue_config =
  qc_cycle_slots :: nat
  qc_max_retries :: nat
  qc_shares :: "queue_class \<Rightarrow> nat option"

definition default_queue_config :: queue_config where
  "default_queue_config =
     \<lparr>qc_cycle_slots = 5, qc_max_retries = 4, qc_shares = (\<lambda>c. Some (default_share c))\<rparr>"

definition find_admissible :: "nat \<Rightarrow> (operation \<Rightarrow> bool) \<Rightarrow> operation option" where
  "find_admissible b admissible = find admissible (take b REGISTRY)"

record classed_queues =
  cq_config :: queue_config
  cq_queues :: "queue_class \<Rightarrow> proposal list"
  cq_pending :: "semantic_key set"
  cq_retries :: "semantic_key \<Rightarrow> nat option"
  cq_served :: "semantic_key \<Rightarrow> nat option"

text \<open>\<open>queues_new\<close> is \<^const>\<open>None\<close> where the constructor panics.  A share that is missing from the
  configuration makes it panic, so \<open>class_share\<close> never meets one in a constructed queue.\<close>

definition class_share :: "queue_config \<Rightarrow> queue_class \<Rightarrow> nat" where
  "class_share cfg c = (case qc_shares cfg c of Some n \<Rightarrow> n | None \<Rightarrow> 0)"

definition queues_new :: "queue_config \<Rightarrow> classed_queues option" where
  "queues_new cfg =
     (if (\<exists>c \<in> set queue_class_all. qc_shares cfg c = None) \<or>
         qc_cycle_slots cfg < sum64 (map (class_share cfg) queue_class_all)
      then None
      else Some \<lparr>cq_config = cfg, cq_queues = (\<lambda>c. []), cq_pending = {}, cq_retries = Map.empty,
                 cq_served = Map.empty\<rparr>)"

definition push_back :: "classed_queues \<Rightarrow> proposal \<Rightarrow> classed_queues" where
  "push_back q p =
     q\<lparr>cq_pending := insert (pr_key p) (cq_pending q),
       cq_queues := (cq_queues q)(pr_service_class p := cq_queues q (pr_service_class p) @ [p])\<rparr>"

definition queue_submit :: "classed_queues \<Rightarrow> proposal \<Rightarrow> classed_queues \<times> bool" where
  "queue_submit q p =
     (if cq_retries q (pr_key p) \<noteq> None then (q, False)
      else (push_back (q\<lparr>cq_retries := (cq_retries q)(pr_key p \<mapsto> 0)\<rparr>) p, True))"

definition queue_repropose :: "classed_queues \<Rightarrow> proposal \<Rightarrow> classed_queues \<times> bool" where
  "queue_repropose q p =
     (if pr_key p \<in> cq_pending q then (q, False)
      else case cq_retries q (pr_key p) of
             None \<Rightarrow> (q, False)
           | Some n \<Rightarrow>
               if qc_max_retries (cq_config q) \<le> n then (q, False)
               else (push_back (q\<lparr>cq_retries := (cq_retries q)(pr_key p \<mapsto> min (n + 1) u32_max)\<rparr>) p, True))"

definition pop_front :: "classed_queues \<Rightarrow> queue_class \<Rightarrow> proposal \<Rightarrow> proposal list \<Rightarrow> classed_queues" where
  "pop_front q c p ps =
     q\<lparr>cq_queues := (cq_queues q)(c := ps), cq_pending := cq_pending q - {pr_key p},
       cq_served := (cq_served q)(pr_key p \<mapsto>
         min ((case cq_served q (pr_key p) of Some n \<Rightarrow> n | None \<Rightarrow> 0) + 1) u32_max)\<rparr>"

text \<open>The three loops of \<open>service_cycle\<close>: over the slots of a class, over the classes of a pass, and over
  the two passes; the outer two stop as soon as the cycle is full.\<close>

fun serve_class :: "nat \<Rightarrow> queue_class \<Rightarrow> classed_queues \<Rightarrow> proposal list \<Rightarrow> classed_queues \<times> proposal list" where
  "serve_class 0 c q out = (q, out)"
| "serve_class (Suc n) c q out =
     (case cq_queues q c of
        [] \<Rightarrow> (q, out)
      | p # ps \<Rightarrow> serve_class n c (pop_front q c p ps) (out @ [p]))"

definition class_limit :: "bool \<Rightarrow> queue_class \<Rightarrow> classed_queues \<Rightarrow> proposal list \<Rightarrow> nat" where
  "class_limit reserved c q out =
     (let remaining = saturating_sub (qc_cycle_slots (cq_config q)) (length out)
      in if reserved then min (class_share (cq_config q) c) remaining else remaining)"

fun serve_pass ::
  "bool \<Rightarrow> queue_class list \<Rightarrow> classed_queues \<Rightarrow> proposal list \<Rightarrow> classed_queues \<times> proposal list" where
  "serve_pass reserved [] q out = (q, out)"
| "serve_pass reserved (c # cs) q out =
     (case serve_class (class_limit reserved c q out) c q out of
        (q', out') \<Rightarrow>
          if length out' = qc_cycle_slots (cq_config q') then (q', out') else serve_pass reserved cs q' out')"

definition service_cycle :: "classed_queues \<Rightarrow> classed_queues \<times> proposal list" where
  "service_cycle q =
     (case serve_pass True queue_class_all q [] of
        (q', out) \<Rightarrow>
          if length out = qc_cycle_slots (cq_config q') then (q', out)
          else serve_pass False queue_class_all q' out)"

definition retries_for :: "classed_queues \<Rightarrow> semantic_key \<Rightarrow> nat" where
  "retries_for q k = (case cq_retries q k of Some n \<Rightarrow> n | None \<Rightarrow> 0)"

definition served_for :: "classed_queues \<Rightarrow> semantic_key \<Rightarrow> nat" where
  "served_for q k = (case cq_served q k of Some n \<Rightarrow> n | None \<Rightarrow> 0)"

section \<open>Runs\<close>

datatype queue_command = Submit proposal | Repropose proposal | Service

fun queue_step :: "classed_queues \<Rightarrow> queue_command \<Rightarrow> classed_queues \<times> proposal list" where
  "queue_step q (Submit p) = (fst (queue_submit q p), [])"
| "queue_step q (Repropose p) = (fst (queue_repropose q p), [])"
| "queue_step q Service = service_cycle q"

fun queue_run :: "classed_queues \<Rightarrow> queue_command list \<Rightarrow> classed_queues \<times> proposal list" where
  "queue_run q [] = (q, [])"
| "queue_run q (c # cs) =
     (let (q', out) = queue_step q c; (q'', outs) = queue_run q' cs in (q'', out @ outs))"

section \<open>The invariant\<close>

text \<open>\<open>all_queued\<close> lists the queued proposals class by class.  Every queued proposal stands in its own
  class, no key is queued twice, the pending keys are the queued ones, and the service count of a key
  together with its pending occurrence is one more than its retries.\<close>

definition all_queued :: "classed_queues \<Rightarrow> proposal list" where
  "all_queued q = concat (map (cq_queues q) queue_class_all)"

definition accounted :: "classed_queues \<Rightarrow> semantic_key \<Rightarrow> bool" where
  "accounted q k \<longleftrightarrow>
     (case cq_retries q k of
        None \<Rightarrow> k \<notin> cq_pending q \<and> cq_served q k = None
      | Some n \<Rightarrow> n \<le> qc_max_retries (cq_config q) \<and> served_for q k + (if k \<in> cq_pending q then 1 else 0) = n + 1)"

definition queues_ok :: "classed_queues \<Rightarrow> bool" where
  "queues_ok q \<longleftrightarrow>
     (\<forall>c. \<forall>p \<in> set (cq_queues q c). pr_service_class p = c) \<and>
     distinct (map pr_key (all_queued q)) \<and> cq_pending q = pr_key ` set (all_queued q) \<and>
     (\<forall>k. accounted q k) \<and> qc_max_retries (cq_config q) < u32_max"

lemma set_queue_class_all [simp]: "set queue_class_all = UNIV"
  using queue_class.exhaust by (auto simp: queue_class_all_def)

lemma set_all_queued: "set (all_queued q) = (\<Union>c. set (cq_queues q c))"
  by (simp add: all_queued_def)

lemma queues_ok_new: "queues_new cfg = Some q \<Longrightarrow> qc_max_retries cfg < u32_max \<Longrightarrow> queues_ok q"
  by (auto simp: queues_new_def queues_ok_def all_queued_def queue_class_all_def accounted_def served_for_def
    split: if_splits)

text \<open>Adding or removing one proposal of a class changes the multiset of queued proposals by it.\<close>

lemma mset_all_queued: "mset (all_queued q) = (\<Sum>c \<in> UNIV. mset (cq_queues q c))"
proof -
  have univ: "UNIV = {SafetyClass, IngressClass, ModelClass, ControllerClass, MonitorClass}"
    using queue_class.exhaust by auto
  show ?thesis by (simp add: all_queued_def queue_class_all_def univ)
qed

lemma mset_update:
  fixes f :: "queue_class \<Rightarrow> 'a list"
  shows "(\<Sum>c \<in> UNIV. mset ((f(d := xs)) c)) + mset (f d) = (\<Sum>c \<in> UNIV. mset (f c)) + mset xs"
proof -
  have fin: "finite (UNIV :: queue_class set)" by (metis finite_set set_queue_class_all)
  have eq: "(\<Sum>c \<in> UNIV - {d}. mset ((f(d := xs)) c)) = (\<Sum>c \<in> UNIV - {d}. mset (f c))"
    by (rule sum.cong) auto
  show ?thesis
    using sum.remove [OF fin, of d "\<lambda>c. mset ((f(d := xs)) c)"] sum.remove [OF fin, of d "\<lambda>c. mset (f c)"]
    by (simp add: eq add.commute add.left_commute)
qed

lemma push_back_queued: "mset (all_queued (push_back q p)) = add_mset p (mset (all_queued q))"
  using mset_update [of "cq_queues q" "pr_service_class p" "cq_queues q (pr_service_class p) @ [p]"]
  unfolding mset_all_queued by (simp add: push_back_def)

lemma pop_front_queued:
  "cq_queues q c = p # ps \<Longrightarrow> add_mset p (mset (all_queued (pop_front q c p ps))) = mset (all_queued q)"
  using mset_update [of "cq_queues q" c ps] unfolding mset_all_queued by (simp add: pop_front_def)

lemma queued_same:
  assumes "mset (all_queued q) = mset ps"
  shows "distinct (map pr_key (all_queued q)) \<longleftrightarrow> distinct (map pr_key ps)" and "set (all_queued q) = set ps"
proof -
  from assms have "mset (map pr_key (all_queued q)) = mset (map pr_key ps)" by simp
  then show "distinct (map pr_key (all_queued q)) \<longleftrightarrow> distinct (map pr_key ps)"
    by (rule mset_eq_imp_distinct_iff)
  show "set (all_queued q) = set ps" using assms by (rule mset_eq_setD)
qed

lemma queues_okD:
  assumes "queues_ok q"
  shows "\<And>c p. p \<in> set (cq_queues q c) \<Longrightarrow> pr_service_class p = c" and "distinct (map pr_key (all_queued q))"
    and "cq_pending q = pr_key ` set (all_queued q)" and "\<And>k. accounted q k"
    and "qc_max_retries (cq_config q) < u32_max"
  using assms by (simp_all add: queues_ok_def)

lemma push_back_simps [simp]:
  "cq_config (push_back q p) = cq_config q" "cq_retries (push_back q p) = cq_retries q"
  "cq_served (push_back q p) = cq_served q" "cq_pending (push_back q p) = insert (pr_key p) (cq_pending q)"
  by (simp_all add: push_back_def)

lemma pop_front_simps [simp]:
  "cq_config (pop_front q c p ps) = cq_config q" "cq_retries (pop_front q c p ps) = cq_retries q"
  "cq_pending (pop_front q c p ps) = cq_pending q - {pr_key p}"
  "cq_queues (pop_front q c p ps) = (cq_queues q)(c := ps)"
  by (simp_all add: pop_front_def)

text \<open>A key may be queued when it is not pending and its retries, one more than before, are within bounds.\<close>

lemma push_back_ok:
  assumes ok: "queues_ok q" and new: "pr_key p \<notin> cq_pending q"
    and "n \<le> qc_max_retries (cq_config q)" and "served_for q (pr_key p) = n"
  shows "queues_ok (push_back (q\<lparr>cq_retries := (cq_retries q)(pr_key p \<mapsto> n)\<rparr>) p)"
proof -
  let ?q = "q\<lparr>cq_retries := (cq_retries q)(pr_key p \<mapsto> n)\<rparr>"
  let ?r = "push_back ?q p"
  have "all_queued ?q = all_queued q" by (simp add: all_queued_def)
  then have m: "mset (all_queued ?r) = mset (p # all_queued q)" by (simp add: push_back_queued)
  have "distinct (map pr_key (all_queued ?r))"
    unfolding queued_same(1) [OF m] using queues_okD(2,3) [OF ok] new by simp
  moreover have "cq_pending ?r = pr_key ` set (all_queued ?r)"
    unfolding queued_same(2) [OF m] using queues_okD(3) [OF ok] by simp
  moreover have "accounted ?r k" for k
    using queues_okD(4) [OF ok, of k] assms(3,4) by (auto simp: accounted_def served_for_def split: option.splits)
  moreover have "pr_service_class x = c" if "x \<in> set (cq_queues ?r c)" for x c
    using that queues_okD(1) [OF ok] by (auto simp: push_back_def split: if_splits)
  ultimately show ?thesis using queues_okD(5) [OF ok] by (simp add: queues_ok_def)
qed

lemma submit_ok: "queues_ok q \<Longrightarrow> queues_ok (fst (queue_submit q p))"
proof -
  assume ok: "queues_ok q"
  have "cq_retries q (pr_key p) = None \<Longrightarrow> pr_key p \<notin> cq_pending q \<and> served_for q (pr_key p) = 0"
    using queues_okD(4) [OF ok, of "pr_key p"] by (simp add: accounted_def served_for_def)
  with push_back_ok [OF ok, of p 0] ok show ?thesis by (simp add: queue_submit_def)
qed

lemma repropose_ok: "queues_ok q \<Longrightarrow> queues_ok (fst (queue_repropose q p))"
proof -
  assume ok: "queues_ok q"
  show ?thesis
  proof (cases "pr_key p \<in> cq_pending q \<or> cq_retries q (pr_key p) = None \<or>
      qc_max_retries (cq_config q) \<le> retries_for q (pr_key p)")
    case True
    with ok show ?thesis by (auto simp: queue_repropose_def retries_for_def split: option.splits)
  next
    case False
    then obtain n where n: "cq_retries q (pr_key p) = Some n" "pr_key p \<notin> cq_pending q"
      "n < qc_max_retries (cq_config q)" by (auto simp: retries_for_def)
    with queues_okD(4) [OF ok, of "pr_key p"] have "served_for q (pr_key p) = n + 1" by (simp add: accounted_def)
    moreover have "min (n + 1) u32_max = n + 1" using n(3) queues_okD(5) [OF ok] by simp
    ultimately show ?thesis
      using push_back_ok [OF ok n(2), of "n + 1"] n by (simp add: queue_repropose_def)
  qed
qed

lemma pop_front_ok:
  assumes ok: "queues_ok q" and front: "cq_queues q c = p # ps"
  shows "queues_ok (pop_front q c p ps)"
proof -
  let ?r = "pop_front q c p ps"
  have m: "mset (all_queued q) = mset (p # all_queued ?r)" using pop_front_queued [OF front] by simp
  have dist: "distinct (map pr_key (p # all_queued ?r))" using queues_okD(2) [OF ok] queued_same(1) [OF m] by simp
  have set: "set (all_queued q) = insert p (set (all_queued ?r))" using queued_same(2) [OF m] by simp
  have pend: "cq_pending ?r = pr_key ` set (all_queued ?r)"
    using queues_okD(3) [OF ok] dist by (auto simp: set)
  have "pr_key p \<in> cq_pending q" using queues_okD(3) [OF ok] by (simp add: set)
  with queues_okD(4) [OF ok, of "pr_key p"] obtain n where n: "cq_retries q (pr_key p) = Some n"
    "n \<le> qc_max_retries (cq_config q)" "served_for q (pr_key p) = n"
    by (auto simp: accounted_def split: option.splits)
  have "accounted ?r k" for k
  proof (cases "k = pr_key p")
    case True
    with n queues_okD(5) [OF ok] show ?thesis by (simp add: accounted_def served_for_def pop_front_def)
  next
    case False
    with queues_okD(4) [OF ok, of k] show ?thesis
      by (auto simp: accounted_def served_for_def pop_front_def split: option.splits if_splits)
  qed
  moreover have "pr_service_class x = d" if "x \<in> set (cq_queues ?r d)" for x d
    using that queues_okD(1) [OF ok, of x d] front by (auto split: if_splits)
  ultimately show ?thesis
    using dist pend queues_okD(5) [OF ok] by (simp add: queues_ok_def)
qed

section \<open>A service cycle\<close>

text \<open>\<open>served_from q q' new\<close>: from state \<open>q\<close> to \<open>q'\<close> the proposals \<open>new\<close> were taken, from the front of their
  queues.\<close>

definition served_from :: "classed_queues \<Rightarrow> classed_queues \<Rightarrow> proposal list \<Rightarrow> bool" where
  "served_from q q' new \<longleftrightarrow>
     cq_config q' = cq_config q \<and> queues_ok q' \<and>
     (\<forall>k. served_for q' k = served_for q k + count_list (map pr_key new) k) \<and>
     (\<forall>c. filter (\<lambda>p. pr_service_class p = c) new @ cq_queues q' c = cq_queues q c)"

lemma served_from_refl: "queues_ok q \<Longrightarrow> served_from q q []"
  by (simp add: served_from_def)

lemma served_from_trans:
  "served_from q q' new \<Longrightarrow> served_from q' q'' new' \<Longrightarrow> served_from q q'' (new @ new')"
  unfolding served_from_def by (simp add: count_list_append)

text \<open>The saturation of the service counter is never reached.\<close>

lemma pop_front_served:
  assumes ok: "queues_ok q" and front: "cq_queues q c = p # ps"
  shows "served_for (pop_front q c p ps) k = served_for q k + count_list (map pr_key [p]) k"
proof -
  have "p \<in> set (all_queued q)" using front by (auto simp: set_all_queued intro!: exI [of _ c])
  then have "pr_key p \<in> cq_pending q" "accounted q (pr_key p)" using ok by (auto simp: queues_ok_def)
  then have "served_for q (pr_key p) \<le> qc_max_retries (cq_config q)"
    by (auto simp: accounted_def split: option.splits)
  moreover have "qc_max_retries (cq_config q) < u32_max" using ok by (simp add: queues_ok_def)
  ultimately have "served_for q (pr_key p) + 1 \<le> u32_max" by linarith
  then show ?thesis
    by (auto simp: pop_front_def served_for_def min_def split: option.splits)
qed

lemma serve_class_spec:
  assumes "queues_ok q"
  shows "\<exists>q'. serve_class n c q out = (q', out @ take n (cq_queues q c)) \<and>
    served_from q q' (take n (cq_queues q c)) \<and> cq_queues q' = (cq_queues q)(c := drop n (cq_queues q c))"
  using assms
proof (induction n arbitrary: q out)
  case (Suc n)
  show ?case
  proof (cases "cq_queues q c")
    case Nil
    then have "cq_queues q = (cq_queues q)(c := [])" by auto
    with Nil served_from_refl [OF Suc.prems] show ?thesis by simp
  next
    case (Cons p ps)
    let ?q = "pop_front q c p ps"
    have ok: "queues_ok ?q" by (rule pop_front_ok [OF Suc.prems Cons])
    have "pr_service_class p = c" using queues_okD(1) [OF Suc.prems, of p c] Cons by simp
    then have "served_from q ?q [p]"
      using ok Cons pop_front_served [OF Suc.prems Cons] by (auto simp: served_from_def)
    moreover from Suc.IH [OF ok, of "out @ [p]"] obtain q' where
      "serve_class n c ?q (out @ [p]) = (q', (out @ [p]) @ take n ps)" "served_from ?q q' (take n ps)"
      "cq_queues q' = (cq_queues q)(c := drop n ps)" by (auto simp: fun_eq_iff)
    ultimately show ?thesis using Cons served_from_trans [of q ?q "[p]" q' "take n ps"] by auto
  qed
qed (simp add: served_from_refl)

lemma class_limit_room: "length out \<le> qc_cycle_slots (cq_config q) \<Longrightarrow>
    class_limit reserved c q out \<le> qc_cycle_slots (cq_config q) - length out"
  by (simp add: class_limit_def Let_def saturating_sub_def)

lemma serve_pass_spec:
  assumes "queues_ok q" and "length out \<le> qc_cycle_slots (cq_config q)"
  obtains q' new where "serve_pass reserved cs q out = (q', out @ new)" and "served_from q q' new"
    and "length out + length new \<le> qc_cycle_slots (cq_config q)"
proof -
  have "\<exists>q' new. serve_pass reserved cs q out = (q', out @ new) \<and> served_from q q' new \<and>
    length out + length new \<le> qc_cycle_slots (cq_config q)"
    using assms
  proof (induction cs arbitrary: q out)
    case Nil
    then show ?case using served_from_refl by simp
  next
    case (Cons c cs)
    let ?n = "class_limit reserved c q out" and ?slots = "qc_cycle_slots (cq_config q)"
    let ?t = "take ?n (cq_queues q c)"
    from serve_class_spec [OF Cons.prems(1), of ?n c out] obtain q1 where
      q1: "serve_class ?n c q out = (q1, out @ ?t)" and sf: "served_from q q1 ?t" by blast
    from sf have ok1: "queues_ok q1" and cfg: "cq_config q1 = cq_config q" by (simp_all add: served_from_def)
    have len: "length (out @ ?t) \<le> ?slots"
      using class_limit_room [OF Cons.prems(2), of reserved c] Cons.prems(2) by simp
    show ?case
    proof (cases "length (out @ ?t) = ?slots")
      case True
      with q1 sf len cfg show ?thesis by auto
    next
      case False
      from Cons.IH [OF ok1, of "out @ ?t"] len cfg obtain q' new where
        "serve_pass reserved cs q1 (out @ ?t) = (q', (out @ ?t) @ new)" and sf': "served_from q1 q' new"
        and "length (out @ ?t) + length new \<le> ?slots" by auto
      with False q1 cfg have "serve_pass reserved (c # cs) q out = (q', out @ (?t @ new))"
        and "length out + length (?t @ new) \<le> ?slots" by simp_all
      with served_from_trans [OF sf sf'] show ?thesis by blast
    qed
  qed
  with that show thesis by blast
qed

text \<open>The reserved pass gives every class its share, because the shares together fit the cycle.\<close>

lemma serve_class_count:
  assumes "queues_ok q"
  shows "filter (\<lambda>p. pr_service_class p = d) (take n (cq_queues q c)) = (if d = c then take n (cq_queues q c) else [])"
  using queues_okD(1) [OF assms, of _ c] by (auto intro!: filter_True filter_False dest: in_set_takeD)

lemma serve_pass_shares:
  assumes "queues_ok q" and "distinct cs"
    and "length out + sum_list (map (class_share (cq_config q)) cs) \<le> qc_cycle_slots (cq_config q)"
    and "serve_pass True cs q out = (q', out @ new)" and "d \<in> set cs"
  shows "min (class_share (cq_config q) d) (length (cq_queues q d)) \<le>
    length (filter (\<lambda>p. pr_service_class p = d) new)"
  using assms
proof (induction cs arbitrary: q out new q')
  case (Cons c cs)
  let ?n = "class_limit True c q out" and ?slots = "qc_cycle_slots (cq_config q)"
  let ?t = "take ?n (cq_queues q c)"
  have n: "?n = class_share (cq_config q) c"
    using Cons.prems(3) by (simp add: class_limit_def Let_def saturating_sub_def)
  from serve_class_spec [OF Cons.prems(1), of ?n c out] obtain q1 where
    q1: "serve_class ?n c q out = (q1, out @ ?t)" and sf: "served_from q q1 ?t"
    and qs: "cq_queues q1 = (cq_queues q)(c := drop ?n (cq_queues q c))" by blast
  from sf have ok1: "queues_ok q1" and cfg: "cq_config q1 = cq_config q" by (simp_all add: served_from_def)
  have t: "filter (\<lambda>p. pr_service_class p = d) ?t = (if d = c then ?t else [])"
    by (rule serve_class_count [OF Cons.prems(1)])
  show ?case
  proof (cases "length (out @ ?t) = ?slots")
    case True
    with Cons.prems(4) q1 cfg have new: "new = ?t" by simp
    show ?thesis
    proof (cases "d = c")
      case False
      from True Cons.prems(3) have "sum_list (map (class_share (cq_config q)) cs) = 0" using n
        by (simp add: min_def del: sum_list_eq_0_iff split: if_splits)
      with False Cons.prems(5) have "class_share (cq_config q) d = 0" by (auto simp: sum_list_eq_0_iff)
      then show ?thesis by simp
    next
      case eq: True
      from t have "filter (\<lambda>p. pr_service_class p = d) new = ?t" by (simp add: new eq)
      with n eq show ?thesis by simp
    qed
  next
    case False
    have room: "length (out @ ?t) \<le> qc_cycle_slots (cq_config q1)" using Cons.prems(3) n cfg by simp
    obtain q2 new2 where rest: "serve_pass True cs q1 (out @ ?t) = (q2, (out @ ?t) @ new2)"
      using serve_pass_spec [OF ok1 room, of True cs] by blast
    with Cons.prems(4) q1 cfg False have new: "new = ?t @ new2" by simp
    show ?thesis
    proof (cases "d = c")
      case True
      with t have "filter (\<lambda>p. pr_service_class p = d) new = ?t @ filter (\<lambda>p. pr_service_class p = d) new2"
        by (simp add: new)
      with n True show ?thesis by simp
    next
      case d: False
      with Cons.prems(5) have "d \<in> set cs" by simp
      moreover have "length (out @ ?t) + sum_list (map (class_share (cq_config q1)) cs) \<le> qc_cycle_slots (cq_config q1)"
      proof -
        have "length ?t \<le> class_share (cq_config q) c" using n by simp
        with Cons.prems(3) cfg show ?thesis by simp
      qed
      ultimately have "min (class_share (cq_config q1) d) (length (cq_queues q1 d)) \<le>
          length (filter (\<lambda>p. pr_service_class p = d) new2)"
        using Cons.IH [OF ok1 _ _ rest] Cons.prems(2) by simp
      with d qs cfg show ?thesis by (simp add: new)
    qed
  qed
qed simp

text \<open>The filling pass leaves a slot free only when nothing is left.\<close>

lemma serve_pass_fills:
  assumes "queues_ok q" and "length out \<le> qc_cycle_slots (cq_config q)"
    and "serve_pass False cs q out = (q', out')"
  shows "length out' = qc_cycle_slots (cq_config q) \<or> (\<forall>c \<in> set cs. cq_queues q' c = [])"
  using assms
proof (induction cs arbitrary: q out)
  case (Cons c cs)
  let ?n = "class_limit False c q out" and ?slots = "qc_cycle_slots (cq_config q)"
  let ?t = "take ?n (cq_queues q c)"
  have n: "?n = ?slots - length out" by (simp add: class_limit_def Let_def saturating_sub_def)
  from serve_class_spec [OF Cons.prems(1), of ?n c out] obtain q1 where
    q1: "serve_class ?n c q out = (q1, out @ ?t)" and sf: "served_from q q1 ?t"
    and qs: "cq_queues q1 = (cq_queues q)(c := drop ?n (cq_queues q c))" by blast
  from sf have ok1: "queues_ok q1" and cfg: "cq_config q1 = cq_config q" by (simp_all add: served_from_def)
  have len: "length (out @ ?t) \<le> ?slots" using Cons.prems(2) n by simp
  show ?case
  proof (cases "length (out @ ?t) = ?slots")
    case True
    with Cons.prems(3) q1 cfg show ?thesis by auto
  next
    case False
    then have "length (cq_queues q c) \<le> ?n" using n Cons.prems(2) by (simp add: min_def split: if_splits)
    then have empty: "cq_queues q1 c = []" by (simp add: qs)
    from Cons.prems(3) q1 cfg False have rest: "serve_pass False cs q1 (out @ ?t) = (q', out')" by simp
    obtain new where "served_from q1 q' new"
      using serve_pass_spec [OF ok1, of "out @ ?t" False cs] len cfg rest by auto
    then have "filter (\<lambda>p. pr_service_class p = c) new @ cq_queues q' c = cq_queues q1 c"
      by (simp add: served_from_def)
    with empty have "cq_queues q' c = []" by simp
    with Cons.IH [OF ok1 _ rest] len cfg show ?thesis by auto
  qed
qed simp

text \<open>\<open>shares_fit\<close> is what the constructor checks, up to the wrap-around of its sum.\<close>

definition shares_fit :: "queue_config \<Rightarrow> bool" where
  "shares_fit cfg \<longleftrightarrow> sum_list (map (class_share cfg) queue_class_all) \<le> qc_cycle_slots cfg"

lemma length_served:
  "(\<forall>c. filter (\<lambda>p. pr_service_class p = c) new @ cq_queues q' c = cq_queues q c) \<Longrightarrow>
     length new + length (all_queued q') = length (all_queued q)"
proof -
  assume a: "\<forall>c. filter (\<lambda>p. pr_service_class p = c) new @ cq_queues q' c = cq_queues q c"
  have "length (cq_queues q c) = length (filter (\<lambda>p. pr_service_class p = c) new) + length (cq_queues q' c)" for c
    using a by (metis length_append)
  moreover have "length new = sum_list (map (\<lambda>c. length (filter (\<lambda>p. pr_service_class p = c) new)) queue_class_all)"
  proof (induction new)
    case (Cons p new)
    show ?case using Cons by (cases "pr_service_class p") (simp_all add: queue_class_all_def)
  qed (simp add: queue_class_all_def)
  ultimately show ?thesis by (simp add: all_queued_def queue_class_all_def)
qed

lemma service_cycle_spec:
  assumes ok: "queues_ok q"
  obtains q' out where "service_cycle q = (q', out)" and "served_from q q' out"
    and "length out = min (qc_cycle_slots (cq_config q)) (length (all_queued q))"
    and "\<And>c. shares_fit (cq_config q) \<Longrightarrow>
      min (class_share (cq_config q) c) (length (cq_queues q c)) \<le> length (filter (\<lambda>p. pr_service_class p = c) out)"
proof -
  let ?slots = "qc_cycle_slots (cq_config q)"
  obtain q1 r where r: "serve_pass True queue_class_all q [] = (q1, r)" "served_from q q1 r" "length r \<le> ?slots"
    using serve_pass_spec [OF ok, of "[]" True queue_class_all] by auto
  then have ok1: "queues_ok q1" and cfg: "cq_config q1 = cq_config q" by (simp_all add: served_from_def)
  have share: "min (class_share (cq_config q) c) (length (cq_queues q c)) \<le> length (filter (\<lambda>p. pr_service_class p = c) r)"
    if "shares_fit (cq_config q)" for c
    using serve_pass_shares [OF ok, of queue_class_all "[]" q1 r c] r that
    by (simp add: shares_fit_def) (simp add: queue_class_all_def)
  show thesis
  proof (cases "length r = ?slots")
    case True
    have "length r + length (all_queued q1) = length (all_queued q)"
      using r(2) by (intro length_served) (simp add: served_from_def)
    with True r cfg share show ?thesis by (intro that [of q1 r]) (simp_all add: service_cycle_def)
  next
    case False
    obtain q2 new where p2: "serve_pass False queue_class_all q1 r = (q2, r @ new)" "served_from q1 q2 new"
      "length r + length new \<le> ?slots"
      using serve_pass_spec [OF ok1, of r False queue_class_all] r(3) cfg by auto
    have sf: "served_from q q2 (r @ new)" by (rule served_from_trans [OF r(2) p2(2)])
    have "length (r @ new) + length (all_queued q2) = length (all_queued q)"
      using sf by (intro length_served) (simp add: served_from_def)
    moreover have "length (r @ new) = ?slots \<or> all_queued q2 = []"
      using serve_pass_fills [OF ok1 _ p2(1)] r(3) cfg by (auto simp: all_queued_def)
    ultimately have "length (r @ new) = min ?slots (length (all_queued q))" using p2(3) by auto
    moreover have "service_cycle q = (q2, r @ new)" using False r p2 cfg by (simp add: service_cycle_def)
    moreover have "shares_fit (cq_config q) \<Longrightarrow>
        min (class_share (cq_config q) c) (length (cq_queues q c)) \<le> length (filter (\<lambda>p. pr_service_class p = c) (r @ new))" for c
      using share [of c] by simp
    ultimately show ?thesis using sf by (intro that)
  qed
qed

section \<open>Runs keep the invariant and serve everyone\<close>

lemma queue_step_ok: "queues_ok q \<Longrightarrow> queue_step q c = (q', out) \<Longrightarrow> queues_ok q'"
proof (cases c)
  case Service
  assume "queues_ok q" and "queue_step q c = (q', out)"
  then show ?thesis using Service by (auto simp: served_from_def elim: service_cycle_spec)
qed (auto dest: submit_ok repropose_ok)

lemma queue_step_config: "queues_ok q \<Longrightarrow> queue_step q c = (q', out) \<Longrightarrow> cq_config q' = cq_config q"
proof (cases c)
  case Service
  assume "queues_ok q" and "queue_step q c = (q', out)"
  then show ?thesis using Service by (auto simp: served_from_def elim: service_cycle_spec)
qed (auto simp: queue_submit_def queue_repropose_def split: option.splits if_splits)

lemma queue_run_ok:
  "queues_ok q \<Longrightarrow> queue_run q cs = (q', outs) \<Longrightarrow> queues_ok q' \<and> cq_config q' = cq_config q"
proof (induction cs arbitrary: q outs)
  case (Cons c cs)
  obtain q1 out where step: "queue_step q c = (q1, out)" by (cases "queue_step q c")
  obtain outs1 where "queue_run q1 cs = (q', outs1)" using Cons.prems(2) step by (auto split: prod.splits)
  from Cons.IH [OF queue_step_ok [OF Cons.prems(1) step] this] queue_step_config [OF Cons.prems(1) step]
  show ?case by simp
qed simp

text \<open>A waiting proposal moves forward by at least its class's share in every cycle, and arrivals do not
  overtake it.\<close>

lemma queue_step_waiting:
  assumes ok: "queues_ok q" and fit: "shares_fit (cq_config q)" and share: "0 < class_share (cq_config q) c"
    and i: "i < length (cq_queues q c)" "cq_queues q c ! i = p" and step: "queue_step q cmd = (q', out)"
  shows "p \<in> set out \<or>
    (\<exists>j < length (cq_queues q' c). cq_queues q' c ! j = p \<and> j + (if cmd = Service then 1 else 0) \<le> i)"
proof (cases "cmd = Service")
  case True
  with step have cyc: "service_cycle q = (q', out)" by simp
  obtain sf: "served_from q q' out" and sh: "min (class_share (cq_config q) c) (length (cq_queues q c)) \<le>
      length (filter (\<lambda>p. pr_service_class p = c) out)"
    using service_cycle_spec [OF ok] cyc fit by (metis (no_types, lifting) prod.inject)
  let ?f = "filter (\<lambda>p. pr_service_class p = c) out"
  have q: "cq_queues q c = ?f @ cq_queues q' c" using sf by (simp add: served_from_def)
  have f: "1 \<le> length ?f" using sh share i(1) by linarith
  show ?thesis
  proof (cases "i < length ?f")
    case True
    with i(2) q have "p \<in> set ?f" by (metis nth_append nth_mem)
    then show ?thesis by simp
  next
    case False
    with i q f \<open>cmd = Service\<close> show ?thesis
      by (intro disjI2 exI [of _ "i - length ?f"]) (auto simp: nth_append)
  qed
next
  case False
  have "\<exists>ys. cq_queues q' c = cq_queues q c @ ys"
    using False step by (cases cmd)
      (auto simp: queue_submit_def queue_repropose_def push_back_def split: option.splits if_splits)
  with False i show ?thesis by (intro disjI2 exI [of _ i]) (auto simp: nth_append)
qed

lemma queue_run_waiting:
  assumes "queues_ok q" and "shares_fit (cq_config q)" and "0 < class_share (cq_config q) c"
    and "i < length (cq_queues q c)" and "cq_queues q c ! i = p"
    and "i < length (filter (\<lambda>cmd. cmd = Service) cmds)" and "queue_run q cmds = (q', outs)"
  shows "p \<in> set outs"
  using assms
proof (induction cmds arbitrary: q i outs)
  case (Cons cmd cmds)
  obtain q1 out where step: "queue_step q cmd = (q1, out)" by (cases "queue_step q cmd")
  obtain outs1 where rest: "queue_run q1 cmds = (q', outs1)" and outs: "outs = out @ outs1"
    using Cons.prems(7) step by (auto split: prod.splits)
  have ok1: "queues_ok q1" and cfg: "cq_config q1 = cq_config q"
    using queue_step_ok [OF Cons.prems(1) step] queue_step_config [OF Cons.prems(1) step] by simp_all
  from queue_step_waiting [OF Cons.prems(1-5) step] show ?case
  proof
    assume "\<exists>j < length (cq_queues q1 c). cq_queues q1 c ! j = p \<and> j + (if cmd = Service then 1 else 0) \<le> i"
    then obtain j where j: "j < length (cq_queues q1 c)" "cq_queues q1 c ! j = p"
      "j + (if cmd = Service then 1 else 0) \<le> i" by blast
    have "j < length (filter (\<lambda>cmd. cmd = Service) cmds)" using j(3) Cons.prems(6) by (auto split: if_splits)
    from Cons.IH [OF ok1 _ _ j(1,2) this rest] Cons.prems(2,3) cfg outs show ?thesis by simp
  qed (simp add: outs)
qed simp

text \<open>What a run serves is what its counters say.\<close>

lemma queue_step_served:
  assumes "queues_ok q" and "queue_step q c = (q', out)"
  shows "served_for q' k = served_for q k + count_list (map pr_key out) k"
proof (cases c)
  case Service
  with assms show ?thesis by (auto simp: served_from_def elim: service_cycle_spec)
qed (use assms in \<open>auto simp: queue_submit_def queue_repropose_def push_back_def served_for_def split: option.splits if_splits\<close>)

lemma queue_run_served:
  assumes "queues_ok q" and "queue_run q cs = (q', outs)"
  shows "served_for q' k = served_for q k + count_list (map pr_key outs) k"
  using assms
proof (induction cs arbitrary: q outs)
  case (Cons c cs)
  obtain q1 out where step: "queue_step q c = (q1, out)" by (cases "queue_step q c")
  obtain outs1 where rest: "queue_run q1 cs = (q', outs1)" and outs: "outs = out @ outs1"
    using Cons.prems(2) step by (auto split: prod.splits)
  from Cons.IH [OF queue_step_ok [OF Cons.prems(1) step] rest] queue_step_served [OF Cons.prems(1) step]
  show ?case by (simp add: outs count_list_append)
qed (simp)

end
