(* ===== verification/F64.thy ===== *)
theory F64
  imports Prelude
begin

text \<open>
  The binary64 numbers of Rust as their bit patterns.  Between two numbers that are not NaN, the order
  of the values is the order of the patterns read as sign and magnitude, so comparisons need no
  decoding; \<open>total_key\<close> is the order of \<open>f64::total_cmp\<close>.  Conversion from \<open>u64\<close> and multiplication
  round to nearest, ties to even.
\<close>

type_synonym f64 = "64 word"

section \<open>Patterns and order\<close>

definition f64_negative :: "f64 \<Rightarrow> bool" where
  "f64_negative x \<longleftrightarrow> 2 ^ 63 \<le> unat x"

definition f64_magnitude :: "f64 \<Rightarrow> nat" where
  "f64_magnitude x = unat x mod 2 ^ 63"

abbreviation f64_infinite_magnitude :: nat where
  "f64_infinite_magnitude \<equiv> 9218868437227405312"

definition f64_nan :: "f64 \<Rightarrow> bool" where
  "f64_nan x \<longleftrightarrow> f64_infinite_magnitude < f64_magnitude x"

definition f64_finite :: "f64 \<Rightarrow> bool" where
  "f64_finite x \<longleftrightarrow> f64_magnitude x < f64_infinite_magnitude"

definition f64_key :: "f64 \<Rightarrow> int" where
  "f64_key x = (if f64_negative x then - int (f64_magnitude x) else int (f64_magnitude x))"

definition f64_le :: "f64 \<Rightarrow> f64 \<Rightarrow> bool" where
  "f64_le x y \<longleftrightarrow> \<not> f64_nan x \<and> \<not> f64_nan y \<and> f64_key x \<le> f64_key y"

definition f64_lt :: "f64 \<Rightarrow> f64 \<Rightarrow> bool" where
  "f64_lt x y \<longleftrightarrow> \<not> f64_nan x \<and> \<not> f64_nan y \<and> f64_key x < f64_key y"

definition f64_max :: "f64 \<Rightarrow> f64 \<Rightarrow> f64" where
  "f64_max x y = (if f64_nan x then y else if f64_nan y then x else if f64_key x < f64_key y then y else x)"

definition total_key :: "f64 \<Rightarrow> int" where
  "total_key x = (if f64_negative x then - int (f64_magnitude x) - 1 else int (f64_magnitude x))"

section \<open>Arithmetic\<close>

text \<open>A finite magnitude is \<open>mantissa * 2 ^ exponent\<close>; \<open>f64_round m e\<close> is the pattern nearest to
  \<open>m * 2 ^ e\<close>.  Its last place is at least \<open>-1074\<close>, and a mantissa that rounds up to the next power of two
  carries into the exponent field by itself.\<close>

fun bit_length :: "nat \<Rightarrow> nat" where
  "bit_length n = (if n = 0 then 0 else Suc (bit_length (n div 2)))"

declare bit_length.simps [simp del]

definition round_shift :: "nat \<Rightarrow> nat \<Rightarrow> nat" where
  "round_shift m k =
     (let q = m div 2 ^ k; r = m mod 2 ^ k
      in if 2 ^ k < 2 * r \<or> (2 * r = 2 ^ k \<and> odd q) then Suc q else q)"

definition round_magnitude :: "nat \<Rightarrow> int \<Rightarrow> nat" where
  "round_magnitude m e =
     (if m = 0 then 0
      else let place = max (e + int (bit_length m) - 53) (- 1074);
               mantissa = (if place \<le> e then m * 2 ^ nat (e - place) else round_shift m (nat (place - e)))
           in min (nat (place + 1074) * 2 ^ 52 + mantissa) f64_infinite_magnitude)"

definition f64_of_magnitude :: "bool \<Rightarrow> nat \<Rightarrow> f64" where
  "f64_of_magnitude negative m = word_of_nat (if negative then m + 2 ^ 63 else m)"

definition f64_mantissa :: "f64 \<Rightarrow> nat" where
  "f64_mantissa x =
     (let m = f64_magnitude x in if m < 2 ^ 52 then m else m mod 2 ^ 52 + 2 ^ 52)"

definition f64_exponent :: "f64 \<Rightarrow> int" where
  "f64_exponent x =
     (let m = f64_magnitude x in if m < 2 ^ 52 then - 1074 else int (m div 2 ^ 52) - 1075)"

definition f64_of_u64 :: "u64 \<Rightarrow> f64" where
  "f64_of_u64 n = f64_of_magnitude False (round_magnitude n 0)"

definition f64_quiet_nan :: f64 where
  "f64_quiet_nan = 0x7FF8000000000000"

definition f64_mul :: "f64 \<Rightarrow> f64 \<Rightarrow> f64" where
  "f64_mul x y =
     (let negative = (f64_negative x \<noteq> f64_negative y)
      in if f64_nan x \<or> f64_nan y then f64_quiet_nan
         else if f64_finite x \<and> f64_finite y
         then f64_of_magnitude negative
           (round_magnitude (f64_mantissa x * f64_mantissa y) (f64_exponent x + f64_exponent y))
         else if f64_magnitude x = 0 \<or> f64_magnitude y = 0 then f64_quiet_nan
         else f64_of_magnitude negative f64_infinite_magnitude)"

text \<open>A quotient is computed to 118 places beyond the point, with one more place set when a remainder is
  left, so that it rounds as the exact quotient does; \<open>1 / 0\<close> is infinite and \<open>0 / 0\<close> is NaN.\<close>

definition f64_div :: "f64 \<Rightarrow> f64 \<Rightarrow> f64" where
  "f64_div x y =
     (let negative = (f64_negative x \<noteq> f64_negative y);
          m = f64_mantissa x * 2 ^ 118; d = f64_mantissa y
      in if f64_nan x \<or> f64_nan y \<or> (\<not> f64_finite x \<and> \<not> f64_finite y) \<or>
            (f64_magnitude x = 0 \<and> f64_magnitude y = 0)
         then f64_quiet_nan
         else if \<not> f64_finite x \<or> f64_magnitude y = 0 then f64_of_magnitude negative f64_infinite_magnitude
         else if \<not> f64_finite y then f64_of_magnitude negative 0
         else f64_of_magnitude negative
           (round_magnitude (2 * (m div d) + (if m mod d = 0 then 0 else 1)) (f64_exponent x - f64_exponent y - 119)))"

text \<open>A difference of finite numbers is exact on the smaller of the two exponents before it is rounded.\<close>

definition f64_signed :: "f64 \<Rightarrow> int \<Rightarrow> int" where
  "f64_signed x e =
     (let m = int (f64_mantissa x) * 2 ^ nat (f64_exponent x - e) in if f64_negative x then - m else m)"

definition f64_sub :: "f64 \<Rightarrow> f64 \<Rightarrow> f64" where
  "f64_sub x y =
     (if f64_nan x \<or> f64_nan y then f64_quiet_nan
      else if \<not> f64_finite x
      then (if \<not> f64_finite y \<and> f64_negative x = f64_negative y then f64_quiet_nan else x)
      else if \<not> f64_finite y then f64_of_magnitude (\<not> f64_negative y) f64_infinite_magnitude
      else let e = min (f64_exponent x) (f64_exponent y);
               z = f64_signed x e - f64_signed y e
           in f64_of_magnitude (z < 0 \<or> (z = 0 \<and> f64_negative x \<and> \<not> f64_negative y))
                (round_magnitude (nat \<bar>z\<bar>) e))"

text \<open>\<open>f64::min\<close> ignores a NaN.\<close>

definition f64_min :: "f64 \<Rightarrow> f64 \<Rightarrow> f64" where
  "f64_min x y = (if f64_nan x then y else if f64_nan y then x else if f64_key y < f64_key x then y else x)"

text \<open>\<open>x as u64\<close> truncates and saturates; NaN and negative numbers give 0.\<close>

definition f64_to_u64 :: "f64 \<Rightarrow> u64" where
  "f64_to_u64 x =
     (if f64_nan x \<or> f64_negative x then 0
      else if \<not> f64_finite x then u64_max
      else let e = f64_exponent x; m = f64_mantissa x
           in min (if 0 \<le> e then m * 2 ^ nat e else m div 2 ^ nat (- e)) u64_max)"

section \<open>Laws\<close>

lemma f64_le_refl: "\<not> f64_nan x \<Longrightarrow> f64_le x x"
  by (simp add: f64_le_def)

lemma f64_le_trans: "f64_le x y \<Longrightarrow> f64_le y z \<Longrightarrow> f64_le x z"
  by (simp add: f64_le_def)

lemma f64_lt_le: "f64_lt x y \<Longrightarrow> f64_le x y"
  by (simp add: f64_le_def f64_lt_def)

lemma f64_not_le: "\<not> f64_nan x \<Longrightarrow> \<not> f64_nan y \<Longrightarrow> \<not> f64_le x y \<longleftrightarrow> f64_lt y x"
  by (auto simp: f64_le_def f64_lt_def)

lemma f64_finite_not_nan [simp]: "f64_finite x \<Longrightarrow> \<not> f64_nan x"
  by (simp add: f64_finite_def f64_nan_def)

lemma f64_max_le:
  assumes "\<not> f64_nan x" and "\<not> f64_nan y"
  shows "f64_le (f64_max x y) z \<longleftrightarrow> f64_le x z \<and> f64_le y z"
  using assms by (auto simp: f64_max_def f64_le_def)

lemma f64_magnitude_of:
  assumes "m < 2 ^ 63"
  shows "f64_magnitude (f64_of_magnitude b m) = m" and "f64_negative (f64_of_magnitude b m) = b"
proof -
  have m: "m < 9223372036854775808" using assms by simp
  have u: "unat (f64_of_magnitude b m) = (if b then m + 2 ^ 63 else m)"
    using m by (simp add: f64_of_magnitude_def unat_of_nat)
  show "f64_magnitude (f64_of_magnitude b m) = m" using m by (simp add: f64_magnitude_def u)
  show "f64_negative (f64_of_magnitude b m) = b" using m by (simp add: f64_negative_def u)
qed

lemma bit_length_lower: "0 < n \<Longrightarrow> 2 ^ (bit_length n - 1) \<le> n"
proof (induction n rule: bit_length.induct)
  case (1 n)
  show ?case
  proof (cases "n div 2 = 0")
    case True
    with 1 show ?thesis by (simp add: bit_length.simps [of n] bit_length.simps [of 0])
  next
    case False
    with 1 have "2 ^ (bit_length (n div 2) - 1) \<le> n div 2" by simp
    moreover have "0 < bit_length (n div 2)" using False by (simp add: bit_length.simps [of "n div 2"])
    ultimately have "2 ^ bit_length (n div 2) \<le> 2 * (n div 2)"
      by (cases "bit_length (n div 2)") simp_all
    with 1(2) show ?thesis by (simp add: bit_length.simps [of n])
  qed
qed

lemma round_shift_lower: "2 ^ k \<le> m \<Longrightarrow> 0 < round_shift m k"
  by (simp add: round_shift_def Let_def div_greater_zero_iff)

text \<open>A positive count never rounds to zero.\<close>

lemma round_magnitude_pos:
  assumes "0 < m"
  shows "0 < round_magnitude m 0"
proof -
  let ?place = "max (int (bit_length m) - 53) (- 1074)"
  have "0 < round_shift m (nat ?place)" if "0 < ?place"
  proof (rule round_shift_lower)
    from that have "nat ?place \<le> bit_length m - 1" by simp
    then have "(2 :: nat) ^ nat ?place \<le> 2 ^ (bit_length m - 1)" by simp
    also have "\<dots> \<le> m" by (rule bit_length_lower [OF assms])
    finally show "2 ^ nat ?place \<le> m" .
  qed
  with assms show ?thesis by (simp add: round_magnitude_def Let_def)
qed

lemma f64_of_u64_pos: "0 < n \<Longrightarrow> 0 < f64_key (f64_of_u64 n) \<and> \<not> f64_nan (f64_of_u64 n)"
proof -
  assume "0 < n"
  moreover have "round_magnitude n 0 \<le> f64_infinite_magnitude"
    by (simp add: round_magnitude_def Let_def)
  ultimately show ?thesis
    using round_magnitude_pos [of n]
    by (simp add: f64_of_u64_def f64_key_def f64_nan_def f64_magnitude_of)
qed

end
