(* ===== verification/Governor.thy ===== *)
theory Governor
  imports F64
begin

text \<open>
  Admission and pressure: \<^verbatim>\<open>src/context_policy/governor.rs\<close>, \<^verbatim>\<open>pressure.rs\<close> and \<^verbatim>\<open>monitor.rs\<close>.  An operation
  whose assertions can fail is \<^const>\<open>None\<close> where the code panics.
\<close>

section \<open>The governor\<close>

definition f64_zero :: f64 where "f64_zero = 0"
definition f64_one :: f64 where "f64_one = 0x3FF0000000000000"

record governor_config =
  gc_per_window_quota :: u64
  gc_per_turn_ceiling :: u64
  gc_alpha :: f64
  gc_quota_floor :: u64

record governor_state =
  gs_quota :: u64
  gs_turn_admitted :: u64
  gs_window_admitted :: u64
  gs_window_reclaimed :: u64
  gs_violations :: nat
  gs_at_floor :: bool
  gs_quiescing :: bool

datatype admission = Admit | Handle | Quiesce

record governor =
  gv_config :: governor_config
  gv_state :: governor_state
  gv_source_admitted :: "u64 \<Rightarrow> u64 option"
  gv_active_window :: "u64 option"
  gv_floor_violation_seen :: bool

definition config_valid :: "governor_config \<Rightarrow> bool" where
  "config_valid c \<longleftrightarrow>
     0 < gc_per_window_quota c \<and> 0 < gc_per_turn_ceiling c \<and> 0 < gc_quota_floor c \<and>
     gc_quota_floor c \<le> gc_per_window_quota c \<and>
     f64_finite (gc_alpha c) \<and> f64_lt f64_zero (gc_alpha c) \<and> f64_le (gc_alpha c) f64_one"

definition governor_new :: "governor_config \<Rightarrow> governor option" where
  "governor_new c =
     (if \<not> config_valid c then None
      else Some \<lparr>gv_config = c,
        gv_state = \<lparr>gs_quota = gc_per_window_quota c, gs_turn_admitted = 0, gs_window_admitted = 0,
          gs_window_reclaimed = 0, gs_violations = 0,
          gs_at_floor = (gc_per_window_quota c = gc_quota_floor c), gs_quiescing = False\<rparr>,
        gv_source_admitted = Map.empty, gv_active_window = None, gv_floor_violation_seen = False\<rparr>)"

abbreviation put_state :: "(governor_state \<Rightarrow> governor_state) \<Rightarrow> governor \<Rightarrow> governor" where
  "put_state f g \<equiv> g\<lparr>gv_state := f (gv_state g)\<rparr>"

definition source_used :: "governor \<Rightarrow> u64 \<Rightarrow> u64" where
  "source_used g source = (case gv_source_admitted g source of Some n \<Rightarrow> n | None \<Rightarrow> 0)"

definition settle_admission :: "governor \<Rightarrow> u64 \<Rightarrow> u64 \<Rightarrow> u64 \<Rightarrow> u64 \<Rightarrow> governor" where
  "settle_admission g source window raw admitted =
     (if gv_active_window g \<noteq> Some window then g
      else let refund = saturating_sub raw admitted
           in put_state (\<lambda>s. s\<lparr>gs_window_admitted := saturating_sub (gs_window_admitted s) refund,
                gs_turn_admitted := saturating_sub (gs_turn_admitted s) refund,
                gs_window_reclaimed := saturating_add (gs_window_reclaimed s) refund\<rparr>)
              (g\<lparr>gv_source_admitted := (gv_source_admitted g)(source \<mapsto> saturating_sub (source_used g source) refund)\<rparr>))"

definition begin_turn :: "governor \<Rightarrow> governor" where
  "begin_turn g = put_state (\<lambda>s. s\<lparr>gs_turn_admitted := 0\<rparr>) g"

definition enter_window :: "governor \<Rightarrow> u64 \<Rightarrow> governor option" where
  "enter_window g window =
     (if gv_active_window g = Some window then Some g
      else if \<exists>active. gv_active_window g = Some active \<and> window \<le> active then None
      else Some (put_state (\<lambda>s. s\<lparr>gs_window_admitted := 0, gs_window_reclaimed := 0\<rparr>)
        (g\<lparr>gv_active_window := Some window, gv_source_admitted := Map.empty\<rparr>)))"

definition governor_admit :: "governor \<Rightarrow> u64 \<Rightarrow> u64 \<Rightarrow> u64 \<Rightarrow> (governor \<times> admission) option" where
  "governor_admit g source bytes window =
     (if gs_quiescing (gv_state g) then Some (g, Quiesce)
      else case enter_window g window of
             None \<Rightarrow> None
           | Some g1 \<Rightarrow>
               let used = source_used g1 source
               in if gc_per_turn_ceiling (gv_config g1) < saturating_add (gs_turn_admitted (gv_state g1)) bytes \<or>
                     gs_quota (gv_state g1) < saturating_add used bytes
                  then Some (g1, Handle)
                  else Some (put_state (\<lambda>s. s\<lparr>gs_turn_admitted := saturating_add (gs_turn_admitted s) bytes,
                      gs_window_admitted := saturating_add (gs_window_admitted s) bytes\<rparr>)
                    (g1\<lparr>gv_source_admitted := (gv_source_admitted g1)(source \<mapsto> saturating_add used bytes)\<rparr>),
                    Admit))"

definition observe_reclaim :: "governor \<Rightarrow> u64 \<Rightarrow> u64 \<Rightarrow> governor option" where
  "observe_reclaim g bytes window =
     map_option (put_state (\<lambda>s. s\<lparr>gs_window_reclaimed := saturating_add (gs_window_reclaimed s) bytes\<rparr>))
       (enter_window g window)"

definition predicate_holds :: "governor \<Rightarrow> bool" where
  "predicate_holds g \<longleftrightarrow>
     f64_le (f64_of_u64 (gs_window_admitted (gv_state g)))
       (f64_mul (gc_alpha (gv_config g)) (f64_of_u64 (gs_window_reclaimed (gv_state g))))"

definition finish_window :: "governor \<Rightarrow> u64 \<Rightarrow> (governor \<times> bool) option" where
  "finish_window g window =
     (if gv_active_window g \<noteq> Some window then None
      else if predicate_holds g then Some (g\<lparr>gv_floor_violation_seen := False\<rparr>, True)
      else let floor = gc_quota_floor (gv_config g);
               g1 = put_state (\<lambda>s. s\<lparr>gs_violations := min (gs_violations s + 1) 4294967295\<rparr>) g;
               quota = gs_quota (gv_state g1)
           in if floor < quota
              then let quota' = add64 floor ((quota - floor) div 2)
                   in Some ((put_state (\<lambda>s. s\<lparr>gs_quota := quota', gs_at_floor := (quota' = floor)\<rparr>) g1)
                     \<lparr>gv_floor_violation_seen := (if quota' = floor then True else gv_floor_violation_seen g1)\<rparr>, False)
              else if gv_floor_violation_seen g1
              then Some (put_state (\<lambda>s. s\<lparr>gs_quiescing := True\<rparr>) g1, False)
              else Some (g1\<lparr>gv_floor_violation_seen := True\<rparr>, False))"

section \<open>Pressure\<close>

record thresholds =
  th_arm :: f64
  th_disarm :: f64
  th_target :: f64

definition unit_interval :: "f64 \<Rightarrow> bool" where
  "unit_interval x \<longleftrightarrow> f64_le f64_zero x \<and> f64_le x f64_one"

definition thresholds_new :: "f64 \<Rightarrow> f64 \<Rightarrow> f64 \<Rightarrow> string + thresholds" where
  "thresholds_new arm disarm target =
     (if \<not> (f64_finite arm \<and> f64_finite disarm \<and> f64_finite target) then Inl ''pressure thresholds must be finite''
      else if \<not> (unit_interval arm \<and> unit_interval disarm \<and> unit_interval target)
      then Inl ''pressure thresholds must be in [0, 1]''
      else if f64_le disarm target then Inl ''target must be below disarm''
      else if f64_le arm disarm then Inl ''disarm must be below arm''
      else Inr \<lparr>th_arm = arm, th_disarm = disarm, th_target = target\<rparr>)"

datatype safety_tier = Disarmed | Armed

record pressure =
  ps_thresholds :: thresholds
  ps_tier :: safety_tier
  ps_floor :: f64

definition pressure_new :: "thresholds \<Rightarrow> pressure" where
  "pressure_new t = \<lparr>ps_thresholds = t, ps_tier = Disarmed, ps_floor = f64_zero\<rparr>"

definition effective_target :: "pressure \<Rightarrow> f64" where
  "effective_target p = f64_max (th_target (ps_thresholds p)) (ps_floor p)"

definition pressure_observe :: "pressure \<Rightarrow> f64 \<Rightarrow> f64 \<Rightarrow> f64 \<Rightarrow> pressure option" where
  "pressure_observe p projected occupancy minimum_floor =
     (if \<not> (f64_finite projected \<and> f64_finite occupancy \<and> f64_finite minimum_floor) then None
      else if \<not> unit_interval minimum_floor then None
      else let p1 = p\<lparr>ps_floor := minimum_floor\<rparr>
           in if ps_tier p1 = Disarmed \<and> f64_le (th_arm (ps_thresholds p1)) projected
              then Some (p1\<lparr>ps_tier := Armed\<rparr>)
              else if ps_tier p1 = Armed \<and> f64_le occupancy (effective_target p1)
              then Some (p1\<lparr>ps_tier := Disarmed\<rparr>)
              else Some p1)"

section \<open>The monitor\<close>

datatype monitor_signal =
  Reacquisition | RereadAfterReclaim | FullOutputAfterDigest | Thrash | OverprotectiveClassification

definition monitor_signal_all :: "monitor_signal list" where
  "monitor_signal_all =
     [Reacquisition, RereadAfterReclaim, FullOutputAfterDigest, Thrash, OverprotectiveClassification]"

record monitor_proposal =
  mp_signal :: monitor_signal
  mp_relax_filter :: bool
  mp_disarmed_windows_seen :: nat

record monitor_counters =
  mc_counts :: "monitor_signal \<Rightarrow> nat"
  mc_frozen :: bool

record runtime_monitor =
  rm_cap :: nat
  rm_counters :: monitor_counters
  rm_disarmed_windows :: nat

definition monitor_new :: "nat \<Rightarrow> runtime_monitor option" where
  "monitor_new cap =
     (if cap = 0 then None
      else Some \<lparr>rm_cap = cap, rm_counters = \<lparr>mc_counts = (\<lambda>_. 0), mc_frozen = False\<rparr>, rm_disarmed_windows = 0\<rparr>)"

definition begin_window :: "runtime_monitor \<Rightarrow> bool \<Rightarrow> runtime_monitor" where
  "begin_window m armed =
     m\<lparr>rm_disarmed_windows := (if armed then 0 else saturating_add (rm_disarmed_windows m) 1)\<rparr>"

definition monitor_observe :: "runtime_monitor \<Rightarrow> monitor_signal \<Rightarrow> runtime_monitor" where
  "monitor_observe m signal =
     (if mc_frozen (rm_counters m) then m
      else m\<lparr>rm_counters := (rm_counters m)\<lparr>mc_counts := (mc_counts (rm_counters m))
        (signal := min (min (mc_counts (rm_counters m) signal + 1) 4294967295) (rm_cap m))\<rparr>\<rparr>)"

definition monitor_fail :: "runtime_monitor \<Rightarrow> runtime_monitor" where
  "monitor_fail m = m\<lparr>rm_counters := (rm_counters m)\<lparr>mc_frozen := True\<rparr>\<rparr>"

definition monitor_proposals :: "runtime_monitor \<Rightarrow> monitor_proposal list" where
  "monitor_proposals m =
     (if rm_disarmed_windows m = 0 then []
      else map (\<lambda>s. \<lparr>mp_signal = s, mp_relax_filter = True, mp_disarmed_windows_seen = rm_disarmed_windows m\<rparr>)
        monitor_signal_all)"

section \<open>Runs of the governor\<close>

datatype governor_command =
    GAdmit u64 u64 u64
  | GSettle u64 u64 u64 u64
  | GReclaim u64 u64
  | GTurn
  | GFinish u64

text \<open>What a step reports: the bytes it admitted, and the verdict of a window it closed.\<close>

datatype governor_report = Nothing | AdmittedBytes nat | Verdict bool

fun governor_step :: "governor \<Rightarrow> governor_command \<Rightarrow> (governor \<times> governor_report) option" where
  "governor_step g (GAdmit source bytes window) =
     map_option (\<lambda>(g', a). (g', if a = Admit then AdmittedBytes bytes else Nothing)) (governor_admit g source bytes window)"
| "governor_step g (GSettle source window raw admitted) = Some (settle_admission g source window raw admitted, Nothing)"
| "governor_step g (GReclaim bytes window) = map_option (\<lambda>g'. (g', Nothing)) (observe_reclaim g bytes window)"
| "governor_step g GTurn = Some (begin_turn g, Nothing)"
| "governor_step g (GFinish window) = map_option (\<lambda>(g', v). (g', Verdict v)) (finish_window g window)"

fun governor_run :: "governor \<Rightarrow> governor_command list \<Rightarrow> (governor \<times> governor_report list) option" where
  "governor_run g [] = Some (g, [])"
| "governor_run g (c # cs) =
     (case governor_step g c of
        None \<Rightarrow> None
      | Some (g1, r) \<Rightarrow> map_option (\<lambda>(g', rs). (g', r # rs)) (governor_run g1 cs))"

section \<open>The invariant\<close>

definition governor_ok :: "governor \<Rightarrow> bool" where
  "governor_ok g \<longleftrightarrow>
     config_valid (gv_config g) \<and> gc_quota_floor (gv_config g) \<le> gs_quota (gv_state g) \<and>
     gs_quota (gv_state g) \<le> gc_per_window_quota (gv_config g) \<and>
     gs_turn_admitted (gv_state g) \<le> gc_per_turn_ceiling (gv_config g) \<and>
     (\<forall>source. source_used g source \<le> gc_per_window_quota (gv_config g)) \<and>
     (gs_at_floor (gv_state g) \<longleftrightarrow> gs_quota (gv_state g) = gc_quota_floor (gv_config g)) \<and>
     (gs_quiescing (gv_state g) \<longrightarrow> gs_at_floor (gv_state g)) \<and>
     gc_per_window_quota (gv_config g) < u64_modulus"

lemma governor_ok_new: "governor_new c = Some g \<Longrightarrow> gc_per_window_quota c < u64_modulus \<Longrightarrow> governor_ok g"
  by (auto simp: governor_new_def governor_ok_def config_valid_def source_used_def split: if_splits)

lemma enter_window_ok:
  assumes "governor_ok g" and "enter_window g window = Some g'"
  shows "governor_ok g'"
  using assms by (auto simp: enter_window_def governor_ok_def source_used_def split: if_splits)

lemma saturating_sub_le: "n \<le> m \<Longrightarrow> saturating_sub n k \<le> m"
  by (simp add: saturating_sub_def)

lemma settle_ok: "governor_ok g \<Longrightarrow> governor_ok (settle_admission g source window raw admitted)"
  by (auto simp: settle_admission_def governor_ok_def source_used_def Let_def saturating_sub_le split: option.splits)

lemma admit_ok:
  assumes ok: "governor_ok g" and "governor_admit g source bytes window = Some (g', a)"
  shows "governor_ok g'"
proof (cases "gs_quiescing (gv_state g)")
  case False
  with assms(2) obtain g1 where g1: "enter_window g window = Some g1"
    by (auto simp: governor_admit_def split: option.splits)
  have "governor_ok g1" by (rule enter_window_ok [OF ok g1])
  with assms(2) False g1 show ?thesis
    by (fastforce simp: governor_admit_def governor_ok_def source_used_def Let_def split: if_splits)
qed (use assms in \<open>simp add: governor_admit_def\<close>)

lemma reclaim_ok: "governor_ok g \<Longrightarrow> observe_reclaim g bytes window = Some g' \<Longrightarrow> governor_ok g'"
proof -
  assume "governor_ok g" and "observe_reclaim g bytes window = Some g'"
  then obtain z where "governor_ok z"
    and "g' = put_state (\<lambda>s. s\<lparr>gs_window_reclaimed := saturating_add (gs_window_reclaimed s) bytes\<rparr>) z"
    by (auto simp: observe_reclaim_def intro: enter_window_ok)
  then show ?thesis by (auto simp: governor_ok_def source_used_def)
qed

text \<open>The new quota of a tightened window lies between the floor and the old quota.\<close>

lemma tightened:
  assumes "governor_ok g" and "gc_quota_floor (gv_config g) < gs_quota (gv_state g)"
  shows "add64 (gc_quota_floor (gv_config g)) ((gs_quota (gv_state g) - gc_quota_floor (gv_config g)) div 2) =
    gc_quota_floor (gv_config g) + (gs_quota (gv_state g) - gc_quota_floor (gv_config g)) div 2"
  using assms by (intro add64_exact) (auto simp: governor_ok_def)

lemma finish_ok:
  assumes ok: "governor_ok g" and fin: "finish_window g window = Some (g', v)"
  shows "governor_ok g'"
proof (cases "predicate_holds g \<or> gs_quota (gv_state g) \<le> gc_quota_floor (gv_config g)")
  case True
  with assms show ?thesis
    by (auto simp: finish_window_def governor_ok_def source_used_def Let_def split: if_splits)
next
  case False
  then have "gc_quota_floor (gv_config g) < gs_quota (gv_state g)" by simp
  with assms False tightened [OF ok this] show ?thesis
    by (auto simp: finish_window_def governor_ok_def source_used_def Let_def split: if_splits)
qed

lemma governor_step_ok: "governor_ok g \<Longrightarrow> governor_step g c = Some (g', r) \<Longrightarrow> governor_ok g'"
proof (cases c)
  case GTurn
  assume "governor_ok g" and "governor_step g c = Some (g', r)"
  with GTurn show ?thesis by (auto simp: begin_turn_def governor_ok_def source_used_def)
qed (auto intro: admit_ok settle_ok reclaim_ok finish_ok)

lemma governor_run_ok: "governor_ok g \<Longrightarrow> governor_run g cs = Some (g', rs) \<Longrightarrow> governor_ok g'"
  by (induction cs arbitrary: g rs) (auto split: option.splits dest: governor_step_ok)

section \<open>Bounds\<close>

text \<open>The bytes a run admits.  Between two turn starts they are what the turn counter grew by, and a
  settlement only lowers the counter.\<close>

fun report_bytes :: "governor_report \<Rightarrow> nat" where
  "report_bytes (AdmittedBytes n) = n"
| "report_bytes r = 0"

fun counts_turn :: "governor_command \<Rightarrow> bool" where
  "counts_turn GTurn = False"
| "counts_turn (GSettle source window raw admitted) = False"
| "counts_turn c = True"

lemma enter_window_simps:
  assumes "enter_window g window = Some g'"
  shows "gv_config g' = gv_config g" and "gs_quota (gv_state g') = gs_quota (gv_state g)"
    and "gs_turn_admitted (gv_state g') = gs_turn_admitted (gv_state g)"
    and "gs_quiescing (gv_state g') = gs_quiescing (gv_state g)"
    and "gv_floor_violation_seen g' = gv_floor_violation_seen g"
  using assms by (auto simp: enter_window_def split: if_splits)

lemma governor_step_config: "governor_step g c = Some (g', r) \<Longrightarrow> gv_config g' = gv_config g"
  by (cases c) (auto simp: governor_admit_def settle_admission_def observe_reclaim_def begin_turn_def finish_window_def
    Let_def enter_window_simps split: option.splits if_splits)

lemma governor_step_turn:
  assumes "governor_step g c = Some (g', r)" and "counts_turn c" and "gc_per_turn_ceiling (gv_config g) < u64_max"
  shows "gs_turn_admitted (gv_state g') = gs_turn_admitted (gv_state g) + report_bytes r"
  using assms by (cases c) (auto simp: governor_admit_def observe_reclaim_def finish_window_def Let_def
    enter_window_simps saturating_add_def split: option.splits if_splits)

lemma governor_run_turn:
  assumes "governor_run g cs = Some (g', rs)" and "list_all counts_turn cs" and "gc_per_turn_ceiling (gv_config g) < u64_max"
  shows "gs_turn_admitted (gv_state g') = gs_turn_admitted (gv_state g) + sum_list (map report_bytes rs)"
  using assms
proof (induction cs arbitrary: g rs)
  case (Cons c cs)
  then obtain g1 r rs1 where step: "governor_step g c = Some (g1, r)" and rest: "governor_run g1 cs = Some (g', rs1)"
    and rs: "rs = r # rs1" by (auto split: option.splits)
  from Cons.IH [OF rest] Cons.prems(2,3) governor_step_config [OF step] governor_step_turn [OF step]
  show ?case by (simp add: rs)
qed simp

lemma governor_run_config: "governor_run g cs = Some (g', rs) \<Longrightarrow> gv_config g' = gv_config g"
  by (induction cs arbitrary: g rs) (auto split: option.splits dest: governor_step_config)

section \<open>Tightening\<close>

text \<open>\<open>patience\<close>: how many violated windows in a row the governor still bears before it quiesces.\<close>

definition patience :: "governor \<Rightarrow> nat" where
  "patience g =
     (let distance = gs_quota (gv_state g) - gc_quota_floor (gv_config g)
      in if gs_quiescing (gv_state g) then 0
         else if 0 < distance then bit_length distance + 1
         else if gv_floor_violation_seen g then 1 else 2)"

lemma bit_length_pos: "0 < n \<Longrightarrow> bit_length n = Suc (bit_length (n div 2))"
  by (simp add: bit_length.simps [of n])

lemma bit_length_0 [simp]: "bit_length 0 = 0"
  by (simp add: bit_length.simps)

lemma finish_patience:
  assumes ok: "governor_ok g" and fin: "finish_window g window = Some (g', False)"
  shows "patience g' \<le> patience g - 1"
proof (cases "gc_quota_floor (gv_config g) < gs_quota (gv_state g)")
  case True
  let ?d = "gs_quota (gv_state g) - gc_quota_floor (gv_config g)"
  have nq: "\<not> gs_quiescing (gv_state g)" using ok True by (auto simp: governor_ok_def)
  have g': "gs_quota (gv_state g') = gc_quota_floor (gv_config g) + ?d div 2" "gv_config g' = gv_config g"
    "gs_quiescing (gv_state g') = gs_quiescing (gv_state g)" "?d div 2 = 0 \<Longrightarrow> gv_floor_violation_seen g'"
    using fin True tightened [OF ok True] by (auto simp: finish_window_def Let_def split: if_splits)
  have "patience g = bit_length (?d div 2) + 2" using True nq by (simp add: patience_def bit_length_pos [of ?d])
  moreover have "patience g' \<le> bit_length (?d div 2) + 1"
    using g' nq by (auto simp: patience_def Let_def)
  ultimately show ?thesis by simp
next
  case False
  with fin have "gs_quota (gv_state g') = gs_quota (gv_state g)" "gv_config g' = gv_config g"
    "gs_quiescing (gv_state g') \<longleftrightarrow> gs_quiescing (gv_state g) \<or> gv_floor_violation_seen g"
    "gv_floor_violation_seen g'"
    by (auto simp: finish_window_def Let_def split: if_splits)
  with False show ?thesis by (simp add: patience_def)
qed

lemma governor_step_patience:
  assumes "governor_ok g" and "governor_step g c = Some (g', r)" and "r \<noteq> Verdict True"
  shows "patience g' \<le> patience g - (if r = Verdict False then 1 else 0)"
proof (cases c)
  case (GFinish window)
  with assms finish_patience [OF assms(1)] show ?thesis by auto
next
  case (GAdmit source bytes window)
  with assms show ?thesis
    by (auto simp: governor_admit_def Let_def patience_def enter_window_simps split: option.splits if_splits)
qed (use assms in \<open>auto simp: settle_admission_def observe_reclaim_def begin_turn_def Let_def patience_def
    enter_window_simps split: if_splits\<close>)

lemma governor_run_patience:
  assumes "governor_ok g" and "governor_run g cs = Some (g', rs)" and "Verdict True \<notin> set rs"
  shows "patience g' \<le> patience g - length (filter (\<lambda>r. r = Verdict False) rs)"
  using assms
proof (induction cs arbitrary: g rs)
  case (Cons c cs)
  then obtain g1 r rs1 where step: "governor_step g c = Some (g1, r)" and rest: "governor_run g1 cs = Some (g', rs1)"
    and rs: "rs = r # rs1" by (auto split: option.splits)
  from Cons.IH [OF governor_step_ok [OF Cons.prems(1) step] rest] Cons.prems(3)
    governor_step_patience [OF Cons.prems(1) step]
  show ?case by (auto simp: rs)
qed simp

lemma patience_0: "patience g = 0 \<longleftrightarrow> gs_quiescing (gv_state g)"
  by (auto simp: patience_def Let_def)

text \<open>A window that admits and reclaims nothing is always a violation, at any rate.\<close>

lemma f64_mul_zero:
  assumes "f64_finite a"
  shows "f64_key (f64_mul a (f64_of_u64 0)) = 0"
proof -
  have z: "f64_of_u64 0 = 0" by (simp add: f64_of_u64_def round_magnitude_def f64_of_magnitude_def)
  have "f64_magnitude (f64_of_magnitude b 0) = 0" for b by (rule f64_magnitude_of) simp
  with assms show ?thesis
    by (simp add: f64_mul_def z f64_key_def f64_nan_def f64_finite_def f64_magnitude_def [of 0] f64_mantissa_def [of 0]
      round_magnitude_def Let_def)
qed

lemma starving_window_violates:
  assumes "governor_ok g" and "0 < gs_window_admitted (gv_state g)" and "gs_window_reclaimed (gv_state g) = 0"
  shows "\<not> predicate_holds g"
proof -
  have "f64_finite (gc_alpha (gv_config g))" using assms(1) by (simp add: governor_ok_def config_valid_def)
  from f64_mul_zero [OF this] f64_of_u64_pos [OF assms(2)] assms(3) show ?thesis
    by (simp add: predicate_holds_def f64_le_def)
qed

section \<open>Hysteresis\<close>

text \<open>Between the effective target and the arming threshold an observation leaves the tier as it is.\<close>

lemma pressure_hysteresis:
  assumes "pressure_observe p x x floor = Some p'"
  shows "ps_thresholds p' = ps_thresholds p \<and>
    (f64_le (th_arm (ps_thresholds p)) x \<and> \<not> f64_le x (effective_target p') \<longrightarrow> ps_tier p' = Armed) \<and>
    (f64_le x (effective_target p') \<and> \<not> f64_le (th_arm (ps_thresholds p)) x \<longrightarrow> ps_tier p' = Disarmed) \<and>
    (\<not> f64_le (th_arm (ps_thresholds p)) x \<and> \<not> f64_le x (effective_target p') \<longrightarrow> ps_tier p' = ps_tier p)"
proof -
  let ?p = "p\<lparr>ps_floor := floor\<rparr>"
  have t: "ps_thresholds p' = ps_thresholds p" "effective_target p' = effective_target ?p"
    using assms by (auto simp: pressure_observe_def effective_target_def Let_def split: if_splits)
  have "ps_tier p' = (if ps_tier p = Disarmed \<and> f64_le (th_arm (ps_thresholds p)) x then Armed
      else if ps_tier p = Armed \<and> f64_le x (effective_target ?p) then Disarmed else ps_tier p)"
    using assms by (auto simp: pressure_observe_def Let_def split: if_splits)
  then show ?thesis unfolding t by (cases "ps_tier p") simp_all
qed

lemma monitor_capped:
  "mc_counts (rm_counters m) s \<le> rm_cap m \<Longrightarrow> mc_counts (rm_counters (monitor_observe m t)) s \<le> rm_cap (monitor_observe m t)"
  by (auto simp: monitor_observe_def)

end
