(* ===== verification/Ladder.thy ===== *)
theory Ladder
  imports Operations F64
begin

text \<open>
  The reclamation ladder of \<^verbatim>\<open>src/context_policy/ladder.rs\<close> and the progress measure of \<^verbatim>\<open>progress.rs\<close>
  with its exhaustive check of episodes.
\<close>

section \<open>Rungs\<close>

datatype rung = FoldAwayEphemeral | CollapsePlaceholders | DropWithHandle | FoldRung | CompactRung | CondenseRung

definition rung_all :: "rung list" where
  "rung_all = [FoldAwayEphemeral, CollapsePlaceholders, DropWithHandle, FoldRung, CompactRung, CondenseRung]"

fun rung_operation :: "rung \<Rightarrow> string" where
  "rung_operation FoldAwayEphemeral = ''fold-away-ephemeral''"
| "rung_operation CollapsePlaceholders = ''placeholder-collapse''"
| "rung_operation DropWithHandle = ''drop-with-handle''"
| "rung_operation FoldRung = ''fold''"
| "rung_operation CompactRung = ''compact''"
| "rung_operation CondenseRung = ''condense''"

fun rung_index :: "rung \<Rightarrow> nat" where
  "rung_index FoldAwayEphemeral = 0"
| "rung_index CollapsePlaceholders = 1"
| "rung_index DropWithHandle = 2"
| "rung_index FoldRung = 3"
| "rung_index CompactRung = 4"
| "rung_index CondenseRung = 5"

datatype degradation_class =
    EphemeralBuildup | PlaceholderSaturation | RederivableBulk | RedundantDetail | FragmentedContent
  | GeneralDegradation

fun emergency_rung :: "degradation_class \<Rightarrow> rung" where
  "emergency_rung EphemeralBuildup = FoldAwayEphemeral"
| "emergency_rung PlaceholderSaturation = CollapsePlaceholders"
| "emergency_rung RederivableBulk = DropWithHandle"
| "emergency_rung RedundantDetail = FoldRung"
| "emergency_rung FragmentedContent = CompactRung"
| "emergency_rung GeneralDegradation = CondenseRung"

record capabilities =
  cp_collapse_placeholders :: bool
  cp_drop_with_handle :: bool

definition default_capabilities :: capabilities where
  "default_capabilities = \<lparr>cp_collapse_placeholders = True, cp_drop_with_handle = True\<rparr>"

record ladder_candidate =
  ld_rung :: rung
  ld_benefit :: f64
  ld_confidence :: f64

datatype ladder_choice = ChooseRung rung | ChooseEmergency rung | ChooseWrapUp | ChooseQuiesce

record selection =
  sl_choice :: ladder_choice
  sl_candidate_index :: "nat option"

fun rung_capable :: "capabilities \<Rightarrow> rung \<Rightarrow> bool" where
  "rung_capable caps CollapsePlaceholders = cp_collapse_placeholders caps"
| "rung_capable caps DropWithHandle = cp_drop_with_handle caps"
| "rung_capable caps r = True"

definition emergency_row :: "rung \<Rightarrow> bool" where
  "emergency_row r = (case find_operation (rung_operation r) of None \<Rightarrow> False | Some row \<Rightarrow> op_emergency row)"

definition matching :: "ladder_candidate list \<Rightarrow> rung \<Rightarrow> (nat \<times> ladder_candidate) list" where
  "matching candidates r = filter (\<lambda>ic. ld_rung (snd ic) = r) (zip [0 ..< length candidates] candidates)"

text \<open>\<open>max_by\<close> returns the last of several maximal elements.\<close>

definition best_candidate :: "(nat \<times> ladder_candidate) list \<Rightarrow> nat" where
  "best_candidate ms =
     fst (foldl (\<lambda>best c. if total_key (ld_benefit (snd best)) \<le> total_key (ld_benefit (snd c)) then c else best)
       (hd ms) (tl ms))"

fun select_rungs ::
  "ladder_candidate list \<Rightarrow> capabilities \<Rightarrow> bool \<Rightarrow> f64 \<Rightarrow> rung list \<Rightarrow> selection option" where
  "select_rungs candidates caps scorer confidence_floor [] = None"
| "select_rungs candidates caps scorer confidence_floor (r # rs) =
     (let ms = matching candidates r;
          emergency = (\<not> scorer \<or> list_all (\<lambda>ic. f64_lt (ld_confidence (snd ic)) confidence_floor) ms)
      in if \<not> rung_capable caps r \<or> ms = [] \<or> (emergency \<and> \<not> emergency_row r)
         then select_rungs candidates caps scorer confidence_floor rs
         else if emergency then Some \<lparr>sl_choice = ChooseEmergency r, sl_candidate_index = Some (fst (hd ms))\<rparr>
         else Some \<lparr>sl_choice = ChooseRung r, sl_candidate_index = Some (best_candidate ms)\<rparr>)"

definition select_candidate :: "ladder_candidate list \<Rightarrow> capabilities \<Rightarrow> bool \<Rightarrow> f64 \<Rightarrow> selection" where
  "select_candidate candidates caps scorer confidence_floor =
     (case select_rungs candidates caps scorer confidence_floor rung_all of
        Some s \<Rightarrow> s
      | None \<Rightarrow>
          if list_ex (\<lambda>c. ld_rung c = CollapsePlaceholders) candidates \<and> \<not> cp_collapse_placeholders caps \<and>
             cp_drop_with_handle caps
          then \<lparr>sl_choice = ChooseEmergency DropWithHandle, sl_candidate_index = None\<rparr>
          else \<lparr>sl_choice = ChooseQuiesce, sl_candidate_index = None\<rparr>)"

fun choice_operation :: "ladder_choice \<Rightarrow> string" where
  "choice_operation (ChooseRung r) = rung_operation r"
| "choice_operation (ChooseEmergency r) = rung_operation r"
| "choice_operation ChooseWrapUp = ''wrap-up''"
| "choice_operation ChooseQuiesce = ''quiesce-unwritable''"

definition degradation_of :: "u64 \<Rightarrow> u64 \<Rightarrow> degradation_class" where
  "degradation_of kept reclaimed = (if reclaimed = 0 then RederivableBulk else GeneralDegradation)"

definition escalate :: "nat \<Rightarrow> nat \<Rightarrow> degradation_class \<Rightarrow> ladder_choice" where
  "escalate step bound c =
     (if bound = 0 then ChooseQuiesce
      else if bound \<le> step then ChooseWrapUp
      else if step = 0 then ChooseEmergency (emergency_rung c)
      else ChooseRung (rung_all ! (add64 (rung_index (emergency_rung c)) step mod length rung_all)))"

section \<open>Progress\<close>

datatype terminal_outcome = TerminalDisarmed | TerminalWrapUp | TerminalQuiesced

record progress_state =
  pg_psi :: u64
  pg_retries_remaining :: nat

datatype macrostep = StepNoOp | StepReclaim | StepWrapUp | StepQuiesce | StepDisarm

definition lexicographically_decreases :: "progress_state \<Rightarrow> progress_state \<Rightarrow> bool" where
  "lexicographically_decreases before after \<longleftrightarrow>
     pg_psi after < pg_psi before \<or>
     (pg_psi after = pg_psi before \<and> pg_retries_remaining after < pg_retries_remaining before)"

definition terminal_reserve :: "u64 \<Rightarrow> u64 \<Rightarrow> bool" where
  "terminal_reserve wrap_up_cost available \<longleftrightarrow> wrap_up_cost \<le> available"

definition next_action :: "progress_state \<Rightarrow> bool \<Rightarrow> terminal_outcome option \<Rightarrow> macrostep" where
  "next_action s armed terminal =
     (case terminal of
        Some TerminalDisarmed \<Rightarrow> StepDisarm
      | Some TerminalWrapUp \<Rightarrow> StepWrapUp
      | Some TerminalQuiesced \<Rightarrow> StepQuiesce
      | None \<Rightarrow>
          if \<not> armed then StepDisarm
          else if pg_psi s = 0 then StepDisarm
          else if pg_retries_remaining s = 0 then StepQuiesce
          else StepReclaim)"

text \<open>\<open>DegradationModes\<close> is a byte whose lower seven bits are flags.\<close>

type_synonym degradation_modes = nat

definition modes_from_bits :: "nat \<Rightarrow> degradation_modes" where
  "modes_from_bits bits = bits mod 128"

definition mode_flag :: "nat \<Rightarrow> degradation_modes \<Rightarrow> bool" where
  "mode_flag i m \<longleftrightarrow> odd (m div 2 ^ i)"

abbreviation obligation_saturated :: "degradation_modes \<Rightarrow> bool" where "obligation_saturated \<equiv> mode_flag 0"
abbreviation floored_tail :: "degradation_modes \<Rightarrow> bool" where "floored_tail \<equiv> mode_flag 1"
abbreviation scorer_outage :: "degradation_modes \<Rightarrow> bool" where "scorer_outage \<equiv> mode_flag 2"
abbreviation placeholder_intolerant :: "degradation_modes \<Rightarrow> bool" where "placeholder_intolerant \<equiv> mode_flag 3"
abbreviation spend_exhausted :: "degradation_modes \<Rightarrow> bool" where "spend_exhausted \<equiv> mode_flag 4"
abbreviation pin_saturated :: "degradation_modes \<Rightarrow> bool" where "pin_saturated \<equiv> mode_flag 5"
abbreviation storage_read_only :: "degradation_modes \<Rightarrow> bool" where "storage_read_only \<equiv> mode_flag 6"

record adversarial_report =
  ar_reachable_states :: u64
  ar_transitions :: u64
  ar_out_of_branch_wall_hits :: u64
  ar_armed_noops :: u64
  ar_unterminated_episodes :: u64
  ar_max_macrosteps :: nat

definition degraded_action :: "progress_state \<Rightarrow> degradation_modes \<Rightarrow> macrostep" where
  "degraded_action s m =
     (if storage_read_only m then StepQuiesce
      else if spend_exhausted m \<and> pg_psi s \<le> 1 then StepWrapUp
      else if floored_tail m \<and> pg_psi s = 0 then StepWrapUp
      else next_action s True None)"

fun registered_operation :: "macrostep \<Rightarrow> degradation_modes \<Rightarrow> string option" where
  "registered_operation StepReclaim m =
     (if obligation_saturated m then Some ''compact''
      else if placeholder_intolerant m then Some ''drop-with-handle''
      else if pin_saturated m then Some ''pin-override-collapse''
      else if floored_tail m then Some ''condense''
      else if scorer_outage m then Some ''drop-with-handle''
      else Some ''placeholder-collapse'')"
| "registered_operation StepWrapUp m = Some ''wrap-up''"
| "registered_operation StepQuiesce m = Some ''quiesce-unwritable''"
| "registered_operation StepDisarm m = Some ''disarm''"
| "registered_operation StepNoOp m = None"

definition operation_for_degradation :: "progress_state \<Rightarrow> degradation_modes \<Rightarrow> string option" where
  "operation_for_degradation s m = registered_operation (degraded_action s m) m"

definition reclaim_step :: "progress_state \<Rightarrow> progress_state" where
  "reclaim_step s =
     s\<lparr>pg_psi := saturating_sub (pg_psi s) 1, pg_retries_remaining := saturating_sub (pg_retries_remaining s) 1\<rparr>"

text \<open>\<open>verify_loop remaining step\<close> is the loop of \<open>verify_episode\<close> with \<open>remaining\<close> macrosteps left; the branch
  of \<open>StepNoOp\<close> after the lookup is unreachable in the code, because a no-op has no operation.\<close>

fun verify_loop ::
  "nat \<Rightarrow> nat \<Rightarrow> progress_state \<Rightarrow> degradation_modes \<Rightarrow> adversarial_report \<Rightarrow> adversarial_report" where
  "verify_loop 0 step s m r =
     r\<lparr>ar_unterminated_episodes := saturating_add (ar_unterminated_episodes r) 1\<rparr>"
| "verify_loop (Suc n) step s m r =
     (let action = degraded_action s m
      in case registered_operation action m of
           None \<Rightarrow> r\<lparr>ar_armed_noops := saturating_add (ar_armed_noops r) 1\<rparr>
         | Some name \<Rightarrow>
             if find_operation name = None
             then r\<lparr>ar_out_of_branch_wall_hits := saturating_add (ar_out_of_branch_wall_hits r) 1\<rparr>
             else let r1 = r\<lparr>ar_transitions := saturating_add (ar_transitions r) 1\<rparr>
                  in case action of
                       StepReclaim \<Rightarrow>
                         if \<not> lexicographically_decreases s (reclaim_step s)
                         then r1\<lparr>ar_armed_noops := saturating_add (ar_armed_noops r1) 1\<rparr>
                         else verify_loop n (Suc step) (reclaim_step s) m r1
                     | _ \<Rightarrow> r1\<lparr>ar_max_macrosteps := max (ar_max_macrosteps r1) (min (step + 1) 4294967295)\<rparr>)"

definition verify_episode ::
  "progress_state \<Rightarrow> degradation_modes \<Rightarrow> nat \<Rightarrow> adversarial_report \<Rightarrow> adversarial_report" where
  "verify_episode initial m bound r = verify_loop bound 0 initial m r"

definition default_report :: adversarial_report where
  "default_report = \<lparr>ar_reachable_states = 0, ar_transitions = 0, ar_out_of_branch_wall_hits = 0, ar_armed_noops = 0,
     ar_unterminated_episodes = 0, ar_max_macrosteps = 0\<rparr>"

definition episode_grid :: "nat \<Rightarrow> nat \<Rightarrow> (degradation_modes \<times> progress_state) list" where
  "episode_grid max_psi max_retries =
     concat (map (\<lambda>bits. concat (map (\<lambda>psi. map (\<lambda>retries.
       (modes_from_bits bits, \<lparr>pg_psi = psi, pg_retries_remaining = retries\<rparr>)) [0 ..< Suc max_retries])
       [0 ..< Suc max_psi])) [0 ..< 128])"

definition verify_adversarial_reachable_states :: "u64 \<Rightarrow> nat \<Rightarrow> nat \<Rightarrow> adversarial_report" where
  "verify_adversarial_reachable_states max_psi max_retries bound =
     foldl (\<lambda>r (m, s). verify_episode s m bound
         (r\<lparr>ar_reachable_states := saturating_add (ar_reachable_states r) 1\<rparr>))
       default_report (episode_grid max_psi max_retries)"

section \<open>Laws\<close>

lemma registered_names:
  "list_all (\<lambda>name. find_operation name \<noteq> None)
     [''compact'', ''drop-with-handle'', ''pin-override-collapse'', ''condense'', ''placeholder-collapse'',
      ''wrap-up'', ''quiesce-unwritable'', ''disarm'']"
  by code_simp

lemma rungs_emergency: "list_all emergency_row rung_all"
  by code_simp

lemma set_rung_all: "set rung_all = UNIV"
  using rung.exhaust by (auto simp: rung_all_def)

lemma emergency_row_all [simp]: "emergency_row r"
  using rungs_emergency set_rung_all by (auto simp: list_all_iff)

lemma registered_found: "registered_operation a m = Some name \<Longrightarrow> find_operation name \<noteq> None"
  using registered_names by (cases a) (auto split: if_splits)

lemma registered_some: "a \<noteq> StepNoOp \<Longrightarrow> \<exists>name. registered_operation a m = Some name"
  by (cases a) auto

lemma degraded_action_cases:
  "degraded_action s m = StepReclaim \<and> 0 < pg_psi s \<and> 0 < pg_retries_remaining s \<or>
   degraded_action s m \<in> {StepWrapUp, StepQuiesce, StepDisarm}"
  by (simp add: degraded_action_def next_action_def)

text \<open>An episode ends within the smaller of its two budgets, plus the terminal step.\<close>

lemma verify_loop_ends:
  assumes "min (pg_psi s) (pg_retries_remaining s) < n"
  shows "ar_armed_noops (verify_loop n step s m r) = ar_armed_noops r \<and>
    ar_out_of_branch_wall_hits (verify_loop n step s m r) = ar_out_of_branch_wall_hits r \<and>
    ar_unterminated_episodes (verify_loop n step s m r) = ar_unterminated_episodes r \<and>
    ar_reachable_states (verify_loop n step s m r) = ar_reachable_states r \<and>
    ar_max_macrosteps (verify_loop n step s m r) \<le>
      max (ar_max_macrosteps r) (step + min (pg_psi s) (pg_retries_remaining s) + 1)"
  using assms
proof (induction n arbitrary: step s r)
  case (Suc n)
  from degraded_action_cases [of s m] show ?case
  proof
    assume "degraded_action s m = StepReclaim \<and> 0 < pg_psi s \<and> 0 < pg_retries_remaining s"
    then have a: "degraded_action s m = StepReclaim" and pos: "0 < pg_psi s" "0 < pg_retries_remaining s" by simp_all
    obtain name row where name: "registered_operation StepReclaim m = Some name" "find_operation name = Some row"
      using registered_some [of StepReclaim m] registered_found by blast
    have dec: "lexicographically_decreases s (reclaim_step s)"
      using pos by (simp add: lexicographically_decreases_def reclaim_step_def saturating_sub_def)
    have less: "min (pg_psi (reclaim_step s)) (pg_retries_remaining (reclaim_step s)) + 1 =
        min (pg_psi s) (pg_retries_remaining s)"
      using pos by (cases "pg_psi s"; cases "pg_retries_remaining s")
        (simp_all add: reclaim_step_def saturating_sub_def)
    let ?r = "r\<lparr>ar_transitions := saturating_add (ar_transitions r) 1\<rparr>"
    have step: "verify_loop (Suc n) step s m r = verify_loop n (Suc step) (reclaim_step s) m ?r"
      using a name dec by (simp del: registered_operation.simps)
    have "min (pg_psi (reclaim_step s)) (pg_retries_remaining (reclaim_step s)) < n"
      using Suc.prems less by linarith
    from Suc.IH [OF this, of "Suc step" ?r] show ?case
      unfolding step less [symmetric] by simp
  next
    assume a: "degraded_action s m \<in> {StepWrapUp, StepQuiesce, StepDisarm}"
    then have "degraded_action s m \<noteq> StepNoOp" by auto
    then obtain name row where
      "registered_operation (degraded_action s m) m = Some name" "find_operation name = Some row"
      using registered_some registered_found by blast
    with a show ?case by (auto simp: Let_def max_def min_def simp del: registered_operation.simps)
  qed
qed simp

lemma episode_grid_member:
  "(m, s) \<in> set (episode_grid max_psi max_retries) \<Longrightarrow> pg_psi s \<le> max_psi \<and> pg_retries_remaining s \<le> max_retries"
  by (auto simp: episode_grid_def)

lemma verify_grid:
  assumes "\<forall>(m, s) \<in> set grid. min (pg_psi s) (pg_retries_remaining s) < bound \<and>
      min (pg_psi s) (pg_retries_remaining s) < limit"
    and "ar_armed_noops r = 0 \<and> ar_out_of_branch_wall_hits r = 0 \<and> ar_unterminated_episodes r = 0 \<and>
      ar_max_macrosteps r \<le> limit"
  shows "let r' = foldl (\<lambda>r (m, s). verify_episode s m bound
      (r\<lparr>ar_reachable_states := saturating_add (ar_reachable_states r) 1\<rparr>)) r grid
    in ar_armed_noops r' = 0 \<and> ar_out_of_branch_wall_hits r' = 0 \<and> ar_unterminated_episodes r' = 0 \<and>
      ar_max_macrosteps r' \<le> limit"
  using assms
proof (induction grid arbitrary: r)
  case (Cons ms grid)
  obtain m s where ms: "ms = (m, s)" by (cases ms)
  let ?r = "r\<lparr>ar_reachable_states := saturating_add (ar_reachable_states r) 1\<rparr>"
  from Cons.prems(1) have b: "min (pg_psi s) (pg_retries_remaining s) < bound"
    "min (pg_psi s) (pg_retries_remaining s) < limit" by (auto simp: ms)
  from verify_loop_ends [OF b(1), of 0 m ?r] b(2) Cons.prems(2)
  have "ar_armed_noops (verify_episode s m bound ?r) = 0 \<and> ar_out_of_branch_wall_hits (verify_episode s m bound ?r) = 0 \<and>
      ar_unterminated_episodes (verify_episode s m bound ?r) = 0 \<and> ar_max_macrosteps (verify_episode s m bound ?r) \<le> limit"
    unfolding verify_episode_def by (auto simp: max_def split: if_splits)
  from Cons.IH [OF _ this] Cons.prems(1) show ?case by (simp add: ms)
qed simp

text \<open>The whole ladder is climbed once before it wraps around.\<close>

lemma escalate_climbs:
  assumes "0 < step" and "step < bound" and "step < 6"
  shows "escalate step bound c = ChooseRung (rung_all ! ((rung_index (emergency_rung c) + step) mod 6))"
proof -
  have "rung_index (emergency_rung c) \<le> 5" by (cases c) simp_all
  then have "rung_index (emergency_rung c) + step < u64_modulus"
    using assms(3) by simp
  with assms show ?thesis by (simp add: escalate_def rung_all_def)
qed

end
