(* ===== verification/Epochs.thy ===== *)
theory Epochs
  imports F64
begin

text \<open>
  Cache epochs and the durable names of the policy plane: \<^verbatim>\<open>src/context_policy/cache.rs\<close> (the accounting
  of provider usage per checkpoint epoch) and \<^verbatim>\<open>vocabulary.rs\<close> (the spellings of policy events and of
  terminal branches).
\<close>

section \<open>Vocabulary\<close>

datatype policy_operation =
    PolicyQuiesceRate | PolicyQuiesceUnwritable | PolicyDropWithHandle | PolicyWrapUp | PolicyFoldAwayEphemeral
  | PolicyPlaceholderCollapse | PolicyFold | PolicyCompact | PolicyCondense

definition policy_operation_all :: "policy_operation list" where
  "policy_operation_all =
     [PolicyQuiesceRate, PolicyQuiesceUnwritable, PolicyDropWithHandle, PolicyWrapUp, PolicyFoldAwayEphemeral,
      PolicyPlaceholderCollapse, PolicyFold, PolicyCompact, PolicyCondense]"

fun policy_operation_str :: "policy_operation \<Rightarrow> string" where
  "policy_operation_str PolicyQuiesceRate = ''quiesce-rate''"
| "policy_operation_str PolicyQuiesceUnwritable = ''quiesce-unwritable''"
| "policy_operation_str PolicyDropWithHandle = ''drop-with-handle''"
| "policy_operation_str PolicyWrapUp = ''wrap-up''"
| "policy_operation_str PolicyFoldAwayEphemeral = ''fold-away-ephemeral''"
| "policy_operation_str PolicyPlaceholderCollapse = ''placeholder-collapse''"
| "policy_operation_str PolicyFold = ''fold''"
| "policy_operation_str PolicyCompact = ''compact''"
| "policy_operation_str PolicyCondense = ''condense''"

definition policy_operation_parse :: "string \<Rightarrow> string + policy_operation" where
  "policy_operation_parse name =
     (if name = ''quiesce-rate'' then Inr PolicyQuiesceRate
      else if name = ''quiesce-unwritable'' then Inr PolicyQuiesceUnwritable
      else if name = ''drop-with-handle'' then Inr PolicyDropWithHandle
      else if name = ''wrap-up'' then Inr PolicyWrapUp
      else if name = ''fold-away-ephemeral'' then Inr PolicyFoldAwayEphemeral
      else if name = ''placeholder-collapse'' then Inr PolicyPlaceholderCollapse
      else if name = ''fold'' then Inr PolicyFold
      else if name = ''compact'' then Inr PolicyCompact
      else if name = ''condense'' then Inr PolicyCondense
      else Inl (''context policy event unknown operation: '' @ name))"

datatype terminal_label = LabelQuiesceRate | LabelQuiesceUnwritable | LabelWrapUp

fun as_terminal_str :: "terminal_label \<Rightarrow> string" where
  "as_terminal_str LabelQuiesceRate = ''quiesce_rate''"
| "as_terminal_str LabelQuiesceUnwritable = ''quiesce_unwritable''"
| "as_terminal_str LabelWrapUp = ''wrap_up''"

definition terminal_label_parse :: "string \<Rightarrow> terminal_label option" where
  "terminal_label_parse name =
     (if name = ''quiesce_rate'' then Some LabelQuiesceRate
      else if name = ''quiesce_unwritable'' then Some LabelQuiesceUnwritable
      else if name = ''wrap_up'' then Some LabelWrapUp
      else None)"

section \<open>Epochs\<close>

datatype cut_trigger = BudgetPressure | ExplicitRequest | ErasureCut

record epoch_record =
  ep_epoch :: u64
  ep_head_digest :: string
  ep_head_requests :: nat
  ep_trigger :: "cut_trigger option"
  ep_armed :: bool
  ep_bytes_reclaimed :: u64
  ep_bytes_invalidated :: u64
  ep_tokens_invalidated :: "u64 option"
  ep_tokens_reclaimed :: "u64 option"
  ep_invalidations :: u64
  ep_aggregate_valid :: bool
  ep_calls :: u64
  ep_measured_calls :: u64
  ep_input_tokens :: u64
  ep_cached_tokens :: u64
  ep_armed_input_tokens :: u64
  ep_armed_cached_tokens :: u64
  ep_disarmed_input_tokens :: u64
  ep_disarmed_cached_tokens :: u64

type_synonym epoch_cache = "epoch_record list"

datatype epoch_error = UnknownEpoch | EpochExhausted | EpochCorrupt | GovernorRefused | PrefixChanged

record checkpoint_cut =
  ct_head_digest :: string
  ct_head_requests :: nat
  ct_trigger :: cut_trigger
  ct_armed :: bool
  ct_bytes_reclaimed :: u64
  ct_bytes_invalidated :: u64
  ct_tokens_invalidated :: "u64 option"

definition epoch_record_new :: "u64 \<Rightarrow> string \<Rightarrow> nat \<Rightarrow> epoch_record" where
  "epoch_record_new epoch digest requests =
     \<lparr>ep_epoch = epoch, ep_head_digest = digest, ep_head_requests = requests, ep_trigger = None, ep_armed = False,
      ep_bytes_reclaimed = 0, ep_bytes_invalidated = 0, ep_tokens_invalidated = None, ep_tokens_reclaimed = None,
      ep_invalidations = 0, ep_aggregate_valid = True, ep_calls = 0, ep_measured_calls = 0, ep_input_tokens = 0,
      ep_cached_tokens = 0, ep_armed_input_tokens = 0, ep_armed_cached_tokens = 0, ep_disarmed_input_tokens = 0,
      ep_disarmed_cached_tokens = 0\<rparr>"

definition token_ratio :: "u64 \<Rightarrow> u64 \<Rightarrow> f64 option" where
  "token_ratio numerator denominator =
     (if 0 < denominator then Some (f64_div (f64_of_u64 numerator) (f64_of_u64 denominator)) else None)"

definition hit_rate :: "epoch_record \<Rightarrow> f64 option" where
  "hit_rate r = (if ep_aggregate_valid r then token_ratio (ep_cached_tokens r) (ep_input_tokens r) else None)"

definition armed_hit_rate :: "epoch_record \<Rightarrow> f64 option" where
  "armed_hit_rate r =
     (if ep_aggregate_valid r then token_ratio (ep_armed_cached_tokens r) (ep_armed_input_tokens r) else None)"

definition disarmed_hit_rate :: "epoch_record \<Rightarrow> f64 option" where
  "disarmed_hit_rate r =
     (if ep_aggregate_valid r then token_ratio (ep_disarmed_cached_tokens r) (ep_disarmed_input_tokens r) else None)"

definition epoch_start :: "epoch_cache \<Rightarrow> string \<Rightarrow> nat \<Rightarrow> epoch_error + (epoch_cache \<times> u64)" where
  "epoch_start cache digest requests =
     res_bind (if cache = [] then Inr 0 else ok_or (checked_add (ep_epoch (last cache)) 1) EpochExhausted)
       (\<lambda>epoch. Inr (cache @ [epoch_record_new epoch digest requests], epoch))"

text \<open>\<open>start\<close> has just pushed the record \<open>cut\<close> then edits, so \<open>last_mut\<close> finds it.\<close>

definition cut_record :: "checkpoint_cut \<Rightarrow> epoch_record \<Rightarrow> epoch_record" where
  "cut_record request r =
     r\<lparr>ep_trigger := Some (ct_trigger request), ep_armed := ct_armed request, ep_bytes_reclaimed := ct_bytes_reclaimed request,
       ep_bytes_invalidated := ct_bytes_invalidated request,
       ep_tokens_invalidated := (if ct_trigger request = ErasureCut then None else ct_tokens_invalidated request),
       ep_invalidations := 1\<rparr>"

definition epoch_cut :: "epoch_cache \<Rightarrow> checkpoint_cut \<Rightarrow> epoch_error + (epoch_cache \<times> u64)" where
  "epoch_cut cache request =
     res_bind (epoch_start cache (ct_head_digest request) (ct_head_requests request))
       (\<lambda>(started, epoch).
          if started = [] then Inl UnknownEpoch
          else Inr (butlast started @ [cut_record request (last started)], epoch))"

definition add_usage :: "epoch_record \<Rightarrow> u64 \<Rightarrow> u64 \<Rightarrow> bool \<Rightarrow> epoch_error + epoch_record" where
  "add_usage r input cached armed =
     (let plus = (\<lambda>v i. ok_or (checked_add v i) EpochExhausted)
      in res_bind (plus (ep_input_tokens r) input) (\<lambda>total.
         res_bind (plus (ep_cached_tokens r) cached) (\<lambda>hits.
         let r1 = r\<lparr>ep_input_tokens := total, ep_cached_tokens := hits\<rparr>
         in if armed
            then res_bind (plus (ep_armed_input_tokens r) input) (\<lambda>t.
                 res_bind (plus (ep_armed_cached_tokens r) cached) (\<lambda>h.
                 Inr (r1\<lparr>ep_armed_input_tokens := t, ep_armed_cached_tokens := h\<rparr>)))
            else res_bind (plus (ep_disarmed_input_tokens r) input) (\<lambda>t.
                 res_bind (plus (ep_disarmed_cached_tokens r) cached) (\<lambda>h.
                 Inr (r1\<lparr>ep_disarmed_input_tokens := t, ep_disarmed_cached_tokens := h\<rparr>))))))"

fun usage_pair :: "u64 option \<Rightarrow> u64 option \<Rightarrow> (u64 \<times> u64) option" where
  "usage_pair (Some i) (Some c) = (if c \<le> i then Some (i, c) else None)"
| "usage_pair _ _ = None"

text \<open>The record after an observation, and the error of the two counters.\<close>

definition record_observe ::
  "epoch_record \<Rightarrow> u64 option \<Rightarrow> u64 option \<Rightarrow> bool \<Rightarrow> epoch_record \<times> (epoch_error + unit)" where
  "record_observe r input cached armed =
     (case checked_add (ep_calls r) 1 of
        None \<Rightarrow> (r, Inl EpochExhausted)
      | Some calls \<Rightarrow>
          let r1 = r\<lparr>ep_calls := calls\<rparr>
          in case usage_pair input cached of
               None \<Rightarrow> (r1, Inr ())
             | Some (i, c) \<Rightarrow>
                 (case checked_add (ep_measured_calls r1) 1 of
                    None \<Rightarrow> (r1, Inl EpochExhausted)
                  | Some measured \<Rightarrow>
                      let r2 = r1\<lparr>ep_measured_calls := measured\<rparr>
                      in if \<not> ep_aggregate_valid r2 then (r2, Inr ())
                         else case add_usage r2 i c armed of
                                Inl e \<Rightarrow> (r2\<lparr>ep_aggregate_valid := False\<rparr>, Inr ())
                              | Inr staged \<Rightarrow> (staged, Inr ())))"

definition epoch_observe ::
  "epoch_cache \<Rightarrow> u64 \<Rightarrow> u64 option \<Rightarrow> u64 option \<Rightarrow> bool \<Rightarrow> epoch_cache \<times> (epoch_error + unit)" where
  "epoch_observe cache epoch input cached armed =
     (case find (\<lambda>r. ep_epoch r = epoch) cache of
        None \<Rightarrow> (cache, Inl UnknownEpoch)
      | Some r \<Rightarrow>
          (update_first (\<lambda>r. ep_epoch r = epoch) (\<lambda>r. fst (record_observe r input cached armed)) cache,
           snd (record_observe r input cached armed)))"

definition ascii_hexdigit :: "char \<Rightarrow> bool" where
  "ascii_hexdigit c \<longleftrightarrow> c \<in> set ''0123456789abcdefABCDEF''"

definition digest_text :: "string \<Rightarrow> bool" where
  "digest_text s \<longleftrightarrow> length s = 64 \<and> list_all ascii_hexdigit s"

definition record_corrupt :: "nat \<Rightarrow> epoch_record \<Rightarrow> bool" where
  "record_corrupt index r \<longleftrightarrow>
     ep_epoch r \<noteq> index \<or> \<not> digest_text (ep_head_digest r) \<or>
     ep_invalidations r \<noteq> (if ep_trigger r = None then 0 else 1) \<or>
     ep_input_tokens r < ep_cached_tokens r \<or> ep_calls r < ep_measured_calls r \<or>
     ep_armed_input_tokens r < ep_armed_cached_tokens r \<or> ep_disarmed_input_tokens r < ep_disarmed_cached_tokens r \<or>
     checked_add (ep_armed_input_tokens r) (ep_disarmed_input_tokens r) \<noteq> Some (ep_input_tokens r) \<or>
     checked_add (ep_armed_cached_tokens r) (ep_disarmed_cached_tokens r) \<noteq> Some (ep_cached_tokens r)"

fun validate_from :: "nat \<Rightarrow> epoch_cache \<Rightarrow> epoch_error + unit" where
  "validate_from index [] = Inr ()"
| "validate_from index (r # rs) =
     (if record_corrupt index r then Inl EpochCorrupt else validate_from (Suc index) rs)"

definition epoch_validate :: "epoch_cache \<Rightarrow> epoch_error + unit" where
  "epoch_validate cache = validate_from 0 cache"

text \<open>The three operations as commands; a refused command may still have counted the call.\<close>

datatype epoch_command =
    EpochStart string nat
  | EpochCut checkpoint_cut
  | EpochObserve u64 "u64 option" "u64 option" bool

fun epoch_step :: "epoch_cache \<Rightarrow> epoch_command \<Rightarrow> epoch_cache" where
  "epoch_step cache (EpochStart digest requests) =
     (case epoch_start cache digest requests of Inl e \<Rightarrow> cache | Inr (cache', _) \<Rightarrow> cache')"
| "epoch_step cache (EpochCut request) = (case epoch_cut cache request of Inl e \<Rightarrow> cache | Inr (cache', _) \<Rightarrow> cache')"
| "epoch_step cache (EpochObserve epoch input cached armed) = fst (epoch_observe cache epoch input cached armed)"

fun command_digest :: "epoch_command \<Rightarrow> bool" where
  "command_digest (EpochStart digest requests) = digest_text digest"
| "command_digest (EpochCut request) = digest_text (ct_head_digest request)"
| "command_digest (EpochObserve epoch input cached armed) = True"

section \<open>Laws\<close>

lemma policy_operation_round_trip: "policy_operation_parse (policy_operation_str p) = Inr p"
  by (cases p) (simp_all add: policy_operation_parse_def)

lemma policy_operation_parse_Inr: "policy_operation_parse name = Inr p \<Longrightarrow> policy_operation_str p = name"
  by (auto simp: policy_operation_parse_def split: if_splits)

lemma policy_operation_all_complete: "set policy_operation_all = UNIV"
  using policy_operation.exhaust by (auto simp: policy_operation_all_def)

lemma terminal_label_round_trip: "terminal_label_parse (as_terminal_str l) = Some l"
  by (cases l) (simp_all add: terminal_label_parse_def)

lemma terminal_label_parse_Some: "terminal_label_parse name = Some l \<Longrightarrow> as_terminal_str l = name"
  by (auto simp: terminal_label_parse_def split: if_splits)

lemma vocabularies_disjoint: "as_terminal_str l \<noteq> policy_operation_str p"
  by (cases l; cases p) simp_all

lemma validate_from_iff:
  "validate_from n cache = Inr () \<longleftrightarrow> (\<forall>i < length cache. \<not> record_corrupt (n + i) (cache ! i))"
proof (induction cache arbitrary: n)
  case (Cons r rs)
  have "(\<forall>i < length (r # rs). \<not> record_corrupt (n + i) ((r # rs) ! i)) \<longleftrightarrow>
      \<not> record_corrupt n r \<and> (\<forall>i < length rs. \<not> record_corrupt (Suc n + i) (rs ! i))"
    by (simp add: All_less_Suc2)
  with Cons show ?case by simp
qed simp

abbreviation epoch_valid :: "epoch_cache \<Rightarrow> bool" where
  "epoch_valid cache \<equiv> epoch_validate cache = Inr ()"

lemma epoch_valid_iff: "epoch_valid cache \<longleftrightarrow> (\<forall>i < length cache. \<not> record_corrupt i (cache ! i))"
  by (simp add: epoch_validate_def validate_from_iff)

lemma epoch_valid_append [simp]:
  "epoch_valid (cache @ [r]) \<longleftrightarrow> epoch_valid cache \<and> \<not> record_corrupt (length cache) r"
  by (auto simp: epoch_valid_iff nth_append less_Suc_eq)

lemma epoch_valid_index: "epoch_valid cache \<Longrightarrow> i < length cache \<Longrightarrow> ep_epoch (cache ! i) = i"
  by (auto simp: epoch_valid_iff record_corrupt_def)

lemma epoch_valid_epochs: "epoch_valid cache \<Longrightarrow> map ep_epoch cache = [0 ..< length cache]"
  by (auto intro: nth_equalityI simp: epoch_valid_index)

lemma epoch_start_valid:
  assumes "epoch_valid cache"
  shows "epoch_start cache digest requests =
    (if length cache < u64_modulus
     then Inr (cache @ [epoch_record_new (length cache) digest requests], length cache) else Inl EpochExhausted)"
proof (cases "cache = []")
  case False
  then have "ep_epoch (last cache) = length cache - 1"
    using epoch_valid_index [OF assms, of "length cache - 1"] by (simp add: last_conv_nth)
  with False show ?thesis by (cases cache) (auto simp: epoch_start_def checked_add_def)
qed (simp add: epoch_start_def)

lemma epoch_cut_valid:
  assumes "epoch_valid cache"
  shows "epoch_cut cache request =
    (if length cache < u64_modulus
     then Inr (cache @ [cut_record request (epoch_record_new (length cache) (ct_head_digest request) (ct_head_requests request))],
       length cache)
     else Inl EpochExhausted)"
  by (simp add: epoch_cut_def epoch_start_valid [OF assms])

lemma new_record_sound: "\<not> record_corrupt n (epoch_record_new n digest requests) \<longleftrightarrow> digest_text digest"
  by (simp add: record_corrupt_def epoch_record_new_def)

lemma cut_record_sound:
  "\<not> record_corrupt n (cut_record request (epoch_record_new n digest requests)) \<longleftrightarrow> digest_text digest"
  by (simp add: record_corrupt_def epoch_record_new_def cut_record_def)

lemma record_sound:
  "\<not> record_corrupt n r \<longleftrightarrow>
     ep_epoch r = n \<and> digest_text (ep_head_digest r) \<and>
     ep_invalidations r = (if ep_trigger r = None then 0 else 1) \<and>
     ep_cached_tokens r \<le> ep_input_tokens r \<and> ep_measured_calls r \<le> ep_calls r \<and>
     ep_armed_cached_tokens r \<le> ep_armed_input_tokens r \<and>
     ep_disarmed_cached_tokens r \<le> ep_disarmed_input_tokens r \<and>
     ep_input_tokens r = ep_armed_input_tokens r + ep_disarmed_input_tokens r \<and>
     ep_cached_tokens r = ep_armed_cached_tokens r + ep_disarmed_cached_tokens r \<and> ep_input_tokens r < u64_modulus"
  unfolding record_corrupt_def de_Morgan_disj not_not checked_add_Some not_less by auto

text \<open>Because the total bounds its parts, adding usage to a sound record overflows only in the input total.\<close>

lemma add_usage_sound:
  assumes "\<not> record_corrupt n r" and "c \<le> i"
  shows "add_usage r i c armed =
    (if ep_input_tokens r + i < u64_modulus
     then Inr (if armed
       then r\<lparr>ep_input_tokens := ep_input_tokens r + i, ep_cached_tokens := ep_cached_tokens r + c,
         ep_armed_input_tokens := ep_armed_input_tokens r + i, ep_armed_cached_tokens := ep_armed_cached_tokens r + c\<rparr>
       else r\<lparr>ep_input_tokens := ep_input_tokens r + i, ep_cached_tokens := ep_cached_tokens r + c,
         ep_disarmed_input_tokens := ep_disarmed_input_tokens r + i,
         ep_disarmed_cached_tokens := ep_disarmed_cached_tokens r + c\<rparr>)
     else Inl EpochExhausted)"
proof -
  have sums: "ep_input_tokens r = ep_armed_input_tokens r + ep_disarmed_input_tokens r"
    "ep_cached_tokens r = ep_armed_cached_tokens r + ep_disarmed_cached_tokens r"
    "ep_cached_tokens r \<le> ep_input_tokens r"
    using assms(1) by (simp_all add: record_sound)
  show ?thesis
  proof (cases "ep_input_tokens r + i < u64_modulus")
    case True
    then have "ep_cached_tokens r + c < u64_modulus" "ep_armed_input_tokens r + i < u64_modulus"
      "ep_disarmed_input_tokens r + i < u64_modulus" "ep_armed_cached_tokens r + c < u64_modulus"
      "ep_disarmed_cached_tokens r + c < u64_modulus"
      using sums assms(2) by linarith+
    with True show ?thesis by (simp add: add_usage_def checked_add_def)
  qed (simp add: add_usage_def checked_add_def)
qed

lemma usage_pair_le: "usage_pair input cached = Some (i, c) \<Longrightarrow> c \<le> i"
  by (cases "(input, cached)" rule: usage_pair.cases) (auto split: if_splits)

lemma record_observe_measured:
  assumes "\<not> record_corrupt n r" and "usage_pair input cached = Some (i, c)" and "ep_calls r + 1 < u64_modulus"
  defines "r1 \<equiv> r\<lparr>ep_calls := ep_calls r + 1, ep_measured_calls := ep_measured_calls r + 1\<rparr>"
  shows "fst (record_observe r input cached armed) =
    (if \<not> ep_aggregate_valid r then r1
     else case add_usage r1 i c armed of Inl e \<Rightarrow> r1\<lparr>ep_aggregate_valid := False\<rparr> | Inr staged \<Rightarrow> staged)"
proof -
  have "ep_measured_calls r + 1 < u64_modulus" using assms(1,3) by (simp add: record_sound)
  with assms(2,3) show ?thesis by (simp add: record_observe_def checked_add_def r1_def split: sum.split)
qed

lemma record_observe_sound:
  assumes "\<not> record_corrupt n r"
  shows "\<not> record_corrupt n (fst (record_observe r input cached armed))"
proof (cases "ep_calls r + 1 < u64_modulus")
  case True
  show ?thesis
  proof (cases "usage_pair input cached")
    case None
    with True assms show ?thesis by (simp add: record_observe_def record_sound checked_add_def)
  next
    case (Some ic)
    obtain i c where u: "usage_pair input cached = Some (i, c)" using Some by (cases ic) simp
    let ?r = "r\<lparr>ep_calls := ep_calls r + 1, ep_measured_calls := ep_measured_calls r + 1\<rparr>"
    have r1: "\<not> record_corrupt n ?r" using assms by (simp add: record_sound)
    have "\<not> record_corrupt n (?r\<lparr>ep_aggregate_valid := False\<rparr>)" using r1 by (simp add: record_sound)
    moreover have "add_usage ?r i c armed = Inr staged \<Longrightarrow> \<not> record_corrupt n staged" for staged
      using r1 usage_pair_le [OF u] unfolding add_usage_sound [OF r1 usage_pair_le [OF u]]
      by (cases armed) (auto simp: record_sound split: if_splits)
    ultimately show ?thesis
      unfolding record_observe_measured [OF assms u True] using r1 by (auto split: sum.split)
  qed
next
  case False
  with assms show ?thesis by (simp add: record_observe_def checked_add_def)
qed

lemma record_observe_epoch [simp]: "ep_epoch (fst (record_observe r input cached armed)) = ep_epoch r"
  by (auto simp: record_observe_def add_usage_def Let_def ok_or_Inr res_simps split: option.splits sum.splits if_splits)

lemma epoch_observe_nth:
  assumes "epoch_valid cache"
  shows "fst (epoch_observe cache epoch input cached armed) =
    (if epoch < length cache then cache[epoch := fst (record_observe (cache ! epoch) input cached armed)] else cache)"
proof -
  let ?f = "\<lambda>r. fst (record_observe r input cached armed)"
  have d: "distinct (map ep_epoch cache)" using epoch_valid_epochs [OF assms] by simp
  have u: "update_first (\<lambda>r. ep_epoch r = epoch) ?f cache =
      (if epoch < length cache then cache[epoch := ?f (cache ! epoch)] else cache)"
    unfolding update_first_key [OF d]
    by (rule nth_equalityI) (auto simp: epoch_valid_index [OF assms] nth_list_update)
  show ?thesis
  proof (cases "find (\<lambda>r. ep_epoch r = epoch) cache")
    case None
    then have "\<not> epoch < length cache" using epoch_valid_index [OF assms, of epoch] by (auto dest: nth_mem)
    with None show ?thesis by (simp add: epoch_observe_def del: find_None)
  next
    case (Some r)
    then show ?thesis by (simp add: epoch_observe_def u)
  qed
qed

lemma epoch_step_valid:
  assumes "epoch_valid cache" and "command_digest cmd"
  shows "epoch_valid (epoch_step cache cmd)"
proof (cases cmd)
  case (EpochObserve epoch input cached armed)
  with assms(1) show ?thesis
    by (auto simp: epoch_observe_nth [OF assms(1)] epoch_valid_iff nth_list_update record_observe_sound)
qed (use assms in \<open>auto simp: epoch_start_valid epoch_cut_valid new_record_sound cut_record_sound\<close>)

lemma epoch_run_valid:
  assumes "epoch_valid cache" and "list_all command_digest cmds"
  shows "epoch_valid (foldl epoch_step cache cmds)"
  using assms by (induction cmds arbitrary: cache) (simp_all add: epoch_step_valid)

section \<open>Exact totals\<close>

text \<open>\<open>usages\<close> are the observations that measured anything: both counts present, and the cached tokens at most the
  input tokens.\<close>

type_synonym observation = "u64 option \<times> u64 option \<times> bool"

fun usage_of :: "observation \<Rightarrow> (u64 \<times> u64 \<times> bool) list" where
  "usage_of (input, cached, armed) = (case usage_pair input cached of None \<Rightarrow> [] | Some (i, c) \<Rightarrow> [(i, c, armed)])"

definition usages :: "observation list \<Rightarrow> (u64 \<times> u64 \<times> bool) list" where
  "usages obs = concat (map usage_of obs)"

definition total_input :: "(u64 \<times> u64 \<times> bool) list \<Rightarrow> nat" where
  "total_input us = (\<Sum>(i, c, a)\<leftarrow>us. i)"

definition total_cached :: "(u64 \<times> u64 \<times> bool) list \<Rightarrow> nat" where
  "total_cached us = (\<Sum>(i, c, a)\<leftarrow>us. c)"

lemma totals_simps [simp]:
  "usages [] = []" "usages (obs @ [ob]) = usages obs @ usage_of ob"
  "total_input [] = 0" "total_cached [] = 0"
  "total_input (us @ vs) = total_input us + total_input vs" "total_cached (us @ vs) = total_cached us + total_cached vs"
  "total_input [(i, c, a)] = i" "total_cached [(i, c, a)] = c"
  by (simp_all add: usages_def total_input_def total_cached_def)

definition record_observes :: "epoch_record \<Rightarrow> observation list \<Rightarrow> epoch_record" where
  "record_observes r obs = foldl (\<lambda>r (i, c, a). fst (record_observe r i c a)) r obs"

definition unobserved :: "epoch_record \<Rightarrow> bool" where
  "unobserved r \<longleftrightarrow>
     ep_aggregate_valid r \<and> ep_calls r = 0 \<and> ep_measured_calls r = 0 \<and> ep_input_tokens r = 0 \<and>
     ep_cached_tokens r = 0 \<and> ep_armed_input_tokens r = 0 \<and> ep_armed_cached_tokens r = 0 \<and>
     ep_disarmed_input_tokens r = 0 \<and> ep_disarmed_cached_tokens r = 0"

definition accounts_for :: "epoch_record \<Rightarrow> observation list \<Rightarrow> bool" where
  "accounts_for r obs \<longleftrightarrow>
     (let us = usages obs; armed = filter (\<lambda>(i, c, a). a) us
      in ep_calls r = length obs \<and> ep_measured_calls r = length us \<and>
         (ep_aggregate_valid r \<longleftrightarrow> total_input us < u64_modulus) \<and>
         (ep_aggregate_valid r \<longrightarrow>
            ep_input_tokens r = total_input us \<and> ep_cached_tokens r = total_cached us \<and>
            ep_armed_input_tokens r = total_input armed \<and> ep_armed_cached_tokens r = total_cached armed))"

lemma record_observes_sound:
  assumes "\<not> record_corrupt n r"
  shows "\<not> record_corrupt n (record_observes r obs)"
proof (induction obs rule: rev_induct)
  case (snoc ob obs)
  then show ?case by (cases ob) (simp add: record_observes_def record_observe_sound)
qed (simp add: record_observes_def assms)

lemma accounts_step:
  assumes r: "\<not> record_corrupt n r" and acc: "accounts_for r obs" and len: "length obs + 1 < u64_modulus"
  shows "accounts_for (fst (record_observe r input cached armed)) (obs @ [(input, cached, armed)])"
proof (cases "usage_pair input cached")
  case None
  with acc len show ?thesis by (auto simp: accounts_for_def record_observe_def checked_add_def)
next
  case (Some ic)
  obtain i c where u: "usage_pair input cached = Some (i, c)" using Some by (cases ic) simp
  let ?r = "r\<lparr>ep_calls := ep_calls r + 1, ep_measured_calls := ep_measured_calls r + 1\<rparr>"
  have calls: "ep_calls r + 1 < u64_modulus" using acc len by (simp add: accounts_for_def Let_def)
  have "\<not> record_corrupt n ?r" using r by (simp add: record_corrupt_def)
  note add = add_usage_sound [OF this usage_pair_le [OF u]]
  show ?thesis
    using acc unfolding record_observe_measured [OF r u calls] add accounts_for_def
    by (auto simp: u Let_def)
qed

lemma record_observes_accounts:
  assumes "\<not> record_corrupt n r" and "unobserved r" and "length obs < u64_modulus"
  shows "accounts_for (record_observes r obs) obs"
  using assms(3)
proof (induction obs rule: rev_induct)
  case Nil
  from assms(2) show ?case by (simp add: accounts_for_def unobserved_def record_observes_def)
next
  case (snoc ob obs)
  obtain i c a where ob: "ob = (i, c, a)" by (cases ob)
  have "record_observes r (obs @ [ob]) = fst (record_observe (record_observes r obs) i c a)"
    by (simp add: record_observes_def ob)
  with accounts_step [OF record_observes_sound [OF assms(1)] snoc.IH] snoc.prems show ?case by (simp add: ob)
qed

fun observations_of :: "u64 \<Rightarrow> epoch_command list \<Rightarrow> observation list" where
  "observations_of e [] = []"
| "observations_of e (EpochObserve e' i c a # cmds) =
     (if e' = e then (i, c, a) # observations_of e cmds else observations_of e cmds)"
| "observations_of e (_ # cmds) = observations_of e cmds"

text \<open>The record of an epoch depends on the observations of that epoch alone.\<close>

lemma epoch_run_record:
  assumes "epoch_valid cache" and "list_all command_digest cmds" and "e < length cache"
  shows "foldl epoch_step cache cmds ! e = record_observes (cache ! e) (observations_of e cmds) \<and>
    e < length (foldl epoch_step cache cmds)"
  using assms
proof (induction cmds arbitrary: cache)
  case (Cons cmd cmds)
  from Cons.prems have v: "epoch_valid (epoch_step cache cmd)" by (auto intro: epoch_step_valid)
  have one: "epoch_step cache cmd ! e = record_observes (cache ! e) (observations_of e [cmd]) \<and>
      e < length (epoch_step cache cmd)"
    using Cons.prems
    by (cases cmd) (auto simp: record_observes_def epoch_start_valid epoch_cut_valid epoch_observe_nth nth_append)
  have "observations_of e (cmd # cmds) = observations_of e [cmd] @ observations_of e cmds" by (cases cmd) simp_all
  with Cons.IH [OF v] Cons.prems one show ?case by (simp add: record_observes_def)
qed (simp add: record_observes_def)

lemma epoch_run_accounts:
  assumes "epoch_valid cache" and "list_all command_digest cmds" and "e < length cache" and "unobserved (cache ! e)"
    and "length (observations_of e cmds) < u64_modulus"
  shows "accounts_for (foldl epoch_step cache cmds ! e) (observations_of e cmds)"
proof -
  have "\<not> record_corrupt e (cache ! e)" using assms(1,3) by (simp add: epoch_valid_iff)
  from record_observes_accounts [OF this assms(4,5)] epoch_run_record [OF assms(1-3)] show ?thesis by simp
qed

end
