(* ===== verification/Parameters.thy ===== *)
theory Parameters
  imports F64
begin

text \<open>
  The parameter registry of \<^verbatim>\<open>src/context_policy/params.rs\<close>.  The table's \<open>f64\<close> literals are written as
  their bit patterns.  An update is \<^const>\<open>None\<close> where the code panics; the laws show that it never does.
\<close>

datatype parameter_class = SafetyInvariant | ProfileTunable | Calibrated | OperatorEnvelope | UnknownClass

record parameter =
  pm_name :: string
  pm_class :: parameter_class
  pm_default :: f64

definition parameter_new :: "string \<Rightarrow> parameter_class \<Rightarrow> f64 \<Rightarrow> parameter" where
  "parameter_new name cls dflt = \<lparr>pm_name = name, pm_class = cls, pm_default = dflt\<rparr>"

definition PARAMETERS :: "parameter list" where
  "PARAMETERS =
     [
      parameter_new ''safety.classification_floor'' SafetyInvariant 0x3FF0000000000000,
      parameter_new ''safety.mandatory_reserve'' SafetyInvariant 0x3FF0000000000000,
      parameter_new ''queue.cycle_slots'' ProfileTunable 0x4014000000000000,
      parameter_new ''queue.monitor_share'' ProfileTunable 0x3FF0000000000000,
      parameter_new ''queue.max_retries'' ProfileTunable 0x4010000000000000,
      parameter_new ''governor.per_window_quota'' Calibrated 0x40B0000000000000,
      parameter_new ''governor.per_turn_ceiling'' OperatorEnvelope 0x4090000000000000,
      parameter_new ''governor.alpha'' SafetyInvariant 0x3FE0000000000000,
      parameter_new ''governor.quota_floor'' OperatorEnvelope 0x4050000000000000,
      parameter_new ''pressure.arm'' ProfileTunable 0x3FE999999999999A,
      parameter_new ''pressure.disarm'' ProfileTunable 0x3FE6666666666666,
      parameter_new ''pressure.target'' ProfileTunable 0x3FE3333333333333,
      parameter_new ''pressure.minimum_floor'' OperatorEnvelope 0,
      parameter_new ''ladder.escalation_bound'' OperatorEnvelope 0x4018000000000000,
      parameter_new ''ladder.confidence_floor'' ProfileTunable 0x3FE0000000000000,
      parameter_new ''monitor.sticky_cap'' ProfileTunable 0x4020000000000000,
      parameter_new ''monitor.relaxation_windows'' ProfileTunable 0x3FF0000000000000,
      parameter_new ''progress.mandatory_queue_weight'' ProfileTunable 0x3FF0000000000000,
      parameter_new ''progress.retry_weight'' ProfileTunable 0x3FF0000000000000,
      parameter_new ''progress.terminal_reserve'' SafetyInvariant 0x3FF0000000000000,
      parameter_new ''profile.reclaim_aggressiveness'' ProfileTunable 0x3FF0000000000000,
      parameter_new ''profile.log_verbosity'' ProfileTunable 0x3FF0000000000000
     ]"

definition lookup_parameter :: "string \<Rightarrow> parameter option" where
  "lookup_parameter name = find (\<lambda>p. pm_name p = name) PARAMETERS"

definition calibratable_while_armed :: "string \<Rightarrow> bool" where
  "calibratable_while_armed name =
     (case lookup_parameter name of None \<Rightarrow> False | Some p \<Rightarrow> pm_class p \<noteq> Calibrated)"

datatype update_authority = ProfileLoad | CalibrationTxn | Operator

record parameter_update =
  pu_name :: string
  pu_prior :: f64
  pu_value :: f64
  pu_logical_time :: u64
  pu_authority :: update_authority

datatype update_error =
  UpdateUnknown | UpdateSafetyInvariant | WrongAuthority | ArmedCalibration | InvalidValue | NonMonotonicTime

record parameter_registry =
  pr_values :: "string \<Rightarrow> f64 option"
  pr_updates :: "parameter_update list"

definition default_registry :: parameter_registry where
  "default_registry =
     \<lparr>pr_values = foldl (\<lambda>m p. m(pm_name p \<mapsto> pm_default p)) Map.empty PARAMETERS, pr_updates = []\<rparr>"

definition class_of :: "string \<Rightarrow> parameter_class" where
  "class_of name = (case lookup_parameter name of None \<Rightarrow> UnknownClass | Some p \<Rightarrow> pm_class p)"

definition registry_value :: "parameter_registry \<Rightarrow> string \<Rightarrow> f64 option" where
  "registry_value reg name = pr_values reg name"

definition positive_names :: "string list" where
  "positive_names = [''governor.per_window_quota'', ''governor.per_turn_ceiling'', ''governor.quota_floor'']"

definition unit_names :: "string list" where
  "unit_names =
     [''governor.alpha'', ''pressure.arm'', ''pressure.disarm'', ''pressure.target'', ''pressure.minimum_floor'',
      ''ladder.confidence_floor'']"

definition valid_value :: "string \<Rightarrow> f64 \<Rightarrow> bool" where
  "valid_value name v =
     (if \<not> f64_finite v \<or> f64_lt v 0 then False
      else if name \<in> set positive_names \<and> f64_key v = 0 then False
      else if name \<in> set unit_names then f64_le v 0x3FF0000000000000
      else True)"

fun class_authority :: "parameter_class \<Rightarrow> update_error + update_authority" where
  "class_authority SafetyInvariant = Inl UpdateSafetyInvariant"
| "class_authority ProfileTunable = Inr ProfileLoad"
| "class_authority Calibrated = Inr CalibrationTxn"
| "class_authority OperatorEnvelope = Inr Operator"
| "class_authority UnknownClass = Inl UpdateUnknown"

definition registry_update ::
  "parameter_registry \<Rightarrow> string \<Rightarrow> f64 \<Rightarrow> u64 \<Rightarrow> update_authority \<Rightarrow> bool \<Rightarrow>
     (update_error + parameter_registry) option" where
  "registry_update reg name v logical_time authority armed =
     (case lookup_parameter name of
        None \<Rightarrow> Some (Inl UpdateUnknown)
      | Some p \<Rightarrow>
          (case class_authority (pm_class p) of
             Inl e \<Rightarrow> Some (Inl e)
           | Inr expected \<Rightarrow>
               if authority \<noteq> expected then Some (Inl WrongAuthority)
               else if armed \<and> pm_class p = Calibrated then Some (Inl ArmedCalibration)
               else if \<not> valid_value (pm_name p) v then Some (Inl InvalidValue)
               else if pr_updates reg \<noteq> [] \<and> logical_time \<le> pu_logical_time (last (pr_updates reg))
               then Some (Inl NonMonotonicTime)
               else case pr_values reg (pm_name p) of
                      None \<Rightarrow> None
                    | Some prior \<Rightarrow>
                        Some (Inr \<lparr>pr_values = (pr_values reg)(pm_name p \<mapsto> v),
                          pr_updates = pr_updates reg @
                            [\<lparr>pu_name = pm_name p, pu_prior = prior, pu_value = v, pu_logical_time = logical_time,
                              pu_authority = authority\<rparr>]\<rparr>)))"

text \<open>A sequence of update requests; a refused one leaves the registry as it was.\<close>

type_synonym update_request = "string \<times> f64 \<times> u64 \<times> update_authority \<times> bool"

fun registry_run :: "parameter_registry \<Rightarrow> update_request list \<Rightarrow> parameter_registry option" where
  "registry_run reg [] = Some reg"
| "registry_run reg ((name, v, logical_time, authority, armed) # us) =
     (case registry_update reg name v logical_time authority armed of
        None \<Rightarrow> None
      | Some (Inl e) \<Rightarrow> registry_run reg us
      | Some (Inr reg') \<Rightarrow> registry_run reg' us)"

section \<open>Laws\<close>

text \<open>The log explains the values: replayed over the defaults, every entry finds its recorded prior value, and the
  last value of each name is the current one.\<close>

fun replay_updates :: "(string \<Rightarrow> f64 option) \<Rightarrow> parameter_update list \<Rightarrow> (string \<Rightarrow> f64 option) option" where
  "replay_updates m [] = Some m"
| "replay_updates m (u # us) =
     (if m (pu_name u) = Some (pu_prior u) then replay_updates (m(pu_name u \<mapsto> pu_value u)) us else None)"

definition registry_ok :: "parameter_registry \<Rightarrow> bool" where
  "registry_ok reg \<longleftrightarrow>
     (\<forall>name. pr_values reg name \<noteq> None \<longleftrightarrow> class_of name \<noteq> UnknownClass) \<and>
     (\<forall>name v. pr_values reg name = Some v \<longrightarrow> valid_value name v) \<and>
     (\<forall>name. class_of name = SafetyInvariant \<longrightarrow> pr_values reg name = pr_values default_registry name) \<and>
     (\<forall>u \<in> set (pr_updates reg). class_authority (class_of (pu_name u)) = Inr (pu_authority u)) \<and>
     sorted_wrt (<) (map pu_logical_time (pr_updates reg)) \<and>
     replay_updates (pr_values default_registry) (pr_updates reg) = Some (pr_values reg)"

lemma parameters_distinct: "distinct (map pm_name PARAMETERS)"
  by code_simp

lemma parameters_classed: "list_all (\<lambda>p. pm_class p \<noteq> UnknownClass) PARAMETERS"
  by code_simp

lemma parameters_valid: "list_all (\<lambda>p. valid_value (pm_name p) (pm_default p)) PARAMETERS"
  by (simp add: PARAMETERS_def parameter_new_def valid_value_def positive_names_def unit_names_def f64_finite_def
      f64_lt_def f64_le_def f64_key_def f64_nan_def f64_negative_def f64_magnitude_def unat_numeral)

lemma insert_all:
  "distinct (map key ps) \<Longrightarrow>
   foldl (\<lambda>m p. m(key p \<mapsto> dflt p)) m0 ps k =
     (case find (\<lambda>p. key p = k) ps of Some p \<Rightarrow> Some (dflt p) | None \<Rightarrow> m0 k)"
proof (induction ps arbitrary: m0)
  case (Cons p ps)
  show ?case
  proof (cases "key p = k")
    case True
    with Cons.prems have "find (\<lambda>p. key p = k) ps = None" by (auto simp: rev_image_eqI)
    with True Cons show ?thesis by simp
  qed (use Cons in \<open>simp split: option.split\<close>)
qed simp

lemma default_values:
  "pr_values default_registry name = map_option pm_default (lookup_parameter name)"
  using insert_all [OF parameters_distinct, of pm_default Map.empty name]
  by (simp add: default_registry_def lookup_parameter_def split: option.split)

lemma lookup_parameter_Some:
  "lookup_parameter name = Some p \<Longrightarrow>
     pm_name p = name \<and> p \<in> set PARAMETERS \<and> pm_class p \<noteq> UnknownClass \<and> valid_value name (pm_default p)"
  using find_SomeD [of _ PARAMETERS p] parameters_classed parameters_valid
  by (fastforce simp: lookup_parameter_def list_all_iff)

lemma default_registry_ok: "registry_ok default_registry"
  using lookup_parameter_Some
  by (auto simp: registry_ok_def default_values class_of_def split: option.splits)
    (auto simp: default_registry_def)

lemma replay_append:
  "replay_updates m (us @ vs) = (case replay_updates m us of None \<Rightarrow> None | Some m' \<Rightarrow> replay_updates m' vs)"
  by (induction us arbitrary: m) simp_all

text \<open>What an accepted update is: a declared name outside the safety invariants, the authority of its class, a valid
  value and a later time.\<close>

lemma registry_update_Inr:
  "registry_update reg name v logical_time authority armed = Some (Inr reg') \<Longrightarrow>
   \<exists>prior. class_authority (class_of name) = Inr authority \<and> \<not> (armed \<and> class_of name = Calibrated) \<and>
     valid_value name v \<and> (pr_updates reg \<noteq> [] \<longrightarrow> pu_logical_time (last (pr_updates reg)) < logical_time) \<and>
     pr_values reg name = Some prior \<and>
     reg' = \<lparr>pr_values = (pr_values reg)(name \<mapsto> v), pr_updates = pr_updates reg @
       [\<lparr>pu_name = name, pu_prior = prior, pu_value = v, pu_logical_time = logical_time, pu_authority = authority\<rparr>]\<rparr>"
  by (auto simp: registry_update_def class_of_def dest!: lookup_parameter_Some
      split: option.splits sum.splits if_splits)

lemma registry_update_total:
  assumes "registry_ok reg"
  shows "\<exists>r. registry_update reg name v logical_time authority armed = Some r"
proof (cases "lookup_parameter name")
  case (Some p)
  then have "class_of (pm_name p) \<noteq> UnknownClass"
    using lookup_parameter_Some [OF Some] by (simp add: class_of_def)
  then have "pr_values reg (pm_name p) \<noteq> None" using assms unfolding registry_ok_def by blast
  then obtain prior where "pr_values reg (pm_name p) = Some prior" by blast
  with Some show ?thesis by (auto simp: registry_update_def split: sum.split)
qed (simp add: registry_update_def)

lemma sorted_wrt_snoc_last:
  "sorted_wrt (<) xs \<Longrightarrow> xs \<noteq> [] \<longrightarrow> last xs < (x :: nat) \<Longrightarrow> sorted_wrt (<) (xs @ [x])"
proof (induction xs)
  case (Cons a xs)
  then show ?case by (cases xs) (auto intro: less_trans)
qed simp

lemma registry_update_ok:
  assumes ok: "registry_ok reg" and up: "registry_update reg name v logical_time authority armed = Some (Inr reg')"
  shows "registry_ok reg'"
proof -
  from registry_update_Inr [OF up] obtain prior where
    cls: "class_authority (class_of name) = Inr authority" and val: "valid_value name v"
    and time: "pr_updates reg \<noteq> [] \<longrightarrow> pu_logical_time (last (pr_updates reg)) < logical_time"
    and prior: "pr_values reg name = Some prior"
    and reg': "reg' = \<lparr>pr_values = (pr_values reg)(name \<mapsto> v), pr_updates = pr_updates reg @
       [\<lparr>pu_name = name, pu_prior = prior, pu_value = v, pu_logical_time = logical_time, pu_authority = authority\<rparr>]\<rparr>"
    by blast
  have "class_of name \<noteq> SafetyInvariant" "class_of name \<noteq> UnknownClass" using cls by auto
  moreover have "sorted_wrt (<) (map pu_logical_time (pr_updates reg) @ [logical_time])"
    using ok time by (intro sorted_wrt_snoc_last) (auto simp: registry_ok_def last_map)
  ultimately show ?thesis
    using ok val prior cls unfolding registry_ok_def reg' by (auto simp: replay_append)
qed

lemma registry_run_ok:
  assumes "registry_ok reg"
  shows "\<exists>reg'. registry_run reg us = Some reg' \<and> registry_ok reg'"
  using assms
proof (induction us arbitrary: reg)
  case (Cons u us)
  obtain name v logical_time authority armed where u: "u = (name, v, logical_time, authority, armed)"
    by (cases u)
  from registry_update_total [OF Cons.prems] obtain r
    where r: "registry_update reg name v logical_time authority armed = Some r" by blast
  show ?case
  proof (cases r)
    case (Inl e)
    with r Cons show ?thesis by (simp add: u)
  next
    case (Inr reg1)
    with r Cons.IH [OF registry_update_ok [OF Cons.prems]] show ?thesis by (simp add: u)
  qed
qed simp

end
