(* ===== verification/Controller.thy ===== *)
theory Controller
  imports Canonical Governor Ladder Epochs Parameters "HOL-Library.Monad_Syntax"
begin

text \<open>
  The controller of the policy plane, \<^verbatim>\<open>src/context_policy/runtime.rs\<close>, which composes the governor, the
  pressure tiers, the monitor, the ladder, the epoch cache and the parameter registry, and the seam through which
  a session feeds it bulk tool results, \<open>ingest_bulk\<close> of \<^verbatim>\<open>src/session/context_persist.rs\<close>.  An operation is
  \<^const>\<open>None\<close> where the code panics.
\<close>

section \<open>State\<close>

record bulk_proposal =
  bp_source :: u64
  bp_logical_time :: u64
  bp_admission :: admission
  bp_armed :: bool
  bp_input_bytes :: u64
  bp_window :: u64

record policy_event =
  pe_logical_time :: u64
  pe_source :: u64
  pe_operation :: string
  pe_input_bytes :: u64
  pe_admitted_bytes :: u64
  pe_reclaimed_bytes :: u64
  pe_armed_before :: bool
  pe_armed_after :: bool

record controller =
  pc_governor :: governor
  pc_pressure :: pressure
  pc_monitor :: runtime_monitor
  pc_cache :: epoch_cache
  pc_events :: "policy_event list"
  pc_logical_time :: u64
  pc_terminal_outcome :: "string option"
  pc_terminal_fit_saturated :: "bool option"
  pc_terminal_fit_room :: "u64 option"
  pc_terminal_write_failed :: bool
  pc_registry :: parameter_registry
  pc_turn_window :: u64
  pc_pressure_tier_before :: safety_tier
  pc_noop_steps :: u64

text \<open>The JSON value of a reloaded line is known through \<open>get(name).and_then(as_str | as_u64 | as_bool)\<close>, which
  \<open>text\<close>, \<open>number\<close> and \<open>flag\<close> stand for.\<close>

definition policy_event_from_json ::
  "(string \<Rightarrow> string option) \<Rightarrow> (string \<Rightarrow> u64 option) \<Rightarrow> (string \<Rightarrow> bool option) \<Rightarrow> string + policy_event" where
  "policy_event_from_json text number flag =
     (let number_field = (\<lambda>name. ok_or (number name) (''context policy event missing '' @ name));
          flag_field = (\<lambda>name. ok_or (flag name) (''context policy event missing '' @ name))
      in res_bind (ok_or (text ''operation'') ''context policy event missing operation'') (\<lambda>operation.
         res_bind (number_field ''logical_time'') (\<lambda>logical_time.
         res_bind (number_field ''source'') (\<lambda>source.
         res_bind (policy_operation_parse operation) (\<lambda>parsed.
         res_bind (number_field ''input_bytes'') (\<lambda>input_bytes.
         res_bind (number_field ''admitted_bytes'') (\<lambda>admitted_bytes.
         res_bind (number_field ''reclaimed_bytes'') (\<lambda>reclaimed_bytes.
         res_bind (flag_field ''armed_before'') (\<lambda>armed_before.
         res_bind (flag_field ''armed_after'') (\<lambda>armed_after.
         Inr \<lparr>pe_logical_time = logical_time, pe_source = source, pe_operation = policy_operation_str parsed,
           pe_input_bytes = input_bytes, pe_admitted_bytes = admitted_bytes, pe_reclaimed_bytes = reclaimed_bytes,
           pe_armed_before = armed_before, pe_armed_after = armed_after\<rparr>))))))))))"

section \<open>Construction\<close>

definition param :: "parameter_registry \<Rightarrow> string \<Rightarrow> f64 option" where
  "param reg name = registry_value reg name"

definition param_u64 :: "parameter_registry \<Rightarrow> string \<Rightarrow> u64 option" where
  "param_u64 reg name = map_option f64_to_u64 (param reg name)"

definition param_usize :: "parameter_registry \<Rightarrow> string \<Rightarrow> nat option" where
  "param_usize reg name = map_option f64_to_u64 (param reg name)"

fun expect :: "'e + 'a \<Rightarrow> 'a option" where
  "expect (Inl e) = None"
| "expect (Inr x) = Some x"

definition from_registry :: "parameter_registry \<Rightarrow> controller option" where
  "from_registry reg = do {
     quota \<leftarrow> param_u64 reg ''governor.per_window_quota'';
     ceiling \<leftarrow> param_u64 reg ''governor.per_turn_ceiling'';
     alpha \<leftarrow> param reg ''governor.alpha'';
     quota_floor \<leftarrow> param_u64 reg ''governor.quota_floor'';
     g \<leftarrow> governor_new \<lparr>gc_per_window_quota = quota, gc_per_turn_ceiling = ceiling, gc_alpha = alpha,
       gc_quota_floor = quota_floor\<rparr>;
     arm \<leftarrow> param reg ''pressure.arm'';
     disarm \<leftarrow> param reg ''pressure.disarm'';
     target \<leftarrow> param reg ''pressure.target'';
     t \<leftarrow> expect (thresholds_new arm disarm target);
     cap \<leftarrow> param_usize reg ''monitor.sticky_cap'';
     m \<leftarrow> monitor_new (cap mod 4294967296);
     Some \<lparr>pc_governor = g, pc_pressure = pressure_new t, pc_monitor = m, pc_cache = [], pc_events = [],
       pc_logical_time = 0, pc_terminal_outcome = None, pc_terminal_fit_saturated = None, pc_terminal_fit_room = None,
       pc_terminal_write_failed = False, pc_registry = reg, pc_turn_window = 0, pc_pressure_tier_before = Disarmed,
       pc_noop_steps = 0\<rparr>
   }"

section \<open>Operations\<close>

definition observe_pressure_signal :: "runtime_monitor \<Rightarrow> safety_tier \<Rightarrow> safety_tier \<Rightarrow> runtime_monitor" where
  "observe_pressure_signal m tier_before tier_after =
     begin_window (if tier_before \<noteq> tier_after then monitor_observe m Thrash else m) (tier_after = Armed)"

definition propose_bulk :: "controller \<Rightarrow> string \<Rightarrow> nat \<Rightarrow> f64 \<Rightarrow> (controller \<times> bulk_proposal) option" where
  "propose_bulk c tool input_bytes projected_pressure = do {
     let logical_time = saturating_add (pc_logical_time c) 1;
     let source = unat (digest (string_bytes tool));
     minimum_floor \<leftarrow> param (pc_registry c) ''pressure.minimum_floor'';
     p \<leftarrow> pressure_observe (pc_pressure c) projected_pressure projected_pressure minimum_floor;
     (g, a) \<leftarrow> governor_admit (pc_governor c) source input_bytes (pc_turn_window c);
     Some (c\<lparr>pc_logical_time := logical_time, pc_pressure := p, pc_governor := g\<rparr>,
       \<lparr>bp_source = source, bp_logical_time = logical_time, bp_admission = a, bp_armed = (ps_tier p = Armed),
        bp_input_bytes = input_bytes, bp_window = pc_turn_window c\<rparr>)
   }"

definition begin_session_window :: "controller \<Rightarrow> controller option" where
  "begin_session_window c = do {
     g \<leftarrow> (if gv_active_window (pc_governor c) = None then Some (pc_governor c)
           else map_option fst (finish_window (pc_governor c) (pc_turn_window c)));
     Some (c\<lparr>pc_governor := begin_turn g, pc_turn_window := saturating_add (pc_turn_window c) 1\<rparr>)
   }"

definition window_progress_psi :: "controller \<Rightarrow> u64" where
  "window_progress_psi c =
     (let s = gv_state (pc_governor c)
      in if gs_window_admitted s = 0 then 0
         else let ratio = f64_div (f64_of_u64 (gs_window_reclaimed s)) (f64_of_u64 (gs_window_admitted s))
              in f64_to_u64 (f64_mul (f64_sub f64_one (f64_min ratio f64_one)) 0x4059000000000000))"

definition finish_session_window :: "controller \<Rightarrow> controller option" where
  "finish_session_window c =
     (let s = gv_state (pc_governor c);
          noop = (0 < gs_window_admitted s \<and> gs_window_reclaimed s = 0)
      in do {
        (g, _) \<leftarrow> finish_window (pc_governor c) (pc_turn_window c);
        Some (c\<lparr>pc_noop_steps := (if noop then saturating_add (pc_noop_steps c) 1 else pc_noop_steps c),
          pc_governor := g\<rparr>)
      })"

definition bulk_operation :: "admission \<Rightarrow> string \<Rightarrow> policy_operation" where
  "bulk_operation a rung_name =
     (case a of
        Quiesce \<Rightarrow> PolicyQuiesceRate
      | _ \<Rightarrow> (case policy_operation_parse rung_name of Inr p \<Rightarrow> p | Inl e \<Rightarrow> PolicyDropWithHandle))"

definition complete_bulk :: "controller \<Rightarrow> bulk_proposal \<Rightarrow> byte list \<Rightarrow> nat \<Rightarrow> f64 \<Rightarrow> controller option" where
  "complete_bulk c proposal bytes admitted_bytes admitted_pressure = do {
     let reclaimed = saturating_sub (length bytes) admitted_bytes;
     let settled = settle_admission (pc_governor c) (bp_source proposal) (bp_window proposal) (bp_input_bytes proposal)
       admitted_bytes;
     g \<leftarrow> observe_reclaim settled reclaimed (bp_window proposal);
     let rung_name = choice_operation (escalate 0 u64_max (degradation_of admitted_bytes reclaimed));
     minimum_floor \<leftarrow> param (pc_registry c) ''pressure.minimum_floor'';
     p \<leftarrow> pressure_observe (pc_pressure c) admitted_pressure admitted_pressure minimum_floor;
     let after = ps_tier p;
     let m = observe_pressure_signal (pc_monitor c) (pc_pressure_tier_before c) after;
     let a = (if gs_quiescing (gv_state g) then Quiesce else bp_admission proposal);
     let event = \<lparr>pe_logical_time = bp_logical_time proposal, pe_source = bp_source proposal,
       pe_operation = policy_operation_str (bulk_operation a rung_name), pe_input_bytes = bp_input_bytes proposal,
       pe_admitted_bytes = admitted_bytes, pe_reclaimed_bytes = reclaimed, pe_armed_before = bp_armed proposal,
       pe_armed_after = (after = Armed)\<rparr>;
     Some (c\<lparr>pc_governor := g, pc_pressure := p, pc_pressure_tier_before := after, pc_monitor := m,
       pc_events := pc_events c @ [event],
       pc_terminal_outcome := (if a = Quiesce then Some (as_terminal_str LabelQuiesceRate) else None)\<rparr>)
   }"

definition abort_bulk :: "controller \<Rightarrow> bulk_proposal \<Rightarrow> controller option" where
  "abort_bulk c proposal = do {
     minimum_floor \<leftarrow> param (pc_registry c) ''pressure.minimum_floor'';
     p \<leftarrow> pressure_observe (pc_pressure c) f64_zero f64_zero minimum_floor;
     let armed_after = (ps_tier p = Armed);
     let m = begin_window (observe_pressure_signal (pc_monitor c) (pc_pressure_tier_before c) (ps_tier p)) armed_after;
     let event = \<lparr>pe_logical_time = bp_logical_time proposal, pe_source = bp_source proposal,
       pe_operation = policy_operation_str PolicyQuiesceUnwritable, pe_input_bytes = bp_input_bytes proposal,
       pe_admitted_bytes = 0, pe_reclaimed_bytes = 0, pe_armed_before = bp_armed proposal, pe_armed_after = armed_after\<rparr>;
     Some (c\<lparr>pc_pressure := p, pc_pressure_tier_before := ps_tier p, pc_monitor := m,
       pc_events := pc_events c @ [event], pc_terminal_outcome := Some (as_terminal_str LabelQuiesceUnwritable),
       pc_terminal_write_failed := True\<rparr>)
   }"

definition wrap_up :: "controller \<Rightarrow> u64 \<Rightarrow> u64 \<Rightarrow> bool \<Rightarrow> controller" where
  "wrap_up c wrap_up_cost available writable =
     (if pc_terminal_write_failed c then c
      else let c1 = c\<lparr>pc_terminal_fit_room := Some available\<rparr>
           in if \<not> writable
              then c1\<lparr>pc_terminal_write_failed := True, pc_terminal_fit_saturated := Some True,
                pc_terminal_outcome := Some (as_terminal_str LabelQuiesceUnwritable)\<rparr>
              else if \<not> terminal_reserve wrap_up_cost available
              then c1\<lparr>pc_terminal_fit_saturated := Some True,
                pc_terminal_outcome := Some (as_terminal_str LabelQuiesceUnwritable)\<rparr>
              else let logical_time = saturating_add (pc_logical_time c1) 1;
                       armed = (ps_tier (pc_pressure c1) = Armed)
                   in c1\<lparr>pc_logical_time := logical_time,
                     pc_events := pc_events c1 @
                       [\<lparr>pe_logical_time = logical_time, pe_source = 0, pe_operation = policy_operation_str PolicyWrapUp,
                         pe_input_bytes = 0, pe_admitted_bytes = 0, pe_reclaimed_bytes = 0, pe_armed_before = armed,
                         pe_armed_after = armed\<rparr>],
                     pc_terminal_fit_saturated := Some False,
                     pc_terminal_outcome := Some (as_terminal_str LabelWrapUp)\<rparr>)"

definition restore_history ::
  "controller \<Rightarrow> policy_event list \<Rightarrow> epoch_cache \<Rightarrow> u64 \<Rightarrow> epoch_error + controller" where
  "restore_history c events cache logical_time =
     res_bind (epoch_validate cache) (\<lambda>_.
       let c1 = foldl (\<lambda>c e. c\<lparr>pc_logical_time := max (pc_logical_time c) (pe_logical_time e),
             pc_events := pc_events c @ [e]\<rparr>) c events
       in Inr (c1\<lparr>pc_cache := cache, pc_logical_time := max (pc_logical_time c1) logical_time\<rparr>))"

definition checkpoint_allowed :: "controller \<Rightarrow> cut_trigger \<Rightarrow> bool" where
  "checkpoint_allowed c trigger \<longleftrightarrow>
     trigger = ErasureCut \<or>
     (\<not> gs_quiescing (gv_state (pc_governor c)) \<and>
      pc_terminal_outcome c \<notin> {Some ''quiesce_rate'', Some ''quiesce_unwritable''})"

definition controller_checkpoint :: "controller \<Rightarrow> checkpoint_cut \<Rightarrow> epoch_error + (controller \<times> u64)" where
  "controller_checkpoint c request =
     (if \<not> checkpoint_allowed c (ct_trigger request) then Inl GovernorRefused
      else res_bind (epoch_cut (pc_cache c) request) (\<lambda>(cache, epoch). Inr (c\<lparr>pc_cache := cache\<rparr>, epoch)))"

definition restore_terminal_outcome :: "controller \<Rightarrow> string \<Rightarrow> bool option \<Rightarrow> controller" where
  "restore_terminal_outcome c outcome fit_saturated =
     (if pc_terminal_outcome c = Some (as_terminal_str LabelQuiesceUnwritable) \<or>
         pc_terminal_outcome c = Some (as_terminal_str LabelQuiesceRate)
      then c
      else c\<lparr>pc_terminal_write_failed := (if outcome = ''quiesce_unwritable'' then True else pc_terminal_write_failed c),
        pc_terminal_outcome := Some outcome, pc_terminal_fit_saturated := fit_saturated\<rparr>)"

definition record_rate_refusal :: "controller \<Rightarrow> bulk_proposal \<Rightarrow> controller" where
  "record_rate_refusal c proposal =
     (let armed = (ps_tier (pc_pressure c) = Armed)
      in c\<lparr>pc_monitor := begin_window (pc_monitor c) armed,
        pc_events := pc_events c @
          [\<lparr>pe_logical_time = bp_logical_time proposal, pe_source = bp_source proposal,
            pe_operation = policy_operation_str PolicyQuiesceRate, pe_input_bytes = bp_input_bytes proposal,
            pe_admitted_bytes = 0, pe_reclaimed_bytes = 0, pe_armed_before = bp_armed proposal, pe_armed_after = armed\<rparr>],
        pc_terminal_outcome := Some (as_terminal_str LabelQuiesceRate)\<rparr>)"

section \<open>The session's seam\<close>

definition BULK_RESULT_BYTES :: nat where
  "BULK_RESULT_BYTES = 1024"

definition normalized_pressure :: "nat \<Rightarrow> f64" where
  "normalized_pressure bytes = f64_min (f64_div (f64_of_u64 bytes) (f64_of_u64 BULK_RESULT_BYTES)) f64_one"

text \<open>\<open>committed\<close> stands for \<open>ingest_bulk_committed\<close>, the store transaction of the result: the length of the record
  it persisted, or the reason it failed.\<close>

definition ingest_bulk ::
  "(byte list \<Rightarrow> string + nat) \<Rightarrow> controller \<Rightarrow> string \<Rightarrow> byte list \<Rightarrow> (controller \<times> (string + nat)) option" where
  "ingest_bulk committed c tool bytes = do {
     (c1, proposal) \<leftarrow> propose_bulk c tool (length bytes) (normalized_pressure (length bytes));
     if bp_admission proposal = Quiesce
     then do {
       c2 \<leftarrow> abort_bulk c1 proposal;
       Some (c2, Inl ''policy governor quiesced before bulk admission'')
     }
     else case committed bytes of
       Inr persisted \<Rightarrow> do {
         c2 \<leftarrow> complete_bulk c1 proposal bytes persisted (normalized_pressure persisted);
         Some (c2, Inr persisted)
       }
     | Inl reason \<Rightarrow> do {
         c2 \<leftarrow> abort_bulk c1 proposal;
         Some (c2, Inl reason)
       }
   }"

end
