(* ===== verification/ControllerLaws.thy ===== *)
theory ControllerLaws
  imports Controller
begin

text \<open>
  The controller never panics on what a session asks of it, keeps the invariants of all its parts, and once its
  governor quiesces nothing more is admitted.
\<close>

section \<open>Sessions\<close>

datatype controller_command =
    IngestBulk string "byte list" "string + nat"
  | WrapUpSession u64 u64 bool
  | Checkpoint checkpoint_cut
  | EpochUse epoch_command
  | RestoreHistory "policy_event list" epoch_cache u64
  | RestoreOutcome terminal_label "bool option"

text \<open>A refused request leaves the controller as it was.\<close>

fun controller_step :: "controller \<Rightarrow> controller_command \<Rightarrow> controller option" where
  "controller_step c (IngestBulk tool bytes outcome) = map_option fst (ingest_bulk (\<lambda>_. outcome) c tool bytes)"
| "controller_step c (WrapUpSession cost available writable) = Some (wrap_up c cost available writable)"
| "controller_step c (Checkpoint request) =
     Some (case controller_checkpoint c request of Inl e \<Rightarrow> c | Inr (c', _) \<Rightarrow> c')"
| "controller_step c (EpochUse cmd) = Some (c\<lparr>pc_cache := epoch_step (pc_cache c) cmd\<rparr>)"
| "controller_step c (RestoreHistory events cache logical_time) =
     Some (case restore_history c events cache logical_time of Inl e \<Rightarrow> c | Inr c' \<Rightarrow> c')"
| "controller_step c (RestoreOutcome label fit) = Some (restore_terminal_outcome c (as_terminal_str label) fit)"

fun controller_run :: "controller \<Rightarrow> controller_command list \<Rightarrow> controller option" where
  "controller_run c [] = Some c"
| "controller_run c (cmd # cmds) = do { c' \<leftarrow> controller_step c cmd; controller_run c' cmds }"

text \<open>Head digests are sha-256 texts, and restored events were read by \<open>from_json\<close>, so their operations are known.\<close>

definition known_operation :: "policy_event \<Rightarrow> bool" where
  "known_operation e \<longleftrightarrow> is_ok (policy_operation_parse (pe_operation e))"

fun command_ok :: "controller_command \<Rightarrow> bool" where
  "command_ok (Checkpoint request) = digest_text (ct_head_digest request)"
| "command_ok (EpochUse cmd) = command_digest cmd"
| "command_ok (RestoreHistory events cache logical_time) =
     (list_all (\<lambda>e. known_operation e \<and> pe_logical_time e \<le> u64_max) events \<and> logical_time \<le> u64_max)"
| "command_ok _ = True"

section \<open>The invariant\<close>

definition window_current :: "controller \<Rightarrow> bool" where
  "window_current c \<longleftrightarrow> (\<forall>w. gv_active_window (pc_governor c) = Some w \<longrightarrow> w \<le> pc_turn_window c)"

definition history_ok :: "controller \<Rightarrow> bool" where
  "history_ok c \<longleftrightarrow>
     pc_logical_time c \<le> u64_max \<and>
     (\<forall>e \<in> set (pc_events c). known_operation e \<and> pe_logical_time e \<le> pc_logical_time c) \<and>
     (\<forall>outcome. pc_terminal_outcome c = Some outcome \<longrightarrow> terminal_label_parse outcome \<noteq> None)"

definition controller_ok :: "controller \<Rightarrow> bool" where
  "controller_ok c \<longleftrightarrow>
     governor_ok (pc_governor c) \<and> window_current c \<and> registry_ok (pc_registry c) \<and> epoch_valid (pc_cache c) \<and>
     history_ok c"

lemma known_str [simp]: "is_ok (policy_operation_parse (policy_operation_str p))"
  by (simp add: policy_operation_round_trip)

lemma label_str [simp]: "terminal_label_parse (as_terminal_str l) = Some l"
  by (rule terminal_label_round_trip)

lemma history_snoc:
  assumes "history_ok c" and "known_operation e" and "pe_logical_time e \<le> pc_logical_time c'"
    and "pc_logical_time c' \<le> u64_max"
    and "pc_events c' = pc_events c @ [e]" and "pc_logical_time c \<le> pc_logical_time c'"
    and "\<forall>outcome. pc_terminal_outcome c' = Some outcome \<longrightarrow> terminal_label_parse outcome \<noteq> None"
  shows "history_ok c'"
  using assms by (auto simp: history_ok_def intro: le_trans)

section \<open>Pressure readings are finite\<close>

lemma f64_of_u64_nonneg [simp]: "\<not> f64_negative (f64_of_u64 n)"
proof -
  have "round_magnitude n 0 \<le> f64_infinite_magnitude" by (simp add: round_magnitude_def Let_def)
  then show ?thesis by (simp add: f64_of_u64_def f64_negative_def f64_of_magnitude_def unat_of_nat)
qed

lemma f64_of_magnitude_nonneg:
  "m \<le> f64_infinite_magnitude \<Longrightarrow> \<not> f64_negative (f64_of_magnitude False m)"
  by (simp add: f64_negative_def f64_of_magnitude_def unat_of_nat)

lemma f64_quiet_nan_nonneg: "\<not> f64_negative f64_quiet_nan"
  by (simp add: f64_quiet_nan_def f64_negative_def)

lemma f64_div_nonneg:
  assumes "\<not> f64_negative x" and "\<not> f64_negative y"
  shows "\<not> f64_negative (f64_div x y)"
proof -
  have "round_magnitude m e \<le> f64_infinite_magnitude" for m e by (simp add: round_magnitude_def Let_def)
  with assms show ?thesis
    by (simp add: f64_div_def Let_def f64_of_magnitude_nonneg f64_quiet_nan_nonneg)
qed

lemma f64_min_one_finite:
  assumes "\<not> f64_negative x"
  shows "f64_finite (f64_min x f64_one)"
proof -
  have one: "f64_finite f64_one" "\<not> f64_nan f64_one" "f64_key f64_one = 4607182418800017408"
    by (simp_all add: f64_one_def f64_finite_def f64_nan_def f64_key_def f64_magnitude_def f64_negative_def)
  show ?thesis
  proof (cases "f64_nan x \<or> f64_key f64_one < f64_key x")
    case True
    with one show ?thesis by (auto simp: f64_min_def)
  next
    case False
    with assms one show ?thesis by (auto simp: f64_min_def f64_key_def f64_finite_def)
  qed
qed

lemma normalized_pressure_finite: "f64_finite (normalized_pressure n)"
  unfolding normalized_pressure_def by (intro f64_min_one_finite f64_div_nonneg) simp_all

lemma minimum_floor:
  assumes "registry_ok reg"
  obtains v where "param reg ''pressure.minimum_floor'' = Some v" and "f64_finite v" and "unit_interval v"
proof -
  have "class_of ''pressure.minimum_floor'' = OperatorEnvelope" by code_simp
  with assms obtain v where v: "param reg ''pressure.minimum_floor'' = Some v"
    unfolding registry_ok_def param_def registry_value_def by (metis not_None_eq parameter_class.distinct(19))
  with assms have "valid_value ''pressure.minimum_floor'' v"
    by (auto simp: registry_ok_def param_def registry_value_def)
  then have "f64_finite v \<and> unit_interval v"
    by (auto simp: valid_value_def unit_names_def unit_interval_def f64_one_def f64_zero_def f64_le_def f64_lt_def
        f64_nan_def f64_finite_def f64_magnitude_def f64_key_def split: if_splits)
  with v that show thesis by blast
qed

lemma pressure_observe_total:
  "f64_finite x \<Longrightarrow> f64_finite v \<Longrightarrow> unit_interval v \<Longrightarrow> \<exists>p'. pressure_observe p x x v = Some p'"
  by (simp add: pressure_observe_def Let_def)

section \<open>Governor steps inside the current window\<close>

lemma enter_current:
  assumes "window_current c"
  shows "\<exists>g. enter_window (pc_governor c) (pc_turn_window c) = Some g \<and> gv_active_window g = Some (pc_turn_window c) \<and>
    gs_quiescing (gv_state g) = gs_quiescing (gv_state (pc_governor c))"
  using assms by (auto simp: enter_window_def window_current_def split: option.splits)

lemma admit_current:
  assumes "window_current c"
  shows "\<exists>g a. governor_admit (pc_governor c) source bytes (pc_turn_window c) = Some (g, a) \<and>
    gs_quiescing (gv_state g) = gs_quiescing (gv_state (pc_governor c)) \<and>
    (a = Quiesce \<longleftrightarrow> gs_quiescing (gv_state g)) \<and> (a = Quiesce \<longrightarrow> g = pc_governor c) \<and>
    (a \<noteq> Quiesce \<longrightarrow> gv_active_window g = Some (pc_turn_window c))"
  using enter_current [OF assms]
  by (cases "gs_quiescing (gv_state (pc_governor c))") (auto simp: governor_admit_def Let_def)

lemma settle_window [simp]:
  "gv_active_window (settle_admission g source window raw admitted) = gv_active_window g"
  "gs_quiescing (gv_state (settle_admission g source window raw admitted)) = gs_quiescing (gv_state g)"
  by (simp_all add: settle_admission_def Let_def)

lemma reclaim_current:
  assumes "gv_active_window g = Some window"
  shows "observe_reclaim g bytes window =
    Some (put_state (\<lambda>s. s\<lparr>gs_window_reclaimed := saturating_add (gs_window_reclaimed s) bytes\<rparr>) g)"
  using assms by (simp add: observe_reclaim_def enter_window_def)

section \<open>One operation at a time\<close>

text \<open>A proposal of the current window: stamped with the current time, refused exactly when the governor quiesces.\<close>

definition proposal_ok :: "controller \<Rightarrow> bulk_proposal \<Rightarrow> bool" where
  "proposal_ok c b \<longleftrightarrow>
     bp_logical_time b \<le> pc_logical_time c \<and> bp_window b = pc_turn_window c \<and>
     (bp_admission b = Quiesce \<longleftrightarrow> gs_quiescing (gv_state (pc_governor c))) \<and>
     (bp_admission b \<noteq> Quiesce \<longrightarrow> gv_active_window (pc_governor c) = Some (pc_turn_window c))"

lemma propose_ok:
  assumes ok: "controller_ok c" and fin: "f64_finite x"
  shows "\<exists>c1 b. propose_bulk c tool n x = Some (c1, b) \<and> controller_ok c1 \<and> proposal_ok c1 b \<and>
    gs_quiescing (gv_state (pc_governor c1)) = gs_quiescing (gv_state (pc_governor c)) \<and>
    pc_terminal_write_failed c1 = pc_terminal_write_failed c \<and> pc_terminal_outcome c1 = pc_terminal_outcome c"
proof -
  have parts: "governor_ok (pc_governor c)" "window_current c" "registry_ok (pc_registry c)"
    using ok by (simp_all add: controller_ok_def)
  obtain v where v: "param (pc_registry c) ''pressure.minimum_floor'' = Some v" "f64_finite v" "unit_interval v"
    using minimum_floor [OF parts(3)] .
  obtain p where p: "pressure_observe (pc_pressure c) x x v = Some p"
    using pressure_observe_total [OF fin v(2,3)] by blast
  let ?s = "unat (digest (string_bytes tool))"
  obtain g a where a: "governor_admit (pc_governor c) ?s n (pc_turn_window c) = Some (g, a)"
    and q: "gs_quiescing (gv_state g) = gs_quiescing (gv_state (pc_governor c))"
    "a = Quiesce \<longleftrightarrow> gs_quiescing (gv_state g)" "a = Quiesce \<longrightarrow> g = pc_governor c"
    "a \<noteq> Quiesce \<longrightarrow> gv_active_window g = Some (pc_turn_window c)"
    using admit_current [OF parts(2), of ?s n] by blast
  let ?c = "c\<lparr>pc_logical_time := saturating_add (pc_logical_time c) 1, pc_pressure := p, pc_governor := g\<rparr>"
  have "window_current ?c"
    using q parts(2) by (cases "a = Quiesce") (auto simp: window_current_def)
  moreover have "history_ok ?c"
    using ok by (auto simp: controller_ok_def history_ok_def saturating_add_def)
  ultimately show ?thesis
    using ok admit_ok [OF parts(1) a] q
    by (auto simp: propose_bulk_def Let_def v p a controller_ok_def proposal_ok_def)
qed

lemma complete_ok:
  assumes ok: "controller_ok c" and b: "proposal_ok c b" "bp_admission b \<noteq> Quiesce" and fin: "f64_finite x"
  shows "\<exists>c'. complete_bulk c b bytes k x = Some c' \<and> controller_ok c' \<and> \<not> gs_quiescing (gv_state (pc_governor c')) \<and>
    pc_terminal_write_failed c' = pc_terminal_write_failed c \<and> pc_terminal_outcome c' = None"
proof -
  have parts: "governor_ok (pc_governor c)" "registry_ok (pc_registry c)" "history_ok c"
    using ok by (simp_all add: controller_ok_def)
  have b': "gv_active_window (pc_governor c) = Some (bp_window b)" "bp_window b = pc_turn_window c"
    "\<not> gs_quiescing (gv_state (pc_governor c))" "bp_logical_time b \<le> pc_logical_time c"
    using b by (auto simp: proposal_ok_def)
  obtain v where v: "param (pc_registry c) ''pressure.minimum_floor'' = Some v" "f64_finite v" "unit_interval v"
    using minimum_floor [OF parts(2)] .
  obtain p where p: "pressure_observe (pc_pressure c) x x v = Some p"
    using pressure_observe_total [OF fin v(2,3)] by blast
  let ?settled = "settle_admission (pc_governor c) (bp_source b) (bp_window b) (bp_input_bytes b) k"
  define g where "g = put_state (\<lambda>s. s\<lparr>gs_window_reclaimed :=
      saturating_add (gs_window_reclaimed s) (saturating_sub (length bytes) k)\<rparr>) ?settled"
  have r: "observe_reclaim ?settled (saturating_sub (length bytes) k) (bp_window b) = Some g"
    unfolding g_def by (rule reclaim_current) (simp add: b')
  have g: "governor_ok g" "gv_active_window g = Some (bp_window b)" "\<not> gs_quiescing (gv_state g)"
    using reclaim_ok [OF settle_ok [OF parts(1)] r] b' by (simp_all add: g_def)
  show ?thesis
    using ok parts(3) b b' g
    by (auto simp: complete_bulk_def Let_def r [unfolded b'(2)] v p controller_ok_def window_current_def
        known_operation_def history_ok_def)
qed

lemma abort_ok:
  assumes ok: "controller_ok c" and b: "proposal_ok c b"
  shows "\<exists>c'. abort_bulk c b = Some c' \<and> controller_ok c' \<and> pc_governor c' = pc_governor c \<and>
    pc_terminal_write_failed c' \<and> pc_terminal_outcome c' = Some ''quiesce_unwritable''"
proof -
  have "registry_ok (pc_registry c)" using ok by (simp add: controller_ok_def)
  from minimum_floor [OF this] obtain v
    where v: "param (pc_registry c) ''pressure.minimum_floor'' = Some v" "f64_finite v" "unit_interval v" .
  have "f64_finite f64_zero" by (simp add: f64_zero_def f64_finite_def f64_magnitude_def)
  from pressure_observe_total [OF this v(2,3)] obtain p
    where p: "pressure_observe (pc_pressure c) f64_zero f64_zero v = Some p" by blast
  have l: "terminal_label_parse ''quiesce_unwritable'' = Some LabelQuiesceUnwritable"
    by (simp add: terminal_label_parse_def)
  have "is_ok (policy_operation_parse ''quiesce-unwritable'')"
    using known_str [of PolicyQuiesceUnwritable] by simp
  with ok b l show ?thesis
    by (auto simp: abort_bulk_def Let_def v p controller_ok_def proposal_ok_def window_current_def known_operation_def history_ok_def)
qed

text \<open>What a session sees of one bulk result, on each branch: a quiesced governor refuses it before the store is
  asked, a committed result is admitted, a failed transaction wedges the session.\<close>

lemma ingest_ok:
  assumes ok: "controller_ok c"
  shows "\<exists>c'. ingest_bulk committed c tool bytes = Some (c',
        if gs_quiescing (gv_state (pc_governor c)) then Inl ''policy governor quiesced before bulk admission''
        else committed bytes) \<and>
      controller_ok c' \<and>
      gs_quiescing (gv_state (pc_governor c')) = gs_quiescing (gv_state (pc_governor c)) \<and>
      (if \<not> gs_quiescing (gv_state (pc_governor c)) \<and> is_ok (committed bytes)
       then pc_terminal_outcome c' = None \<and> pc_terminal_write_failed c' = pc_terminal_write_failed c
       else pc_terminal_outcome c' = Some ''quiesce_unwritable'' \<and> pc_terminal_write_failed c')"
proof -
  obtain c1 b where b: "propose_bulk c tool (length bytes) (normalized_pressure (length bytes)) = Some (c1, b)"
    "controller_ok c1" "proposal_ok c1 b"
    and q: "gs_quiescing (gv_state (pc_governor c1)) = gs_quiescing (gv_state (pc_governor c))"
    and w: "pc_terminal_write_failed c1 = pc_terminal_write_failed c"
    using propose_ok [OF ok normalized_pressure_finite] by blast
  have a: "bp_admission b = Quiesce \<longleftrightarrow> gs_quiescing (gv_state (pc_governor c))"
    using b(3) q by (simp add: proposal_ok_def)
  obtain c2 where c2: "abort_bulk c1 b = Some c2" "controller_ok c2" "pc_governor c2 = pc_governor c1"
    "pc_terminal_write_failed c2" "pc_terminal_outcome c2 = Some ''quiesce_unwritable''"
    using abort_ok [OF b(2,3)] by blast
  show ?thesis
  proof (cases "gs_quiescing (gv_state (pc_governor c)) \<or> \<not> is_ok (committed bytes)")
    case True
    with b c2 a q show ?thesis by (cases "committed bytes") (auto simp: ingest_bulk_def)
  next
    case False
    then obtain k where k: "committed bytes = Inr k" by (auto simp: is_ok_iff)
    from False a have "bp_admission b \<noteq> Quiesce" by simp
    from complete_ok [OF b(2,3) this normalized_pressure_finite, of bytes k k] False b k q w a show ?thesis
      by (auto simp: ingest_bulk_def)
  qed
qed

lemma wrap_up_ok:
  assumes "controller_ok c"
  shows "controller_ok (wrap_up c cost available writable)"
proof -
  have "is_ok (policy_operation_parse ''wrap-up'')" using known_str [of PolicyWrapUp] by simp
  moreover have "terminal_label_parse ''wrap_up'' \<noteq> None" "terminal_label_parse ''quiesce_unwritable'' \<noteq> None"
    by (simp_all add: terminal_label_parse_def)
  ultimately show ?thesis
    using assms
    by (auto simp: wrap_up_def controller_ok_def window_current_def history_ok_def known_operation_def Let_def
        saturating_add_def)
qed

lemma checkpoint_ok:
  assumes "controller_ok c" and "digest_text (ct_head_digest request)"
    and "controller_checkpoint c request = Inr (c', epoch)"
  shows "controller_ok c'"
proof -
  from assms(3) obtain cache where cut: "epoch_cut (pc_cache c) request = Inr (cache, epoch)"
    and c': "c' = c\<lparr>pc_cache := cache\<rparr>"
    by (auto simp: controller_checkpoint_def split: if_splits)
  have "epoch_valid (pc_cache c)" using assms(1) by (simp add: controller_ok_def)
  with epoch_step_valid [of "pc_cache c" "EpochCut request"] assms(2) cut have "epoch_valid cache" by simp
  with assms(1) show ?thesis by (simp add: c' controller_ok_def window_current_def history_ok_def)
qed

lemma restored_events:
  "foldl (\<lambda>c e. c\<lparr>pc_logical_time := max (pc_logical_time c) (pe_logical_time e), pc_events := pc_events c @ [e]\<rparr>) c es =
   c\<lparr>pc_logical_time := foldl max (pc_logical_time c) (map pe_logical_time es), pc_events := pc_events c @ es\<rparr>"
  by (induction es arbitrary: c) simp_all

lemma foldl_max_ge: "(a :: nat) \<le> foldl max a xs \<and> (\<forall>x \<in> set xs. x \<le> foldl max a xs)"
proof (induction xs arbitrary: a)
  case (Cons x xs)
  from Cons.IH [of "max a x"] show ?case by simp
qed simp

lemma foldl_max_le: "(a :: nat) \<le> m \<Longrightarrow> (\<And>x. x \<in> set xs \<Longrightarrow> x \<le> m) \<Longrightarrow> foldl max a xs \<le> m"
  by (induction xs arbitrary: a) simp_all

lemma restore_history_ok:
  assumes ok: "controller_ok c" and cmd: "command_ok (RestoreHistory events cache logical_time)"
    and "restore_history c events cache logical_time = Inr c'"
  shows "controller_ok c'"
proof -
  let ?t = "foldl max (pc_logical_time c) (map pe_logical_time events)"
  from assms(3) have valid: "epoch_valid cache"
    and c': "c' = c\<lparr>pc_logical_time := max ?t logical_time, pc_events := pc_events c @ events, pc_cache := cache\<rparr>"
    by (auto simp: restore_history_def restored_events)
  have h: "history_ok c" using ok by (simp add: controller_ok_def)
  have "?t \<le> u64_max" using h cmd by (intro foldl_max_le) (auto simp: history_ok_def list_all_iff)
  moreover have "pc_logical_time c \<le> ?t" "\<forall>e \<in> set events. pe_logical_time e \<le> ?t"
    using foldl_max_ge [of "pc_logical_time c" "map pe_logical_time events"] by auto
  ultimately have "history_ok c'"
    using h cmd by (auto simp: history_ok_def c' list_all_iff intro: le_trans le_max_iff_disj [THEN iffD2])
  with ok valid show ?thesis by (simp add: c' controller_ok_def window_current_def)
qed

lemma restore_outcome_ok: "controller_ok c \<Longrightarrow> controller_ok (restore_terminal_outcome c (as_terminal_str l) fit)"
  by (simp add: restore_terminal_outcome_def controller_ok_def window_current_def history_ok_def)

lemma controller_step_ok:
  assumes ok: "controller_ok c" and cmd: "command_ok cmd"
  shows "\<exists>c'. controller_step c cmd = Some c' \<and> controller_ok c'"
proof (cases cmd)
  case (IngestBulk tool bytes outcome)
  from ingest_ok [OF ok, of "\<lambda>_. outcome" tool bytes] show ?thesis by (auto simp: IngestBulk)
next
  case (Checkpoint request)
  with checkpoint_ok [OF ok] ok cmd show ?thesis by (auto split: sum.split)
next
  case (EpochUse use)
  have "epoch_valid (epoch_step (pc_cache c) use)"
    using ok cmd epoch_step_valid by (simp add: EpochUse controller_ok_def)
  with ok show ?thesis by (simp add: EpochUse controller_ok_def window_current_def history_ok_def)
next
  case (RestoreHistory events cache logical_time)
  with restore_history_ok [OF ok] ok cmd show ?thesis by (auto split: sum.split)
qed (use ok wrap_up_ok restore_outcome_ok in simp_all)

lemma controller_run_ok:
  assumes "controller_ok c" and "list_all command_ok cmds"
  shows "\<exists>c'. controller_run c cmds = Some c' \<and> controller_ok c'"
  using assms
proof (induction cmds arbitrary: c)
  case (Cons cmd cmds)
  from Cons.prems controller_step_ok obtain c1 where "controller_step c cmd = Some c1" "controller_ok c1" by auto
  with Cons show ?case by simp
qed simp

section \<open>Quiescence is final\<close>

lemma controller_step_quiescing:
  assumes ok: "controller_ok c" and step: "controller_step c cmd = Some c'"
  shows "gs_quiescing (gv_state (pc_governor c')) = gs_quiescing (gv_state (pc_governor c))"
proof (cases cmd)
  case (IngestBulk tool bytes outcome)
  from ingest_ok [OF ok, of "\<lambda>_. outcome" tool bytes] step show ?thesis by (auto simp: IngestBulk)
next
  case (RestoreHistory events cache logical_time)
  with step show ?thesis by (auto simp: restore_history_def restored_events split: sum.splits)
qed (use step in \<open>auto simp: wrap_up_def controller_checkpoint_def restore_terminal_outcome_def Let_def
      split: sum.splits if_splits\<close>)

lemma controller_run_quiescing:
  assumes "controller_ok c" and "list_all command_ok cmds" and "controller_run c cmds = Some c'"
  shows "gs_quiescing (gv_state (pc_governor c')) = gs_quiescing (gv_state (pc_governor c))"
  using assms
proof (induction cmds arbitrary: c)
  case (Cons cmd cmds)
  then obtain c1 where c1: "controller_step c cmd = Some c1" "controller_run c1 cmds = Some c'"
    by (auto simp: Option.bind_eq_Some_conv)
  have "controller_ok c1" using controller_step_ok [of c cmd] Cons.prems c1(1) by auto
  with Cons c1 controller_step_quiescing show ?case by auto
qed simp

end
