(* ===== verification/PolicyProperties.thy ===== *)
theory PolicyProperties
  imports Queues ControllerLaws
begin

text \<open>
  The properties of the policy plane: the proposal queues, the admission governor, the ladder's episodes, the epoch
  cache, the parameter registry and the controller that composes them.
\<close>

section \<open>Queues\<close>

text \<open>Whatever is submitted, reproposed and serviced, a semantic key is never queued twice, the service
  counters are exactly what was handed out, and no key is served more often than its first submission plus the
  configured retries.\<close>

lemma reproposals_bounded:
  assumes "queues_new cfg = Some q" and "qc_max_retries cfg < u32_max" and "queue_run q cmds = (q', outs)"
  shows "distinct (map pr_key (all_queued q')) \<and> served_for q' k = count_list (map pr_key outs) k \<and>
    count_list (map pr_key outs) k \<le> qc_max_retries cfg + 1"
proof -
  have ok: "queues_ok q" and cfg: "cq_config q = cfg" and zero: "served_for q k = 0"
    using queues_ok_new [OF assms(1,2)] assms(1) by (auto simp: queues_new_def served_for_def split: if_splits)
  from queue_run_ok [OF ok assms(3)] have ok': "queues_ok q'" and cfg': "cq_config q' = cfg" by (simp_all add: cfg)
  then have "accounted q' k" and "distinct (map pr_key (all_queued q'))" by (simp_all add: queues_ok_def)
  moreover from \<open>accounted q' k\<close> cfg' have "served_for q' k \<le> qc_max_retries cfg + 1"
    by (auto simp: accounted_def served_for_def split: option.splits if_splits)
  ultimately show ?thesis using queue_run_served [OF ok assms(3), of k] zero by simp
qed

definition sample_key :: semantic_key where
  "sample_key = \<lparr>sk_operation = OperationIndex 0, sk_ranges = [], sk_source_version = 1\<rparr>"

definition sample_proposal :: proposal where
  "sample_proposal = proposal_new ModelClass sample_key 7"

definition sample_queues :: classed_queues where
  "sample_queues = \<lparr>cq_config = default_queue_config, cq_queues = (\<lambda>c. []), cq_pending = {}, cq_retries = Map.empty,
     cq_served = Map.empty\<rparr>"

lemma sample_queues_new: "queues_new default_queue_config = Some sample_queues"
  by (simp add: queues_new_def default_queue_config_def class_share_def queue_class_all_def sample_queues_def
      default_share_def)

text \<open>A service cycle hands out as many proposals as its slots and the queues allow, every class gets its
  reserved share when it has that much waiting, and within a class the order is first in, first out.\<close>

lemma service_cycle_is_fair:
  assumes "queues_ok q" and "shares_fit (cq_config q)" and "service_cycle q = (q', out)"
  shows "length out = min (qc_cycle_slots (cq_config q)) (length (all_queued q)) \<and>
    (\<forall>c. min (class_share (cq_config q) c) (length (cq_queues q c)) \<le> length (filter (\<lambda>p. pr_service_class p = c) out) \<and>
      filter (\<lambda>p. pr_service_class p = c) out @ cq_queues q' c = cq_queues q c)"
proof -
  obtain r outs where "service_cycle q = (r, outs)" and "served_from q r outs"
    and "length outs = min (qc_cycle_slots (cq_config q)) (length (all_queued q))"
    and "\<And>c. shares_fit (cq_config q) \<Longrightarrow>
      min (class_share (cq_config q) c) (length (cq_queues q c)) \<le> length (filter (\<lambda>p. pr_service_class p = c) outs)"
    using service_cycle_spec [OF assms(1)] by metis
  with assms(2,3) show ?thesis by (auto simp: served_from_def)
qed

lemma sample_queues_ok: "queues_ok sample_queues" "shares_fit (cq_config sample_queues)"
  using queues_ok_new [OF sample_queues_new]
  by (simp_all add: default_queue_config_def shares_fit_def sample_queues_def class_share_def queue_class_all_def
      default_share_def)

text \<open>C31: no proposal starves: the proposal at position \<open>i\<close> of a class with a reserved share is handed out
  within the next \<open>i + 1\<close> service cycles, whatever else is submitted in between.\<close>

theorem no_starvation:
  assumes "queues_ok q" and "shares_fit (cq_config q)" and "0 < class_share (cq_config q) c"
    and "i < length (cq_queues q c)" and "cq_queues q c ! i = p"
    and "i < length (filter (\<lambda>cmd. cmd = Service) cmds)" and "queue_run q cmds = (q', outs)"
  shows "p \<in> set outs"
  using queue_run_waiting [OF assms] .

theorem no_starvation_witness:
  "sample_proposal \<in> set (snd (queue_run (fst (queue_submit sample_queues sample_proposal)) [Service]))"
proof -
  let ?q = "fst (queue_submit sample_queues sample_proposal)"
  have ok: "queues_ok ?q"
    using queue_step_ok [OF sample_queues_ok(1), of "Submit sample_proposal" ?q "[]"] by simp
  have q: "cq_config ?q = default_queue_config" "cq_queues ?q ModelClass = [sample_proposal]"
    by (simp_all add: queue_submit_def push_back_def sample_queues_def sample_proposal_def proposal_new_def)
  show ?thesis
    using no_starvation [OF ok, of ModelClass 0 sample_proposal "[Service]" "fst (queue_run ?q [Service])"
        "snd (queue_run ?q [Service])"] sample_queues_ok(2)
    by (simp add: q class_share_def) (simp add: sample_queues_def default_queue_config_def default_share_def)
qed

section \<open>The governor\<close>


definition sample_config :: governor_config where
  "sample_config = \<lparr>gc_per_window_quota = 4096, gc_per_turn_ceiling = 1024, gc_alpha = 0x3FE0000000000000,
     gc_quota_floor = 64\<rparr>"

lemma sample_config_valid: "config_valid sample_config"
  by (simp add: sample_config_def config_valid_def f64_finite_def f64_lt_def f64_le_def f64_nan_def f64_key_def
      f64_negative_def f64_magnitude_def f64_zero_def f64_one_def)

definition sample_governor :: governor where
  "sample_governor = \<lparr>gv_config = sample_config,
     gv_state = \<lparr>gs_quota = 4096, gs_turn_admitted = 0, gs_window_admitted = 0, gs_window_reclaimed = 0,
       gs_violations = 0, gs_at_floor = False, gs_quiescing = False\<rparr>,
     gv_source_admitted = Map.empty, gv_active_window = None, gv_floor_violation_seen = False\<rparr>"

lemma sample_governor_new: "governor_new sample_config = Some sample_governor"
  using sample_config_valid by (simp add: governor_new_def sample_governor_def) (simp add: sample_config_def)


text \<open>A session that keeps violating its rate is stopped: each violated window halves the distance of the
  quota to its floor, and after \<open>patience\<close> violated windows in a row, at most a logarithm of the quota, the
  governor quiesces.  A window that admits bytes and reclaims none is such a violation.\<close>

lemma violations_quiesce:
  assumes "governor_ok g" and "governor_run g cmds = Some (g', reports)" and "Verdict True \<notin> set reports"
    and "patience g \<le> length (filter (\<lambda>r. r = Verdict False) reports)"
  shows "gs_quiescing (gv_state g')"
  using governor_run_patience [OF assms(1-3)] assms(4) patience_0 by simp



section \<open>Episodes\<close>

text \<open>C33: the exhaustive check of degradation episodes comes out clean: from every state of the grid and under
  every combination of degradation modes, the macrosteps reach a terminal step within the smaller of the two budgets
  plus one, none is an armed no-op, and every operation they name is registered.\<close>

theorem episodes_terminate:
  assumes "min max_psi max_retries < bound"
  shows "let r = verify_adversarial_reachable_states max_psi max_retries bound
    in ar_unterminated_episodes r = 0 \<and> ar_armed_noops r = 0 \<and> ar_out_of_branch_wall_hits r = 0 \<and>
       ar_max_macrosteps r \<le> min max_psi max_retries + 1"
proof -
  have grid: "\<forall>(m, s) \<in> set (episode_grid max_psi max_retries). min (pg_psi s) (pg_retries_remaining s) < bound \<and>
      min (pg_psi s) (pg_retries_remaining s) < min max_psi max_retries + 1"
    using episode_grid_member assms by (fastforce simp: min_def split: if_splits)
  show ?thesis
    using verify_grid [OF grid, of default_report]
    by (simp add: verify_adversarial_reachable_states_def default_report_def Let_def)
qed

theorem episodes_terminate_witness:
  "ar_unterminated_episodes (verify_adversarial_reachable_states 6 3 4) = 0"
  using episodes_terminate [of 6 3 4] by (simp add: Let_def)

section \<open>Epochs and parameters\<close>

text \<open>The totals of an epoch are exact: whatever epochs are started, cut and observed meanwhile, its record
  counts every call, every measured call, and the sums of the input and cached tokens of its own consistent
  observations, armed ones apart; the aggregate is declared invalid exactly when the input total passes 64 bits.\<close>

lemma epoch_totals_exact:
  assumes "epoch_valid cache" and "e < length cache" and "unobserved (cache ! e)" and "list_all command_digest cmds"
    and "length (observations_of e cmds) < u64_modulus"
  shows "accounts_for (foldl epoch_step cache cmds ! e) (observations_of e cmds)"
  by (rule epoch_run_accounts [OF assms(1,4,2,3,5)])

definition sample_digest :: string where
  "sample_digest = replicate 64 CHR ''a''"

lemma sample_digest_text: "digest_text sample_digest"
  by (simp add: sample_digest_def digest_text_def ascii_hexdigit_def list_all_iff)

lemma sample_epoch: "epoch_valid [epoch_record_new 0 sample_digest 3]"
  using sample_digest_text by (simp add: epoch_validate_def new_record_sound)

text \<open>Every sequence of parameter updates is answered without a panic and leaves a registry whose log
  explains its values: replayed over the defaults each entry finds its recorded prior value, times increase, each
  entry carries the authority of its class, every value is valid, and no safety invariant ever changes.\<close>

lemma parameter_log_explains_values:
  "\<exists>reg. registry_run default_registry requests = Some reg \<and>
     replay_updates (pr_values default_registry) (pr_updates reg) = Some (pr_values reg) \<and>
     sorted_wrt (<) (map pu_logical_time (pr_updates reg)) \<and>
     (\<forall>u \<in> set (pr_updates reg). class_authority (class_of (pu_name u)) = Inr (pu_authority u)) \<and>
     (\<forall>name v. pr_values reg name = Some v \<longrightarrow> valid_value name v) \<and>
     (\<forall>name. class_of name = SafetyInvariant \<longrightarrow> pr_values reg name = pr_values default_registry name)"
  using registry_run_ok [OF default_registry_ok, of requests] unfolding registry_ok_def by blast

section \<open>Events\<close>

text \<open>Policy events survive a reload: read back from the fields it was written with, an event comes back
  unchanged exactly when its operation is one of the durable names, and an unknown name is refused with the reader's
  message.\<close>

lemma policy_events_round_trip:
  assumes "text ''operation'' = Some (pe_operation e)"
    and "number ''logical_time'' = Some (pe_logical_time e)" and "number ''source'' = Some (pe_source e)"
    and "number ''input_bytes'' = Some (pe_input_bytes e)" and "number ''admitted_bytes'' = Some (pe_admitted_bytes e)"
    and "number ''reclaimed_bytes'' = Some (pe_reclaimed_bytes e)"
    and "flag ''armed_before'' = Some (pe_armed_before e)" and "flag ''armed_after'' = Some (pe_armed_after e)"
  shows "policy_event_from_json text number flag =
    (if known_operation e then Inr e
     else Inl (''context policy event unknown operation: '' @ pe_operation e))"
proof (cases "policy_operation_parse (pe_operation e)")
  case (Inl m)
  then have "m = ''context policy event unknown operation: '' @ pe_operation e"
    by (simp add: policy_operation_parse_def split: if_splits)
  with assms Inl show ?thesis by (simp add: policy_event_from_json_def known_operation_def)
next
  case (Inr op)
  from policy_operation_parse_Inr [OF this] assms Inr show ?thesis
    by (simp add: policy_event_from_json_def known_operation_def)
qed

definition sample_event :: policy_event where
  "sample_event = \<lparr>pe_logical_time = 1, pe_source = 2, pe_operation = ''condense'', pe_input_bytes = 3,
     pe_admitted_bytes = 4, pe_reclaimed_bytes = 5, pe_armed_before = False, pe_armed_after = True\<rparr>"

section \<open>The controller\<close>

lemma default_params:
  "param default_registry ''governor.per_window_quota'' = Some 0x40B0000000000000"
  "param default_registry ''governor.per_turn_ceiling'' = Some 0x4090000000000000"
  "param default_registry ''governor.alpha'' = Some 0x3FE0000000000000"
  "param default_registry ''governor.quota_floor'' = Some 0x4050000000000000"
  "param default_registry ''pressure.arm'' = Some 0x3FE999999999999A"
  "param default_registry ''pressure.disarm'' = Some 0x3FE6666666666666"
  "param default_registry ''pressure.target'' = Some 0x3FE3333333333333"
  "param default_registry ''monitor.sticky_cap'' = Some 0x4020000000000000"
  by (simp_all add: param_def registry_value_def default_values lookup_parameter_def PARAMETERS_def parameter_new_def)

lemma f64_literals:
  "f64_to_u64 0x40B0000000000000 = 4096" "f64_to_u64 0x4090000000000000 = 1024" "f64_to_u64 0x4050000000000000 = 64"
  "f64_to_u64 0x4020000000000000 = 8"
  by (simp_all add: f64_to_u64_def f64_nan_def f64_negative_def f64_finite_def f64_magnitude_def f64_exponent_def
      f64_mantissa_def Let_def)

definition default_thresholds :: thresholds where
  "default_thresholds = \<lparr>th_arm = 0x3FE999999999999A, th_disarm = 0x3FE6666666666666, th_target = 0x3FE3333333333333\<rparr>"

lemma default_thresholds_new:
  "thresholds_new 0x3FE999999999999A 0x3FE6666666666666 0x3FE3333333333333 = Inr default_thresholds"
  by (simp add: thresholds_new_def unit_interval_def f64_le_def f64_nan_def f64_finite_def f64_key_def f64_negative_def
      f64_magnitude_def f64_zero_def f64_one_def default_thresholds_def)

definition default_controller :: controller where
  "default_controller =
     \<lparr>pc_governor = sample_governor, pc_pressure = pressure_new default_thresholds,
      pc_monitor = \<lparr>rm_cap = 8, rm_counters = \<lparr>mc_counts = (\<lambda>_. 0), mc_frozen = False\<rparr>, rm_disarmed_windows = 0\<rparr>,
      pc_cache = [], pc_events = [], pc_logical_time = 0, pc_terminal_outcome = None, pc_terminal_fit_saturated = None,
      pc_terminal_fit_room = None, pc_terminal_write_failed = False, pc_registry = default_registry,
      pc_turn_window = 0, pc_pressure_tier_before = Disarmed, pc_noop_steps = 0\<rparr>"

lemma from_default_registry: "from_registry default_registry = Some default_controller"
  using sample_governor_new default_thresholds_new
  by (simp add: from_registry_def param_u64_def param_usize_def default_params f64_literals sample_config_def
      monitor_new_def default_controller_def)

lemma sample_governor_ok: "governor_ok sample_governor"
  by (rule governor_ok_new [OF sample_governor_new]) (simp add: sample_config_def)

lemma default_controller_ok: "controller_ok default_controller"
  using sample_governor_ok default_registry_ok
  by (simp add: controller_ok_def default_controller_def window_current_def history_ok_def epoch_validate_def)
    (simp add: sample_governor_def)

text \<open>C29: a controller built from the declared parameters serves every sequence of bulk results, wrap-ups,
  checkpoints, epoch observations and restorations without a panic, and keeps the invariants of all its parts: the
  governor's budgets, a registry its log explains, a valid epoch cache, events with durable operation names and times
  up to the current one, and a terminal outcome that is a known label.\<close>

theorem sessions_never_panic:
  assumes "from_registry default_registry = Some c" and "list_all command_ok cmds"
  shows "\<exists>c'. controller_run c cmds = Some c' \<and> controller_ok c'"
  using controller_run_ok [OF default_controller_ok assms(2)] assms(1) from_default_registry by simp

theorem sessions_never_panic_witness:
  "\<exists>c'. controller_run default_controller
     [IngestBulk ''grep'' (replicate 2000 0) (Inr 300), IngestBulk ''read'' (replicate 5000 0) (Inl ''disk full''),
      WrapUpSession 65536 1000000 True] = Some c' \<and> controller_ok c'"
  using sessions_never_panic [OF from_default_registry, of
      "[IngestBulk ''grep'' (replicate 2000 0) (Inr 300), IngestBulk ''read'' (replicate 5000 0) (Inl ''disk full''),
        WrapUpSession 65536 1000000 True]"]
  by (simp del: controller_run.simps controller_step.simps)




section \<open>Observations\<close>

text \<open>No production path closes a governor window, so in the runs of a session the governor never quiesces.\<close>

lemma session_never_quiesces:
  assumes "list_all command_ok cmds" and "controller_run default_controller cmds = Some c"
  shows "\<not> gs_quiescing (gv_state (pc_governor c))"
  using controller_run_quiescing [OF default_controller_ok assms]
  by (simp add: default_controller_def sample_governor_def)

text \<open>Starting a session window after one in which nothing was proposed panics.\<close>

lemma idle_window_panics:
  assumes "gv_active_window (pc_governor c) = Some w" and "w \<noteq> pc_turn_window c"
  shows "begin_session_window c = None"
  using assms by (simp add: begin_session_window_def finish_window_def)

lemma second_idle_window_panics:
  assumes "gv_active_window (pc_governor c) = Some (pc_turn_window c)" and "pc_turn_window c < u64_max"
    and "begin_session_window c = Some c'"
  shows "begin_session_window c' = None"
proof (rule idle_window_panics)
  show "gv_active_window (pc_governor c') = Some (pc_turn_window c)"
    using assms(1,3) by (auto simp: begin_session_window_def finish_window_def begin_turn_def Let_def split: if_splits)
  show "pc_turn_window c \<noteq> pc_turn_window c'"
    using assms by (auto simp: begin_session_window_def saturating_add_def Option.bind_eq_Some_conv)
qed

text \<open>A completion banks the reclaimed bytes twice: once in the settlement, once as an observed reclaim.\<close>

lemma reclaim_counted_twice:
  assumes "gv_active_window (pc_governor c) = Some (bp_window b)" and "bp_input_bytes b = length bytes"
    and "complete_bulk c b bytes k x = Some c'"
    and "gs_window_reclaimed (gv_state (pc_governor c)) + 2 * length bytes \<le> u64_max"
  shows "gs_window_reclaimed (gv_state (pc_governor c')) =
    gs_window_reclaimed (gv_state (pc_governor c)) + 2 * (length bytes - k)"
  using assms
  by (auto simp: complete_bulk_def Let_def reclaim_current settle_admission_def saturating_add_def saturating_sub_def
      Option.bind_eq_Some_conv)

text \<open>A completion after a failed write clears the recorded outcome but not the wedge, so no wrap-up is recorded any
  more and the outcome stays empty.\<close>

lemma wedge_outlives_outcome:
  assumes "controller_ok c" and "pc_terminal_write_failed c" and "ingest_bulk committed c tool bytes = Some (c', Inr k)"
  shows "pc_terminal_outcome c' = None \<and> wrap_up c' cost available writable = c'"
proof -
  from ingest_ok [OF assms(1), of committed tool bytes] assms(3)
  have "\<not> gs_quiescing (gv_state (pc_governor c))" and "committed bytes = Inr k" by (auto split: if_splits)
  with ingest_ok [OF assms(1), of committed tool bytes] assms(2,3) show ?thesis by (auto simp: wrap_up_def)
qed

text \<open>The registry accepts a sticky cap of zero, and the controller cannot be built from it.\<close>

lemma accepted_update_breaks_construction:
  "\<exists>reg. registry_update default_registry ''monitor.sticky_cap'' 0 1 ProfileLoad False = Some (Inr reg) \<and>
     from_registry reg = None"
proof -
  have l: "lookup_parameter ''monitor.sticky_cap'' =
      Some (parameter_new ''monitor.sticky_cap'' ProfileTunable 0x4020000000000000)"
    by (simp add: lookup_parameter_def PARAMETERS_def parameter_new_def)
  have v: "valid_value ''monitor.sticky_cap'' 0"
    by (simp add: valid_value_def positive_names_def unit_names_def f64_finite_def f64_lt_def f64_key_def
        f64_magnitude_def)
  have z: "f64_to_u64 0 = 0"
    by (simp add: f64_to_u64_def f64_finite_def f64_magnitude_def f64_exponent_def f64_mantissa_def Let_def)
  show ?thesis
    by (simp add: registry_update_def l parameter_new_def v default_registry_def [THEN arg_cong [of _ _ pr_updates]]
        default_values)
      (auto simp: from_registry_def param_usize_def param_def registry_value_def z monitor_new_def
        split: bind_splits)
qed

end
