(* ===== verification/Frames.thy ===== *)
theory Frames
  imports Text
begin

text \<open>
  The sanitized spine of \<^verbatim>\<open>src/context_store/spine.rs\<close>: an append-only byte store whose durable form is a
  sequence of frames \<open>[u32 length][bytes][u64 digest]\<close>.  The laws treat a spine as the list of its payloads.
\<close>

section \<open>The spine\<close>

record spine_record =
  fr_handle :: string
  fr_start :: u64
  fr_end :: u64
  fr_content_digest :: digest

datatype spine_load_error = CorruptFrame nat nat

datatype spine_error = RangeOutside u64 u64 u64

record spine =
  fs_bytes :: "byte list"
  fs_records :: "spine_record list"
  fs_dropped_tail_frames :: nat

record page =
  pg_bytes :: "byte list"
  pg_remaining :: "(u64 \<times> u64) option"

definition canonical_handle :: "u64 \<Rightarrow> byte list \<Rightarrow> string" where
  "canonical_handle preceding_len bytes = ''sanitized-'' @ hex16 (digest (le_bytes preceding_len @ bytes))"

definition spine_new :: spine where
  "spine_new = \<lparr>fs_bytes = [], fs_records = [], fs_dropped_tail_frames = 0\<rparr>"

definition spine_len :: "spine \<Rightarrow> u64" where
  "spine_len s = length (fs_bytes s)"

definition record_bytes :: "spine \<Rightarrow> spine_record \<Rightarrow> byte list" where
  "record_bytes s r = take (fr_end r - fr_start r) (drop (fr_start r) (fs_bytes s))"

definition spine_append :: "spine \<Rightarrow> string \<Rightarrow> byte list \<Rightarrow> spine \<times> (u64 \<times> u64)" where
  "spine_append s handle bytes =
     (let start = length (fs_bytes s); stored = fs_bytes s @ bytes; span = (start, length stored)
      in (s\<lparr>fs_bytes := stored,
            fs_records := fs_records s @ [\<lparr>fr_handle = handle, fr_start = fst span, fr_end = snd span,
              fr_content_digest = digest bytes\<rparr>]\<rparr>, span))"

definition spine_read_page :: "spine \<Rightarrow> u64 \<times> u64 \<Rightarrow> nat \<Rightarrow> spine_error + page" where
  "spine_read_page s span limit =
     (let (start, stop) = span
      in if stop < start \<or> spine_len s < stop then Inl (RangeOutside start stop (spine_len s))
         else let wanted = stop - start; taken = min wanted limit
              in Inr \<lparr>pg_bytes = take taken (drop start (fs_bytes s)),
                   pg_remaining = (if taken < wanted then Some (start + taken, stop) else None)\<rparr>)"

definition spine_read :: "spine \<Rightarrow> u64 \<times> u64 \<Rightarrow> nat \<Rightarrow> spine_error + byte list" where
  "spine_read s span limit =
     res_bind (spine_read_page s span limit) (\<lambda>p.
       if pg_remaining p \<noteq> None then Inl (RangeOutside (fst span) (snd span) (spine_len s)) else Inr (pg_bytes p))"

text \<open>\<open>bytes.len() as u32\<close> keeps the lower four bytes of the length.\<close>

definition frame :: "byte list \<Rightarrow> digest \<Rightarrow> byte list" where
  "frame bytes d = le_take 4 (length bytes) @ bytes @ digest_bytes d"

definition spine_encode :: "spine \<Rightarrow> byte list" where
  "spine_encode s = concat (map (\<lambda>r. frame (record_bytes s r) (fr_content_digest r)) (fs_records s))"

definition frame_at :: "byte list \<Rightarrow> nat \<Rightarrow> (byte list \<times> digest \<times> nat) option" where
  "frame_at encoded cursor =
     (if length encoded < cursor + 4 then None
      else let len = le_value (take 4 (drop cursor encoded)); body = cursor + 4
           in if length encoded < body + len + 8 then None
              else let digest_at = body + len
                   in Some (take len (drop body encoded),
                        word_of_nat (le_value (take 8 (drop digest_at encoded))), digest_at + 8))"

lemma frame_at_advances: "frame_at encoded cursor = Some (bytes, d, stop) \<Longrightarrow> cursor < stop \<and> stop \<le> length encoded"
  by (auto simp: frame_at_def Let_def split: if_splits)

function load_typed_from :: "byte list \<Rightarrow> nat \<Rightarrow> nat \<Rightarrow> spine \<Rightarrow> spine_load_error + spine" where
  "load_typed_from encoded cursor index s =
     (if length encoded \<le> cursor then Inr s
      else case frame_at encoded cursor of
             None \<Rightarrow> Inl (CorruptFrame index (length (fs_records s)))
           | Some (bytes, d, stop) \<Rightarrow>
               if digest bytes \<noteq> d then Inl (CorruptFrame index (length (fs_records s)))
               else load_typed_from encoded stop (index + 1)
                 (fst (spine_append s (canonical_handle (spine_len s) bytes) bytes)))"
  by pat_completeness auto

termination load_typed_from
  by (relation "measure (\<lambda>(encoded, cursor, index, s). length encoded - cursor)") (auto dest: frame_at_advances)

definition spine_load_typed :: "byte list \<Rightarrow> spine_load_error + spine" where
  "spine_load_typed encoded = load_typed_from encoded 0 0 spine_new"

text \<open>The salvaging loader: the frames up to the first bad one, and a count of the frames after it.\<close>

function load_from :: "byte list \<Rightarrow> nat \<Rightarrow> spine \<Rightarrow> spine \<times> nat" where
  "load_from encoded cursor s =
     (if length encoded \<le> cursor then (s, cursor)
      else case frame_at encoded cursor of
             None \<Rightarrow> (s, cursor)
           | Some (bytes, d, stop) \<Rightarrow>
               if digest bytes \<noteq> d then (s, cursor)
               else load_from encoded stop (fst (spine_append s (canonical_handle (spine_len s) bytes) bytes)))"
  by pat_completeness auto

termination load_from
  by (relation "measure (\<lambda>(encoded, cursor, s). length encoded - cursor)") (auto dest: frame_at_advances)

function count_dropped :: "byte list \<Rightarrow> nat \<Rightarrow> nat \<Rightarrow> nat" where
  "count_dropped encoded cursor dropped =
     (if length encoded \<le> cursor then dropped
      else case frame_at encoded cursor of
             None \<Rightarrow> dropped + 1
           | Some (bytes, d, stop) \<Rightarrow> count_dropped encoded stop (dropped + 1))"
  by pat_completeness auto

termination count_dropped
  by (relation "measure (\<lambda>(encoded, cursor, dropped). length encoded - cursor)") (auto dest: frame_at_advances)

definition spine_load :: "byte list \<Rightarrow> spine" where
  "spine_load encoded =
     (case load_from encoded 0 spine_new of
        (s, cursor) \<Rightarrow> s\<lparr>fs_dropped_tail_frames := count_dropped encoded cursor 0\<rparr>)"

declare load_typed_from.simps [simp del] load_from.simps [simp del] count_dropped.simps [simp del]

section \<open>A spine is the list of its payloads\<close>

definition append_payload :: "spine \<Rightarrow> byte list \<Rightarrow> spine" where
  "append_payload s bytes = fst (spine_append s (canonical_handle (spine_len s) bytes) bytes)"

definition spine_of :: "byte list list \<Rightarrow> spine" where
  "spine_of ps = foldl append_payload spine_new ps"

definition frame_of :: "byte list \<Rightarrow> byte list" where
  "frame_of bytes = frame bytes (digest bytes)"

definition encoding :: "byte list list \<Rightarrow> byte list" where
  "encoding ps = concat (map frame_of ps)"

lemma encoding_simps [simp]: "encoding [] = []" "encoding (p # ps) = frame_of p @ encoding ps"
  "encoding (ps @ qs) = encoding ps @ encoding qs"
  by (simp_all add: encoding_def)

lemma length_frame [simp]: "length (frame bytes d) = length bytes + 12"
  by (simp add: frame_def)

lemma length_frame_of [simp]: "length (frame_of bytes) = length bytes + 12"
  by (simp add: frame_of_def)

lemma append_payload_simps [simp]:
  "fs_bytes (append_payload s p) = fs_bytes s @ p"
  "fs_dropped_tail_frames (append_payload s p) = fs_dropped_tail_frames s"
  "length (fs_records (append_payload s p)) = Suc (length (fs_records s))"
  by (simp_all add: append_payload_def spine_append_def Let_def)

lemma spine_of_snoc: "spine_of (ps @ [p]) = append_payload (spine_of ps) p"
  by (simp add: spine_of_def)

lemma spine_of_facts [simp]:
  "fs_bytes (spine_of ps) = concat ps" "length (fs_records (spine_of ps)) = length ps"
  "fs_dropped_tail_frames (spine_of ps) = 0"
  by (induction ps rule: rev_induct) (simp_all add: spine_of_snoc, simp_all add: spine_of_def spine_new_def)

text \<open>Every record covers its payload, in order.\<close>

lemma spine_of_record:
  assumes "i < length ps"
  shows "fs_records (spine_of ps) ! i =
    \<lparr>fr_handle = canonical_handle (length (concat (take i ps))) (ps ! i),
     fr_start = length (concat (take i ps)), fr_end = length (concat (take (Suc i) ps)),
     fr_content_digest = digest (ps ! i)\<rparr>"
  using assms
proof (induction ps rule: rev_induct)
  case (snoc p ps)
  show ?case
  proof (cases "i < length ps")
    case True
    with snoc.IH show ?thesis
      by (simp add: spine_of_snoc append_payload_def spine_append_def nth_append Let_def)
  next
    case False
    with snoc.prems have i: "i = length ps" by simp
    show ?thesis
      by (simp add: i spine_of_snoc append_payload_def spine_append_def nth_append spine_len_def Let_def)
  qed
qed simp

lemma record_bytes_of:
  assumes "i < length ps"
  shows "record_bytes (spine_of ps) (fs_records (spine_of ps) ! i) = ps ! i"
proof -
  have "concat ps = concat (take i ps) @ ps ! i @ concat (drop (Suc i) ps)"
    using id_take_nth_drop [OF assms] by (metis concat.simps(2) concat_append)
  with assms show ?thesis
    by (simp add: record_bytes_def spine_of_record take_Suc_conv_app_nth)
qed

lemma encode_spine_of: "spine_encode (spine_of ps) = encoding ps"
proof -
  let ?f = "\<lambda>r. frame (record_bytes (spine_of ps) r) (fr_content_digest r)"
  have "?f (fs_records (spine_of ps) ! i) = frame_of (ps ! i)" if "i < length ps" for i
    unfolding record_bytes_of [OF that] by (simp add: spine_of_record [OF that] frame_of_def)
  then have "map ?f (fs_records (spine_of ps)) = map frame_of ps" by (intro nth_equalityI) simp_all
  then show ?thesis by (simp add: spine_encode_def encoding_def)
qed

section \<open>Reading frames\<close>

abbreviation frameable :: "byte list \<Rightarrow> bool" where
  "frameable p \<equiv> length p < 4294967296"

lemma le_value_digest: "(word_of_nat (le_value (digest_bytes d)) :: digest) = d"
proof -
  have "unat d < u64_modulus" using unsigned_less [of d] by simp
  then show ?thesis by (simp add: digest_bytes_def le_value_le_bytes)
qed

lemma le_value_length: "frameable p \<Longrightarrow> le_value (le_take 4 (length p)) = length p"
  by (simp add: le_value_le_take)

lemma frame_at_frame:
  assumes "frameable p"
  shows "frame_at (pre @ frame p d @ rest) (length pre) = Some (p, d, length pre + length p + 12)"
proof -
  have "take 4 (frame p d @ rest) = le_take 4 (length p)" by (simp add: frame_def)
  moreover have "drop (length pre + 4) (pre @ frame p d @ rest) = p @ digest_bytes d @ rest" by (simp add: frame_def)
  moreover have "drop (length pre + 4 + length p) (pre @ frame p d @ rest) = digest_bytes d @ rest"
    by (simp add: frame_def)
  ultimately show ?thesis
    using le_value_length [OF assms] by (simp add: frame_at_def le_value_digest Let_def)
qed

lemma frame_at_partial:
  assumes "frameable p" and "m < length p + 12"
  shows "frame_at (pre @ take m (frame_of p)) (length pre) = None"
proof (cases "m < 4")
  case False
  then have "take 4 (take m (frame_of p)) = le_take 4 (length p)" by (simp add: frame_of_def frame_def min_def)
  with False assms le_value_length [OF assms(1)] show ?thesis by (simp add: frame_at_def Let_def)
qed (simp add: frame_at_def)

text \<open>Both loaders run through every frame that is whole and carries its own digest.\<close>

lemma load_typed_runs:
  assumes "list_all frameable todo"
  shows "load_typed_from (encoding past @ encoding todo @ tail) (length (encoding past)) k (spine_of past) =
    load_typed_from (encoding past @ encoding todo @ tail) (length (encoding (past @ todo))) (k + length todo)
      (spine_of (past @ todo))"
  using assms
proof (induction todo arbitrary: past k)
  case (Cons p todo)
  let ?e = "encoding past @ encoding (p # todo) @ tail"
  have "frame_at ?e (length (encoding past)) = Some (p, digest p, length (encoding (past @ [p])))"
    using frame_at_frame [of p "encoding past" "digest p" "encoding todo @ tail"] Cons.prems
    by (simp add: frame_of_def)
  then have "load_typed_from ?e (length (encoding past)) k (spine_of past) =
      load_typed_from ?e (length (encoding (past @ [p]))) (k + 1) (spine_of (past @ [p]))"
    by (subst load_typed_from.simps) (simp add: spine_of_snoc append_payload_def)
  with Cons.IH [of "past @ [p]" "k + 1"] Cons.prems show ?case by simp
qed simp

lemma load_runs:
  assumes "list_all frameable todo"
  shows "load_from (encoding past @ encoding todo @ tail) (length (encoding past)) (spine_of past) =
    load_from (encoding past @ encoding todo @ tail) (length (encoding (past @ todo))) (spine_of (past @ todo))"
  using assms
proof (induction todo arbitrary: past)
  case (Cons p todo)
  let ?e = "encoding past @ encoding (p # todo) @ tail"
  have "frame_at ?e (length (encoding past)) = Some (p, digest p, length (encoding (past @ [p])))"
    using frame_at_frame [of p "encoding past" "digest p" "encoding todo @ tail"] Cons.prems
    by (simp add: frame_of_def)
  then have "load_from ?e (length (encoding past)) (spine_of past) =
      load_from ?e (length (encoding (past @ [p]))) (spine_of (past @ [p]))"
    by (subst load_from.simps) (simp add: spine_of_snoc append_payload_def)
  with Cons.IH [of "past @ [p]"] Cons.prems show ?case by simp
qed simp

lemma spine_of_Nil: "spine_new = spine_of []"
  by (simp add: spine_of_def)

lemma load_typed_reads:
  assumes "list_all frameable ps"
  shows "spine_load_typed (encoding ps @ tail) =
    load_typed_from (encoding ps @ tail) (length (encoding ps)) (length ps) (spine_of ps)"
  using load_typed_runs [OF assms, of "[]" tail 0] by (simp add: spine_load_typed_def spine_of_Nil)

lemma load_reads:
  assumes "list_all frameable ps"
  shows "load_from (encoding ps @ tail) 0 spine_new = load_from (encoding ps @ tail) (length (encoding ps)) (spine_of ps)"
  using load_runs [OF assms, of "[]" tail] by (simp add: spine_of_Nil)

lemma load_typed_round_trip:
  "list_all frameable ps \<Longrightarrow> spine_load_typed (encoding ps) = Inr (spine_of ps)"
  using load_typed_reads [of ps "[]"] by (simp add: load_typed_from.simps)

lemma load_typed_corrupt:
  assumes "list_all frameable ps" and "frameable p" and "digest p \<noteq> d"
  shows "spine_load_typed (encoding ps @ frame p d @ rest) = Inl (CorruptFrame (length ps) (length ps))"
  using load_typed_reads [OF assms(1), of "frame p d @ rest"] frame_at_frame [OF assms(2), of "encoding ps" d rest] assms(3)
  by (simp add: load_typed_from.simps)

lemma encoding_prefix:
  assumes "n \<le> length (encoding ps)"
  obtains k where "k = length ps \<and> take n (encoding ps) = encoding ps"
  | k m where "k < length ps" and "m < length (ps ! k) + 12" and "take n (encoding ps) = encoding (take k ps) @ take m (frame_of (ps ! k))"
      and "n = length (encoding (take k ps)) + m"
  using assms
proof (induction ps arbitrary: n thesis)
  case (Cons p ps)
  show ?case
  proof (cases "n < length p + 12")
    case True
    then show ?thesis using Cons.prems(2) [of 0 n] by simp
  next
    case False
    then have take: "take n (encoding (p # ps)) = frame_of p @ take (n - (length p + 12)) (encoding ps)" by simp
    have le: "n - (length p + 12) \<le> length (encoding ps)" using Cons.prems(3) by simp
    show ?thesis
    proof (rule Cons.IH [OF _ _ le], goal_cases)
      case (1 k)
      with take Cons.prems(1) [of "Suc k"] show ?case by simp
    next
      case (2 k m)
      with take False show ?case using Cons.prems(2) [of "Suc k" m] by simp
    qed
  qed
qed simp

text \<open>Salvage after a crash: of a spine cut off at any byte, exactly the whole frames survive, and a cut inside a
  frame is reported as one dropped frame.\<close>

lemma load_stops:
  assumes "frame_at e c = None" and "c < length e"
  shows "load_from e c s = (s, c)" and "count_dropped e c d = d + 1"
  using assms by (simp_all add: load_from.simps [of e c s] count_dropped.simps [of e c d])

lemma load_ends: "load_from e (length e) s = (s, length e)" "count_dropped e (length e) d = d"
  by (simp_all add: load_from.simps [of e "length e"] count_dropped.simps [of e "length e"])

lemma load_prefix:
  assumes ps: "list_all frameable ps" and n: "n \<le> length (encoding ps)"
  shows "\<exists>k \<le> length ps. length (encoding (take k ps)) \<le> n \<and>
      (k < length ps \<longrightarrow> n < length (encoding (take (Suc k) ps))) \<and>
      spine_load (take n (encoding ps)) =
        (spine_of (take k ps))\<lparr>fs_dropped_tail_frames := (if n = length (encoding (take k ps)) then 0 else 1)\<rparr>"
  using n
proof (cases rule: encoding_prefix)
  case (1 k)
  then have "n = length (encoding ps)" using n by (metis length_take min.absorb2)
  with 1 load_reads [OF ps, of "[]"] load_ends show ?thesis
    by (intro exI [of _ "length ps"]) (simp add: spine_load_def)
next
  case (2 k m)
  let ?e = "encoding (take k ps) @ take m (frame_of (ps ! k))"
  have fr: "list_all frameable (take k ps)" "frameable (ps ! k)"
    using ps 2(1) by (auto simp: list_all_iff dest: in_set_takeD)
  have suc: "take (Suc k) ps = take k ps @ [ps ! k]" using 2(1) by (rule take_Suc_conv_app_nth)
  have len: "length ?e = n" using 2(2,4) by simp
  have "load_from ?e 0 spine_new = (spine_of (take k ps), length (encoding (take k ps))) \<and>
      count_dropped ?e (length (encoding (take k ps))) 0 = (if m = 0 then 0 else 1)"
  proof (cases "m = 0")
    case True
    with load_reads [OF fr(1), of "[]"] load_ends [of "encoding (take k ps)"] show ?thesis by simp
  next
    case False
    with 2(2) have "length (encoding (take k ps)) < length ?e" by simp
    from load_stops [OF frame_at_partial [OF fr(2) 2(2)] this] load_reads [OF fr(1)] False show ?thesis by simp
  qed
  then have "spine_load ?e = (spine_of (take k ps))\<lparr>fs_dropped_tail_frames := (if m = 0 then 0 else 1)\<rparr>"
    by (simp add: spine_load_def)
  with 2 suc show ?thesis by (intro exI [of _ k]) auto
qed

text \<open>On any bytes the salvaging loader keeps what the typed loader had validated, and drops something exactly when
  the typed loader refuses.\<close>

lemma load_agrees:
  "case load_typed_from e c i s of
     Inr t \<Rightarrow> \<exists>c'. load_from e c s = (t, c') \<and> length e \<le> c'
   | Inl (CorruptFrame j g) \<Rightarrow>
       \<exists>t c'. load_from e c s = (t, c') \<and> c' < length e \<and> length (fs_records t) = g \<and>
         j + length (fs_records s) = i + g"
proof (induction e c i s rule: load_typed_from.induct)
  case (1 e c i s)
  show ?case
  proof (cases "length e \<le> c")
    case True
    then show ?thesis by (simp add: load_typed_from.simps [of e c] load_from.simps [of e c])
  next
    case False
    show ?thesis
    proof (cases "frame_at e c")
      case None
      with False show ?thesis by (simp add: load_typed_from.simps [of e c] load_from.simps [of e c])
    next
      case (Some f)
      obtain b d n where f: "f = (b, d, n)" by (cases f)
      let ?s = "fst (spine_append s (canonical_handle (spine_len s) b) b)"
      have l: "length (fs_records ?s) = Suc (length (fs_records s))" by (simp add: spine_append_def Let_def)
      show ?thesis
      proof (cases "digest b = d")
        case True
        with 1 [OF False Some f [symmetric] refl] False Some f l show ?thesis
          by (simp add: load_typed_from.simps [of e c] load_from.simps [of e c]
              split: sum.splits spine_load_error.splits)
      next
        case False': False
        with False Some f show ?thesis
          by (simp add: load_typed_from.simps [of e c] load_from.simps [of e c])
      qed
    qed
  qed
qed

text \<open>Pages: what is returned and what remains are the two parts of the requested range.\<close>

lemma spine_read_page_parts:
  assumes "a \<le> b" and "b \<le> spine_len s"
  shows "\<exists>p. spine_read_page s (a, b) limit = Inr p \<and>
    pg_bytes p @ (case pg_remaining p of None \<Rightarrow> [] | Some (c, d) \<Rightarrow> take (d - c) (drop c (fs_bytes s))) =
      take (b - a) (drop a (fs_bytes s)) \<and>
    length (pg_bytes p) \<le> limit"
proof -
  have "take limit (drop a xs) @ take (b - (a + limit)) (drop (a + limit) xs) = take (b - a) (drop a xs)"
    if "limit < b - a" for xs :: "byte list"
  proof -
    have "take limit (drop a xs) @ take (b - a - limit) (drop limit (drop a xs)) = take (limit + (b - a - limit)) (drop a xs)"
      by (simp only: take_add)
    with that show ?thesis by (simp add: add.commute)
  qed
  with assms show ?thesis by (auto simp: spine_read_page_def min_def Let_def)
qed

end
