(* ===== verification/Vault.thy ===== *)
theory Vault
  imports Text BTree
begin

text \<open>
  The encrypted vault of \<^verbatim>\<open>src/context_store/vault.rs\<close>.  AES-256-GCM under the session's key is the
  parameter \<open>aead\<close>, and a word of operating-system entropy an argument.  The slots are a map in key order,
  which is the order a snapshot lists them in.
\<close>

section \<open>The vault\<close>

record aead =
  ae_encrypt :: "byte list \<Rightarrow> string \<Rightarrow> byte list \<Rightarrow> byte list option"
  ae_decrypt :: "byte list \<Rightarrow> string \<Rightarrow> byte list \<Rightarrow> byte list option"

datatype vault_error = VaultUnavailable | UnknownHandle | VaultErased | OpenFailure | NonceLength

datatype slot = LiveSlot "byte list" "byte list" | Tombstone

record vault =
  vt_slots :: "(string, slot) btree"
  vt_next :: u64
  vt_nonce_prefix :: nat

record vault_slot_snapshot =
  vs_handle :: string
  vs_nonce :: string
  vs_ciphertext :: string
  vs_erased :: bool

record vault_snapshot =
  vn_nonce_prefix :: nat
  vn_next :: u64
  vn_slots :: "vault_slot_snapshot list"

definition NONCE_LEN :: nat where
  "NONCE_LEN = 12"

definition open_with_prefix :: "nat \<Rightarrow> vault" where
  "open_with_prefix prefix = \<lparr>vt_slots = [], vt_next = 0, vt_nonce_prefix = prefix\<rparr>"

definition vault_open :: "u64 \<Rightarrow> vault" where
  "vault_open entropy = open_with_prefix (entropy mod 4294967296)"

definition slot_handle :: "string \<Rightarrow> u64 \<Rightarrow> string" where
  "slot_handle reason n = ''vault-'' @ reason @ ''-'' @ decimal n"

definition slot_nonce :: "nat \<Rightarrow> u64 \<Rightarrow> byte list" where
  "slot_nonce prefix n = le_take 4 prefix @ le_bytes n"

definition vault_put :: "aead \<Rightarrow> vault \<Rightarrow> byte list \<Rightarrow> string \<Rightarrow> vault \<times> (vault_error + string)" where
  "vault_put a v raw reason =
     (let n = vt_next v; v1 = v\<lparr>vt_next := add64 n 1\<rparr>; handle = slot_handle reason n;
          nonce = slot_nonce (vt_nonce_prefix v) n
      in case ae_encrypt a nonce handle raw of
           None \<Rightarrow> (v1, Inl VaultUnavailable)
         | Some ciphertext \<Rightarrow>
             (v1\<lparr>vt_slots := bt_insert handle (LiveSlot nonce ciphertext) (vt_slots v1)\<rparr>, Inr handle))"

definition vault_get :: "aead \<Rightarrow> vault \<Rightarrow> string \<Rightarrow> vault_error + byte list" where
  "vault_get a v handle =
     (case bt_get (vt_slots v) handle of
        Some (LiveSlot nonce ciphertext) \<Rightarrow> ok_or (ae_decrypt a nonce handle ciphertext) OpenFailure
      | _ \<Rightarrow> Inl UnknownHandle)"

definition vault_erase :: "vault \<Rightarrow> string \<Rightarrow> vault_error + vault" where
  "vault_erase v handle =
     (if bt_get (vt_slots v) handle = None then Inl UnknownHandle
      else Inr (v\<lparr>vt_slots := bt_adjust handle (\<lambda>_. Tombstone) (vt_slots v)\<rparr>))"

definition is_erased :: "vault \<Rightarrow> string \<Rightarrow> bool" where
  "is_erased v handle \<longleftrightarrow> bt_get (vt_slots v) handle = Some Tombstone"

definition live_slots :: "vault \<Rightarrow> nat" where
  "live_slots v = length (filter (\<lambda>s. s \<noteq> Tombstone) (bt_values (vt_slots v)))"

fun slot_snapshot :: "string \<times> slot \<Rightarrow> vault_slot_snapshot" where
  "slot_snapshot (handle, LiveSlot nonce ciphertext) =
     \<lparr>vs_handle = handle, vs_nonce = hex nonce, vs_ciphertext = hex ciphertext, vs_erased = False\<rparr>"
| "slot_snapshot (handle, Tombstone) = \<lparr>vs_handle = handle, vs_nonce = [], vs_ciphertext = [], vs_erased = True\<rparr>"

definition vault_take_snapshot :: "vault \<Rightarrow> vault_snapshot" where
  "vault_take_snapshot v =
     \<lparr>vn_nonce_prefix = vt_nonce_prefix v, vn_next = vt_next v, vn_slots = map slot_snapshot (vt_slots v)\<rparr>"

definition embedded_slot_number :: "string \<Rightarrow> u64 option" where
  "embedded_slot_number handle =
     (if take 6 handle \<noteq> ''vault-'' then None
      else let rest = drop 6 handle
           in if CHR ''-'' \<notin> set rest then None
              else parse_u64 (rev (takeWhile (\<lambda>c. c \<noteq> CHR ''-'') (rev rest))))"

definition restored_slot :: "vault_slot_snapshot \<Rightarrow> vault_error + slot" where
  "restored_slot s =
     (if vs_erased s then Inr Tombstone
      else res_bind (ok_or (unhex (vs_nonce s)) VaultUnavailable) (\<lambda>nonce.
           if length nonce \<noteq> NONCE_LEN then Inl NonceLength
           else res_bind (ok_or (unhex (vs_ciphertext s)) VaultUnavailable) (\<lambda>ciphertext.
             Inr (LiveSlot nonce ciphertext))))"

text \<open>The loop of \<open>restore\<close> over the snapshot's slots, with the map and the counter floor built so far.\<close>

fun restore_slots ::
  "u64 \<Rightarrow> vault_slot_snapshot list \<Rightarrow> (string, slot) btree \<Rightarrow> u64 \<Rightarrow> vault_error + ((string, slot) btree \<times> u64)" where
  "restore_slots next [] slots floor = Inr (slots, floor)"
| "restore_slots next (s # ss) slots floor =
     (if bt_contains slots (vs_handle s) then Inl VaultUnavailable
      else res_bind (restored_slot s) (\<lambda>restored.
           res_bind
             (case embedded_slot_number (vs_handle s) of
                Some n \<Rightarrow>
                  if next \<le> n then Inl VaultUnavailable else Inr (max floor (saturating_add n 1))
              | None \<Rightarrow> if \<not> vs_erased s then Inl VaultUnavailable else Inr floor)
             (\<lambda>floor'. restore_slots next ss (bt_insert (vs_handle s) restored slots) floor')))"

definition vault_restore :: "vault \<Rightarrow> vault_snapshot \<Rightarrow> u64 \<Rightarrow> vault_error + vault" where
  "vault_restore v snapshot entropy =
     res_bind (restore_slots (vn_next snapshot) (vn_slots snapshot) [] 0) (\<lambda>(slots, floor).
       Inr (v\<lparr>vt_slots := slots, vt_next := max (vn_next snapshot) floor, vt_nonce_prefix := entropy mod 4294967296\<rparr>))"

section \<open>Handles and nonces\<close>

lemma embedded_slot_handle: "n < u64_modulus \<Longrightarrow> embedded_slot_number (slot_handle reason n) = Some n"
proof -
  assume n: "n < u64_modulus"
  have no_dash: "\<forall>c \<in> set (decimal n). c \<noteq> CHR ''-''"
    using decimal_digits [of n] by (auto simp: list_all_iff is_digit_def)
  have "takeWhile (\<lambda>c. c \<noteq> CHR ''-'') (rev (reason @ ''-'' @ decimal n)) = rev (decimal n)"
    using no_dash by (simp add: takeWhile_tail)
  then show ?thesis
    using parse_decimal [OF n] by (simp add: embedded_slot_number_def slot_handle_def Let_def)
qed

lemma slot_nonce_inject:
  assumes "slot_nonce p m = slot_nonce q n" and "m < u64_modulus" and "n < u64_modulus"
  shows "m = n"
proof -
  have "le_bytes m = le_bytes n" using assms(1) by (simp add: slot_nonce_def append_eq_append_conv)
  with assms(2,3) show ?thesis by (intro le_bytes_inject)
qed

lemma length_slot_nonce [simp]: "length (slot_nonce p n) = NONCE_LEN"
  by (simp add: slot_nonce_def NONCE_LEN_def)

section \<open>The invariant\<close>

text \<open>Every handle was minted by the vault, below its counter, and every live nonce has the length of the cipher.\<close>

fun slot_ok :: "u64 \<Rightarrow> string \<times> slot \<Rightarrow> bool" where
  "slot_ok next (handle, s) \<longleftrightarrow>
     (\<exists>n < next. embedded_slot_number handle = Some n) \<and>
     (case s of LiveSlot nonce ciphertext \<Rightarrow> length nonce = NONCE_LEN | Tombstone \<Rightarrow> True)"

definition vault_ok :: "vault \<Rightarrow> bool" where
  "vault_ok v \<longleftrightarrow> bt_ok (vt_slots v) \<and> (\<forall>e \<in> set (vt_slots v). slot_ok (vt_next v) e) \<and> vt_next v < u64_modulus"

lemma vault_ok_open: "vault_ok (vault_open entropy)"
  by (simp add: vault_ok_def vault_open_def open_with_prefix_def)

lemma slot_ok_mono: "slot_ok n e \<Longrightarrow> n \<le> m \<Longrightarrow> slot_ok m e"
  by (cases e) (auto intro: less_le_trans)

lemma set_bt_insert: "set (bt_insert k v m) \<subseteq> insert (k, v) (set m)"
  by (induction k v m rule: bt_insert.induct) auto

lemma vault_put_ok:
  assumes ok: "vault_ok v" and room: "vt_next v + 1 < u64_modulus"
  shows "vault_ok (fst (vault_put a v raw reason)) \<and> vt_next (fst (vault_put a v raw reason)) = vt_next v + 1"
proof -
  have old: "\<forall>e \<in> set (vt_slots v). slot_ok (vt_next v + 1) e"
    using ok slot_ok_mono by (auto simp: vault_ok_def)
  have new: "slot_ok (vt_next v + 1) (slot_handle reason (vt_next v), LiveSlot (slot_nonce p (vt_next v)) c)" for p c
    using embedded_slot_handle [of "vt_next v" reason] room by simp
  show ?thesis
    using ok room old new set_bt_insert
    by (fastforce simp: vault_put_def Let_def vault_ok_def split: option.splits)
qed

lemma vault_erase_ok: "vault_ok v \<Longrightarrow> vault_erase v handle = Inr v' \<Longrightarrow> vault_ok v' \<and> vt_next v' = vt_next v"
proof -
  assume ok: "vault_ok v" and er: "vault_erase v handle = Inr v'"
  then have v': "v' = v\<lparr>vt_slots := bt_adjust handle (\<lambda>_. Tombstone) (vt_slots v)\<rparr>"
    by (simp add: vault_erase_def split: if_splits)
  have "slot_ok (vt_next v) (k, if k = handle then Tombstone else s)" if "(k, s) \<in> set (vt_slots v)" for k s
    using ok that by (auto simp: vault_ok_def)
  then have "\<forall>e \<in> set (vt_slots v'). slot_ok (vt_next v) e"
    unfolding v' by (auto simp: bt_adjust_def simp del: slot_ok.simps)
  with ok show ?thesis by (simp add: v' vault_ok_def)
qed

section \<open>Restarts\<close>

lemma restored_snapshot: "slot_ok next (h, s) \<Longrightarrow> restored_slot (slot_snapshot (h, s)) = Inr s"
  by (cases s) (simp_all add: restored_slot_def unhex_hex)

lemma slot_snapshot_handle [simp]: "vs_handle (slot_snapshot (h, s)) = h"
  by (cases s) simp_all

lemma bt_insert_last: "\<forall>j \<in> fst ` set m. j < k \<Longrightarrow> bt_insert k v m = m @ [(k, v)]"
  by (induction k v m rule: bt_insert.induct) auto

lemma restore_snapshots:
  assumes "bt_ok (past @ todo)" and "\<forall>e \<in> set todo. slot_ok next e" and "next < u64_modulus"
  shows "\<exists>f. restore_slots next (map slot_snapshot todo) past floor = Inr (past @ todo, f) \<and> f \<le> max floor next"
  using assms
proof (induction todo arbitrary: past floor)
  case (Cons e todo)
  obtain h s where e: "e = (h, s)" by (cases e)
  have below: "\<forall>j \<in> fst ` set past. j < h" using Cons.prems(1) by (auto simp: bt_ok_def e sorted_wrt_append)
  then have "h \<notin> fst ` set past" by auto
  then have fresh: "\<not> bt_contains past h" by (simp add: bt_contains_def map_of_eq_None_iff)
  have ok: "slot_ok next (h, s)" using Cons.prems(2) by (simp add: e)
  then obtain n where n: "n < next" "embedded_slot_number h = Some n" by auto
  let ?floor = "max floor (saturating_add n 1)"
  have "bt_ok ((past @ [(h, s)]) @ todo)" using Cons.prems(1) by (simp add: e)
  from Cons.IH [OF this, of ?floor] Cons.prems(2,3) obtain f
    where "restore_slots next (map slot_snapshot todo) (past @ [(h, s)]) ?floor = Inr ((past @ [(h, s)]) @ todo, f)"
      and "f \<le> max ?floor next" by auto
  moreover have "saturating_add n 1 \<le> next" using n(1) by (simp add: saturating_add_def)
  ultimately show ?case
    using n fresh restored_snapshot [OF ok] bt_insert_last [OF below] by (simp add: e)
qed simp

lemma vault_restore_snapshot:
  assumes "vault_ok v"
  shows "vault_restore w (vault_take_snapshot v) entropy =
    Inr (w\<lparr>vt_slots := vt_slots v, vt_next := vt_next v, vt_nonce_prefix := entropy mod 4294967296\<rparr>)"
proof -
  obtain f where "restore_slots (vt_next v) (map slot_snapshot (vt_slots v)) [] 0 = Inr (vt_slots v, f)"
    and "f \<le> max 0 (vt_next v)"
    using restore_snapshots [of "[]" "vt_slots v" "vt_next v" 0] assms by (auto simp: vault_ok_def)
  then show ?thesis by (simp add: vault_restore_def vault_take_snapshot_def max_def)
qed

section \<open>Lifetimes\<close>

text \<open>The life of a vault across processes: seals, erasures, and restarts that restore the last snapshot.  A step
  reports the nonce it sealed under.\<close>

datatype vault_command = Seal "byte list" string | EraseHandle string | Restart u64

fun vault_step :: "aead \<Rightarrow> vault \<Rightarrow> vault_command \<Rightarrow> vault \<times> byte list list" where
  "vault_step a v (Seal raw reason) = (fst (vault_put a v raw reason), [slot_nonce (vt_nonce_prefix v) (vt_next v)])"
| "vault_step a v (EraseHandle h) = (case vault_erase v h of Inl e \<Rightarrow> v | Inr v' \<Rightarrow> v', [])"
| "vault_step a v (Restart entropy) =
     (case vault_restore (vault_open entropy) (vault_take_snapshot v) entropy of Inl e \<Rightarrow> v | Inr v' \<Rightarrow> v', [])"

fun vault_run :: "aead \<Rightarrow> vault \<Rightarrow> vault_command list \<Rightarrow> vault \<times> byte list list" where
  "vault_run a v [] = (v, [])"
| "vault_run a v (c # cs) =
     (case vault_step a v c of (v1, n) \<Rightarrow> case vault_run a v1 cs of (v2, ns) \<Rightarrow> (v2, n @ ns))"

fun seals :: "vault_command list \<Rightarrow> nat" where
  "seals [] = 0"
| "seals (Seal raw reason # cs) = Suc (seals cs)"
| "seals (c # cs) = seals cs"

lemma vault_step_ok:
  assumes "vault_ok v" and "vt_next v + 1 < u64_modulus" and "vault_step a v c = (v', ns)"
  shows "vault_ok v' \<and> vt_next v' = vt_next v + length ns \<and> length ns = seals [c] \<and>
    ns = map (slot_nonce (vt_nonce_prefix v)) [vt_next v ..< vt_next v']"
proof (cases c)
  case (Seal raw reason)
  with assms vault_put_ok [OF assms(1,2), of a raw reason] show ?thesis by auto
next
  case (EraseHandle h)
  with assms vault_erase_ok [OF assms(1)] show ?thesis by (auto split: sum.splits)
next
  case (Restart entropy)
  with assms(1,3) vault_restore_snapshot [OF assms(1)] show ?thesis
    by (auto simp: vault_ok_def simp del: slot_ok.simps)
qed

lemma seals_Cons: "seals (c # cs) = seals [c] + seals cs"
  by (cases c) simp_all

text \<open>The slot part of the nonces counts upwards through every restart.\<close>

lemma vault_run_ok:
  assumes "vault_ok v" and "vt_next v + seals cs + 1 < u64_modulus" and "vault_run a v cs = (v', ns)"
  shows "vault_ok v' \<and> vt_next v' = vt_next v + length ns \<and> length ns = seals cs \<and> distinct ns \<and>
    set ns \<subseteq> {slot_nonce p n | p n. vt_next v \<le> n \<and> n < vt_next v'}"
  using assms
proof (induction cs arbitrary: v ns)
  case (Cons c cs)
  obtain v1 n1 where step: "vault_step a v c = (v1, n1)" by (cases "vault_step a v c")
  obtain ns1 where rest: "vault_run a v1 cs = (v', ns1)" and ns: "ns = n1 @ ns1"
    using Cons.prems(3) step by (auto split: prod.splits)
  have s1: "vault_ok v1" "vt_next v1 = vt_next v + length n1" "length n1 = seals [c]"
    "n1 = map (slot_nonce (vt_nonce_prefix v)) [vt_next v ..< vt_next v1]"
    using vault_step_ok [OF Cons.prems(1) _ step] Cons.prems(2) by linarith+
  have room: "vt_next v1 + seals cs + 1 < u64_modulus"
    using Cons.prems(2) s1(2,3) seals_Cons [of c cs] by simp
  note IH = Cons.IH [OF s1(1) room rest]
  have inj: "inj_on (slot_nonce (vt_nonce_prefix v)) (set [vt_next v ..< vt_next v1])"
  proof (rule inj_onI)
    fix m n
    assume "m \<in> set [vt_next v ..< vt_next v1]" and "n \<in> set [vt_next v ..< vt_next v1]"
    then have "m < u64_modulus" "n < u64_modulus" using room by auto
    then show "slot_nonce (vt_nonce_prefix v) m = slot_nonce (vt_nonce_prefix v) n \<Longrightarrow> m = n"
      using slot_nonce_inject by blast
  qed
  have "distinct n1" unfolding s1(4) using inj by (simp add: distinct_map)
  moreover have "x \<notin> set ns1" if "x \<in> set n1" for x
  proof
    assume "x \<in> set ns1"
    with IH obtain q n where n: "x = slot_nonce q n" "vt_next v1 \<le> n" "n < vt_next v'" by blast
    from that obtain m where m: "x = slot_nonce (vt_nonce_prefix v) m" "m < vt_next v1" by (subst (asm) s1(4)) auto
    have "m < u64_modulus" "n < u64_modulus" using m n room IH by linarith+
    with m n slot_nonce_inject show False by fastforce
  qed
  moreover have "set n1 \<subseteq> {slot_nonce p n | p n. vt_next v \<le> n \<and> n < vt_next v'}"
  proof
    fix x
    assume "x \<in> set n1"
    then obtain m where "x = slot_nonce (vt_nonce_prefix v) m" "vt_next v \<le> m" "m < vt_next v1"
      by (subst (asm) s1(4)) auto
    moreover from this IH have "m < vt_next v'" by linarith
    ultimately show "x \<in> {slot_nonce p n | p n. vt_next v \<le> n \<and> n < vt_next v'}" by blast
  qed
  moreover have "set ns1 \<subseteq> {slot_nonce p n | p n. vt_next v \<le> n \<and> n < vt_next v'}"
  proof
    fix x
    assume "x \<in> set ns1"
    with IH obtain q n where "x = slot_nonce q n" "vt_next v1 \<le> n" "n < vt_next v'" by blast
    moreover from this s1(2) have "vt_next v \<le> n" by linarith
    ultimately show "x \<in> {slot_nonce p n | p n. vt_next v \<le> n \<and> n < vt_next v'}" by blast
  qed
  ultimately show ?case using IH s1(1-3) ns seals_Cons [of c cs] by auto
qed simp

text \<open>A sealed slot stays as it was until its own handle is erased, and then it stays erased.\<close>

lemma vault_step_slot:
  assumes "vault_ok v" and "vt_next v + 1 < u64_modulus" and "bt_get (vt_slots v) h = Some s"
    and "vault_step a v c = (v', ns)"
  shows "bt_get (vt_slots v') h = Some (if c = EraseHandle h then Tombstone else s)"
proof (cases c)
  case (Seal raw reason)
  have "slot_ok (vt_next v) (h, s)" using assms(1) map_of_SomeD [OF assms(3)] unfolding vault_ok_def by blast
  then have "h \<noteq> slot_handle reason (vt_next v)"
    using embedded_slot_handle [of "vt_next v" reason] assms(2) by auto
  with Seal assms show ?thesis by (auto simp: vault_put_def Let_def split: option.splits)
next
  case (EraseHandle k)
  with assms show ?thesis by (auto simp: vault_erase_def split: if_splits)
next
  case (Restart entropy)
  with assms vault_restore_snapshot [OF assms(1)] show ?thesis by auto
qed

lemma vault_run_slot:
  assumes "vault_ok v" and "vt_next v + seals cs + 1 < u64_modulus" and "bt_get (vt_slots v) h = Some s"
    and "vault_run a v cs = (v', ns)"
  shows "bt_get (vt_slots v') h = Some (if EraseHandle h \<in> set cs then Tombstone else s)"
  using assms
proof (induction cs arbitrary: v s ns)
  case (Cons c cs)
  obtain v1 n1 where step: "vault_step a v c = (v1, n1)" by (cases "vault_step a v c")
  obtain ns1 where rest: "vault_run a v1 cs = (v', ns1)"
    using Cons.prems(4) step by (auto split: prod.splits)
  have s1: "vault_ok v1" "vt_next v1 = vt_next v + seals [c]"
    using vault_step_ok [OF Cons.prems(1) _ step] Cons.prems(2) by linarith+
  have room: "vt_next v1 + seals cs + 1 < u64_modulus" using Cons.prems(2) s1 seals_Cons [of c cs] by simp
  from vault_step_slot [OF Cons.prems(1) _ Cons.prems(3) step] Cons.prems(2)
  have "bt_get (vt_slots v1) h = Some (if c = EraseHandle h then Tombstone else s)" by simp
  from Cons.IH [OF s1(1) room this rest] show ?case by auto
qed simp

end
