(* ===== verification/Store.thy ===== *)
theory Store
  imports Frames Vault Security
begin

text \<open>
  The store facade of \<^verbatim>\<open>src/context_store/store.rs\<close>, with its erasure receipts (\<^verbatim>\<open>erasure.rs\<close>) and operation
  rows (\<^verbatim>\<open>ops.rs\<close>).  \<open>aead\<close> is the vault's cipher, \<open>sha\<close> the SHA-256 text hash and \<open>json\<close> the serialized
  form of a vault snapshot.
\<close>

section \<open>The store\<close>

datatype store_mode = NormalMode | ReadOnlyMode | UnavailableMode

fun mode_name :: "store_mode \<Rightarrow> string" where
  "mode_name NormalMode = ''normal''"
| "mode_name ReadOnlyMode = ''read-only''"
| "mode_name UnavailableMode = ''unavailable''"

definition mode_writable :: "store_mode \<Rightarrow> bool" where
  "mode_writable m \<longleftrightarrow> m = NormalMode"

datatype store_blocked = BlockedMode string

record index_entry =
  ix_handle :: string
  ix_ranges :: "(u64 \<times> u64) list"
  ix_labels :: "string list"

record checkpoint =
  ck_applied :: u64
  ck_spine_len :: u64

datatype store_error = StoreSpine spine_error | StoreVault vault_error | StoreBlockedBy store_blocked

record context_store =
  cs_mode :: store_mode
  cs_spine :: spine
  cs_vault :: vault
  cs_index :: "index_entry list"
  cs_checkpoint :: "checkpoint option"

definition store_open :: "u64 \<Rightarrow> context_store" where
  "store_open entropy =
     \<lparr>cs_mode = NormalMode, cs_spine = spine_new, cs_vault = vault_open entropy, cs_index = [], cs_checkpoint = None\<rparr>"

definition set_mode :: "context_store \<Rightarrow> store_mode \<Rightarrow> context_store" where
  "set_mode s m = s\<lparr>cs_mode := m\<rparr>"

definition begin_state_advancing_turn :: "context_store \<Rightarrow> store_blocked + unit" where
  "begin_state_advancing_turn s = ensure (mode_writable (cs_mode s)) (BlockedMode (mode_name (cs_mode s)))"

definition index_entry_new :: "string \<Rightarrow> u64 \<times> u64 \<Rightarrow> index_entry" where
  "index_entry_new handle span = \<lparr>ix_handle = handle, ix_ranges = [span], ix_labels = []\<rparr>"

definition sanitized_append :: "context_store \<Rightarrow> byte list \<Rightarrow> store_error + (context_store \<times> string \<times> (u64 \<times> u64))" where
  "sanitized_append s bytes =
     res_bind (map_err StoreBlockedBy (begin_state_advancing_turn s)) (\<lambda>_.
       let handle = canonical_handle (spine_len (cs_spine s)) bytes;
           (spine, span) = spine_append (cs_spine s) handle bytes
       in Inr (s\<lparr>cs_spine := spine, cs_index := cs_index s @ [index_entry_new handle span]\<rparr>, handle, span))"

definition store_vault_put ::
  "aead \<Rightarrow> context_store \<Rightarrow> byte list \<Rightarrow> string \<Rightarrow> context_store \<times> (store_error + string)" where
  "store_vault_put a s raw reason =
     (case begin_state_advancing_turn s of
        Inl e \<Rightarrow> (s, Inl (StoreBlockedBy e))
      | Inr _ \<Rightarrow>
          (case vault_put a (cs_vault s) raw reason of
             (v, r) \<Rightarrow> (s\<lparr>cs_vault := v\<rparr>, map_err StoreVault r)))"

definition store_vault_get :: "aead \<Rightarrow> context_store \<Rightarrow> string \<Rightarrow> store_error + byte list" where
  "store_vault_get a s handle = map_err StoreVault (vault_get a (cs_vault s) handle)"

definition store_checkpoint :: "context_store \<Rightarrow> context_store \<times> checkpoint" where
  "store_checkpoint s =
     (let c = \<lparr>ck_applied = length (fs_records (cs_spine s)), ck_spine_len = spine_len (cs_spine s)\<rparr>
      in (s\<lparr>cs_checkpoint := Some c\<rparr>, c))"

definition store_vault_erase :: "context_store \<Rightarrow> string \<Rightarrow> store_error + context_store" where
  "store_vault_erase s handle =
     res_bind (map_err StoreBlockedBy (begin_state_advancing_turn s)) (\<lambda>_.
     res_bind (map_err StoreVault (vault_erase (cs_vault s) handle)) (\<lambda>v.
       Inr (fst (store_checkpoint (s\<lparr>cs_vault := v\<rparr>)))))"

definition store_read_page :: "context_store \<Rightarrow> u64 \<times> u64 \<Rightarrow> nat \<Rightarrow> store_error + page" where
  "store_read_page s span limit = map_err StoreSpine (spine_read_page (cs_spine s) span limit)"

definition rebuild_index :: "context_store \<Rightarrow> context_store \<times> nat" where
  "rebuild_index s =
     (let index = map (\<lambda>r. index_entry_new (fr_handle r) (fr_start r, fr_end r)) (fs_records (cs_spine s))
      in (s\<lparr>cs_index := index\<rparr>, length index))"

definition store_select :: "context_store \<Rightarrow> u64 \<times> u64 \<Rightarrow> index_entry list" where
  "store_select s span =
     filter (\<lambda>e. list_ex (\<lambda>(a, b). a < snd span \<and> fst span < b) (ix_ranges e)) (cs_index s)"

definition replay_tail :: "context_store \<Rightarrow> checkpoint \<Rightarrow> spine_record list" where
  "replay_tail s c = drop (ck_applied c) (fs_records (cs_spine s))"

definition spine_bytes :: "context_store \<Rightarrow> byte list" where
  "spine_bytes s = spine_encode (cs_spine s)"

definition load_spine :: "context_store \<Rightarrow> byte list \<Rightarrow> context_store \<times> nat" where
  "load_spine s encoded =
     (let s1 = fst (rebuild_index (s\<lparr>cs_spine := spine_load encoded\<rparr>))
      in (s1, fs_dropped_tail_frames (cs_spine s1)))"

definition load_spine_typed :: "context_store \<Rightarrow> byte list \<Rightarrow> spine_load_error + context_store" where
  "load_spine_typed s encoded =
     res_bind (spine_load_typed encoded) (\<lambda>spine. Inr (fst (rebuild_index (s\<lparr>cs_spine := spine\<rparr>))))"

definition restore_vault :: "context_store \<Rightarrow> vault_snapshot \<Rightarrow> u64 \<Rightarrow> store_error + context_store" where
  "restore_vault s snapshot entropy =
     res_bind (map_err StoreVault (vault_restore (cs_vault s) snapshot entropy)) (\<lambda>v. Inr (s\<lparr>cs_vault := v\<rparr>))"

section \<open>Erasure receipts\<close>

definition erasure_checkpoint :: "(byte list \<Rightarrow> string) \<Rightarrow> (vault_snapshot \<Rightarrow> byte list) \<Rightarrow> context_store \<Rightarrow> string" where
  "erasure_checkpoint sha json s =
     sha (sink_blob (json (vault_take_snapshot (cs_vault s)))
       (sink_blob (spine_bytes s) (sink_tag ''post-erasure-checkpoint'' sink_new)))"

definition erase_with_receipt ::
  "(byte list \<Rightarrow> string) \<Rightarrow> (vault_snapshot \<Rightarrow> byte list) \<Rightarrow> context_store \<Rightarrow> string \<Rightarrow> string \<Rightarrow>
     store_error + (context_store \<times> erasure)" where
  "erase_with_receipt sha json s leaf handle =
     res_bind (store_vault_erase s handle) (\<lambda>s1.
       Inr (s1, \<lparr>er_leaf = leaf, er_vault_handle = handle, er_post_checkpoint = erasure_checkpoint sha json s1,
         er_pre_hashes_unverifiable = True\<rparr>))"

definition erasure_matches ::
  "(byte list \<Rightarrow> string) \<Rightarrow> (vault_snapshot \<Rightarrow> byte list) \<Rightarrow> context_store \<Rightarrow> erasure \<Rightarrow> bool" where
  "erasure_matches sha json s receipt \<longleftrightarrow>
     list_ex (\<lambda>t. vs_handle t = er_vault_handle receipt \<and> vs_erased t) (vn_slots (vault_take_snapshot (cs_vault s))) \<and>
     er_pre_hashes_unverifiable receipt \<and> er_leaf receipt \<noteq> [] \<and>
     er_post_checkpoint receipt = erasure_checkpoint sha json s"

section \<open>Operation rows\<close>

datatype store_operation =
    AdmitIngress | SanitizeRow | RedactRow | ImportRow | RuleUpdate | VocabularyUpdate | IndexRebuild | StoreModeRow
  | QuiesceUnwritable

fun store_operation_name :: "store_operation \<Rightarrow> string" where
  "store_operation_name AdmitIngress = ''admit-ingress''"
| "store_operation_name SanitizeRow = ''sanitize''"
| "store_operation_name RedactRow = ''redact''"
| "store_operation_name ImportRow = ''import''"
| "store_operation_name RuleUpdate = ''rule-update''"
| "store_operation_name VocabularyUpdate = ''vocabulary-update''"
| "store_operation_name IndexRebuild = ''index-rebuild''"
| "store_operation_name StoreModeRow = ''store-mode''"
| "store_operation_name QuiesceUnwritable = ''quiesce-unwritable''"

definition store_operation_all :: "store_operation list" where
  "store_operation_all =
     [AdmitIngress, SanitizeRow, RedactRow, ImportRow, RuleUpdate, VocabularyUpdate, IndexRebuild, StoreModeRow,
      QuiesceUnwritable]"

definition advances_state :: "store_operation \<Rightarrow> bool" where
  "advances_state op \<longleftrightarrow> op \<noteq> QuiesceUnwritable"

section \<open>The sink of an ingress transaction\<close>

datatype sink_refusal = RefusedMode string | RefusedVault

record spine_placement =
  sp_handle :: string
  sp_start :: u64
  sp_end :: u64

fun refusal_of :: "store_error \<Rightarrow> sink_refusal" where
  "refusal_of (StoreBlockedBy (BlockedMode m)) = RefusedMode m"
| "refusal_of e = RefusedVault"

definition sink_append :: "context_store \<Rightarrow> byte list \<Rightarrow> sink_refusal + (context_store \<times> spine_placement)" where
  "sink_append s bytes =
     res_bind (map_err refusal_of (sanitized_append s bytes)) (\<lambda>(s1, handle, (a, b)).
       Inr (s1, \<lparr>sp_handle = handle, sp_start = a, sp_end = b\<rparr>))"

definition sink_vault_put ::
  "aead \<Rightarrow> context_store \<Rightarrow> byte list \<Rightarrow> string \<Rightarrow> context_store \<times> (sink_refusal + string)" where
  "sink_vault_put a s raw reason =
     (case store_vault_put a s raw reason of (s1, r) \<Rightarrow> (s1, map_err refusal_of r))"

section \<open>The invariant\<close>

text \<open>The spine is a list of framed payloads under their canonical handles, the index lists the records of the
  spine, the vault is sound, and the last checkpoint lies within the spine.\<close>

definition index_current :: "context_store \<Rightarrow> bool" where
  "index_current s \<longleftrightarrow>
     cs_index s = map (\<lambda>r. index_entry_new (fr_handle r) (fr_start r, fr_end r)) (fs_records (cs_spine s))"

definition holds :: "context_store \<Rightarrow> byte list list \<Rightarrow> bool" where
  "holds s ps \<longleftrightarrow>
     fs_bytes (cs_spine s) = concat ps \<and> fs_records (cs_spine s) = fs_records (spine_of ps) \<and> index_current s"

lemma holds_open: "holds (store_open entropy) []"
  by (auto simp: holds_def store_open_def spine_of_def spine_new_def index_current_def)

lemma holds_append:
  assumes "holds s ps" and "sanitized_append s bytes = Inr (s', handle, span)"
  shows "holds s' (ps @ [bytes]) \<and> handle = canonical_handle (length (concat ps)) bytes \<and>
    span = (length (concat ps), length (concat ps) + length bytes) \<and> cs_mode s' = cs_mode s \<and> cs_vault s' = cs_vault s"
proof -
  from assms(2) have "handle = canonical_handle (spine_len (cs_spine s)) bytes"
    and s': "s' = s\<lparr>cs_spine := fst (spine_append (cs_spine s) handle bytes),
        cs_index := cs_index s @ [index_entry_new handle (snd (spine_append (cs_spine s) handle bytes))]\<rparr>"
    and "span = snd (spine_append (cs_spine s) handle bytes)"
    by (auto simp: sanitized_append_def Let_def split: prod.splits)
  with assms(1) show ?thesis
    by (auto simp: holds_def index_current_def spine_of_snoc append_payload_def spine_append_def spine_len_def Let_def)
qed

lemma holds_reload:
  assumes "list_all frameable ps" and "holds s ps"
  shows "\<exists>s'. load_spine_typed r (spine_bytes s) = Inr s' \<and> holds s' ps"
proof -
  have "spine_bytes s = encoding ps"
    using encode_spine_of [of ps] assms(2) by (simp add: holds_def spine_bytes_def spine_encode_def record_bytes_def)
  then have "spine_load_typed (spine_bytes s) = Inr (spine_of ps)" using load_typed_round_trip [OF assms(1)] by simp
  then show ?thesis
    by (auto simp: load_spine_typed_def rebuild_index_def holds_def index_current_def Let_def)
qed

lemma blocked_unchanged:
  assumes "\<not> mode_writable (cs_mode s)"
  shows "sanitized_append s bytes = Inl (StoreBlockedBy (BlockedMode (mode_name (cs_mode s))))"
    and "store_vault_put a s raw reason = (s, Inl (StoreBlockedBy (BlockedMode (mode_name (cs_mode s)))))"
    and "store_vault_erase s handle = Inl (StoreBlockedBy (BlockedMode (mode_name (cs_mode s))))"
  using assms
  by (simp_all add: sanitized_append_def store_vault_put_def store_vault_erase_def begin_state_advancing_turn_def)

lemma receipt_matches:
  assumes "erase_with_receipt sha json s leaf handle = Inr (s', receipt)" and "leaf \<noteq> []"
  shows "erasure_matches sha json s' receipt"
proof -
  from assms(1) have er: "store_vault_erase s handle = Inr s'"
    and r: "receipt = \<lparr>er_leaf = leaf, er_vault_handle = handle, er_post_checkpoint = erasure_checkpoint sha json s',
      er_pre_hashes_unverifiable = True\<rparr>"
    by (auto simp: erase_with_receipt_def)
  from er obtain v where v: "vault_erase (cs_vault s) handle = Inr v" and "cs_vault s' = v"
    by (auto simp: store_vault_erase_def store_checkpoint_def Let_def)
  from v have "bt_get (vt_slots v) handle = Some Tombstone"
    by (auto simp: vault_erase_def split: if_splits)
  then have "(handle, Tombstone) \<in> set (vt_slots v)" by (rule map_of_SomeD)
  then have "slot_snapshot (handle, Tombstone) \<in> set (vn_slots (vault_take_snapshot (cs_vault s')))"
    using \<open>cs_vault s' = v\<close> by (auto simp: vault_take_snapshot_def simp del: slot_snapshot.simps)
  then show ?thesis
    using assms(2) by (auto simp: erasure_matches_def r list_ex_iff intro: bexI [rotated])
qed

end
