(* ===== verification/StoreProperties.thy ===== *)
theory StoreProperties
  imports Store
begin

text \<open>
  What the context store promises: its durable spine reads back as it was written, loses only unfinished frames
  in a crash and is refused when a payload was edited; its vault never seals twice under one nonce and keeps
  what it sealed until that handle is erased.
\<close>

section \<open>The durable spine\<close>

definition append_step :: "context_store \<Rightarrow> byte list \<Rightarrow> store_error + context_store" where
  "append_step s bytes = res_bind (sanitized_append s bytes) (\<lambda>(s', handle, span). Inr s')"

lemma append_step_Inr [simp]: "append_step s b = Inr s' \<longleftrightarrow> (\<exists>handle span. sanitized_append s b = Inr (s', handle, span))"
  by (auto simp: append_step_def)

lemma append_run_holds: "holds s qs \<Longrightarrow> run_steps append_step s ps = Inr s' \<Longrightarrow> holds s' (qs @ ps)"
proof (induction ps arbitrary: s qs)
  case (Cons p ps)
  then obtain s1 handle span where "sanitized_append s p = Inr (s1, handle, span)" "run_steps append_step s1 ps = Inr s'"
    by auto
  with Cons.IH [of s1 "qs @ [p]"] holds_append [OF Cons.prems(1)] show ?case by simp
qed simp

lemma append_run: "run_steps append_step (store_open entropy) ps = Inr s \<Longrightarrow> holds s ps"
  using append_run_holds [OF holds_open] by simp

lemma holds_bytes: "holds s ps \<Longrightarrow> spine_bytes s = encoding ps"
  using encode_spine_of [of ps] by (simp add: holds_def spine_bytes_def spine_encode_def record_bytes_def)

lemma append_run_total: "cs_mode s = NormalMode \<Longrightarrow> \<exists>s'. run_steps append_step s ps = Inr s'"
  by (induction ps arbitrary: s)
    (auto simp: append_step_def sanitized_append_def begin_state_advancing_turn_def mode_writable_def Let_def
      split: prod.splits)

lemma normal_open [simp]: "cs_mode (store_open entropy) = NormalMode"
  by (simp add: store_open_def)

lemma holds_read:
  assumes "holds s ps" and "i < length ps"
  shows "store_read_page s (fr_start (fs_records (cs_spine s) ! i), fr_end (fs_records (cs_spine s) ! i)) (length (ps ! i)) =
    Inr \<lparr>pg_bytes = ps ! i, pg_remaining = None\<rparr>"
proof -
  let ?r = "fs_records (cs_spine s) ! i"
  have r: "?r = fs_records (spine_of ps) ! i" "fs_bytes (cs_spine s) = concat ps" using assms(1) by (simp_all add: holds_def)
  have parts: "concat ps = concat (take i ps) @ ps ! i @ concat (drop (Suc i) ps)"
    using id_take_nth_drop [OF assms(2)] by (metis concat.simps(2) concat_append)
  have ends: "fr_start ?r = length (concat (take i ps))" "fr_end ?r = length (concat (take i ps)) + length (ps ! i)"
    using spine_of_record [OF assms(2)] assms(2) by (simp_all add: r take_Suc_conv_app_nth)
  from parts have "length (concat (take i ps)) + length (ps ! i) \<le> length (concat ps)"
    and "take (length (ps ! i)) (drop (length (concat (take i ps))) (concat ps)) = ps ! i"
    by (metis add.assoc le_add1 length_append, metis append_eq_conv_conj)
  then show ?thesis by (simp add: store_read_page_def spine_read_page_def spine_len_def ends r(2))
qed

lemma append_run_dropped:
  "run_steps append_step s ps = Inr s' \<Longrightarrow> fs_dropped_tail_frames (cs_spine s') = fs_dropped_tail_frames (cs_spine s)"
  by (induction ps arbitrary: s)
    (auto simp: sanitized_append_def spine_append_def Let_def)

lemma append_run_spine:
  assumes "run_steps append_step (store_open entropy) ps = Inr s"
  shows "cs_spine s = spine_of ps"
  using append_run [OF assms] append_run_dropped [OF assms]
  by (simp add: holds_def store_open_def spine_new_def)

lemma load_whole: "list_all frameable ps \<Longrightarrow> spine_load (encoding ps) = spine_of ps"
  using load_reads [of ps "[]"] load_ends [of "encoding ps"] by (simp add: spine_load_def)

text \<open>C37: a store written by any sequence of appends reads back from its durable bytes as it was: the typed loader
  succeeds with the same spine records, bytes and retrieval index, the salvaging loader agrees and drops nothing,
  and every payload is read back whole at its recorded range.\<close>

theorem spine_survives_reload:
  assumes "run_steps append_step (store_open entropy) ps = Inr s" and "list_all frameable ps"
  shows "\<exists>s'. load_spine_typed (store_open entropy') (spine_bytes s) = Inr s' \<and>
    cs_spine s' = cs_spine s \<and> cs_index s' = cs_index s \<and>
    load_spine (store_open entropy') (spine_bytes s) = (s', 0) \<and>
    (\<forall>i < length ps. store_read_page s' (fr_start (fs_records (cs_spine s) ! i), fr_end (fs_records (cs_spine s) ! i))
       (length (ps ! i)) = Inr \<lparr>pg_bytes = ps ! i, pg_remaining = None\<rparr>)"
proof -
  note h = append_run [OF assms(1)] and sp = append_run_spine [OF assms(1)]
  have bytes: "spine_bytes s = encoding ps" by (rule holds_bytes [OF h])
  let ?s = "fst (rebuild_index ((store_open entropy')\<lparr>cs_spine := spine_of ps\<rparr>))"
  have "load_spine_typed (store_open entropy') (spine_bytes s) = Inr ?s"
    by (simp add: load_spine_typed_def bytes load_typed_round_trip [OF assms(2)])
  moreover have "load_spine (store_open entropy') (spine_bytes s) = (?s, 0)"
    by (simp add: load_spine_def bytes load_whole [OF assms(2)] rebuild_index_def Let_def)
  moreover have "cs_spine ?s = cs_spine s" "cs_index ?s = cs_index s"
    using h by (simp_all add: rebuild_index_def sp holds_def index_current_def Let_def)
  moreover have "store_read_page ?s span n = store_read_page s span n" for span n
    using \<open>cs_spine ?s = cs_spine s\<close> by (simp add: store_read_page_def)
  ultimately show ?thesis using holds_read [OF h] by auto
qed

definition demo_payloads :: "byte list list" where
  "demo_payloads = [[0x61, 0x62, 0x0A], [0x63]]"

lemma demo_frameable: "list_all frameable demo_payloads"
  by (simp add: demo_payloads_def)

lemma demo_appends: obtains s where "run_steps append_step (store_open 0) demo_payloads = Inr s"
  using append_run_total [OF normal_open] by blast

theorem spine_survives_reload_witness:
  "\<exists>s s'. run_steps append_step (store_open 0) demo_payloads = Inr s \<and>
     load_spine_typed (store_open 1) (spine_bytes s) = Inr s' \<and> cs_index s' = cs_index s \<and>
     store_read_page s' (3, 4) 1 = Inr \<lparr>pg_bytes = [0x63], pg_remaining = None\<rparr>"
proof -
  obtain s where s: "run_steps append_step (store_open 0) demo_payloads = Inr s" by (rule demo_appends)
  have "length demo_payloads = 2" "demo_payloads ! 1 = [0x63]" by (simp_all add: demo_payloads_def)
  moreover have "fr_start (fs_records (cs_spine s) ! 1) = 3" "fr_end (fs_records (cs_spine s) ! 1) = 4"
    using spine_of_record [of 1 demo_payloads] by (simp_all add: append_run_spine [OF s] demo_payloads_def)
  moreover obtain s' where s': "load_spine_typed (store_open 1) (spine_bytes s) = Inr s'" "cs_index s' = cs_index s"
    and "\<forall>i < length demo_payloads. store_read_page s'
      (fr_start (fs_records (cs_spine s) ! i), fr_end (fs_records (cs_spine s) ! i)) (length (demo_payloads ! i)) =
      Inr \<lparr>pg_bytes = demo_payloads ! i, pg_remaining = None\<rparr>"
    using spine_survives_reload [OF s demo_frameable, of 1] by blast
  ultimately have "store_read_page s' (3, 4) 1 = Inr \<lparr>pg_bytes = [0x63], pg_remaining = None\<rparr>"
    by (metis One_nat_def length_Cons list.size(3) less_2_cases_iff)
  with s s' show ?thesis by blast
qed

text \<open>C38: a crash while the spine is written loses only the unfinished frame.  Of a durable spine cut off after any
  number of bytes the salvaging loader recovers exactly the payloads whose frames are complete, in order, and it
  reports one dropped frame exactly when the cut fell inside a frame.\<close>

theorem crash_loses_only_the_unfinished_frame:
  assumes "run_steps append_step (store_open entropy) ps = Inr s" and "list_all frameable ps"
    and "n \<le> length (spine_bytes s)"
  shows "\<exists>k \<le> length ps. \<exists>s'. load_spine (store_open entropy') (take n (spine_bytes s)) =
      (s', if n = length (encoding (take k ps)) then 0 else 1) \<and>
    holds s' (take k ps) \<and> length (encoding (take k ps)) \<le> n \<and>
    (k < length ps \<longrightarrow> n < length (encoding (take (Suc k) ps)))"
proof -
  have bytes: "spine_bytes s = encoding ps" by (rule holds_bytes [OF append_run [OF assms(1)]])
  from load_prefix [OF assms(2)] assms(3) obtain k where k: "k \<le> length ps" "length (encoding (take k ps)) \<le> n"
    "k < length ps \<longrightarrow> n < length (encoding (take (Suc k) ps))"
    and load: "spine_load (take n (encoding ps)) =
        (spine_of (take k ps))\<lparr>fs_dropped_tail_frames := (if n = length (encoding (take k ps)) then 0 else 1)\<rparr>"
    unfolding bytes by blast
  have "holds (fst (load_spine (store_open entropy') (take n (spine_bytes s)))) (take k ps)"
    by (simp add: load_spine_def bytes load rebuild_index_def holds_def index_current_def Let_def)
  moreover have "snd (load_spine (store_open entropy') (take n (spine_bytes s))) =
      (if n = length (encoding (take k ps)) then 0 else 1)"
    by (simp add: load_spine_def bytes load rebuild_index_def Let_def)
  ultimately have "load_spine (store_open entropy') (take n (spine_bytes s)) =
      (fst (load_spine (store_open entropy') (take n (spine_bytes s))), if n = length (encoding (take k ps)) then 0 else 1)"
    and "holds (fst (load_spine (store_open entropy') (take n (spine_bytes s)))) (take k ps)"
    by (simp_all add: prod_eq_iff)
  with k show ?thesis by blast
qed

theorem crash_loses_only_the_unfinished_frame_witness:
  "\<exists>s s'. run_steps append_step (store_open 0) demo_payloads = Inr s \<and>
     load_spine (store_open 1) (take 20 (spine_bytes s)) = (s', 1) \<and> holds s' [[0x61, 0x62, 0x0A]]"
proof -
  obtain s where s: "run_steps append_step (store_open 0) demo_payloads = Inr s" by (rule demo_appends)
  have enc: "length (encoding (take 0 demo_payloads)) = 0" "length (encoding (take 1 demo_payloads)) = 15"
    "length (encoding (take 2 demo_payloads)) = 28" by (simp_all add: demo_payloads_def)
  have "20 \<le> length (spine_bytes s)"
    using holds_bytes [OF append_run [OF s]] by (simp add: demo_payloads_def)
  from crash_loses_only_the_unfinished_frame [OF s demo_frameable this, of 1]
  obtain k s' where k: "k \<le> length demo_payloads"
    "load_spine (store_open 1) (take 20 (spine_bytes s)) =
      (s', if 20 = length (encoding (take k demo_payloads)) then 0 else 1)"
    "holds s' (take k demo_payloads)" "length (encoding (take k demo_payloads)) \<le> 20"
    "k < length demo_payloads \<longrightarrow> 20 < length (encoding (take (Suc k) demo_payloads))" by blast
  have "k \<in> {0, 1, 2}" using k(1) by (auto simp: demo_payloads_def)
  then have "k = 1" using k(4,5) enc by (auto simp: demo_payloads_def numeral_2_eq_2)
  with k(2,3) enc s show ?thesis by (auto simp: demo_payloads_def)
qed

text \<open>An edited payload is refused.  Changing any one byte of any payload in the durable bytes makes the typed
  loader fail at that payload's frame, and the salvaging loader keeps exactly the payloads before it.\<close>

lemma edited_payload_refused:
  assumes "run_steps append_step (store_open entropy) (before @ (a @ b # c) # after) = Inr s"
    and "list_all frameable (before @ (a @ b # c) # after)" and "b \<noteq> b'"
  shows "load_spine_typed r ((spine_bytes s)[length (encoding before) + 4 + length a := b']) =
      Inl (CorruptFrame (length before) (length before)) \<and>
    holds (fst (load_spine r ((spine_bytes s)[length (encoding before) + 4 + length a := b']))) before"
proof -
  let ?p = "a @ b # c" and ?q = "a @ b' # c"
  have "spine_bytes s = encoding before @ frame ?p (digest ?p) @ encoding after"
    using holds_bytes [OF append_run [OF assms(1)]] by (simp add: frame_of_def)
  moreover have "frame ?p d = le_take 4 (length ?p) @ a @ b # c @ digest_bytes d"
    and "frame ?q d = le_take 4 (length ?p) @ a @ b' # c @ digest_bytes d" for d by (simp_all add: frame_def)
  ultimately have edit: "(spine_bytes s)[length (encoding before) + 4 + length a := b'] =
      encoding before @ frame ?q (digest ?p) @ encoding after"
    by (simp add: list_update_append)
  have ok: "list_all frameable before" "frameable ?q" using assms(2) by simp_all
  have d: "digest ?q \<noteq> digest ?p" using digest_changed_byte assms(3) by metis
  have "frame_at (encoding before @ frame ?q (digest ?p) @ encoding after) (length (encoding before)) =
      Some (?q, digest ?p, length (encoding before) + length ?q + 12)" by (rule frame_at_frame [OF ok(2)])
  then have "load_from (encoding before @ frame ?q (digest ?p) @ encoding after) 0 spine_new =
      (spine_of before, length (encoding before))"
    using load_reads [OF ok(1), of "frame ?q (digest ?p) @ encoding after"] d
    by (subst (asm) (2) load_from.simps) simp
  then have "holds (fst (load_spine r ((spine_bytes s)[length (encoding before) + 4 + length a := b']))) before"
    by (simp add: edit load_spine_def spine_load_def rebuild_index_def holds_def index_current_def Let_def)
  moreover note load_typed_corrupt [OF ok d, of "encoding after"]
  ultimately show ?thesis by (simp add: edit load_spine_typed_def)
qed

section \<open>The vault\<close>

lemma vault_fresh: "vault_ok (vault_open entropy) \<and> vt_next (vault_open entropy) = 0"
  by (simp add: vault_ok_def vault_open_def open_with_prefix_def)


definition demo_aead :: aead where
  "demo_aead =
     \<lparr>ae_encrypt = (\<lambda>n h m. Some (n @ m)),
      ae_decrypt = (\<lambda>n h c. if take (length n) c = n then Some (drop (length n) c) else None)\<rparr>"


text \<open>C40: what was sealed stays readable until its handle is erased, and then never comes back.  In any life of a
  vault, with restarts before and after, the handle of a successful seal opens to the sealed plaintext until an
  erasure of that handle, and is unknown ever after.  The cipher is assumed to decrypt what it encrypted.\<close>

theorem sealed_until_erased:
  assumes "vault_run a (vault_open entropy) cs = (v, ns)" and "vault_put a v raw reason = (v1, Inr handle)"
    and "vault_run a v1 ds = (v2, ms)" and "seals cs + seals ds + 2 < u64_modulus"
    and cipher: "\<And>n h m c. ae_encrypt a n h m = Some c \<Longrightarrow> ae_decrypt a n h c = Some m"
  shows "vault_get a v2 handle = (if EraseHandle handle \<in> set ds then Inl UnknownHandle else Inr raw)"
proof -
  have v: "vault_ok v" "vt_next v = seals cs"
    using vault_run_ok [OF _ _ assms(1)] vault_fresh [of entropy] assms(4) by simp_all
  have "seals cs + 1 < u64_modulus" using assms(4) by simp
  with vault_put_ok [OF v(1), of a raw reason] v(2) assms(2)
  have v1: "vault_ok v1" "vt_next v1 = seals cs + 1" by auto
  obtain c where c: "ae_encrypt a (slot_nonce (vt_nonce_prefix v) (vt_next v)) handle raw = Some c"
    and "bt_get (vt_slots v1) handle = Some (LiveSlot (slot_nonce (vt_nonce_prefix v) (vt_next v)) c)"
    using assms(2) by (auto simp: vault_put_def Let_def split: option.splits)
  from vault_run_slot [OF v1(1) _ this(2) assms(3)] v1(2) assms(4) cipher [OF c] show ?thesis
    by (simp add: vault_get_def)
qed

theorem sealed_until_erased_witness:
  "\<exists>v1 v2 v3 handle ms ns.
     vault_put demo_aead (vault_open 7) [5, 6] ''reason'' = (v1, Inr handle) \<and>
     vault_run demo_aead v1 [Restart 9] = (v2, ms) \<and> vault_get demo_aead v2 handle = Inr [5, 6] \<and>
     vault_run demo_aead v1 [Restart 9, EraseHandle handle, Restart 3] = (v3, ns) \<and>
     vault_get demo_aead v3 handle = Inl UnknownHandle"
proof -
  have cipher: "ae_encrypt demo_aead n h m = Some c \<Longrightarrow> ae_decrypt demo_aead n h c = Some m" for n h m c
    by (auto simp: demo_aead_def)
  obtain v1 handle where put: "vault_put demo_aead (vault_open 7) [5, 6] ''reason'' = (v1, Inr handle)"
    by (auto simp: vault_put_def demo_aead_def Let_def)
  have start: "vault_run demo_aead (vault_open 7) [] = (vault_open 7, [])" by simp
  obtain v2 ms where r: "vault_run demo_aead v1 [Restart 9] = (v2, ms)" by (cases "vault_run demo_aead v1 [Restart 9]")
  obtain v3 ns where e: "vault_run demo_aead v1 [Restart 9, EraseHandle handle, Restart 3] = (v3, ns)"
    by (cases "vault_run demo_aead v1 [Restart 9, EraseHandle handle, Restart 3]")
  have "vault_get demo_aead v2 handle = Inr [5, 6]" using sealed_until_erased [OF start put r _ cipher] by simp
  moreover have "vault_get demo_aead v3 handle = Inl UnknownHandle"
    using sealed_until_erased [OF start put e _ cipher] by simp
  ultimately show ?thesis using put r e by blast
qed

end
