(* ===== verification/Redaction.thy ===== *)
theory Redaction
  imports Text
begin

text \<open>
  The redactor of \<^verbatim>\<open>src/context_ingress/redactor.rs\<close>: classed detectors that scan a payload under a byte
  budget, and the redactor that overwrites every detected span or quarantines the payload.  The budget of a scan
  is decremented once per loop turn, so the scan recurses on it.
\<close>

section \<open>Detectors\<close>

datatype detector_class = CorpusMarker | CredentialToken | UrlCredential | BearerToken | AssignSecret

fun detector_class_name :: "detector_class \<Rightarrow> string" where
  "detector_class_name CorpusMarker = ''corpus-marker''"
| "detector_class_name CredentialToken = ''credential-token''"
| "detector_class_name UrlCredential = ''url-credential''"
| "detector_class_name BearerToken = ''bearer-token''"
| "detector_class_name AssignSecret = ''assign-secret''"

record detection =
  de_class :: detector_class
  de_start :: nat
  de_end :: nat

datatype scan_verdict = ScanClean | ScanDetected "detection list" | ScanBudgetExhausted | ScanFailed

record detector =
  dr_class :: detector_class
  dr_markers :: "string list"
  dr_budget :: nat
  dr_fail :: bool

definition detector_new :: "detector_class \<Rightarrow> string list \<Rightarrow> nat \<Rightarrow> detector" where
  "detector_new class markers budget =
     \<lparr>dr_class = class, dr_markers = markers, dr_budget = budget, dr_fail = False\<rparr>"

definition detector_failing :: "detector_class \<Rightarrow> detector" where
  "detector_failing class = \<lparr>dr_class = class, dr_markers = [], dr_budget = u64_max, dr_fail = True\<rparr>"

definition matches_at :: "byte list \<Rightarrow> nat \<Rightarrow> string \<Rightarrow> bool" where
  "matches_at bytes at marker \<longleftrightarrow>
     (let needle = string_bytes marker
      in \<not> length bytes < at + length needle \<and> take (length needle) (drop at bytes) = needle)"

definition is_delimiter :: "byte \<Rightarrow> bool" where
  "is_delimiter b \<longleftrightarrow> b \<in> set [0x20, 0x0A, 0x0D, 0x09, 0x22, 0x27, 0x29, 0x2C, 0x3B, 0x3E, 0x3C]"

definition matching_marker :: "detector \<Rightarrow> byte list \<Rightarrow> nat \<Rightarrow> string option" where
  "matching_marker d bytes at = find (matches_at bytes at) (dr_markers d)"

text \<open>The inner loop of the scan: the end of the run that starts at \<open>end\<close>.\<close>

definition run_end :: "byte list \<Rightarrow> nat \<Rightarrow> nat" where
  "run_end bytes e = e + length (takeWhile (\<lambda>b. \<not> is_delimiter b) (drop e bytes))"

fun scan_loop :: "detector \<Rightarrow> byte list \<Rightarrow> nat \<Rightarrow> nat \<Rightarrow> detection list \<Rightarrow> scan_verdict" where
  "scan_loop d bytes budget index found =
     (if index < length bytes then
        (case budget of
           0 \<Rightarrow> ScanBudgetExhausted
         | Suc left \<Rightarrow>
             (case matching_marker d bytes index of
                Some marker \<Rightarrow>
                  (let e = run_end bytes (index + length (string_bytes marker))
                   in scan_loop d bytes left e (found @ [\<lparr>de_class = dr_class d, de_start = index, de_end = e\<rparr>]))
              | None \<Rightarrow> scan_loop d bytes left (index + 1) found))
      else if found = [] then ScanClean else ScanDetected found)"

declare scan_loop.simps [simp del]

definition scan :: "detector \<Rightarrow> byte list \<Rightarrow> scan_verdict" where
  "scan d bytes = (if dr_fail d then ScanFailed else scan_loop d bytes (dr_budget d) 0 [])"

section \<open>The redactor\<close>

datatype vault_reason = BudgetExhausted detector_class | DetectorFailed detector_class

fun vault_reason_name :: "vault_reason \<Rightarrow> string" where
  "vault_reason_name (BudgetExhausted c) = ''detector-budget-exhausted''"
| "vault_reason_name (DetectorFailed c) = ''detector-failed''"

datatype redaction_outcome = Sanitized "byte list" "detection list" | Vaulted vault_reason nat

definition DEFAULT_WORK_BUDGET :: nat where
  "DEFAULT_WORK_BUDGET = 2 ^ 20"

type_synonym redactor = "detector list"

definition with_budget :: "nat \<Rightarrow> redactor" where
  "with_budget work_budget =
     [detector_new CorpusMarker [''CTXEVAL-SECRET-'', ''CTXEVAL-TOKEN-''] work_budget,
      detector_new CredentialToken [''sk-ctxeval'', ''auth-key-''] work_budget,
      detector_new UrlCredential [''ctxeval-creds@'', ''://secret:''] work_budget,
      detector_new BearerToken [''Bearer CTXEVAL-''] work_budget,
      detector_new AssignSecret [''password=CTXEVAL-'', ''api_key=CTXEVAL-''] work_budget]"

abbreviation X :: byte where "X \<equiv> 0x58"

definition overwrite :: "byte list \<Rightarrow> detection \<Rightarrow> byte list" where
  "overwrite bytes d =
     take (de_start d) bytes @
     map (\<lambda>_. X) (take (de_end d - de_start d) (drop (de_start d) bytes)) @
     drop (de_end d - de_start d) (drop (de_start d) bytes)"

fun redact_loop :: "detector list \<Rightarrow> byte list \<Rightarrow> byte list \<Rightarrow> detection list \<Rightarrow> redaction_outcome" where
  "redact_loop [] raw bytes redactions = Sanitized bytes redactions"
| "redact_loop (d # ds) raw bytes redactions =
     (case scan d raw of
        ScanClean \<Rightarrow> redact_loop ds raw bytes redactions
      | ScanDetected found \<Rightarrow> redact_loop ds raw (foldl overwrite bytes found) (redactions @ found)
      | ScanBudgetExhausted \<Rightarrow> Vaulted (BudgetExhausted (dr_class d)) (length raw)
      | ScanFailed \<Rightarrow> Vaulted (DetectorFailed (dr_class d)) (length raw))"

definition redact :: "redactor \<Rightarrow> byte list \<Rightarrow> redaction_outcome" where
  "redact r raw = redact_loop r raw raw []"

definition secret_digest :: "byte list \<Rightarrow> digest" where
  "secret_digest secret = digest secret"

section \<open>What a scan finds\<close>

abbreviation marked :: "detector \<Rightarrow> byte list \<Rightarrow> nat \<Rightarrow> bool" where
  "marked d bytes i \<equiv> (\<exists>m \<in> set (dr_markers d). matches_at bytes i m)"

abbreviation in_span :: "detection \<Rightarrow> nat \<Rightarrow> bool" where
  "in_span t j \<equiv> de_start t \<le> j \<and> j < de_end t"

text \<open>A detection starts at a marker and runs to the delimiter after it.\<close>

definition detects :: "detector \<Rightarrow> byte list \<Rightarrow> detection \<Rightarrow> bool" where
  "detects d bytes t \<longleftrightarrow>
     (\<exists>m \<in> set (dr_markers d). matches_at bytes (de_start t) m \<and>
        de_end t = run_end bytes (de_start t + length m))"

lemma matches_at_bytes:
  "matches_at bytes i m \<longleftrightarrow>
     i + length m \<le> length bytes \<and> (\<forall>k < length m. bytes ! (i + k) = string_bytes m ! k)"
  by (auto simp: matches_at_def Let_def string_bytes_def list_eq_iff_nth_eq not_less)

lemma run_end_bounds: "e \<le> length bytes \<Longrightarrow> e \<le> run_end bytes e \<and> run_end bytes e \<le> length bytes"
  using length_takeWhile_le [of "\<lambda>b. \<not> is_delimiter b" "drop e bytes"] by (simp add: run_end_def)

lemma run_end_clear: "e \<le> j \<Longrightarrow> j < run_end bytes e \<Longrightarrow> \<not> is_delimiter (bytes ! j)"
proof -
  assume j: "e \<le> j" "j < run_end bytes e"
  let ?w = "takeWhile (\<lambda>b. \<not> is_delimiter b) (drop e bytes)"
  have k: "j - e < length ?w" using j by (simp add: run_end_def)
  then have "\<not> is_delimiter (?w ! (j - e))" using nth_mem set_takeWhileD by fastforce
  moreover have "?w ! (j - e) = drop e bytes ! (j - e)" by (rule takeWhile_nth [OF k])
  moreover have "\<dots> = bytes ! j" using j k length_takeWhile_le [of _ "drop e bytes"]
    by (subst nth_drop) (auto dest: less_le_trans)
  ultimately show ?thesis by simp
qed

lemma run_end_stops: "run_end bytes e < length bytes \<Longrightarrow> is_delimiter (bytes ! run_end bytes e)"
proof -
  assume e: "run_end bytes e < length bytes"
  let ?P = "\<lambda>b. \<not> is_delimiter b"
  have "length (takeWhile ?P (drop e bytes)) < length (drop e bytes)" using e by (simp add: run_end_def)
  from nth_length_takeWhile [OF this] show ?thesis using e by (simp add: run_end_def)
qed

text \<open>A loop that returns has found, from its index on, spans that start at a marker, and every marker lies in
  one of them.\<close>

fun verdict_of :: "detection list \<Rightarrow> scan_verdict" where
  "verdict_of [] = ScanClean"
| "verdict_of ts = ScanDetected ts"

lemma scan_loop_done: "length bytes \<le> index \<Longrightarrow> scan_loop d bytes budget index found = verdict_of found"
  by (cases found) (simp_all add: scan_loop.simps)

lemma scan_loop_marked:
  assumes "index < length bytes" and "matching_marker d bytes index = Some m"
  shows "scan_loop d bytes (Suc left) index found =
    scan_loop d bytes left (run_end bytes (index + length m))
      (found @ [\<lparr>de_class = dr_class d, de_start = index, de_end = run_end bytes (index + length m)\<rparr>])"
  by (subst scan_loop.simps) (simp add: assms Let_def string_bytes_def)

lemma scan_loop_unmarked:
  assumes "index < length bytes" and "matching_marker d bytes index = None"
  shows "scan_loop d bytes (Suc left) index found = scan_loop d bytes left (index + 1) found"
  by (subst scan_loop.simps) (simp add: assms)

lemma scan_cases:
  obtains "length bytes \<le> index"
    | m where "index < length bytes" "matching_marker d bytes index = Some m"
    | "index < length bytes" "matching_marker d bytes index = None"
  by (meson not_le not_None_eq)

definition finds :: "detector \<Rightarrow> byte list \<Rightarrow> nat \<Rightarrow> detection list \<Rightarrow> bool" where
  "finds d bytes index ts \<longleftrightarrow>
     (\<forall>t \<in> set ts. detects d bytes t) \<and>
     (\<forall>i. index \<le> i \<and> i < length bytes \<and> marked d bytes i \<longrightarrow> (\<exists>t \<in> set ts. in_span t i))"

lemma finds_step:
  assumes "m \<in> set (dr_markers d)" and "m \<noteq> []" and "matches_at bytes index m"
    and e: "e = run_end bytes (index + length m)" and "finds d bytes e ts"
  shows "finds d bytes index (\<lparr>de_class = c, de_start = index, de_end = e\<rparr> # ts)"
  using assms unfolding finds_def detects_def by (auto simp: not_less intro: leI)

lemma scan_loop_finds:
  assumes "[] \<notin> set (dr_markers d)" and "scan_loop d bytes budget index found \<noteq> ScanBudgetExhausted"
  shows "\<exists>ts. scan_loop d bytes budget index found = verdict_of (found @ ts) \<and> finds d bytes index ts"
  using assms(2)
proof (induction budget arbitrary: index found)
  case 0
  then have "length bytes \<le> index" by (auto simp: scan_loop.simps split: if_splits)
  then show ?case by (intro exI [of _ "[]"]) (simp add: scan_loop_done finds_def)
next
  case (Suc left)
  show ?case
  proof (cases rule: scan_cases [where bytes = bytes and index = index and d = d])
    case 1
    then show ?thesis by (intro exI [of _ "[]"]) (simp add: scan_loop_done finds_def)
  next
    case (2 m)
    then have m: "m \<in> set (dr_markers d)" "matches_at bytes index m"
      by (auto simp: matching_marker_def dest: find_SomeD)
    let ?e = "run_end bytes (index + length m)"
    let ?t = "\<lparr>de_class = dr_class d, de_start = index, de_end = ?e\<rparr>"
    from Suc.IH [of ?e "found @ [?t]"] Suc.prems scan_loop_marked [OF 2]
    obtain ts where "scan_loop d bytes (Suc left) index found = verdict_of (found @ ?t # ts)"
      and "finds d bytes ?e ts" by auto
    with finds_step [OF m(1) _ m(2) refl] m(1) assms(1) show ?thesis by blast
  next
    case 3
    from Suc.IH [of "index + 1" found] Suc.prems scan_loop_unmarked [OF 3]
    obtain ts where "scan_loop d bytes (Suc left) index found = verdict_of (found @ ts)"
      and ts: "finds d bytes (index + 1) ts" by auto
    moreover have "\<not> marked d bytes index" using 3(2) by (auto simp: matching_marker_def)
    then have "finds d bytes index ts"
      using ts unfolding finds_def by (metis Suc_eq_plus1 le_antisym not_less_eq_eq)
    ultimately show ?thesis by blast
  qed
qed

lemma scan_budget:
  assumes "length bytes \<le> index + budget" and "[] \<notin> set (dr_markers d)"
  shows "scan_loop d bytes budget index found \<noteq> ScanBudgetExhausted"
  using assms(1)
proof (induction budget arbitrary: index found)
  case 0
  then show ?case by (cases found) (simp_all add: scan_loop_done)
next
  case (Suc left)
  show ?case
  proof (cases rule: scan_cases [where bytes = bytes and index = index and d = d])
    case 1
    then show ?thesis by (cases found) (simp_all add: scan_loop_done)
  next
    case (2 m)
    then have "m \<in> set (dr_markers d)" "matches_at bytes index m"
      by (auto simp: matching_marker_def dest: find_SomeD)
    then have "0 < length m" "index + length m \<le> length bytes" using assms(2) by (auto simp: matches_at_bytes)
    with run_end_bounds [OF this(2)] Suc.prems
    have "length bytes \<le> run_end bytes (index + length m) + left" by linarith
    then show ?thesis by (simp add: scan_loop_marked [OF 2] Suc.IH)
  next
    case 3
    with Suc show ?thesis by (simp add: scan_loop_unmarked)
  qed
qed

text \<open>A span reaches from any of its positions to the next delimiter.\<close>

lemma detects_to_delimiter:
  assumes "detects d raw t" and "in_span t i" and "i \<le> j" and "j < length raw"
    and clear: "\<forall>k. i \<le> k \<and> k \<le> j \<longrightarrow> \<not> is_delimiter (raw ! k)"
  shows "in_span t j"
proof (rule ccontr)
  assume "\<not> in_span t j"
  with assms(2,3) have e: "i \<le> de_end t" "de_end t \<le> j" by auto
  with clear have "\<not> is_delimiter (raw ! de_end t)" by simp
  moreover have "is_delimiter (raw ! de_end t)"
    using assms(1,4) e run_end_stops by (auto simp: detects_def)
  ultimately show False by blast
qed

section \<open>What the redactor leaves\<close>

lemma overwrite_nth [simp]:
  "length (overwrite bytes t) = length bytes"
  "j < length bytes \<Longrightarrow> overwrite bytes t ! j = (if in_span t j then X else bytes ! j)"
  by (auto simp: overwrite_def nth_append min_def)

lemma overwrites_nth:
  "length (foldl overwrite bytes ts) = length bytes"
  "j < length bytes \<Longrightarrow>
     foldl overwrite bytes ts ! j = (if \<exists>t \<in> set ts. in_span t j then X else bytes ! j)"
  by (induction ts arbitrary: bytes) auto

lemma scan_finds:
  assumes "[] \<notin> set (dr_markers d)"
  shows "scan d raw = verdict_of ts \<Longrightarrow> finds d raw 0 ts"
    and "scan d raw \<in> {ScanBudgetExhausted, ScanFailed} \<or> (\<exists>ts. scan d raw = verdict_of ts)"
proof -
  have inj: "verdict_of ts = verdict_of us \<Longrightarrow> ts = us" for ts us by (cases ts; cases us) simp_all
  have no: "verdict_of ts \<noteq> ScanBudgetExhausted \<and> verdict_of ts \<noteq> ScanFailed" for ts by (cases ts) simp_all
  show "finds d raw 0 ts" if "scan d raw = verdict_of ts"
  proof -
    have "\<not> dr_fail d" and "scan_loop d raw (dr_budget d) 0 [] = verdict_of ts"
      using that no [of ts] by (auto simp: scan_def split: if_splits)
    moreover from this(2) no [of ts] scan_loop_finds [OF assms, of raw "dr_budget d" 0 "[]"]
    obtain us where "verdict_of ts = verdict_of us" "finds d raw 0 us" by auto
    ultimately show ?thesis using inj by blast
  qed
  show "scan d raw \<in> {ScanBudgetExhausted, ScanFailed} \<or> (\<exists>ts. scan d raw = verdict_of ts)"
    using scan_loop_finds [OF assms, of raw "dr_budget d" 0 "[]"] by (auto simp: scan_def)
qed

lemma redact_loop_verdict:
  "scan d raw = verdict_of ts \<Longrightarrow>
     redact_loop (d # ds) raw bytes redactions = redact_loop ds raw (foldl overwrite bytes ts) (redactions @ ts)"
  by (cases ts) simp_all

lemma redact_loop_sanitized:
  assumes "\<forall>d \<in> set ds. [] \<notin> set (dr_markers d)" and "redact_loop ds raw bytes before = Sanitized out after"
  shows "\<exists>ts. after = before @ ts \<and> out = foldl overwrite bytes ts \<and>
    (\<forall>t \<in> set ts. \<exists>d \<in> set ds. detects d raw t) \<and>
    (\<forall>d \<in> set ds. \<forall>i < length raw. marked d raw i \<longrightarrow> (\<exists>t \<in> set ts. in_span t i))"
  using assms
proof (induction ds arbitrary: bytes before)
  case (Cons d ds)
  then obtain ts where ts: "scan d raw = verdict_of ts" "finds d raw 0 ts"
    using scan_finds [of d raw] by (auto split: scan_verdict.splits)
  from Cons.IH [of "foldl overwrite bytes ts" "before @ ts"] Cons.prems redact_loop_verdict [OF ts(1)]
  obtain us where "after = (before @ ts) @ us" "out = foldl overwrite (foldl overwrite bytes ts) us"
    "\<forall>t \<in> set us. \<exists>d \<in> set ds. detects d raw t"
    "\<forall>d \<in> set ds. \<forall>i < length raw. marked d raw i \<longrightarrow> (\<exists>t \<in> set us. in_span t i)" by auto
  with ts(2) show ?case unfolding finds_def by (intro exI [of _ "ts @ us"]) (auto, blast)
qed simp

text \<open>Within a budget of one step per byte every payload is sanitized.\<close>

lemma redact_within_budget:
  assumes "\<forall>d \<in> set ds. [] \<notin> set (dr_markers d) \<and> \<not> dr_fail d \<and> length raw \<le> dr_budget d"
  shows "\<exists>out after. redact_loop ds raw bytes before = Sanitized out after"
  using assms
proof (induction ds arbitrary: bytes before)
  case (Cons d ds)
  have d: "[] \<notin> set (dr_markers d)" "\<not> dr_fail d" "length raw \<le> 0 + dr_budget d" using Cons.prems by auto
  from scan_loop_finds [OF d(1) scan_budget [OF d(3,1), of "[]"]] d(2)
  obtain ts where "scan d raw = verdict_of ts" by (auto simp: scan_def)
  from redact_loop_verdict [OF this] Cons show ?case by simp
qed simp

abbreviation redactor_markers :: "redactor \<Rightarrow> string set" where
  "redactor_markers r \<equiv> (\<Union>d \<in> set r. set (dr_markers d))"

lemma redact_spans:
  assumes "[] \<notin> redactor_markers r" and "redact r raw = Sanitized out ts"
  shows "out = foldl overwrite raw ts \<and> (\<forall>t \<in> set ts. \<exists>d \<in> set r. detects d raw t) \<and>
    (\<forall>m \<in> redactor_markers r. \<forall>i < length raw. matches_at raw i m \<longrightarrow> (\<exists>t \<in> set ts. in_span t i))"
proof -
  from redact_loop_sanitized [of r raw raw "[]" out ts] assms
  have "out = foldl overwrite raw ts" "\<forall>t \<in> set ts. \<exists>d \<in> set r. detects d raw t"
    and marks: "\<forall>d \<in> set r. \<forall>i < length raw. marked d raw i \<longrightarrow> (\<exists>t \<in> set ts. in_span t i)"
    by (auto simp: redact_def)
  moreover have "\<exists>t \<in> set ts. in_span t i"
    if "m \<in> redactor_markers r" "i < length raw" "matches_at raw i m" for m i using marks that by blast
  ultimately show ?thesis by blast
qed

text \<open>Everything from a marker to the next delimiter is overwritten, whichever detector found the marker first.\<close>

lemma redact_covers:
  assumes "[] \<notin> redactor_markers r" and "redact r raw = Sanitized out ts"
    and "m \<in> redactor_markers r" and "matches_at raw i m" and "i \<le> j" and "j < length raw"
    and "\<forall>k. i \<le> k \<and> k \<le> j \<longrightarrow> \<not> is_delimiter (raw ! k)"
  shows "out ! j = X"
proof -
  note spans = redact_spans [OF assms(1,2)]
  have "i < length raw" using assms(5,6) by simp
  with spans assms(3,4) obtain t where t: "t \<in> set ts" "in_span t i" by blast
  with spans obtain d where "detects d raw t" by blast
  from detects_to_delimiter [OF this t(2) assms(5-7)] t(1) spans assms(6) show ?thesis
    by (auto simp: overwrites_nth)
qed

text \<open>A byte that changed lies in a detected span.\<close>

lemma redact_changes:
  assumes "[] \<notin> redactor_markers r" and "redact r raw = Sanitized out ts"
  shows "length out = length raw \<and> (\<forall>j < length raw. out ! j = (if \<exists>t \<in> set ts. in_span t j then X else raw ! j))"
  using redact_spans [OF assms] by (simp add: overwrites_nth)

text \<open>A detected span has at least the length of its marker.\<close>

lemma detects_wide:
  assumes "detects d raw t"
  shows "\<exists>m \<in> set (dr_markers d). de_start t + length m \<le> de_end t \<and> de_end t \<le> length raw"
  using assms run_end_bounds [of _ raw] by (fastforce simp: detects_def matches_at_bytes)

text \<open>Redaction leaves no marker behind whose letters \<open>X\<close> stand alone.\<close>

definition lone_X :: "string \<Rightarrow> bool" where
  "lone_X m \<longleftrightarrow>
     list_all (\<lambda>k. string_bytes m ! k = X \<longrightarrow>
        0 < k \<and> Suc k < length m \<and> string_bytes m ! (k - 1) \<noteq> X \<and> string_bytes m ! Suc k \<noteq> X) [0 ..< length m]"

lemma redact_no_marker:
  assumes "\<forall>n \<in> redactor_markers r. 2 \<le> length n" and "redact r raw = Sanitized out ts"
    and "m \<in> redactor_markers r" and "lone_X m"
  shows "\<not> matches_at out i m"
proof
  assume at: "matches_at out i m"
  have ne: "[] \<notin> redactor_markers r" using assms(1) by fastforce
  note out = redact_changes [OF ne assms(2)]
  have m: "0 < length m" "i + length m \<le> length raw" using assms(1,3) at out by (fastforce simp: matches_at_bytes)+
  have same: "out ! (i + k) = string_bytes m ! k" if "k < length m" for k using at that by (simp add: matches_at_bytes)
  have "\<not> in_span t (i + k)" if k: "k < length m" and t: "t \<in> set ts" for k t
  proof
    assume span: "in_span t (i + k)"
    have X: "out ! j = X" if "in_span t j" "j < length raw" for j using out that t by auto
    from X [OF span] same k m have "string_bytes m ! k = X" by simp
    with assms(4) k have n: "0 < k" "Suc k < length m" "string_bytes m ! (k - 1) \<noteq> X" "string_bytes m ! Suc k \<noteq> X"
      by (auto simp: lone_X_def list_all_iff)
    obtain d where d: "d \<in> set r" "detects d raw t" using redact_spans [OF ne assms(2)] t by blast
    from detects_wide [OF d(2)] assms(1) d(1) have "de_start t + 2 \<le> de_end t" by fastforce
    with span consider "in_span t (i + (k - 1))" | "in_span t (i + Suc k)" using n(1) by fastforce
    moreover have "i + (k - 1) < length raw" "i + Suc k < length raw" "k - 1 < length m" using n m(2) by linarith+
    ultimately show False
      using X [of "i + (k - 1)"] X [of "i + Suc k"] same [of "k - 1"] same [of "Suc k"] n by cases simp_all
  qed
  then have "out ! (i + k) = raw ! (i + k)" if "k < length m" for k using out that m by auto
  then have "matches_at raw i m" using same m by (simp add: matches_at_bytes)
  moreover have "i < length raw" using m by linarith
  ultimately obtain t where "t \<in> set ts" "in_span t i" using redact_spans [OF ne assms(2)] assms(3) by blast
  with \<open>\<And>t k. \<lbrakk>k < length m; t \<in> set ts\<rbrakk> \<Longrightarrow> \<not> in_span t (i + k)\<close> [of 0 t] m show False by simp
qed

end
