(* ===== verification/Segments.thy ===== *)
theory Segments
  imports Text
begin

text \<open>
  Segmentation of sanitized bytes, \<^verbatim>\<open>src/context_ingress/segment.rs\<close>: newline-delimited segments, their
  structural classes, and the coverage check of the ingress transaction.
\<close>

datatype line_class = ExactLine | IdentifierLine | CodeLine | TestLogLine | NoiseLine | UnknownLine

fun line_class_name :: "line_class \<Rightarrow> string" where
  "line_class_name ExactLine = ''exact-span''"
| "line_class_name IdentifierLine = ''identifier''"
| "line_class_name CodeLine = ''code''"
| "line_class_name TestLogLine = ''test-log''"
| "line_class_name NoiseLine = ''noise''"
| "line_class_name UnknownLine = ''unknown''"

fun line_lane :: "line_class \<Rightarrow> string" where
  "line_lane ExactLine = ''constraint''"
| "line_lane IdentifierLine = ''constraint''"
| "line_lane CodeLine = ''source''"
| "line_lane TestLogLine = ''test-log''"
| "line_lane NoiseLine = ''noise''"
| "line_lane UnknownLine = ''body''"

definition starts :: "byte list \<Rightarrow> string \<Rightarrow> bool" where
  "starts haystack prefix_text \<longleftrightarrow>
     (let needle = string_bytes prefix_text
      in length needle \<le> length haystack \<and> take (length needle) haystack = needle)"

text \<open>The windows of the needle's length, first to last.\<close>

definition contains :: "byte list \<Rightarrow> string \<Rightarrow> bool" where
  "contains haystack text \<longleftrightarrow>
     (let needle = string_bytes text
      in \<not> length haystack < length needle \<and>
         list_ex (\<lambda>i. take (length needle) (drop i haystack) = needle)
           [0 ..< Suc (length haystack - length needle)])"

definition of_line :: "byte list \<Rightarrow> line_class" where
  "of_line line =
     (if contains line ''exact error span'' \<or> contains line ''constraint:'' \<or> contains line ''failing test identity:''
      then ExactLine
      else if contains line ''unknown-shaped identifier'' then IdentifierLine
      else if starts line ''noise:'' \<or> starts line ''fill line'' then NoiseLine
      else if contains line ''test '' \<or> starts line ''running '' then TestLogLine
      else if starts line ''    '' \<or> contains line ''fn '' \<or> contains line ''-> {'' then CodeLine
      else UnknownLine)"

record segment =
  sg_start :: nat
  sg_end :: nat
  sg_class :: line_class

definition byte_slice :: "byte list \<Rightarrow> nat \<Rightarrow> nat \<Rightarrow> byte list" where
  "byte_slice bytes a b = take (b - a) (drop a bytes)"

definition segment_new :: "byte list \<Rightarrow> nat \<Rightarrow> nat \<Rightarrow> segment" where
  "segment_new bytes a b = \<lparr>sg_start = a, sg_end = b, sg_class = of_line (byte_slice bytes a b)\<rparr>"

text \<open>The loop over the enumerated bytes; \<open>start\<close> is the first byte not yet in a segment.\<close>

fun segment_loop :: "byte list \<Rightarrow> nat \<Rightarrow> nat \<Rightarrow> byte list \<Rightarrow> segment list" where
  "segment_loop bytes index start [] =
     (if start < length bytes then [segment_new bytes start (length bytes)] else [])"
| "segment_loop bytes index start (b # rest) =
     (if b = 0x0A then segment_new bytes start (index + 1) # segment_loop bytes (index + 1) (index + 1) rest
      else segment_loop bytes (index + 1) start rest)"

definition segment_of :: "byte list \<Rightarrow> segment list" where
  "segment_of bytes = segment_loop bytes 0 0 bytes"

fun coverage_loop :: "nat \<Rightarrow> segment list \<Rightarrow> nat \<Rightarrow> bool" where
  "coverage_loop cursor [] len \<longleftrightarrow> cursor = len"
| "coverage_loop cursor (s # ss) len \<longleftrightarrow>
     (if sg_start s \<noteq> cursor then False
      else if sg_end s < sg_start s then False
      else coverage_loop (sg_end s) ss len)"

definition coverage_is_total :: "segment list \<Rightarrow> nat \<Rightarrow> bool" where
  "coverage_is_total segments len \<longleftrightarrow> coverage_loop 0 segments len"

definition keeps_verbatim :: "segment \<Rightarrow> bool" where
  "keeps_verbatim s \<longleftrightarrow> sg_class s = ExactLine \<or> sg_class s = IdentifierLine"

definition exact_spans :: "segment list \<Rightarrow> (nat \<times> nat) list" where
  "exact_spans segments = map (\<lambda>s. (sg_start s, sg_end s)) (filter keeps_verbatim segments)"

definition is_separator :: "byte \<Rightarrow> bool" where
  "is_separator b \<longleftrightarrow> b \<in> set [0x20, 0x0A, 0x0D, 0x09, 0x22, 0x27, 0x29, 0x2C, 0x3B]"

section \<open>Segments partition the payload\<close>

abbreviation segment_bytes :: "byte list \<Rightarrow> segment \<Rightarrow> byte list" where
  "segment_bytes bytes s \<equiv> byte_slice bytes (sg_start s) (sg_end s)"

text \<open>A coverage that is total reassembles the payload.\<close>

lemma byte_slice_append: "a \<le> b \<Longrightarrow> b \<le> c \<Longrightarrow> byte_slice bytes a b @ byte_slice bytes b c = byte_slice bytes a c"
proof -
  assume ab: "a \<le> b" and bc: "b \<le> c"
  have "take (c - a) (drop a bytes) = take ((b - a) + (c - b)) (drop a bytes)" using ab bc by simp
  also have "\<dots> = take (b - a) (drop a bytes) @ take (c - b) (drop (b - a) (drop a bytes))" by (rule take_add)
  finally show ?thesis using ab by (simp add: byte_slice_def)
qed

lemma coverage_loop_le: "coverage_loop cursor segments len \<Longrightarrow> cursor \<le> len"
  by (induction segments arbitrary: cursor) (auto split: if_splits intro: order_trans leI)

lemma coverage_loop_concat:
  assumes "coverage_loop cursor segments len"
  shows "concat (map (segment_bytes bytes) segments) = byte_slice bytes cursor len"
  using assms
proof (induction segments arbitrary: cursor)
  case (Cons s ss)
  then have "sg_start s = cursor" "cursor \<le> sg_end s" "coverage_loop (sg_end s) ss len" by (auto split: if_splits)
  with Cons.IH coverage_loop_le byte_slice_append show ?case by fastforce
qed (simp add: byte_slice_def)

lemma coverage_total_concat:
  "coverage_is_total segments (length bytes) \<Longrightarrow> concat (map (segment_bytes bytes) segments) = bytes"
  using coverage_loop_concat [of 0 segments "length bytes" bytes] by (simp add: coverage_is_total_def byte_slice_def)

text \<open>Every segment is a line: it is not empty and has a newline at most at its end.\<close>

definition line_segment :: "byte list \<Rightarrow> segment \<Rightarrow> bool" where
  "line_segment bytes s \<longleftrightarrow>
     sg_start s < sg_end s \<and> sg_end s \<le> length bytes \<and> sg_class s = of_line (segment_bytes bytes s) \<and>
     (\<forall>j. sg_start s \<le> j \<and> Suc j < sg_end s \<longrightarrow> bytes ! j \<noteq> 0x0A) \<and>
     (sg_end s < length bytes \<longrightarrow> bytes ! (sg_end s - 1) = 0x0A)"

lemma segment_loop_lines:
  assumes "rest = drop index bytes" and "start \<le> index" and "index \<le> length bytes"
    and "\<forall>j. start \<le> j \<and> j < index \<longrightarrow> bytes ! j \<noteq> 0x0A"
  shows "coverage_loop start (segment_loop bytes index start rest) (length bytes) \<and>
    list_all (line_segment bytes) (segment_loop bytes index start rest)"
  using assms
proof (induction rest arbitrary: index start)
  case Nil
  then have "index = length bytes" by simp
  with Nil show ?case by (auto simp: segment_new_def line_segment_def)
next
  case (Cons b rest)
  have at: "index < length bytes" using Cons.prems(1,3) by (cases "index = length bytes") auto
  then have b: "bytes ! index = b" "rest = drop (index + 1) bytes"
    using Cons.prems(1) Cons_nth_drop_Suc [of index bytes] by (metis list.inject Suc_eq_plus1)+
  show ?case
  proof (cases "b = 0x0A")
    case True
    have "line_segment bytes (segment_new bytes start (index + 1))"
      using Cons.prems True at b by (auto simp: segment_new_def line_segment_def)
    moreover have "coverage_loop (index + 1) (segment_loop bytes (index + 1) (index + 1) rest) (length bytes) \<and>
        list_all (line_segment bytes) (segment_loop bytes (index + 1) (index + 1) rest)"
      by (rule Cons.IH [OF b(2)]) (use at in auto)
    ultimately show ?thesis using True Cons.prems(2) by (simp add: segment_new_def)
  next
    case False
    then have "\<forall>j. start \<le> j \<and> j < index + 1 \<longrightarrow> bytes ! j \<noteq> 0x0A" using Cons.prems(4) b by (auto simp: less_Suc_eq)
    with Cons.IH [of "index + 1" start] False at b Cons.prems(2) show ?thesis by simp
  qed
qed

lemma segment_of_total: "coverage_is_total (segment_of bytes) (length bytes)"
  using segment_loop_lines [of bytes 0 bytes 0] by (simp add: segment_of_def coverage_is_total_def)

lemma segment_of_lines: "list_all (line_segment bytes) (segment_of bytes)"
  using segment_loop_lines [of bytes 0 bytes 0] by (simp add: segment_of_def)

end
