(* ===== verification/Ingress.thy ===== *)
theory Ingress
  imports Redaction Segments Store
begin

text \<open>
  The ingress transaction: the capture buffer (\<^verbatim>\<open>src/context_ingress/capture.rs\<close>) and the transaction itself
  (\<^verbatim>\<open>ingress.rs\<close>).  The store behind the transaction is the trait
  \<open>IngressSink\<close>: a record of operations here, whose contract is the locale \<open>ingress_store\<close> and whose
  implementation is the context store.
\<close>

section \<open>The capture buffer\<close>

datatype capture_source = UserPrompt | FromToolResult | FromToolCall | FromAssistant | GeneratedArtifact | Imported

fun capture_source_name :: "capture_source \<Rightarrow> string" where
  "capture_source_name UserPrompt = ''user-prompt''"
| "capture_source_name FromToolResult = ''tool-result''"
| "capture_source_name FromToolCall = ''tool-call''"
| "capture_source_name FromAssistant = ''assistant''"
| "capture_source_name GeneratedArtifact = ''generated-artifact''"
| "capture_source_name Imported = ''imported''"

record capture_slot =
  cp_source :: capture_source
  cp_bytes :: "byte list"

datatype capture_loss = EmptyLoss | VolatileBytes nat

datatype capture_error = CapacityExceeded nat nat

record capture_buffer =
  cb_cap :: nat
  cb_slots :: "capture_slot list"
  cb_at_risk :: nat

definition capture_new :: "nat \<Rightarrow> capture_buffer" where
  "capture_new cap = \<lparr>cb_cap = cap, cb_slots = [], cb_at_risk = 0\<rparr>"

definition capture_is_empty :: "capture_buffer \<Rightarrow> bool" where
  "capture_is_empty b \<longleftrightarrow> cb_slots b = []"

definition capture_declared_loss :: "capture_buffer \<Rightarrow> capture_loss" where
  "capture_declared_loss b = (if cb_at_risk b = 0 then EmptyLoss else VolatileBytes (cb_at_risk b))"

definition capture_push :: "capture_buffer \<Rightarrow> capture_source \<Rightarrow> byte list \<Rightarrow> capture_error + capture_buffer" where
  "capture_push b source bytes =
     (if cb_cap b < cb_at_risk b + length bytes then Inl (CapacityExceeded (cb_cap b) (length bytes))
      else Inr (b\<lparr>cb_at_risk := cb_at_risk b + length bytes,
        cb_slots := cb_slots b @ [\<lparr>cp_source = source, cp_bytes = bytes\<rparr>]\<rparr>))"

definition capture_drain :: "capture_buffer \<Rightarrow> capture_buffer \<times> capture_slot list" where
  "capture_drain b = (b\<lparr>cb_at_risk := 0, cb_slots := []\<rparr>, cb_slots b)"

definition simulate_crash :: "capture_buffer \<Rightarrow> capture_buffer \<times> nat" where
  "simulate_crash b = (b\<lparr>cb_slots := [], cb_at_risk := 0\<rparr>, cb_at_risk b)"

section \<open>The sink\<close>

record 's ingress_sink =
  sk_append :: "'s \<Rightarrow> byte list \<Rightarrow> 's \<times> (sink_refusal + spine_placement)"
  sk_vault_put :: "'s \<Rightarrow> byte list \<Rightarrow> string \<Rightarrow> 's \<times> (sink_refusal + string)"
  sk_mode :: "'s \<Rightarrow> string"

section \<open>The transaction\<close>

datatype ingress_error =
    CaptureFailed capture_error
  | CoverageError nat
  | EmptyPreservedSpine
  | IngressBlocked string

record vault_reference =
  vr_handle :: string
  vr_reason :: string
  vr_placeholder :: "byte list"
  vr_content_digest :: digest

record ingress_payload =
  pl_handle :: string
  pl_ranges :: "(u64 \<times> u64) list"
  pl_bytes :: "byte list"
  pl_segments :: "segment list"

record ingress_record =
  ig_source :: capture_source
  ig_payload :: ingress_payload
  ig_sanitized :: "byte list"
  ig_segments :: "segment list"
  ig_redactions :: nat
  ig_vault :: "vault_reference option"
  ig_secret_digests :: "digest list"
  ig_spine :: "spine_placement option"

definition ingress_digest :: "ingress_record \<Rightarrow> digest" where
  "ingress_digest r = digest (string_bytes (capture_source_name (ig_source r)) @ [0] @ ig_sanitized r)"

definition record_exact_spans :: "ingress_record \<Rightarrow> (nat \<times> nat) list" where
  "record_exact_spans r = map (\<lambda>s. (sg_start s, sg_end s)) (filter keeps_verbatim (ig_segments r))"

datatype validated_slot =
    ValidSanitized "byte list" "segment list" nat
  | ValidVaulted "byte list" "segment list" vault_reason

record ingress_txn =
  it_capture :: capture_buffer
  it_redactor :: redactor
  it_quarantine :: "digest list"

definition ingress_new :: "nat \<Rightarrow> nat \<Rightarrow> ingress_txn" where
  "ingress_new capture_cap work_budget =
     \<lparr>it_capture = capture_new capture_cap, it_redactor = with_budget work_budget, it_quarantine = []\<rparr>"

definition ingress_declared_loss :: "ingress_txn \<Rightarrow> nat" where
  "ingress_declared_loss t = cb_at_risk (it_capture t)"

definition ingress_capture :: "ingress_txn \<Rightarrow> capture_source \<Rightarrow> byte list \<Rightarrow> ingress_error + ingress_txn" where
  "ingress_capture t source bytes =
     res_bind (map_err CaptureFailed (capture_push (it_capture t) source bytes)) (\<lambda>b. Inr (t\<lparr>it_capture := b\<rparr>))"

definition capture_derivation :: "ingress_txn \<Rightarrow> string \<Rightarrow> byte list \<Rightarrow> ingress_error + ingress_txn" where
  "capture_derivation t source_kind raw = ingress_capture t GeneratedArtifact raw"

definition resize_bytes :: "byte list \<Rightarrow> nat \<Rightarrow> byte \<Rightarrow> byte list" where
  "resize_bytes bytes n b = take n bytes @ replicate (n - length bytes) b"

definition vault_placeholder :: "vault_reason \<Rightarrow> nat \<Rightarrow> byte list" where
  "vault_placeholder reason byte_len =
     (let label = ''[vaulted:'' @ vault_reason_name reason @ '':'' @ decimal byte_len @ ''bytes]''
      in resize_bytes (string_bytes label) (max byte_len 1) 0x2D)"

definition validate_slot :: "ingress_txn \<Rightarrow> byte list \<Rightarrow> ingress_error + validated_slot" where
  "validate_slot t raw =
     (case redact (it_redactor t) raw of
        Sanitized bytes redactions \<Rightarrow>
          if bytes = [] then Inl EmptyPreservedSpine
          else let segments = segment_of bytes
            in if \<not> coverage_is_total segments (length bytes) then Inl (CoverageError (length bytes))
               else Inr (ValidSanitized bytes segments (length redactions))
      | Vaulted reason byte_len \<Rightarrow>
          let placeholder = vault_placeholder reason byte_len
          in if placeholder = [] then Inl EmptyPreservedSpine
             else let segments = segment_of placeholder
               in if \<not> coverage_is_total segments (length placeholder) then Inl (CoverageError (length placeholder))
                  else Inr (ValidVaulted placeholder segments reason))"

text \<open>The two token loops cut at the separators; the last token ends with the payload.\<close>

fun token_loop :: "byte list \<Rightarrow> nat \<Rightarrow> nat \<Rightarrow> byte list \<Rightarrow> byte list list" where
  "token_loop raw index start [] = (if start < index then [byte_slice raw start index] else [])"
| "token_loop raw index start (b # rest) =
     (if is_separator b
      then (if start < index then [byte_slice raw start index] else []) @ token_loop raw (index + 1) (index + 1) rest
      else token_loop raw (index + 1) start rest)"

definition tokens :: "byte list \<Rightarrow> byte list list" where
  "tokens raw = token_loop raw 0 0 raw"

definition secret_token_digests :: "byte list \<Rightarrow> digest list" where
  "secret_token_digests raw = map digest (filter (\<lambda>t. 8 \<le> length t) (tokens raw))"

fun sink_refusal_mode :: "sink_refusal \<Rightarrow> string" where
  "sink_refusal_mode (RefusedMode m) = m"
| "sink_refusal_mode RefusedVault = ''vault''"

definition store_is_admitting :: "'s ingress_sink \<Rightarrow> 's \<Rightarrow> ingress_error + unit" where
  "store_is_admitting k s = ensure (sk_mode k s = ''normal'') (IngressBlocked (sk_mode k s))"

definition place_on_spine ::
  "'s ingress_sink \<Rightarrow> 's \<Rightarrow> byte list \<Rightarrow> segment list \<Rightarrow> 's \<times> (ingress_error + (spine_placement \<times> segment list))" where
  "place_on_spine k s bytes segments =
     (case sk_append k s bytes of
        (s1, Inl refusal) \<Rightarrow> (s1, Inl (IngressBlocked (sink_refusal_mode refusal)))
      | (s1, Inr placement) \<Rightarrow>
          (s1, res_bind (store_is_admitting k s1) (\<lambda>_.
            if sp_end placement \<le> sp_start placement then Inl EmptyPreservedSpine
            else if \<not> coverage_is_total segments (length bytes) then Inl (CoverageError (length bytes))
            else Inr (placement, segments))))"

definition record_new ::
  "capture_source \<Rightarrow> spine_placement \<Rightarrow> byte list \<Rightarrow> segment list \<Rightarrow> nat \<Rightarrow> vault_reference option \<Rightarrow> digest list \<Rightarrow>
     ingress_record" where
  "record_new source placement bytes segments redactions vault digests =
     \<lparr>ig_source = source,
      ig_payload = \<lparr>pl_handle = sp_handle placement, pl_ranges = [(sp_start placement, sp_end placement)],
        pl_bytes = bytes, pl_segments = segments\<rparr>,
      ig_sanitized = bytes, ig_segments = segments, ig_redactions = redactions, ig_vault = vault,
      ig_secret_digests = digests, ig_spine = Some placement\<rparr>"

fun transact_one ::
  "'s ingress_sink \<Rightarrow> 's \<Rightarrow> capture_source \<Rightarrow> byte list \<Rightarrow> validated_slot \<Rightarrow> 's \<times> (ingress_error + ingress_record)" where
  "transact_one k s source raw (ValidSanitized bytes segments redactions) =
     (case place_on_spine k s bytes segments of
        (s1, Inl e) \<Rightarrow> (s1, Inl e)
      | (s1, Inr (placement, segments)) \<Rightarrow>
          (s1, Inr (record_new source placement bytes segments redactions None (secret_token_digests raw))))"
| "transact_one k s source raw (ValidVaulted placeholder segments reason) =
     (case place_on_spine k s placeholder segments of
        (s1, Inl e) \<Rightarrow> (s1, Inl e)
      | (s1, Inr (placement, segments)) \<Rightarrow>
          (case sk_vault_put k s1 raw (vault_reason_name reason) of
             (s2, Inl refusal) \<Rightarrow> (s2, Inl (IngressBlocked (sink_refusal_mode refusal)))
           | (s2, Inr handle) \<Rightarrow>
               (s2, Inr (record_new source placement placeholder segments 0
                  (Some \<lparr>vr_handle = handle, vr_reason = vault_reason_name reason, vr_placeholder = placeholder,
                     vr_content_digest = digest raw\<rparr>)
                  (secret_token_digests raw)))))"

fun validate_slots :: "ingress_txn \<Rightarrow> capture_slot list \<Rightarrow> ingress_error + (capture_slot \<times> validated_slot) list" where
  "validate_slots t [] = Inr []"
| "validate_slots t (c # cs) =
     res_bind (validate_slot t (cp_bytes c)) (\<lambda>v. res_bind (validate_slots t cs) (\<lambda>vs. Inr ((c, v) # vs)))"

fun transact_all ::
  "'s ingress_sink \<Rightarrow> 's \<Rightarrow> digest list \<Rightarrow> (capture_slot \<times> validated_slot) list \<Rightarrow> ingress_record list \<Rightarrow>
     's \<times> digest list \<times> (ingress_error + ingress_record list)" where
  "transact_all k s quarantine [] records = (s, quarantine, Inr records)"
| "transact_all k s quarantine ((c, v) # rest) records =
     (case transact_one k s (cp_source c) (cp_bytes c) v of
        (s1, Inl e) \<Rightarrow> (s1, quarantine, Inl e)
      | (s1, Inr r) \<Rightarrow> transact_all k s1 (quarantine @ ig_secret_digests r) rest (records @ [r]))"

definition commit ::
  "'s ingress_sink \<Rightarrow> ingress_txn \<Rightarrow> 's \<Rightarrow> ingress_txn \<times> 's \<times> (ingress_error + ingress_record list)" where
  "commit k t s =
     (case store_is_admitting k s of
        Inl e \<Rightarrow> (t, s, Inl e)
      | Inr _ \<Rightarrow>
          (case capture_drain (it_capture t) of (buffer, slots) \<Rightarrow>
             let t1 = t\<lparr>it_capture := buffer\<rparr>
             in (case validate_slots t1 slots of
                   Inl e \<Rightarrow> (t1, s, Inl e)
                 | Inr validated \<Rightarrow>
                     (case transact_all k s (it_quarantine t1) validated [] of
                        (s1, quarantine, r) \<Rightarrow>
                          (t1\<lparr>it_quarantine := quarantine\<rparr>, s1,
                           res_bind r (\<lambda>records. res_bind (store_is_admitting k s1) (\<lambda>_. Inr records)))))))"

section \<open>The bytes a payload is admitted as\<close>

definition admitted :: "redactor \<Rightarrow> byte list \<Rightarrow> byte list" where
  "admitted r raw =
     (case redact r raw of Sanitized bytes ts \<Rightarrow> bytes | Vaulted reason n \<Rightarrow> vault_placeholder reason n)"

fun valid_bytes :: "validated_slot \<Rightarrow> byte list" where
  "valid_bytes (ValidSanitized bytes segments n) = bytes"
| "valid_bytes (ValidVaulted bytes segments reason) = bytes"

fun valid_segments :: "validated_slot \<Rightarrow> segment list" where
  "valid_segments (ValidSanitized bytes segments n) = segments"
| "valid_segments (ValidVaulted bytes segments reason) = segments"

lemma placeholder_length: "length (vault_placeholder reason n) = max n 1"
  by (simp add: vault_placeholder_def resize_bytes_def Let_def)

lemma placeholder_nonempty [simp]: "vault_placeholder reason n \<noteq> []"
  by (metis max.strict_coboundedI2 list.size(3) placeholder_length less_numeral_extra(1) less_numeral_extra(3))

text \<open>Segmentation is total, so the only payload a validation refuses is one that is admitted as no bytes.\<close>

lemma validate_slot_iff:
  "validate_slot t raw =
     (if admitted (it_redactor t) raw = [] then Inl EmptyPreservedSpine
      else Inr (case redact (it_redactor t) raw of
        Sanitized bytes ts \<Rightarrow> ValidSanitized bytes (segment_of bytes) (length ts)
      | Vaulted reason n \<Rightarrow>
          ValidVaulted (vault_placeholder reason n) (segment_of (vault_placeholder reason n)) reason))"
  by (auto simp: validate_slot_def admitted_def segment_of_total Let_def split: redaction_outcome.splits)

lemma validate_slot_bytes:
  "validate_slot t raw = Inr v \<Longrightarrow>
     valid_bytes v = admitted (it_redactor t) raw \<and> valid_bytes v \<noteq> [] \<and> valid_segments v = segment_of (valid_bytes v)"
  by (auto simp: validate_slot_iff admitted_def split: if_splits redaction_outcome.splits)

lemma validate_slots_Inr:
  "validate_slots t cs = Inr vs \<Longrightarrow>
     map fst vs = cs \<and> (\<forall>(c, v) \<in> set vs. validate_slot t (cp_bytes c) = Inr v) \<and>
     map (\<lambda>x. valid_bytes (snd x)) vs = map (\<lambda>c. admitted (it_redactor t) (cp_bytes c)) cs"
  by (induction cs arbitrary: vs) (auto dest: validate_slot_bytes)

lemma validate_slots_Inl:
  "(\<exists>e. validate_slots t cs = Inl e) \<longleftrightarrow> (\<exists>c \<in> set cs. admitted (it_redactor t) (cp_bytes c) = [])"
proof (induction cs)
  case (Cons c cs)
  then show ?case
    by (cases "validate_slots t cs") (auto simp: validate_slot_iff)
qed simp

text \<open>Neither form of an admitted payload carries a marker of the default detectors.  A placeholder is written in
  an alphabet that lacks a letter of every marker.\<close>

definition placeholder_letter :: "byte \<Rightarrow> bool" where
  "placeholder_letter b \<longleftrightarrow>
     b \<in> set (string_bytes ''[vaulted:detector-budget-exhausted:detector-failed:bytes]'') \<or> (0x30 \<le> b \<and> b \<le> 0x39)"

lemma digit_letter: "is_digit c \<Longrightarrow> placeholder_letter (of_char c)"
proof -
  assume "is_digit c"
  then obtain d where d: "(of_char c :: nat) = 48 + d" "d < 10" by (auto simp: is_digit_def nat_le_iff_add)
  have "(of_char c :: byte) = of_nat (of_char c)" by (simp add: of_nat_of_char)
  then have "(of_char c :: byte) = of_nat (48 + d)" by (simp add: d(1))
  moreover have "d \<in> {0, 1, 2, 3, 4, 5, 6, 7, 8, 9}" using d(2) by auto
  ultimately show ?thesis by (auto simp: placeholder_letter_def)
qed

lemma placeholder_letters: "list_all placeholder_letter (vault_placeholder reason n)"
proof -
  have lit: "list_all placeholder_letter (string_bytes ''[vaulted:'')" "list_all placeholder_letter (string_bytes '':'')"
    "list_all placeholder_letter (string_bytes ''bytes]'')" "placeholder_letter 0x2D"
    "list_all placeholder_letter (string_bytes (vault_reason_name reason))"
    by (cases reason; simp add: placeholder_letter_def string_bytes_def)+
  have "list_all placeholder_letter (string_bytes (decimal n))"
    using decimal_digits [of n] digit_letter by (auto simp: list_all_iff string_bytes_def)
  with lit have "list_all placeholder_letter
      (string_bytes (''[vaulted:'' @ vault_reason_name reason @ '':'' @ decimal n @ ''bytes]''))"
    by (simp only: string_bytes_def map_append list_all_append)
  then show ?thesis
    using lit(4) unfolding vault_placeholder_def resize_bytes_def Let_def list_all_iff
    by (metis Un_iff in_set_replicate in_set_takeD set_append)
qed

abbreviation default_markers :: "string list" where
  "default_markers \<equiv>
     [''CTXEVAL-SECRET-'', ''CTXEVAL-TOKEN-'', ''sk-ctxeval'', ''auth-key-'', ''ctxeval-creds@'', ''://secret:'',
      ''Bearer CTXEVAL-'', ''password=CTXEVAL-'', ''api_key=CTXEVAL-'']"

lemma default_redactor_markers: "redactor_markers (with_budget n) = set default_markers"
  by (auto simp: with_budget_def detector_new_def)

lemma marker_letters: "m \<in> set default_markers \<Longrightarrow> \<not> list_all placeholder_letter (string_bytes m)"
  by (auto simp: placeholder_letter_def string_bytes_def)

lemma default_markers_lone: "list_all lone_X default_markers"
  by code_simp

lemma matches_at_letters: "matches_at bytes i m \<Longrightarrow> list_all P bytes \<Longrightarrow> list_all P (string_bytes m)"
  unfolding matches_at_def Let_def list_all_iff by (metis in_set_dropD in_set_takeD)

lemma admitted_unmarked:
  assumes "m \<in> set default_markers"
  shows "\<not> matches_at (admitted (with_budget n) raw) i m"
proof (cases "redact (with_budget n) raw")
  case (Sanitized bytes ts)
  have "\<forall>n' \<in> redactor_markers (with_budget n). 2 \<le> length n'" unfolding default_redactor_markers by simp
  moreover have "m \<in> redactor_markers (with_budget n)" unfolding default_redactor_markers by (rule assms)
  moreover have "lone_X m" using assms default_markers_lone unfolding list_all_iff by blast
  ultimately have "\<not> matches_at bytes i m" using redact_no_marker Sanitized by blast
  with Sanitized show ?thesis by (simp add: admitted_def)
next
  case (Vaulted reason len)
  then show ?thesis
    using matches_at_letters [OF _ placeholder_letters] marker_letters [OF assms] by (auto simp: admitted_def)
qed

section \<open>The contract of the sink\<close>

text \<open>What the transaction relies on: an admitting sink appends what it is given, in order, at the end; a sink that
  refuses is unchanged; and sealing a quarantined payload leaves the spine alone.\<close>

locale ingress_store =
  fixes k :: "'s ingress_sink" and keeps :: "'s \<Rightarrow> byte list list \<Rightarrow> bool"
  assumes append_admits: "sk_mode k s = ''normal'' \<Longrightarrow> \<exists>s' p. sk_append k s bytes = (s', Inr p)"
    and append_keeps: "keeps s ps \<Longrightarrow> sk_append k s bytes = (s', Inr p) \<Longrightarrow>
      keeps s' (ps @ [bytes]) \<and> sk_mode k s' = sk_mode k s \<and>
      sp_start p = length (concat ps) \<and> sp_end p = sp_start p + length bytes"
    and put_keeps: "keeps s ps \<Longrightarrow> sk_vault_put k s raw reason = (s', r) \<Longrightarrow>
      keeps s' ps \<and> sk_mode k s' = sk_mode k s"
begin

lemma place_keeps:
  assumes "keeps s ps" and "sk_mode k s = ''normal''" and "bytes \<noteq> []"
    and "coverage_is_total segments (length bytes)"
  shows "\<exists>s' p. place_on_spine k s bytes segments = (s', Inr (p, segments)) \<and> keeps s' (ps @ [bytes]) \<and>
    sk_mode k s' = ''normal'' \<and> sp_start p = length (concat ps) \<and> sp_end p = sp_start p + length bytes"
proof -
  obtain s' p where ap: "sk_append k s bytes = (s', Inr p)" using append_admits [OF assms(2)] by blast
  from append_keeps [OF assms(1) ap] assms ap show ?thesis
    by (auto simp: place_on_spine_def store_is_admitting_def)
qed

lemma transact_one_keeps:
  assumes "keeps s ps" and "sk_mode k s = ''normal''" and "validate_slot t raw = Inr v"
    and "transact_one k s source raw v = (s', r)"
  shows "keeps s' (ps @ [valid_bytes v]) \<and> sk_mode k s' = ''normal'' \<and>
    (\<forall>rec. r = Inr rec \<longrightarrow> ig_sanitized rec = valid_bytes v \<and> ig_secret_digests rec = secret_token_digests raw \<and>
       ig_source rec = source)"
proof -
  have v: "valid_bytes v \<noteq> []" "coverage_is_total (valid_segments v) (length (valid_bytes v))"
    using validate_slot_bytes [OF assms(3)] segment_of_total by auto
  from place_keeps [OF assms(1,2) v] obtain s1 p where
    p: "place_on_spine k s (valid_bytes v) (valid_segments v) = (s1, Inr (p, valid_segments v))"
    and s1: "keeps s1 (ps @ [valid_bytes v])" "sk_mode k s1 = ''normal''" by blast
  from assms(4) p s1 put_keeps [OF s1(1)] show ?thesis
    by (cases v) (fastforce simp: record_new_def split: prod.splits sum.splits)+
qed

lemma transact_all_keeps:
  assumes "keeps s ps" and "sk_mode k s = ''normal''"
    and "\<forall>(c, v) \<in> set vs. validate_slot t (cp_bytes c) = Inr v"
    and "transact_all k s q vs recs = (s', q', r)"
  shows "\<exists>n. keeps s' (ps @ take n (map (\<lambda>x. valid_bytes (snd x)) vs)) \<and> sk_mode k s' = ''normal'' \<and>
    (\<forall>out. r = Inr out \<longrightarrow> n = length vs \<and> (\<exists>new. out = recs @ new \<and>
       map ig_sanitized new = map (\<lambda>x. valid_bytes (snd x)) vs \<and>
       map ig_secret_digests new = map (\<lambda>x. secret_token_digests (cp_bytes (fst x))) vs))"
  using assms
proof (induction vs arbitrary: s ps q recs)
  case Nil
  then show ?case by auto
next
  case (Cons x vs)
  obtain c v where x: "x = (c, v)" by (cases x)
  obtain s1 r1 where step: "transact_one k s (cp_source c) (cp_bytes c) v = (s1, r1)"
    by (cases "transact_one k s (cp_source c) (cp_bytes c) v")
  have valid: "validate_slot t (cp_bytes c) = Inr v" using Cons.prems(3) x by auto
  note one = transact_one_keeps [OF Cons.prems(1,2) valid step]
  show ?case
  proof (cases r1)
    case (Inl e)
    with Cons.prems(4) x step have "s' = s1" "r = Inl e" by simp_all
    with one x show ?thesis by (intro exI [of _ 1]) simp
  next
    case (Inr rec)
    with Cons.prems(4) x step
    have rest: "transact_all k s1 (q @ ig_secret_digests rec) vs (recs @ [rec]) = (s', q', r)" by simp
    have kept: "keeps s1 (ps @ [valid_bytes v])" "sk_mode k s1 = ''normal''" using one by simp_all
    have "\<forall>(c, v) \<in> set vs. validate_slot t (cp_bytes c) = Inr v" using Cons.prems(3) by simp
    from Cons.IH [OF kept this rest] obtain n where n: "keeps s' ((ps @ [valid_bytes v]) @ take n (map (\<lambda>x. valid_bytes (snd x)) vs))"
      "sk_mode k s' = ''normal''"
      "\<forall>out. r = Inr out \<longrightarrow> n = length vs \<and> (\<exists>new. out = (recs @ [rec]) @ new \<and>
         map ig_sanitized new = map (\<lambda>x. valid_bytes (snd x)) vs \<and>
         map ig_secret_digests new = map (\<lambda>x. secret_token_digests (cp_bytes (fst x))) vs)" by blast
    have "\<exists>new. out = recs @ new \<and> map ig_sanitized new = map (\<lambda>x. valid_bytes (snd x)) (x # vs) \<and>
        map ig_secret_digests new = map (\<lambda>x. secret_token_digests (cp_bytes (fst x))) (x # vs)"
      if "r = Inr out" for out
    proof -
      from n(3) that obtain new where "out = (recs @ [rec]) @ new" "map ig_sanitized new = map (\<lambda>x. valid_bytes (snd x)) vs"
        "map ig_secret_digests new = map (\<lambda>x. secret_token_digests (cp_bytes (fst x))) vs" by blast
      with one Inr x show ?thesis by (intro exI [of _ "rec # new"]) simp
    qed
    with n x show ?thesis by (intro exI [of _ "Suc n"]) auto
  qed
qed

text \<open>With a vault that seals whatever it is given nothing is refused after validation.\<close>

lemma transact_all_admits:
  assumes "keeps s ps" and "sk_mode k s = ''normal''"
    and "\<forall>(c, v) \<in> set vs. validate_slot t (cp_bytes c) = Inr v"
    and "\<And>s raw reason. sk_mode k s = ''normal'' \<Longrightarrow> \<exists>s' h. sk_vault_put k s raw reason = (s', Inr h)"
  shows "\<exists>s' q' out. transact_all k s q vs recs = (s', q', Inr out)"
  using assms(1-3)
proof (induction vs arbitrary: s ps q recs)
  case (Cons x vs)
  obtain c v where x: "x = (c, v)" by (cases x)
  have valid: "validate_slot t (cp_bytes c) = Inr v" using Cons.prems(3) x by auto
  from validate_slot_bytes [OF this] have "valid_bytes v \<noteq> []"
    "coverage_is_total (valid_segments v) (length (valid_bytes v))" using segment_of_total by metis+
  from place_keeps [OF Cons.prems(1,2) this] obtain s1 p where
    p: "place_on_spine k s (valid_bytes v) (valid_segments v) = (s1, Inr (p, valid_segments v))"
    and s1: "sk_mode k s1 = ''normal''" by blast
  have "\<exists>s2 rec. transact_one k s (cp_source c) (cp_bytes c) v = (s2, Inr rec)"
  proof (cases v)
    case (ValidVaulted b ss reason)
    obtain s2 h where "sk_vault_put k s1 (cp_bytes c) (vault_reason_name reason) = (s2, Inr h)"
      using assms(4) [OF s1] by blast
    with p ValidVaulted show ?thesis by simp
  qed (use p in simp)
  then obtain s2 rec where step: "transact_one k s (cp_source c) (cp_bytes c) v = (s2, Inr rec)" by blast
  from transact_one_keeps [OF Cons.prems(1,2) valid step]
  have kept: "keeps s2 (ps @ [valid_bytes v])" "sk_mode k s2 = ''normal''" by simp_all
  have "\<forall>(c, v) \<in> set vs. validate_slot t (cp_bytes c) = Inr v" using Cons.prems(3) by simp
  from Cons.IH [OF kept this] step x show ?case by simp
qed simp

lemma commit_keeps:
  fixes t :: ingress_txn
  defines "images \<equiv> map (\<lambda>c. admitted (it_redactor t) (cp_bytes c)) (cb_slots (it_capture t))"
  assumes "keeps s ps" and "commit k t s = (t', s', r)"
  shows "sk_mode k s \<noteq> ''normal'' \<or> [] \<in> set images \<Longrightarrow> s' = s \<and> (\<exists>e. r = Inl e)"
    and "sk_mode k s = ''normal'' \<Longrightarrow> [] \<notin> set images \<Longrightarrow>
      \<exists>n. keeps s' (ps @ take n images) \<and>
        (\<forall>out. r = Inr out \<longrightarrow> n = length images \<and> map ig_sanitized out = images \<and>
           map ig_secret_digests out = map (\<lambda>c. secret_token_digests (cp_bytes c)) (cb_slots (it_capture t)))"
proof -
  let ?slots = "cb_slots (it_capture t)"
  let ?t = "t\<lparr>it_capture := fst (capture_drain (it_capture t))\<rparr>"
  have empty: "[] \<in> set images \<longleftrightarrow> (\<exists>e. validate_slots ?t ?slots = Inl e)"
    unfolding validate_slots_Inl images_def by force
  show "s' = s \<and> (\<exists>e. r = Inl e)" if "sk_mode k s \<noteq> ''normal'' \<or> [] \<in> set images"
    using that assms(3) unfolding empty
    by (cases "sk_mode k s = ''normal''") (auto simp: commit_def store_is_admitting_def capture_drain_def Let_def)
  assume mode: "sk_mode k s = ''normal''" and "[] \<notin> set images"
  then obtain vs where vs: "validate_slots ?t ?slots = Inr vs" using empty by (cases "validate_slots ?t ?slots") auto
  note valid = validate_slots_Inr [OF vs]
  obtain s1 q1 r1 where all: "transact_all k s (it_quarantine t) vs [] = (s1, q1, r1)"
    by (cases "transact_all k s (it_quarantine t) vs []")
  have out: "s' = s1" "r = res_bind r1 (\<lambda>records. res_bind (store_is_admitting k s1) (\<lambda>_. Inr records))"
    using assms(3) mode vs all by (auto simp: commit_def store_is_admitting_def capture_drain_def Let_def)
  have images: "map (\<lambda>x. valid_bytes (snd x)) vs = images" using valid by (simp add: images_def)
  have digests: "map (\<lambda>x. secret_token_digests (cp_bytes (fst x))) vs = map (\<lambda>c. secret_token_digests (cp_bytes c)) ?slots"
    using arg_cong [OF conjunct1 [OF valid], of "map (\<lambda>c. secret_token_digests (cp_bytes c))"] by (simp add: o_def)
  have "\<forall>(c, v) \<in> set vs. validate_slot ?t (cp_bytes c) = Inr v" using valid by blast
  from transact_all_keeps [OF assms(2) mode this all] out(2) show
    "\<exists>n. keeps s' (ps @ take n images) \<and>
        (\<forall>out. r = Inr out \<longrightarrow> n = length images \<and> map ig_sanitized out = images \<and>
           map ig_secret_digests out = map (\<lambda>c. secret_token_digests (cp_bytes c)) ?slots)"
    unfolding images digests out(1) using images by auto
qed

lemma commit_admits:
  assumes "keeps s ps" and "sk_mode k s = ''normal''"
    and "[] \<notin> set (map (\<lambda>c. admitted (it_redactor t) (cp_bytes c)) (cb_slots (it_capture t)))"
    and "\<And>s raw reason. sk_mode k s = ''normal'' \<Longrightarrow> \<exists>s' h. sk_vault_put k s raw reason = (s', Inr h)"
  shows "\<exists>t' s' out. commit k t s = (t', s', Inr out)"
proof -
  let ?slots = "cb_slots (it_capture t)"
  let ?t = "t\<lparr>it_capture := fst (capture_drain (it_capture t))\<rparr>"
  have "\<not> (\<exists>e. validate_slots ?t ?slots = Inl e)" using assms(3) unfolding validate_slots_Inl by force
  then obtain vs where vs: "validate_slots ?t ?slots = Inr vs" by (cases "validate_slots ?t ?slots") auto
  have valid: "\<forall>(c, v) \<in> set vs. validate_slot ?t (cp_bytes c) = Inr v" using validate_slots_Inr [OF vs] by blast
  obtain s' q' out where all: "transact_all k s (it_quarantine t) vs [] = (s', q', Inr out)"
    using transact_all_admits [OF assms(1,2) valid assms(4)] by blast
  then have "sk_mode k s' = ''normal''" using transact_all_keeps [OF assms(1,2) valid all] by blast
  with all vs assms(2) show ?thesis by (auto simp: commit_def store_is_admitting_def capture_drain_def Let_def)
qed

end

section \<open>The context store is such a sink\<close>

definition store_sink :: "aead \<Rightarrow> context_store ingress_sink" where
  "store_sink a =
     \<lparr>sk_append = (\<lambda>s bytes. case sink_append s bytes of Inl e \<Rightarrow> (s, Inl e) | Inr (s1, p) \<Rightarrow> (s1, Inr p)),
      sk_vault_put = sink_vault_put a, sk_mode = (\<lambda>s. mode_name (cs_mode s))\<rparr>"

lemma normal_name: "mode_name m = ''normal'' \<longleftrightarrow> m = NormalMode"
  by (cases m) simp_all

lemma sink_append_parts:
  "sink_append s bytes = Inr (s', p) \<longleftrightarrow>
     sanitized_append s bytes = Inr (s', sp_handle p, (sp_start p, sp_end p))"
  by (cases "sanitized_append s bytes") (auto simp: sink_append_def)

interpretation store: ingress_store "store_sink a" holds
proof (unfold_locales, goal_cases)
  case (1 s bytes)
  then show ?case
    by (auto simp: store_sink_def normal_name sink_append_def sanitized_append_def begin_state_advancing_turn_def
        mode_writable_def Let_def split: prod.splits)
next
  case (2 s ps bytes s' p)
  then have "sanitized_append s bytes = Inr (s', sp_handle p, (sp_start p, sp_end p))"
    by (auto simp: store_sink_def sink_append_parts split: sum.splits)
  from holds_append [OF 2(1) this] show ?case by (simp add: store_sink_def)
next
  case (3 s ps raw reason s' r)
  then have "cs_spine s' = cs_spine s \<and> cs_index s' = cs_index s \<and> cs_mode s' = cs_mode s"
    by (auto simp: store_sink_def sink_vault_put_def store_vault_put_def split: prod.splits sum.splits)
  with 3(1) show ?case by (simp add: store_sink_def holds_def index_current_def)
qed

end
