(* ===== verification/Launder.thy ===== *)
theory Launder
  imports Ingress
begin

text \<open>
  The laundering guard of \<^verbatim>\<open>src/context_ingress/launder.rs\<close>: the digests of the tokens a transaction took in, and
  the check of a generated artifact against them.
\<close>

section \<open>The laundering guard\<close>

datatype launder_verdict = LaunderClean | Laundered digest

record quarantine_set =
  qs_digests :: "digest set"
  qs_spans :: "string list"

definition add_record :: "quarantine_set \<Rightarrow> ingress_record \<Rightarrow> quarantine_set" where
  "add_record q r =
     (let q1 = (case ig_vault r of
                  None \<Rightarrow> q
                | Some v \<Rightarrow> q\<lparr>qs_digests := insert (vr_content_digest v) (qs_digests q),
                              qs_spans := qs_spans q @ [vr_reason v]\<rparr>)
      in q1\<lparr>qs_digests := qs_digests q1 \<union> set (ig_secret_digests r)\<rparr>)"

definition from_records :: "ingress_record list \<Rightarrow> quarantine_set" where
  "from_records records = foldl add_record \<lparr>qs_digests = {}, qs_spans = []\<rparr> records"

definition span_count :: "quarantine_set \<Rightarrow> nat" where
  "span_count q = length (qs_spans q)"

definition check_artifact :: "quarantine_set \<Rightarrow> byte list \<Rightarrow> launder_verdict" where
  "check_artifact q artifact =
     (case find (\<lambda>d. d \<in> qs_digests q) (map digest (tokens artifact)) of
        None \<Rightarrow> LaunderClean
      | Some d \<Rightarrow> Laundered d)"

section \<open>Tokens\<close>

text \<open>A token is a run between separators.\<close>

definition token_at :: "byte list \<Rightarrow> nat \<Rightarrow> nat \<Rightarrow> bool" where
  "token_at raw i j \<longleftrightarrow>
     i < j \<and> j \<le> length raw \<and> (\<forall>p. i \<le> p \<and> p < j \<longrightarrow> \<not> is_separator (raw ! p)) \<and>
     (j < length raw \<longrightarrow> is_separator (raw ! j))"

lemma token_loop_tokens:
  assumes "rest = drop index raw" and "start \<le> index" and "index \<le> length raw"
    and "\<forall>p. start \<le> p \<and> p < index \<longrightarrow> \<not> is_separator (raw ! p)"
    and "token_at raw i j" and "i = start \<or> (index < i \<and> is_separator (raw ! (i - 1)))"
  shows "byte_slice raw i j \<in> set (token_loop raw index start rest)"
  using assms
proof (induction rest arbitrary: index start)
  case Nil
  then have "index = length raw" "i = start" "j = length raw" by (auto simp: token_at_def not_less)
  with Nil.prems(5) show ?case by (simp add: token_at_def)
next
  case (Cons b rest)
  have at: "index < length raw" using Cons.prems(1,3) by (cases "index = length raw") auto
  then have b: "raw ! index = b" "rest = drop (index + 1) raw"
    using Cons.prems(1) Cons_nth_drop_Suc [of index raw] by (metis list.inject Suc_eq_plus1)+
  show ?case
  proof (cases "is_separator b")
    case True
    show ?thesis
    proof (cases "i = start")
      case here: True
      have "j \<le> index" using Cons.prems(2,5) here True b by (auto simp: token_at_def not_le [symmetric])
      then have "j = index" using Cons.prems(4,5) here at by (cases "j < index") (auto simp: token_at_def)
      with Cons.prems(5) here True show ?thesis by (simp add: token_at_def)
    next
      case False
      with Cons.prems(6) have "i = index + 1 \<or> (index + 1 < i \<and> is_separator (raw ! (i - 1)))" by auto
      then have "byte_slice raw i j \<in> set (token_loop raw (index + 1) (index + 1) rest)"
        by (rule Cons.IH [OF b(2) _ _ _ Cons.prems(5), rotated -1]) (use at in auto)
      with True show ?thesis by simp
    qed
  next
    case False
    have "\<forall>p. start \<le> p \<and> p < index + 1 \<longrightarrow> \<not> is_separator (raw ! p)"
      using Cons.prems(4) b False by (auto simp: less_Suc_eq)
    moreover have "i = start \<or> (index + 1 < i \<and> is_separator (raw ! (i - 1)))"
      using Cons.prems(6) b False by (cases "i = index + 1") auto
    ultimately show ?thesis using Cons.IH [OF b(2)] Cons.prems(2,5) at False by simp
  qed
qed

text \<open>A word that stands between separators in a payload.\<close>

definition has_token :: "byte list \<Rightarrow> byte list \<Rightarrow> bool" where
  "has_token raw t \<longleftrightarrow>
     (\<exists>i j. token_at raw i j \<and> t = byte_slice raw i j \<and> (i = 0 \<or> is_separator (raw ! (i - 1))))"

lemma has_token_tokens: "has_token raw t \<Longrightarrow> t \<in> set (tokens raw)"
proof -
  assume "has_token raw t"
  then obtain i j where ij: "token_at raw i j" "t = byte_slice raw i j" "i = 0 \<or> is_separator (raw ! (i - 1))"
    by (auto simp: has_token_def)
  then have "i = 0 \<or> 0 < i \<and> is_separator (raw ! (i - 1))" by auto
  from token_loop_tokens [OF _ _ _ _ ij(1) this, of raw] ij(2) show ?thesis by (simp add: tokens_def)
qed

lemma from_records_digests:
  "qs_digests (from_records records) =
     (\<Union>r \<in> set records. set (ig_secret_digests r) \<union> set (map vr_content_digest (case ig_vault r of None \<Rightarrow> [] | Some v \<Rightarrow> [v])))"
proof -
  have "qs_digests (foldl add_record q records) = qs_digests q \<union>
     (\<Union>r \<in> set records. set (ig_secret_digests r) \<union> set (map vr_content_digest (case ig_vault r of None \<Rightarrow> [] | Some v \<Rightarrow> [v])))"
    for q
    by (induction records arbitrary: q) (auto simp: add_record_def Let_def split: option.splits)
  then show ?thesis by (simp add: from_records_def)
qed

lemma check_copied:
  assumes "r \<in> set records" and "ig_secret_digests r = secret_token_digests raw"
    and "has_token raw t" and "8 \<le> length t" and "has_token artifact t"
  shows "\<exists>d. check_artifact (from_records records) artifact = Laundered d"
proof -
  have "digest t \<in> qs_digests (from_records records)"
    using assms(1,2,4) has_token_tokens [OF assms(3)] unfolding from_records_digests
    by (intro UN_I [of r] UnI1) (simp_all add: secret_token_digests_def)
  moreover have "digest t \<in> set (map digest (tokens artifact))" using has_token_tokens [OF assms(5)] by simp
  ultimately have "find (\<lambda>d. d \<in> qs_digests (from_records records)) (map digest (tokens artifact)) \<noteq> None"
    by (auto simp: find_None_iff)
  then show ?thesis by (auto simp: check_artifact_def split: option.splits)
qed

end
