(* ===== verification/Filters.thy ===== *)
theory Filters
  imports Segments
begin

text \<open>
  The pre-entry filter registry, \<^verbatim>\<open>src/context_ingress/filter.rs\<close>: versioned rules and vocabularies that may only be
  relaxed in a session, their durable histories, the rule verdict and the digest of a payload.
\<close>

section \<open>The registry\<close>

definition DEFAULT_DIGEST_SIZE_FLOOR :: nat where
  "DEFAULT_DIGEST_SIZE_FLOOR = 1024"

datatype filter_class = ExactClass | RankedClass | NoiseClass

fun filter_class_name :: "filter_class \<Rightarrow> string" where
  "filter_class_name ExactClass = ''exact''"
| "filter_class_name RankedClass = ''ranked''"
| "filter_class_name NoiseClass = ''noise''"

record preserved_span =
  pv_start :: nat
  pv_end :: nat
  pv_label :: string

record filter_digest =
  fd_handle :: string
  fd_ranges :: "(u64 \<times> u64) list"
  fd_class :: filter_class
  fd_preserved :: "preserved_span list"
  fd_summary :: "byte list"
  fd_rule_version :: u64
  fd_vocabulary_version :: u64

datatype rule_verdict = PassVerbatim | DigestPayload | DropBulk

record filter_rules =
  fl_version :: u64
  fl_size_floor :: nat
  fl_unknown_bound :: nat
  fl_verbatim_tools :: "string list"

definition rules_v1 :: filter_rules where
  "rules_v1 =
     \<lparr>fl_version = 1, fl_size_floor = DEFAULT_DIGEST_SIZE_FLOOR, fl_unknown_bound = 64, fl_verbatim_tools = []\<rparr>"

text \<open>As in the source, the receiver is the current table and the argument its relaxation.\<close>

definition is_relaxation_of :: "filter_rules \<Rightarrow> filter_rules \<Rightarrow> bool" where
  "is_relaxation_of r update \<longleftrightarrow>
     fl_size_floor r \<le> fl_size_floor update \<and> fl_unknown_bound r \<le> fl_unknown_bound update \<and>
     list_all (\<lambda>tool. tool \<in> set (fl_verbatim_tools update)) (fl_verbatim_tools r)"

record vocabulary =
  vo_version :: u64
  vo_labels :: "string list"

definition vocabulary_v1 :: vocabulary where
  "vocabulary_v1 = \<lparr>vo_version = 1, vo_labels = [''error-span'', ''identifier'']\<rparr>"

datatype rejected_update = TighteningRequiresOffline u64 u64 | BaselineRulesMismatch u64

fun rejected_update_name :: "rejected_update \<Rightarrow> string" where
  "rejected_update_name (TighteningRequiresOffline f t) = ''tightening-requires-offline''"
| "rejected_update_name (BaselineRulesMismatch v) = ''baseline-rules-mismatch''"

record filter_registry =
  fg_rules :: "filter_rules list"
  fg_vocabulary :: "vocabulary list"

definition registry_new :: filter_registry where
  "registry_new = \<lparr>fg_rules = [rules_v1], fg_vocabulary = [vocabulary_v1]\<rparr>"

text \<open>The accessors expect a seeded history; \<open>None\<close> is the panic on an empty one.\<close>

definition registry_rules :: "filter_registry \<Rightarrow> filter_rules option" where
  "registry_rules g = (if fg_rules g = [] then None else Some (last (fg_rules g)))"

definition registry_vocabulary :: "filter_registry \<Rightarrow> vocabulary option" where
  "registry_vocabulary g = (if fg_vocabulary g = [] then None else Some (last (fg_vocabulary g)))"

definition rules_at :: "filter_registry \<Rightarrow> u64 \<Rightarrow> filter_rules option" where
  "rules_at g version = find (\<lambda>r. fl_version r = version) (fg_rules g)"

definition vocabulary_at :: "filter_registry \<Rightarrow> u64 \<Rightarrow> vocabulary option" where
  "vocabulary_at g version = find (\<lambda>v. vo_version v = version) (fg_vocabulary g)"

definition update_rules ::
  "filter_registry \<Rightarrow> filter_rules \<Rightarrow> (rejected_update + (filter_registry \<times> u64)) option" where
  "update_rules g update =
     map_option (\<lambda>current.
       if fl_version update \<le> fl_version current then Inr (g, fl_version current)
       else if \<not> is_relaxation_of current update
         then Inl (TighteningRequiresOffline (fl_version current) (fl_version update))
       else Inr (g\<lparr>fg_rules := fg_rules g @ [update]\<rparr>, fl_version update)) (registry_rules g)"

definition update_vocabulary ::
  "filter_registry \<Rightarrow> vocabulary \<Rightarrow> (rejected_update + (filter_registry \<times> u64)) option" where
  "update_vocabulary g update =
     map_option (\<lambda>current.
       if vo_version update \<le> vo_version current then Inr (g, vo_version current)
       else if \<not> list_all (\<lambda>label. label \<in> set (vo_labels update)) (vo_labels current)
         then Inl (TighteningRequiresOffline (vo_version current) (vo_version update))
       else Inr (g\<lparr>fg_vocabulary := fg_vocabulary g @ [update]\<rparr>, vo_version update)) (registry_vocabulary g)"

section \<open>Durable histories\<close>

record vocabulary_snapshot =
  vy_version :: u64
  vy_labels :: "string list"

definition vocabulary_snapshots :: "filter_registry \<Rightarrow> vocabulary_snapshot list" where
  "vocabulary_snapshots g = map (\<lambda>v. \<lparr>vy_version = vo_version v, vy_labels = vo_labels v\<rparr>) (fg_vocabulary g)"

fun restore_vocabulary_loop ::
  "nat \<Rightarrow> string list \<Rightarrow> u64 \<Rightarrow> vocabulary_snapshot list \<Rightarrow> vocabulary list \<Rightarrow> rejected_update + vocabulary list" where
  "restore_vocabulary_loop index labels version [] restored = Inr restored"
| "restore_vocabulary_loop index labels version (s # ss) restored =
     (let expected = saturating_add index 1
      in if vy_version s \<le> version \<or> (index = 0 \<and> vy_version s \<noteq> expected) \<or>
            \<not> list_all (\<lambda>label. label \<in> set (vy_labels s)) labels
         then Inl (TighteningRequiresOffline (if index = 0 then expected else version) (vy_version s))
         else restore_vocabulary_loop (index + 1) (vy_labels s) (vy_version s) ss
                (restored @ [\<lparr>vo_version = vy_version s, vo_labels = vy_labels s\<rparr>]))"

definition restore_vocabulary_snapshots ::
  "filter_registry \<Rightarrow> vocabulary_snapshot list \<Rightarrow> rejected_update + filter_registry" where
  "restore_vocabulary_snapshots g snapshots =
     (if snapshots = [] then Inl (TighteningRequiresOffline 0 0)
      else res_bind (restore_vocabulary_loop 0 (vo_labels vocabulary_v1) 0 snapshots []) (\<lambda>restored.
        Inr (g\<lparr>fg_vocabulary := restored\<rparr>)))"

fun relaxation_chain :: "filter_rules \<Rightarrow> filter_rules list \<Rightarrow> rejected_update + unit" where
  "relaxation_chain current [] = Inr ()"
| "relaxation_chain current (update # rest) =
     (if fl_version update \<le> fl_version current \<or> \<not> is_relaxation_of current update
      then Inl (TighteningRequiresOffline (fl_version current) (fl_version update))
      else relaxation_chain update rest)"

definition restore_histories :: "filter_registry \<Rightarrow> filter_rules list \<Rightarrow> rejected_update + filter_registry" where
  "restore_histories g rules =
     (case rules of
        [] \<Rightarrow> Inl (TighteningRequiresOffline 1 0)
      | first # rest \<Rightarrow>
          if fl_version first \<noteq> 1 then Inl (TighteningRequiresOffline 1 (fl_version first))
          else if first \<noteq> rules_v1 then Inl (BaselineRulesMismatch (fl_version first))
          else res_bind (relaxation_chain first rest) (\<lambda>_. Inr (g\<lparr>fg_rules := rules\<rparr>)))"

section \<open>Verdicts and digests\<close>

definition has_class :: "line_class list \<Rightarrow> segment list \<Rightarrow> bool" where
  "has_class classes segments \<longleftrightarrow> list_ex (\<lambda>s. sg_class s \<in> set classes) segments"

definition rules_verdict :: "filter_rules \<Rightarrow> string \<Rightarrow> segment list \<Rightarrow> nat \<Rightarrow> rule_verdict" where
  "rules_verdict rules tool segments len =
     (if tool \<in> set (fl_verbatim_tools rules) then PassVerbatim
      else if fl_size_floor rules \<le> len then DigestPayload
      else if has_class [ExactLine, IdentifierLine] segments then DigestPayload
      else if has_class [CodeLine, TestLogLine] segments then DigestPayload
      else if has_class [NoiseLine] segments then DropBulk
      else if len < fl_unknown_bound rules then PassVerbatim
      else DropBulk)"

definition filter_verdict :: "filter_registry \<Rightarrow> string \<Rightarrow> segment list \<Rightarrow> nat \<Rightarrow> rule_verdict option" where
  "filter_verdict g tool segments len =
     map_option (\<lambda>rules. rules_verdict rules tool segments len) (registry_rules g)"

fun class_of_verdict :: "rule_verdict \<Rightarrow> filter_class" where
  "class_of_verdict DigestPayload = ExactClass"
| "class_of_verdict DropBulk = NoiseClass"
| "class_of_verdict PassVerbatim = RankedClass"

fun segment_label :: "line_class \<Rightarrow> string option" where
  "segment_label ExactLine = Some ''error-span''"
| "segment_label IdentifierLine = Some ''identifier''"
| "segment_label _ = None"

definition preserve :: "vocabulary \<Rightarrow> segment list \<Rightarrow> preserved_span list" where
  "preserve v segments =
     concat (map (\<lambda>s. case segment_label (sg_class s) of
         Some label \<Rightarrow>
           if label \<in> set (vo_labels v) then [\<lparr>pv_start = sg_start s, pv_end = sg_end s, pv_label = label\<rparr>] else []
       | None \<Rightarrow> []) segments)"

definition filter_digest_of ::
  "filter_registry \<Rightarrow> string \<Rightarrow> string \<Rightarrow> (u64 \<times> u64) list \<Rightarrow> byte list \<Rightarrow> segment list \<Rightarrow> filter_digest option" where
  "filter_digest_of g tool handle ranges bytes segments =
     (case filter_verdict g tool segments (length bytes) of
        None \<Rightarrow> None
      | Some outcome \<Rightarrow>
          (case (registry_vocabulary g, registry_rules g) of
             (Some v, Some rules) \<Rightarrow>
               Some \<lparr>fd_handle = handle, fd_ranges = ranges, fd_class = class_of_verdict outcome,
                 fd_preserved = preserve v segments,
                 fd_summary = concat (map (\<lambda>p. byte_slice bytes (pv_start p) (pv_end p)) (preserve v segments)),
                 fd_rule_version = fl_version rules, fd_vocabulary_version = vo_version v\<rparr>
           | _ \<Rightarrow> None))"

section \<open>Registries reached in a session\<close>

text \<open>A history begins at version 1 and every later entry relaxes the one before it.\<close>

fun chained_by :: "('a \<Rightarrow> 'a \<Rightarrow> bool) \<Rightarrow> 'a \<Rightarrow> 'a list \<Rightarrow> bool" where
  "chained_by R x [] \<longleftrightarrow> True"
| "chained_by R x (y # ys) \<longleftrightarrow> R x y \<and> chained_by R y ys"

definition rules_follow :: "filter_rules \<Rightarrow> filter_rules \<Rightarrow> bool" where
  "rules_follow r u \<longleftrightarrow> fl_version r < fl_version u \<and> is_relaxation_of r u"

definition vocabulary_follows :: "vocabulary \<Rightarrow> vocabulary \<Rightarrow> bool" where
  "vocabulary_follows v u \<longleftrightarrow> vo_version v < vo_version u \<and> set (vo_labels v) \<subseteq> set (vo_labels u)"

definition filters_ok :: "filter_registry \<Rightarrow> bool" where
  "filters_ok g \<longleftrightarrow>
     (\<exists>rs. fg_rules g = rules_v1 # rs \<and> chained_by rules_follow rules_v1 rs) \<and>
     (\<exists>vs. fg_vocabulary g = vocabulary_v1 # vs \<and> chained_by vocabulary_follows vocabulary_v1 vs)"

lemma chained_by_snoc: "chained_by R x (ys @ [y]) \<longleftrightarrow> chained_by R x ys \<and> R (last (x # ys)) y"
  by (induction ys arbitrary: x) auto

datatype filter_command = UpdateRules filter_rules | UpdateVocabulary vocabulary | RestartFilters

text \<open>A restart reloads both histories into a fresh registry.\<close>

definition reload_filters :: "filter_registry \<Rightarrow> rejected_update + filter_registry" where
  "reload_filters g =
     res_bind (restore_histories registry_new (fg_rules g)) (\<lambda>h.
       restore_vocabulary_snapshots h (vocabulary_snapshots g))"

fun filter_step :: "filter_registry \<Rightarrow> filter_command \<Rightarrow> filter_registry" where
  "filter_step g (UpdateRules u) = (case update_rules g u of Some (Inr (h, v)) \<Rightarrow> h | _ \<Rightarrow> g)"
| "filter_step g (UpdateVocabulary u) = (case update_vocabulary g u of Some (Inr (h, v)) \<Rightarrow> h | _ \<Rightarrow> g)"
| "filter_step g RestartFilters = (case reload_filters g of Inr h \<Rightarrow> h | Inl e \<Rightarrow> g)"

lemma filters_ok_new: "filters_ok registry_new"
  by (simp add: filters_ok_def registry_new_def)

lemma update_rules_ok: "filters_ok g \<Longrightarrow> update_rules g u = Some (Inr (h, v)) \<Longrightarrow> filters_ok h"
  by (auto simp: filters_ok_def update_rules_def registry_rules_def rules_follow_def chained_by_snoc split: if_splits)

lemma update_vocabulary_ok: "filters_ok g \<Longrightarrow> update_vocabulary g u = Some (Inr (h, v)) \<Longrightarrow> filters_ok h"
  by (auto simp: filters_ok_def update_vocabulary_def registry_vocabulary_def vocabulary_follows_def chained_by_snoc
      list_all_iff split: if_splits)

lemma relaxation_chain_ok: "relaxation_chain r rs = Inr () \<longleftrightarrow> chained_by rules_follow r rs"
  by (induction r rs rule: relaxation_chain.induct) (auto simp: rules_follow_def)

lemma restore_vocabulary_chain:
  assumes "chained_by vocabulary_follows v vs"
  shows "restore_vocabulary_loop (Suc n) (vo_labels v) (vo_version v)
      (map (\<lambda>v. \<lparr>vy_version = vo_version v, vy_labels = vo_labels v\<rparr>) vs) restored = Inr (restored @ vs)"
  using assms
proof (induction vs arbitrary: v n restored)
  case (Cons u vs)
  then have "vo_version v < vo_version u" "set (vo_labels v) \<subseteq> set (vo_labels u)"
    by (auto simp: vocabulary_follows_def)
  with Cons show ?case by (auto simp: list_all_iff Let_def)
qed simp

lemma reload_round_trip: "filters_ok g \<Longrightarrow> reload_filters g = Inr g"
proof -
  assume ok: "filters_ok g"
  then obtain rs vs where g: "fg_rules g = rules_v1 # rs" "chained_by rules_follow rules_v1 rs"
    "fg_vocabulary g = vocabulary_v1 # vs" "chained_by vocabulary_follows vocabulary_v1 vs"
    by (auto simp: filters_ok_def)
  have "restore_histories registry_new (fg_rules g) = Inr (registry_new\<lparr>fg_rules := fg_rules g\<rparr>)"
    using g(1) relaxation_chain_ok [of rules_v1 rs] g(2) by (simp add: restore_histories_def rules_v1_def)
  moreover have "restore_vocabulary_snapshots h (vocabulary_snapshots g) = Inr (h\<lparr>fg_vocabulary := fg_vocabulary g\<rparr>)" for h
    using restore_vocabulary_chain [OF g(4), of 0]
    by (simp add: restore_vocabulary_snapshots_def vocabulary_snapshots_def g(3) Let_def vocabulary_v1_def
        saturating_add_def list_all_iff)
  ultimately show ?thesis by (simp add: reload_filters_def)
qed

lemma filter_step_ok: "filters_ok g \<Longrightarrow> filters_ok (filter_step g c)"
  by (cases c) (auto simp: reload_round_trip split: option.splits sum.splits intro: update_rules_ok update_vocabulary_ok)

text \<open>What passes verbatim passes under every later table.\<close>

lemma verbatim_relaxed:
  assumes "is_relaxation_of r u" and "rules_verdict r tool segments len = PassVerbatim"
  shows "rules_verdict u tool segments len = PassVerbatim"
  using assms by (auto simp: rules_verdict_def is_relaxation_of_def list_all_iff split: if_splits)

lemma is_relaxation_trans: "is_relaxation_of r u \<Longrightarrow> is_relaxation_of u w \<Longrightarrow> is_relaxation_of r w"
  by (auto simp: is_relaxation_of_def list_all_iff)

text \<open>A relaxed table may drop what the table before it kept as a digest.\<close>

lemma relaxation_drops:
  "is_relaxation_of rules_v1 (rules_v1\<lparr>fl_size_floor := 2048\<rparr>) \<and>
   rules_verdict rules_v1 tool [] 1500 = DigestPayload \<and>
   rules_verdict (rules_v1\<lparr>fl_size_floor := 2048\<rparr>) tool [] 1500 = DropBulk"
  by (simp add: is_relaxation_of_def rules_v1_def rules_verdict_def has_class_def DEFAULT_DIGEST_SIZE_FLOOR_def)

end
