(* ===== verification/IngressProperties.thy ===== *)
theory IngressProperties
  imports Launder Filters StoreProperties
begin

text \<open>
  What the ingress transaction promises: secrets are overwritten before anything is written, a batch lands on the
  spine of the context store whole or not at all, no marker of the default detectors reaches the spine, a copied
  token is caught, and the filter registry survives a restart.
\<close>

section \<open>Redaction\<close>

text \<open>C36: within its work budget the redactor sanitizes every payload, keeps its length, and overwrites each secret:
  from any marker to the next delimiter every byte becomes \<open>X\<close>.  A byte outside the reported spans is unchanged,
  and every reported span starts at a marker.\<close>

theorem secrets_overwritten:
  assumes "length raw \<le> budget"
  shows "\<exists>bytes spans. redact (with_budget budget) raw = Sanitized bytes spans \<and> length bytes = length raw \<and>
    (\<forall>m i j. m \<in> set default_markers \<longrightarrow> matches_at raw i m \<longrightarrow> i \<le> j \<longrightarrow> j < length raw \<longrightarrow>
       (\<forall>k. i \<le> k \<and> k \<le> j \<longrightarrow> \<not> is_delimiter (raw ! k)) \<longrightarrow> bytes ! j = X) \<and>
    (\<forall>j < length raw. bytes ! j = raw ! j \<or> (\<exists>t \<in> set spans. in_span t j)) \<and>
    (\<forall>t \<in> set spans. \<exists>m \<in> set default_markers. matches_at raw (de_start t) m)"
proof -
  let ?r = "with_budget budget"
  have ne: "[] \<notin> redactor_markers ?r" unfolding default_redactor_markers by simp
  have "\<forall>d \<in> set ?r. [] \<notin> set (dr_markers d) \<and> \<not> dr_fail d \<and> length raw \<le> dr_budget d"
    using assms by (simp add: with_budget_def detector_new_def)
  from redact_within_budget [OF this, of raw "[]"] obtain bytes spans where r: "redact ?r raw = Sanitized bytes spans"
    by (auto simp: redact_def)
  have "bytes ! j = X" if "m \<in> set default_markers" "matches_at raw i m" "i \<le> j" "j < length raw"
    "\<forall>k. i \<le> k \<and> k \<le> j \<longrightarrow> \<not> is_delimiter (raw ! k)" for m i j
    using redact_covers [OF ne r] that unfolding default_redactor_markers by blast
  moreover note redact_changes [OF ne r]
  moreover have "\<exists>m \<in> set default_markers. matches_at raw (de_start t) m" if "t \<in> set spans" for t
    using redact_spans [OF ne r] that default_redactor_markers [of budget] unfolding detects_def by blast
  ultimately show ?thesis using r by (intro exI [of _ bytes] exI [of _ spans]) auto
qed

lemma upt_all: "list_all P [a ..< b] \<Longrightarrow> a \<le> k \<Longrightarrow> k < b \<Longrightarrow> P k"
  by (simp add: list_all_iff)

definition demo_secret :: "byte list" where
  "demo_secret = string_bytes ''key sk-ctxeval42 end''"

theorem secrets_overwritten_witness:
  "\<exists>bytes spans. redact (with_budget 64) demo_secret = Sanitized bytes spans \<and> bytes ! 14 = X"
proof -
  have len: "length demo_secret = 20" by (simp add: demo_secret_def string_bytes_def)
  have at: "matches_at demo_secret 4 ''sk-ctxeval''"
    by (simp add: demo_secret_def string_bytes_def matches_at_def)
  have "list_all (\<lambda>k. \<not> is_delimiter (demo_secret ! k)) [4 ..< 15]"
    by (simp add: demo_secret_def string_bytes_def is_delimiter_def upt_conv_Cons)
  from upt_all [OF this] have run: "\<forall>k. 4 \<le> k \<and> k \<le> 14 \<longrightarrow> \<not> is_delimiter (demo_secret ! k)" by simp
  have "length demo_secret \<le> 64" by (simp add: len)
  from secrets_overwritten [OF this] obtain bytes spans where r: "redact (with_budget 64) demo_secret = Sanitized bytes spans"
    and cover: "\<forall>m i j. m \<in> set default_markers \<longrightarrow> matches_at demo_secret i m \<longrightarrow> i \<le> j \<longrightarrow> j < length demo_secret \<longrightarrow>
       (\<forall>k. i \<le> k \<and> k \<le> j \<longrightarrow> \<not> is_delimiter (demo_secret ! k)) \<longrightarrow> bytes ! j = X" by blast
  have "bytes ! 14 = X" using cover [rule_format, of "''sk-ctxeval''" 4 14] at run len by simp
  with r show ?thesis by blast
qed

section \<open>The transaction on the context store\<close>






definition demo_txn :: ingress_txn where
  "demo_txn = (ingress_new 100 64)\<lparr>it_capture :=
     (capture_new 100)\<lparr>cb_slots := [\<lparr>cp_source = UserPrompt, cp_bytes = demo_secret\<rparr>], cb_at_risk := 20\<rparr>\<rparr>"

lemma demo_txn_captured: "ingress_capture (ingress_new 100 64) UserPrompt demo_secret = Inr demo_txn"
  by (simp add: ingress_capture_def capture_push_def ingress_new_def capture_new_def demo_txn_def demo_secret_def
      string_bytes_def)

lemma demo_txn_parts: "it_redactor demo_txn = with_budget 64" "map cp_bytes (cb_slots (it_capture demo_txn)) = [demo_secret]"
  "demo_secret \<noteq> []"
  by (simp_all add: demo_txn_def ingress_new_def demo_secret_def string_bytes_def)


text \<open>C35: no marker of the default detectors reaches the spine.  Whatever a commit captured and however it ends,
  even when the vault refuses a quarantined payload half way, the payloads it appended to the spine carry no
  marker anywhere.\<close>

theorem no_marker_reaches_the_spine:
  assumes "holds s ps" and "commit (store_sink a) t s = (t', s', r)" and "it_redactor t = with_budget budget"
  shows "\<exists>qs. holds s' (ps @ qs) \<and> (\<forall>q \<in> set qs. \<forall>m \<in> set default_markers. \<forall>i. \<not> matches_at q i m)"
proof (cases "sk_mode (store_sink a) s = ''normal'' \<and>
    [] \<notin> set (map (\<lambda>c. admitted (it_redactor t) (cp_bytes c)) (cb_slots (it_capture t)))")
  case True
  with store.commit_keeps(2) [OF assms(1,2)] obtain n where
    "holds s' (ps @ take n (map (\<lambda>c. admitted (it_redactor t) (cp_bytes c)) (cb_slots (it_capture t))))" by blast
  moreover have "\<not> matches_at q i m"
    if "q \<in> set (take n (map (\<lambda>c. admitted (it_redactor t) (cp_bytes c)) (cb_slots (it_capture t))))"
      and m: "m \<in> set default_markers" for q m i
    using admitted_unmarked [OF m] in_set_takeD [OF that(1)] assms(3) by auto
  ultimately show ?thesis by blast
next
  case False
  with store.commit_keeps(1) [OF assms(1,2)] assms(1) show ?thesis by (intro exI [of _ "[]"]) auto
qed

theorem no_marker_reaches_the_spine_witness:
  "\<exists>t' s' r qs. commit (store_sink demo_aead) demo_txn (store_open 0) = (t', s', r) \<and>
     holds s' qs \<and> (\<forall>q \<in> set qs. \<not> matches_at q 4 ''sk-ctxeval'')"
proof -
  obtain t' s' r where c: "commit (store_sink demo_aead) demo_txn (store_open 0) = (t', s', r)"
    by (cases "commit (store_sink demo_aead) demo_txn (store_open 0)")
  from no_marker_reaches_the_spine [OF holds_open c demo_txn_parts(1)] obtain qs where
    "holds s' ([] @ qs)" "\<forall>q \<in> set qs. \<forall>m \<in> set default_markers. \<forall>i. \<not> matches_at q i m" by blast
  moreover have "''sk-ctxeval'' \<in> set default_markers" by simp
  ultimately show ?thesis using c by (metis append_Nil)
qed

section \<open>The laundering guard\<close>

text \<open>A copied token is caught.  A generated artifact that repeats, between separators, any token of at least
  eight bytes of any payload a transaction admitted is refused by the quarantine set of that transaction's
  records.\<close>

lemma copied_token_refused:
  assumes "holds s ps" and "commit (store_sink a) t s = (t', s', Inr records)"
    and "c \<in> set (cb_slots (it_capture t))"
    and "has_token (cp_bytes c) token" and "8 \<le> length token" and "has_token artifact token"
  shows "\<exists>d. check_artifact (from_records records) artifact = Laundered d"
proof -
  have "sk_mode (store_sink a) s = ''normal'' \<and>
      [] \<notin> set (map (\<lambda>c. admitted (it_redactor t) (cp_bytes c)) (cb_slots (it_capture t)))"
    using store.commit_keeps(1) [OF assms(1,2)] by blast
  then have "map ig_secret_digests records = map (\<lambda>c. secret_token_digests (cp_bytes c)) (cb_slots (it_capture t))"
    using store.commit_keeps(2) [OF assms(1,2)] by blast
  then have "secret_token_digests (cp_bytes c) \<in> set (map ig_secret_digests records)" using assms(3) by simp
  then obtain rec where "rec \<in> set records" "ig_secret_digests rec = secret_token_digests (cp_bytes c)" by auto
  from check_copied [OF this assms(4-6)] show ?thesis .
qed

lemma demo_token: "has_token demo_secret (string_bytes ''sk-ctxeval42'')"
proof -
  have len: "length demo_secret = 20" by (simp add: demo_secret_def string_bytes_def)
  have "list_all (\<lambda>k. \<not> is_separator (demo_secret ! k)) [4 ..< 16]" "is_separator (demo_secret ! 16)"
    "is_separator (demo_secret ! 3)" "string_bytes ''sk-ctxeval42'' = byte_slice demo_secret 4 16"
    by (simp_all add: demo_secret_def string_bytes_def is_separator_def upt_conv_Cons byte_slice_def)
  then show ?thesis unfolding has_token_def token_at_def
    using upt_all [of "\<lambda>k. \<not> is_separator (demo_secret ! k)" 4 16] len
    by (intro exI [of _ 4] exI [of _ 16]) (simp del: upt_rec_numeral)
qed

section \<open>The filter registry\<close>

lemma find_append_Some: "find P xs = Some x \<Longrightarrow> find P (xs @ ys) = Some x"
  by (induction xs) auto

lemma filter_run_ok: "filters_ok g \<Longrightarrow> filters_ok (foldl filter_step g cs)"
  by (induction cs arbitrary: g) (simp_all add: filter_step_ok)

text \<open>A step keeps the histories as prefixes.\<close>

lemma filter_step_prefix:
  assumes "filters_ok g"
  shows "\<exists>rs vs. fg_rules (filter_step g c) = fg_rules g @ rs \<and> fg_vocabulary (filter_step g c) = fg_vocabulary g @ vs"
proof (cases c)
  case (UpdateRules u)
  then show ?thesis by (simp add: update_rules_def split: option.splits sum.splits)
next
  case (UpdateVocabulary u)
  then show ?thesis by (simp add: update_vocabulary_def split: option.splits sum.splits)
next
  case RestartFilters
  with reload_round_trip [OF assms] show ?thesis by simp
qed

lemma filter_run_prefix:
  assumes "filters_ok g"
  shows "\<exists>rs vs. fg_rules (foldl filter_step g cs) = fg_rules g @ rs \<and>
    fg_vocabulary (foldl filter_step g cs) = fg_vocabulary g @ vs"
  using assms
proof (induction cs arbitrary: g)
  case (Cons c cs)
  from filter_step_prefix [OF Cons.prems, of c] Cons.IH [OF filter_step_ok [OF Cons.prems], of c]
  show ?case by auto
qed simp

lemma chain_relaxes: "chained_by rules_follow r rs \<Longrightarrow> is_relaxation_of r (last (r # rs))"
proof (induction rs arbitrary: r)
  case (Cons u rs)
  from Cons.prems have "rules_follow r u" "chained_by rules_follow u rs" by simp_all
  from this(1) have "is_relaxation_of r u" by (simp add: rules_follow_def)
  moreover have "is_relaxation_of u (last (u # rs))" by (rule Cons.IH) fact
  ultimately have "is_relaxation_of r (last (u # rs))" by (rule is_relaxation_trans)
  then show ?case by simp
qed (simp add: is_relaxation_of_def list_all_iff)

lemma chained_by_append: "chained_by R x (ys @ zs) \<longleftrightarrow> chained_by R x ys \<and> chained_by R (last (x # ys)) zs"
  by (induction ys arbitrary: x) auto

lemma filter_run_relaxes:
  assumes "filters_ok g" and "registry_rules g = Some r" and "registry_rules (foldl filter_step g cs) = Some u"
  shows "is_relaxation_of r u"
proof -
  obtain rs where rs: "fg_rules (foldl filter_step g cs) = fg_rules g @ rs" using filter_run_prefix [OF assms(1)] by blast
  obtain qs where qs: "fg_rules g = rules_v1 # qs" using assms(1) by (auto simp: filters_ok_def)
  have "chained_by rules_follow rules_v1 (qs @ rs)"
    using filter_run_ok [OF assms(1), of cs] rs qs by (auto simp: filters_ok_def)
  then have "chained_by rules_follow (last (rules_v1 # qs)) rs" by (simp add: chained_by_append)
  from chain_relaxes [OF this] assms(2,3) rs qs show ?thesis
    by (auto simp: registry_rules_def split: if_splits)
qed

text \<open>The filter registry survives restarts and only relaxes.  After any sequence of rule updates, vocabulary
  updates and restarts, reloading the durable histories gives back the very same registry; every rule or
  vocabulary version that resolved keeps resolving to the same entry; and a payload that passed verbatim passes
  verbatim ever after.\<close>

lemma filters_survive_restarts:
  assumes "g = foldl filter_step registry_new cs" and "h = foldl filter_step g ds"
  shows "reload_filters h = Inr h \<and>
    (\<forall>v r. rules_at g v = Some r \<longrightarrow> rules_at h v = Some r) \<and>
    (\<forall>v x. vocabulary_at g v = Some x \<longrightarrow> vocabulary_at h v = Some x) \<and>
    (\<forall>tool segments n. filter_verdict g tool segments n = Some PassVerbatim \<longrightarrow> filter_verdict h tool segments n = Some PassVerbatim)"
proof -
  have g: "filters_ok g" and h: "filters_ok h"
    using assms filter_run_ok [OF filters_ok_new] filter_run_ok by simp_all
  obtain rs vs where p: "fg_rules h = fg_rules g @ rs" "fg_vocabulary h = fg_vocabulary g @ vs"
    using filter_run_prefix [OF g, of ds] assms(2) by blast
  have "rules_at h v = Some r" if "rules_at g v = Some r" for v r
    using that by (simp add: rules_at_def p find_append_Some)
  moreover have "vocabulary_at h v = Some x" if "vocabulary_at g v = Some x" for v x
    using that by (simp add: vocabulary_at_def p find_append_Some)
  moreover have "filter_verdict h tool segments n = Some PassVerbatim" if "filter_verdict g tool segments n = Some PassVerbatim"
    for tool segments n
  proof -
    from that obtain r where r: "registry_rules g = Some r" "rules_verdict r tool segments n = PassVerbatim"
      by (auto simp: filter_verdict_def)
    obtain u where u: "registry_rules h = Some u" using h by (auto simp: filters_ok_def registry_rules_def)
    from verbatim_relaxed [OF filter_run_relaxes [OF g r(1)] r(2)] u assms(2) show ?thesis by (simp add: filter_verdict_def)
  qed
  ultimately show ?thesis using reload_round_trip [OF h] by blast
qed

section \<open>Observations\<close>

text \<open>A marker with a blank in it is skipped when a detected token runs into it: the second bearer token stays.\<close>

lemma second_bearer_leaks:
  "redact (with_budget 64) (string_bytes ''Bearer CTXEVAL-abBearer CTXEVAL-cd'') =
     Sanitized (string_bytes ''XXXXXXXXXXXXXXXXXXXXXXX CTXEVAL-cd'')
       [\<lparr>de_class = BearerToken, de_start = 0, de_end = 23\<rparr>]"
  by code_simp

text \<open>The guard cuts tokens at separators, which lack the angle brackets the redactor stops at: a secret in
  brackets is not found when it is copied without them.\<close>

lemma bracketed_secret_escapes:
  "is_delimiter 0x3C \<and> \<not> is_separator 0x3C \<and> is_delimiter 0x3E \<and> \<not> is_separator 0x3E"
  by (simp add: is_delimiter_def is_separator_def)

text \<open>An ordinary word of a payload with nothing to redact counts as a secret token too.\<close>

lemma plain_word_refused:
  assumes "ig_secret_digests r = secret_token_digests (string_bytes ''ordinary words'')" and "ig_vault r = None"
  shows "check_artifact (from_records [r]) (string_bytes ''ordinary'') = Laundered (digest (string_bytes ''ordinary''))"
  using assms
  by (simp add: check_artifact_def from_records_def add_record_def secret_token_digests_def tokens_def string_bytes_def
      is_separator_def byte_slice_def Let_def)

end
