(* ===== verification/Executor.thy ===== *)
theory Executor
  imports Operations Replay Legality LogLaws
begin

text \<open>
  The fenced transaction executor of \<^verbatim>\<open>src/context_txn/executor.rs\<close>, the shadow replay of
  \<^verbatim>\<open>src/context_txn/audit.rs\<close> and the accounting port of \<^verbatim>\<open>src/context_txn/budget.rs\<close> with its production
  implementation \<^verbatim>\<open>src/context_txn/bound_port.rs\<close>.

  A method that takes \<open>&mut self\<close> returns the executor it leaves behind together with its result, so that
  a refusal that moves the state machine is visible.  An \<open>expect\<close> that fails is the error \<open>Panicked\<close>, with
  the executor as the panic leaves it.  A port is a value of type \<open>'p\<close> with a record of the trait's methods.
\<close>

section \<open>The accounting port\<close>

record 'p accounting_port =
  pt_bound :: "'p \<Rightarrow> u64 \<Rightarrow> u64 \<Rightarrow> u64"
  pt_bound_margins :: "'p \<Rightarrow> margins option"
  pt_recalibrated :: "'p \<Rightarrow> u64 \<Rightarrow> u64 \<Rightarrow> (string + 'p) option"

text \<open>What the executor relies on: a bound never reports less than the effect it is asked for.\<close>

locale accounting =
  fixes ops :: "'p accounting_port"
  assumes conservative: "effect \<le> u64_max \<Longrightarrow> effect \<le> pt_bound ops p version effect"
begin

lemma fitting_effect:
  assumes "budget_fits (pt_bound ops p version effect) bu" and "effect \<le> u64_max"
  shows "effect \<le> commit_ceiling bu"
  using assms conservative [of effect p version] by (simp add: budget_fits_def)

end

section \<open>The production port\<close>

record bound_port =
  bp_margins :: margins
  bp_tool_declarations :: nat
  bp_governed :: u64

definition bound_port_new :: "margins \<Rightarrow> nat \<Rightarrow> u64 \<Rightarrow> bound_port" where
  "bound_port_new m tool_declarations governed =
     \<lparr>bp_margins = m, bp_tool_declarations = tool_declarations, bp_governed = governed\<rparr>"

definition bp_tool_surface :: "bound_port \<Rightarrow> u64" where
  "bp_tool_surface p = tool_surface (bp_margins p) (bp_tool_declarations p)"

definition bp_recalibrate :: "bound_port \<Rightarrow> u64 \<Rightarrow> u64 \<Rightarrow> string + bound_port" where
  "bp_recalibrate p version per_tool_declaration =
     res_bind (recalibrate (bp_margins p) version per_tool_declaration) (\<lambda>m. Inr (p\<lparr>bp_margins := m\<rparr>))"

definition after_recalibration :: "bound_port \<Rightarrow> u64 \<Rightarrow> u64 \<Rightarrow> string + bound_port" where
  "after_recalibration p version per_tool_declaration = bp_recalibrate p version per_tool_declaration"

definition bp_bound :: "bound_port \<Rightarrow> u64 \<Rightarrow> u64 \<Rightarrow> u64" where
  "bp_bound p version effect_bytes =
     (let governed = (if mg_version (bp_margins p) \<le> version then bp_governed p else 0)
      in saturating_add (saturating_add (saturating_add governed (bp_tool_surface p)) effect_bytes)
           (mg_commit_frame (bp_margins p)))"

definition bp_recalibrated :: "bound_port \<Rightarrow> u64 \<Rightarrow> u64 \<Rightarrow> (string + bound_port) option" where
  "bp_recalibrated p version per_tool_declaration =
     Some (case after_recalibration p version per_tool_declaration of
             Inr port \<Rightarrow> Inr port
           | Inl reason \<Rightarrow> Inl reason)"

definition bound_port_ops :: "bound_port accounting_port" where
  "bound_port_ops = \<lparr>pt_bound = bp_bound, pt_bound_margins = (\<lambda>p. Some (bp_margins p)), pt_recalibrated = bp_recalibrated\<rparr>"

section \<open>The shadow replay\<close>

datatype audit_error =
    AuditLog log_error
  | AuditReplay reducer_error
  | AuditLegality violation
  | Uncontracted u64 string
  | StateMismatch

fun operation_name :: "event_kind \<Rightarrow> string option" where
  "operation_name (AppendEvent src sanitized sc claims) = None"
| "operation_name (ProviderTurn k units) = None"
| "operation_name (SemanticKind ev) = Some (semantic_event_operation ev)"
| "operation_name (BranchKind ev) = Some (branch_operation ev)"
| "operation_name (SecurityKind ev) = Some (security_operation ev)"
| "operation_name (LedgerKind command) = Some (ledger_operation command)"
| "operation_name (OperationCommit cls subject argument) = Some (operation_class_name cls)"

definition audit_contracted :: "recorded_event \<Rightarrow> audit_error + unit" where
  "audit_contracted e =
     (case operation_name (ev_kind e) of
        None \<Rightarrow> Inr ()
      | Some name \<Rightarrow> ensure (find_operation name \<noteq> None) (Uncontracted (ev_sequence e) name))"

definition audit_legal :: "typed_state \<Rightarrow> render_contract \<Rightarrow> audit_error + unit" where
  "audit_legal s c = map_err AuditLegality (res_bind (is_legal s c) (\<lambda>_. Inr ()))"

fun is_append :: "event_kind \<Rightarrow> bool" where
  "is_append (AppendEvent src sanitized sc claims) = True"
| "is_append k = False"

definition fold_into :: "kernel_env \<Rightarrow> typed_state \<Rightarrow> event_log \<Rightarrow> reducer_error + typed_state" where
  "fold_into env s log = (case fold_from env s log of (s', Inl err) \<Rightarrow> Inl err | (s', Inr u) \<Rightarrow> Inr s')"

fun audit_events ::
  "kernel_env \<Rightarrow> render_contract \<Rightarrow> event_log \<Rightarrow> typed_state \<Rightarrow> recorded_event list \<Rightarrow> audit_error + nat" where
  "audit_events env c prefix s [] = Inr (length (el_events prefix))"
| "audit_events env c prefix s (e # es) =
     res_bind (audit_contracted e) (\<lambda>_.
     res_bind (map_err AuditLog (log_append (env_json env) prefix e)) (\<lambda>prefix'.
     res_bind (map_err AuditReplay (fold_into env s prefix')) (\<lambda>s'.
     res_bind (if is_append (ev_kind e) then Inr () else audit_legal s' c) (\<lambda>_.
     res_bind (map_err AuditReplay (fold_log env IDLENESS_WINDOW prefix')) (\<lambda>replayed.
       if replayed \<noteq> s' then Inl StateMismatch else audit_events env c prefix' s' es)))))"

definition audit_log :: "kernel_env \<Rightarrow> event_log \<Rightarrow> render_contract \<Rightarrow> audit_error + nat" where
  "audit_log env log c =
     (let prefix = log_prefix log 0
      in res_bind (map_err AuditReplay (fold_log env IDLENESS_WINDOW prefix))
           (\<lambda>s. audit_events env c prefix s (el_events log)))"

fun audit_framing :: "kernel_env \<Rightarrow> event_log \<Rightarrow> recorded_event list \<Rightarrow> audit_error + event_log" where
  "audit_framing env verified [] = Inr verified"
| "audit_framing env verified (e # es) =
     res_bind (audit_contracted e) (\<lambda>_.
     res_bind (map_err AuditLog (log_append (env_json env) verified e)) (\<lambda>verified'.
       audit_framing env verified' es))"

definition audit_tip :: "kernel_env \<Rightarrow> event_log \<Rightarrow> typed_state \<Rightarrow> render_contract \<Rightarrow> audit_error + unit" where
  "audit_tip env log s c =
     res_bind (audit_framing env (log_prefix log 0) (el_events log)) (\<lambda>verified.
     res_bind (map_err AuditReplay (fold_log env IDLENESS_WINDOW verified)) (\<lambda>replayed.
       if replayed \<noteq> s then Inl StateMismatch else audit_legal replayed c))"

section \<open>Leases\<close>

text \<open>The fencing clock is the highest lease issued so far; a lease is an epoch.\<close>

definition clock_new :: u64 where "clock_new = 0"

definition acquire :: "u64 \<Rightarrow> u64 \<times> u64" where
  "acquire latest = (let e = add64 latest 1 in (e, e))"

section \<open>Transactions\<close>

definition SESSION_SCOPE :: u64 where "SESSION_SCOPE = 1"
definition WRITER_CLOCK :: u64 where "WRITER_CLOCK = 1000"

datatype txn_state = TxnProposed | TxnSnapshotted | TxnGenerated | TxnValidated | TxnCommitted | TxnAborted

fun txn_index :: "txn_state \<Rightarrow> nat" where
  "txn_index TxnProposed = 0"
| "txn_index TxnSnapshotted = 1"
| "txn_index TxnGenerated = 2"
| "txn_index TxnValidated = 3"
| "txn_index TxnCommitted = 4"
| "txn_index TxnAborted = 5"

definition can_transition :: "txn_state \<Rightarrow> txn_state \<Rightarrow> bool" where
  "can_transition from to =
     (let terminal = (from = TxnCommitted \<or> from = TxnAborted)
      in if to = TxnAborted then \<not> terminal else \<not> terminal \<and> txn_index to = txn_index from + 1)"

record txn =
  tx_id :: u64
  tx_parent_version :: u64
  tx_op :: string

datatype executor_error =
    AuditFailed audit_error
  | IllegalTransition txn_state txn_state
  | StaleParent u64 u64
  | CapabilityNotLanded string
  | PreconditionFailed string
  | BoundDisagrees u64 u64
  | IllegalProjection string string
  | RegionFull u64 u64 u64
  | FencedOut u64 u64
  | AuthorityDenied string proposer
  | NotRebaseSafe
  | Panicked string

datatype commit_outcome = Applied | RebaseNoOp

record 'p executor =
  ex_epoch :: u64
  ex_next_id :: u64
  ex_state :: txn_state
  ex_current :: "txn option"
  ex_aborted :: bool
  ex_port :: "'p option"
  ex_contract :: render_contract
  ex_log :: event_log
  ex_typed :: typed_state
  ex_contract_version :: "u64 option"
  ex_region_admitted :: u64
  ex_region_ceiling :: "u64 option"
  ex_landed_phase :: nat
  ex_branch_validation :: "(branch_event \<times> u64) option"
  ex_security_validation :: "(security_event \<times> u64) option"
  ex_semantic_validation :: "(semantic_event \<times> u64) option"
  ex_proposed_by :: "proposer option"
  ex_ledger_validation :: "(ledger_command \<times> u64) option"

text \<open>\<open>and_then\<close> is the \<open>?\<close> operator in a method with \<open>&mut self\<close>.\<close>

fun and_then :: "'s \<times> ('e + 'a) \<Rightarrow> ('s \<Rightarrow> 'a \<Rightarrow> 's \<times> ('e + 'b)) \<Rightarrow> 's \<times> ('e + 'b)" where
  "and_then (s, Inl e) f = (s, Inl e)"
| "and_then (s, Inr x) f = f s x"

definition executor_new :: "kernel_env \<Rightarrow> u64 \<Rightarrow> render_contract \<Rightarrow> executor_error + 'p executor" where
  "executor_new env epoch c =
     (let log = log_new V2
      in case fold_log env IDLENESS_WINDOW log of
           Inl err \<Rightarrow> Inl (Panicked ''an empty log folds into genesis'')
         | Inr typed \<Rightarrow>
             Inr \<lparr>ex_epoch = epoch, ex_next_id = 1, ex_state = TxnProposed, ex_current = None, ex_aborted = False,
                  ex_port = None, ex_contract = c, ex_log = log, ex_typed = typed, ex_contract_version = None,
                  ex_region_admitted = 0, ex_region_ceiling = None, ex_landed_phase = 8,
                  ex_branch_validation = None, ex_security_validation = None, ex_semantic_validation = None,
                  ex_proposed_by = None, ex_ledger_validation = None\<rparr>)"

definition executor_new_generous :: "kernel_env \<Rightarrow> u64 \<Rightarrow> executor_error + 'p executor" where
  "executor_new_generous env epoch = executor_new env epoch (contract_generous 1)"

definition executor_resuming ::
  "kernel_env \<Rightarrow> u64 \<Rightarrow> u64 \<Rightarrow> digest \<Rightarrow> render_contract \<Rightarrow> executor_error + 'p executor" where
  "executor_resuming env epoch next_sequence last_checksum c =
     res_bind (executor_new env epoch c) (\<lambda>e. Inr (e\<lparr>ex_log := log_resuming V2 next_sequence last_checksum\<rparr>))"

definition chain_head :: "'p executor \<Rightarrow> u64 \<times> digest" where
  "chain_head e = (log_next_sequence (ex_log e), head_checksum (ex_log e))"

definition bind_port :: "'p \<Rightarrow> 'p executor \<Rightarrow> 'p executor" where
  "bind_port p e = e\<lparr>ex_port := Some p\<rparr>"

definition port_version :: "'p accounting_port \<Rightarrow> 'p \<Rightarrow> u64" where
  "port_version ops p = (case pt_bound_margins ops p of None \<Rightarrow> mg_version margins_v1 | Some m \<Rightarrow> mg_version m)"

definition executor_port_bound :: "'p accounting_port \<Rightarrow> 'p executor \<Rightarrow> u64 \<Rightarrow> u64 \<Rightarrow> u64 option" where
  "executor_port_bound ops e governed effect_bytes =
     map_option (\<lambda>p. pt_bound ops p (port_version ops p) effect_bytes) (ex_port e)"

definition recalibrate_margins :: "'p accounting_port \<Rightarrow> u64 \<Rightarrow> u64 \<Rightarrow> 'p executor \<Rightarrow> 'p executor \<times> (string + unit)" where
  "recalibrate_margins ops version per_tool_declaration e =
     (case ex_port e of
        None \<Rightarrow> (e, Inl ''a margin-drift fixture needs a bound port that owns the table'')
      | Some p \<Rightarrow>
          (case pt_recalibrated ops p version per_tool_declaration of
             None \<Rightarrow> (e, Inl ''the bound port carries no margin table to recalibrate'')
           | Some (Inl reason) \<Rightarrow> (e, Inl reason)
           | Some (Inr p') \<Rightarrow> (e\<lparr>ex_port := Some p'\<rparr>, Inr ())))"

definition arm_region_accounting :: "u64 \<Rightarrow> 'p executor \<Rightarrow> 'p executor" where
  "arm_region_accounting ceiling e = e\<lparr>ex_region_ceiling := Some ceiling\<rparr>"

definition reset_region_accounting :: "'p executor \<Rightarrow> 'p executor" where
  "reset_region_accounting e = e\<lparr>ex_region_admitted := 0\<rparr>"

definition admit_region_units :: "u64 \<Rightarrow> 'p executor \<Rightarrow> 'p executor" where
  "admit_region_units units e = e\<lparr>ex_region_admitted := saturating_add (ex_region_admitted e) units\<rparr>"

definition txn_advance :: "txn_state \<Rightarrow> 'p executor \<Rightarrow> 'p executor \<times> (executor_error + unit)" where
  "txn_advance to e =
     (if ex_aborted e then (e, Inl (IllegalTransition (ex_state e) to))
      else if \<not> can_transition (ex_state e) to then (e, Inl (IllegalTransition (ex_state e) to))
      else (e\<lparr>ex_state := to\<rparr>, Inr ()))"

definition txn_fail :: "'p executor \<Rightarrow> 'p executor" where
  "txn_fail e = e\<lparr>ex_aborted := True, ex_state := TxnAborted\<rparr>"

definition propose :: "string \<Rightarrow> u64 \<Rightarrow> 'p executor \<Rightarrow> 'p executor \<times> (executor_error + txn)" where
  "propose op parent_version e =
     (if find_operation op = None then (e, Inl (CapabilityNotLanded op))
      else if ex_state e \<noteq> TxnProposed \<and> ex_state e \<noteq> TxnCommitted \<and> ex_state e \<noteq> TxnAborted
      then (e, Inl (IllegalTransition (ex_state e) TxnProposed))
      else
        let t = \<lparr>tx_id = ex_next_id e, tx_parent_version = parent_version, tx_op = op\<rparr>
        in (e\<lparr>ex_next_id := add64 (ex_next_id e) 1, ex_current := Some t, ex_proposed_by := None,
              ex_ledger_validation := None, ex_semantic_validation := None, ex_branch_validation := None,
              ex_security_validation := None, ex_state := TxnProposed, ex_aborted := False\<rparr>, Inr t))"

definition propose_as :: "string \<Rightarrow> u64 \<Rightarrow> proposer \<Rightarrow> 'p executor \<Rightarrow> 'p executor \<times> (executor_error + txn)" where
  "propose_as op parent_version by e =
     (case find_operation op of
        None \<Rightarrow> (e, Inl (CapabilityNotLanded op))
      | Some row \<Rightarrow>
          if \<not> (by = op_proposer row \<or> op_authority row = Some by) then (e, Inl (AuthorityDenied op by))
          else and_then (propose op parent_version e) (\<lambda>e1 t. (e1\<lparr>ex_proposed_by := Some by\<rparr>, Inr t)))"

definition current_txn :: "'p executor \<Rightarrow> executor_error + txn" where
  "current_txn e = ok_or (ex_current e) (Panicked ''txn present after propose'')"

definition current_row :: "txn \<Rightarrow> executor_error + operation" where
  "current_row t = ok_or (find_operation (tx_op t)) (Panicked ''registered'')"

definition snapshot :: "'p executor \<Rightarrow> 'p executor \<times> (executor_error + txn)" where
  "snapshot e = and_then (txn_advance TxnSnapshotted e) (\<lambda>e1 _. (e1, current_txn e1))"

definition generate :: "'p executor \<Rightarrow> 'p executor \<times> (executor_error + txn)" where
  "generate e =
     and_then (txn_advance TxnGenerated e) (\<lambda>e1 _.
     and_then (e1, current_txn e1) (\<lambda>e1 t.
     and_then (e1, current_row t) (\<lambda>e1 row.
       if ex_landed_phase e1 < op_owner_phase row then (txn_fail e1, Inl (CapabilityNotLanded (tx_op t)))
       else (e1, Inr t))))"

definition precondition_name :: "operation \<Rightarrow> string" where
  "precondition_name row = (if op_reclamation row then ''reclamation-bar'' else ''fit-bound'')"

definition validate ::
  "'p accounting_port \<Rightarrow> u64 \<Rightarrow> budget \<Rightarrow> u64 \<Rightarrow> u64 \<Rightarrow> u64 \<Rightarrow> u64 \<Rightarrow> 'p executor \<Rightarrow>
     'p executor \<times> (executor_error + txn)" where
  "validate ops claimed_bound bu m phi_pre phi_post effect_bytes e =
     and_then (txn_advance TxnValidated e) (\<lambda>e1 _.
     and_then (e1, current_txn e1) (\<lambda>e1 t.
     and_then (e1, current_row t) (\<lambda>e1 row.
       case ex_port e1 of
         None \<Rightarrow> (txn_fail e1, Inl (PreconditionFailed ''bound-port-missing''))
       | Some p \<Rightarrow>
           let computed = pt_bound ops p (port_version ops p) effect_bytes;
               facts = \<lparr>pf_parent_version = tx_parent_version t, pf_projected = computed, pf_budget = bu,
                        pf_phi_pre = phi_pre, pf_phi_post = phi_post, pf_bar = op_bar row,
                        pf_emergency = op_emergency row\<rparr>
           in if computed \<noteq> claimed_bound then (txn_fail e1, Inl (BoundDisagrees claimed_bound computed))
              else if \<not> condition_holds (op_precondition row) facts
              then (txn_fail e1, Inl (PreconditionFailed (precondition_name row)))
              else if \<not> feasible m bu then (txn_fail e1, Inl (PreconditionFailed ''protection-floor''))
              else (e1, Inr t))))"

fun illegality_kind :: "violation \<Rightarrow> string" where
  "illegality_kind (PairingViolation p) = ''pairing''"
| "illegality_kind (OrderingViolation p) = ''ordering''"
| "illegality_kind (PlaceholderIllegal p) = ''placeholder''"
| "illegality_kind (RegionOverBudget p) = ''region-over-budget''"
| "illegality_kind (FloorViolation p) = ''floor''"
| "illegality_kind (PinViolation p) = ''pin''"
| "illegality_kind (QuotingViolation p) = ''quoting-convention''"
| "illegality_kind (ProfileOverBudget p) = ''profile-over-budget''"

fun violation_predicate :: "violation \<Rightarrow> string" where
  "violation_predicate (PairingViolation p) = p"
| "violation_predicate (OrderingViolation p) = p"
| "violation_predicate (PlaceholderIllegal p) = p"
| "violation_predicate (RegionOverBudget p) = p"
| "violation_predicate (FloorViolation p) = p"
| "violation_predicate (PinViolation p) = p"
| "violation_predicate (QuotingViolation p) = p"
| "violation_predicate (ProfileOverBudget p) = p"

definition illegality :: "violation \<Rightarrow> executor_error" where
  "illegality v = IllegalProjection (illegality_kind v) (violation_predicate v)"

section \<open>Commits\<close>

text \<open>One event sealed by a writer and appended: the writer moves on and the log takes the event.\<close>

definition write_event ::
  "kernel_env \<Rightarrow> event_kind \<Rightarrow> sequencer \<times> event_log \<Rightarrow> log_error + (sequencer \<times> event_log)" where
  "write_event env kind w =
     (case sequencer_append (env_json env) (fst w) kind (el_store_version (snd w)) of
        (ev, sq) \<Rightarrow> res_bind (log_append (env_json env) (snd w) ev) (\<lambda>log. Inr (sq, log)))"

definition writer_for :: "'p executor \<Rightarrow> sequencer \<times> event_log" where
  "writer_for e = (sequencer_continuing (ex_log e) (ex_epoch e) WRITER_CLOCK, ex_log e)"

fun is_admission :: "event_kind \<Rightarrow> bool" where
  "is_admission (OperationCommit OpAdmitIngress subject argument) = True"
| "is_admission k = False"

text \<open>The lazily opened session scope: the events an admission is preceded by.\<close>

definition open_session ::
  "kernel_env \<Rightarrow> typed_state \<Rightarrow> event_kind \<Rightarrow> sequencer \<times> event_log \<Rightarrow> executor_error + (sequencer \<times> event_log)" where
  "open_session env s kind w =
     (if is_admission kind
      then (case scope_state_of (ts_scopes s) SESSION_SCOPE of
              Inr st \<Rightarrow> if is_open st then Inr w else Inl (PreconditionFailed ''session-scope-closed'')
            | Inl _ \<Rightarrow> map_err (\<lambda>err. AuditFailed (AuditLog err)) (write_event env (OperationCommit OpScopeOpen SESSION_SCOPE 0) w))
      else Inr w)"

text \<open>\<open>append_effect\<close> runs on a staged clone, so only its log and typed state are kept.\<close>

definition append_effect ::
  "kernel_env \<Rightarrow> event_kind \<Rightarrow> 'p executor \<Rightarrow> executor_error + (event_log \<times> typed_state)" where
  "append_effect env kind e =
     res_bind (open_session env (ex_typed e) kind (writer_for e)) (\<lambda>w.
     res_bind (map_err (\<lambda>err. AuditFailed (AuditLog err)) (write_event env kind w)) (\<lambda>w'.
     res_bind (map_err (\<lambda>err. AuditFailed (AuditReplay err)) (fold_into env (ex_typed e) (snd w'))) (\<lambda>typed.
       Inr (snd w', typed))))"

text \<open>What an applied commit does when it releases an effect: append, fold, and replay the whole tip.\<close>

definition stage_effect ::
  "kernel_env \<Rightarrow> event_kind option \<Rightarrow> 'p executor \<Rightarrow> executor_error + (event_log \<times> typed_state)" where
  "stage_effect env effect e =
     (case effect of
        None \<Rightarrow> Inr (ex_log e, ex_typed e)
      | Some kind \<Rightarrow>
          res_bind (append_effect env kind e) (\<lambda>staged.
          res_bind (map_err AuditFailed (audit_tip env (fst staged) (snd staged) (ex_contract e))) (\<lambda>_.
            Inr staged)))"

definition region_admits :: "'p executor \<Rightarrow> u64 \<Rightarrow> executor_error + unit" where
  "region_admits e payload_bound =
     (case ex_region_ceiling e of
        None \<Rightarrow> Inr ()
      | Some ceiling \<Rightarrow>
          let projected = saturating_add (ex_region_admitted e) payload_bound
          in ensure (projected \<le> ceiling) (RegionFull (ex_region_admitted e) projected ceiling))"

definition apply_commit ::
  "u64 \<Rightarrow> event_log \<times> typed_state \<Rightarrow> 'p executor \<Rightarrow> 'p executor" where
  "apply_commit payload_bound staged e =
     e\<lparr>ex_log := fst staged, ex_typed := snd staged,
       ex_region_admitted := saturating_add (ex_region_admitted e) payload_bound,
       ex_state := TxnCommitted, ex_contract_version := Some (rc_version (ex_contract e))\<rparr>"

definition commit_checked ::
  "kernel_env \<Rightarrow> u64 \<Rightarrow> event_kind option \<Rightarrow> u64 \<Rightarrow> 'p executor \<Rightarrow> 'p executor \<times> (executor_error + commit_outcome)" where
  "commit_checked env actual_parent effect payload_bound e =
     (if \<not> can_transition (ex_state e) TxnCommitted
      then (e, Inl (IllegalTransition (ex_state e) TxnCommitted))
      else
        and_then (e, current_txn e) (\<lambda>e t.
        and_then (e, current_row t) (\<lambda>e row.
          case is_legal (ex_typed e) (ex_contract e) of
            Inl v \<Rightarrow> (txn_fail e, Inl (illegality v))
          | Inr _ \<Rightarrow>
              if actual_parent \<noteq> tx_parent_version t
              then (if op_rebase_safe row then (e\<lparr>ex_state := TxnCommitted\<rparr>, Inr RebaseNoOp)
                    else (txn_fail e, Inl (StaleParent (tx_parent_version t) actual_parent)))
              else (case res_bind (region_admits e payload_bound) (\<lambda>_. stage_effect env effect e) of
                      Inl err \<Rightarrow> (txn_fail e, Inl err)
                    | Inr staged \<Rightarrow> (apply_commit payload_bound staged e, Inr Applied)))))"

definition current_phase :: "'p executor \<Rightarrow> nat \<Rightarrow> bool" where
  "current_phase e phase =
     (case ex_current e of
        None \<Rightarrow> False
      | Some t \<Rightarrow> (case find_operation (tx_op t) of None \<Rightarrow> False | Some row \<Rightarrow> op_owner_phase row = phase))"

fun security_governed :: "event_kind \<Rightarrow> bool" where
  "security_governed (BranchKind ev) = True"
| "security_governed (SecurityKind ev) = True"
| "security_governed (OperationCommit cls subject argument) = (cls = OpPin \<or> cls = OpUnpin)"
| "security_governed k = False"

fun semantic_governed :: "event_kind \<Rightarrow> bool" where
  "semantic_governed (SemanticKind ev) = True"
| "semantic_governed k = False"

fun ledger_governed :: "event_kind \<Rightarrow> bool" where
  "ledger_governed (LedgerKind command) = True"
| "ledger_governed k = False"

definition effect_matches :: "(event_kind \<Rightarrow> bool) \<Rightarrow> event_kind option \<Rightarrow> bool" where
  "effect_matches P effect = (case effect of None \<Rightarrow> False | Some kind \<Rightarrow> P kind)"

definition executor_commit_outcome ::
  "kernel_env \<Rightarrow> u64 \<Rightarrow> event_kind option \<Rightarrow> u64 \<Rightarrow> 'p executor \<Rightarrow> 'p executor \<times> (executor_error + commit_outcome)" where
  "executor_commit_outcome env actual_parent effect payload_bound e =
     (if current_phase e 8 \<or> effect_matches security_governed effect
      then (txn_fail e, Inl (PreconditionFailed ''security-receipt-boundary''))
      else if current_phase e 6 \<or> effect_matches semantic_governed effect
      then (txn_fail e, Inl (PreconditionFailed ''semantic-receipt-boundary''))
      else if current_phase e 5 \<or> effect_matches ledger_governed effect
      then (txn_fail e, Inl (PreconditionFailed ''ledger-receipt-boundary''))
      else commit_checked env actual_parent effect payload_bound e)"

definition executor_commit ::
  "kernel_env \<Rightarrow> u64 \<Rightarrow> event_kind option \<Rightarrow> u64 \<Rightarrow> 'p executor \<Rightarrow> 'p executor \<times> (executor_error + commit_outcome)" where
  "executor_commit env actual_parent effect payload_bound e =
     executor_commit_outcome env actual_parent effect payload_bound e"

definition commit_fenced ::
  "kernel_env \<Rightarrow> u64 \<Rightarrow> u64 \<Rightarrow> event_kind option \<Rightarrow> u64 \<Rightarrow> 'p executor \<Rightarrow>
     'p executor \<times> (executor_error + commit_outcome)" where
  "commit_fenced env actual_parent latest effect payload_bound e =
     (if ex_epoch e < latest then (txn_fail e, Inl (FencedOut latest (ex_epoch e)))
      else executor_commit env actual_parent effect payload_bound e)"

definition txn_abort :: "'p executor \<Rightarrow> 'p executor \<times> (executor_error + txn_state)" where
  "txn_abort e =
     (if \<not> can_transition (ex_state e) TxnAborted then (e, Inl (IllegalTransition (ex_state e) TxnAborted))
      else (e\<lparr>ex_aborted := True, ex_state := TxnAborted\<rparr>, Inr TxnAborted))"

end
