(* ===== verification/Receipts.thy ===== *)
theory Receipts
  imports Executor Ingress
begin

text \<open>
  The receipt-checked commits of the executor: ledger commands (\<^verbatim>\<open>src/context_txn/ledger.rs\<close>), branch
  effects (\<^verbatim>\<open>src/context_txn/branch.rs\<close>), security operations (\<^verbatim>\<open>src/context_txn/security.rs\<close>) and semantic
  artifacts (\<^verbatim>\<open>src/context_txn/semantic.rs\<close>).  A validation records the exact event and its bound on the
  executor; the commit releases that event and no other.

  The traits \<open>BranchPorts\<close> and \<open>SecurityPorts\<close> are records of their methods.  \<open>SemanticServices\<close> is a record of
  the read-only owners, and the three capabilities it lends mutably (the gate's consumers, the ingress
  transaction and the sink) are threaded as a state beside the executor.
\<close>

section \<open>Candidates\<close>

text \<open>The state the executor would hold after one more event, folded from a copy of its log.\<close>

definition candidate_log :: "kernel_env \<Rightarrow> 'p executor \<Rightarrow> event_kind \<Rightarrow> log_error + event_log" where
  "candidate_log env e kind = res_bind (write_event env kind (writer_for e)) (\<lambda>w. Inr (snd w))"

definition live_obligation_bytes :: "ledger \<Rightarrow> u64" where
  "live_obligation_bytes l =
     sum64 (map (\<lambda>en. length (e_text en)) (filter (\<lambda>en. \<not> e_retired en \<and> e_class en = Obligation) (bt_values (l_entries l))))"

text \<open>A closure whose error fails the transaction.\<close>

fun failing :: "'p executor \<times> ('e + 'a) \<Rightarrow> 'p executor \<times> ('e + 'a)" where
  "failing (e, Inl err) = (txn_fail e, Inl err)"
| "failing (e, Inr x) = (e, Inr x)"

section \<open>Ledger commands\<close>

datatype ledger_commit_error =
    LcDomain ledger_error
  | LcBoundary
  | LcReplay reducer_error
  | LcTransaction executor_error

definition ledger_rendered_bytes :: "ledger \<Rightarrow> u64" where
  "ledger_rendered_bytes l =
     sum64 (map (\<lambda>en. length (e_text en)) (filter (\<lambda>en. \<not> e_retired en \<and> e_rendered en) (bt_values (l_entries l))))"

definition ledger_candidate :: "kernel_env \<Rightarrow> ledger_command \<Rightarrow> 'p executor \<Rightarrow> ledger_commit_error + typed_state" where
  "ledger_candidate env command e =
     res_bind (map_err (\<lambda>_. LcTransaction (Panicked ''continuing checked log'')) (candidate_log env e (LedgerKind command)))
       (\<lambda>log. map_err LcReplay (fold_into env (ex_typed e) log))"

definition validate_ledger ::
  "kernel_env \<Rightarrow> 'p accounting_port \<Rightarrow> ledger_command \<Rightarrow> budget \<Rightarrow> 'p executor \<Rightarrow>
     'p executor \<times> (ledger_commit_error + u64)" where
  "validate_ledger env ops command bu e =
     (case ledger_candidate env command e of
        Inl err \<Rightarrow> (txn_fail e, Inl err)
      | Inr cand \<Rightarrow>
          let bytes = length (js_ledger_command (env_json env) command)
          in case executor_port_bound ops e 0 bytes of
               None \<Rightarrow> (txn_fail e, Inl LcBoundary)
             | Some bound \<Rightarrow>
                 (case validate ops bound bu (live_obligation_bytes (ts_ledger cand))
                         (ledger_rendered_bytes (ts_ledger (ex_typed e))) (ledger_rendered_bytes (ts_ledger cand)) bytes e of
                    (e1, Inl err) \<Rightarrow> (e1, Inl (LcTransaction err))
                  | (e1, Inr t) \<Rightarrow>
                      if \<not> budget_fits bound bu
                      then (txn_fail e1, Inl (LcTransaction (PreconditionFailed ''ledger-fit-bound'')))
                      else (e1\<lparr>ex_ledger_validation := Some (command, bound)\<rparr>, Inr bound)))"

definition check_ledger_command ::
  "u64 \<Rightarrow> ledger_command \<Rightarrow> ledger_ports \<Rightarrow> 'p executor \<Rightarrow> ledger_commit_error + unit" where
  "check_ledger_command latest command ports e =
     (if ex_epoch e < latest then Inl (LcTransaction (FencedOut latest (ex_epoch e)))
      else res_bind (ok_or (ex_current e) LcBoundary) (\<lambda>t.
        if tx_op t \<noteq> ledger_operation command \<or> ex_proposed_by e = None then Inl LcBoundary
        else map_err LcDomain (ledger_authenticate ports command)))"

definition commit_ledger ::
  "kernel_env \<Rightarrow> u64 \<Rightarrow> u64 \<Rightarrow> ledger_command \<Rightarrow> ledger_ports \<Rightarrow> u64 \<Rightarrow> 'p executor \<Rightarrow>
     'p executor \<times> (ledger_commit_error + commit_outcome)" where
  "commit_ledger env actual_parent latest command ports payload_bound e =
     (if ex_ledger_validation e \<noteq> Some (command, payload_bound) then (txn_fail e, Inl LcBoundary)
      else case check_ledger_command latest command ports e of
        Inl err \<Rightarrow> (txn_fail e, Inl err)
      | Inr _ \<Rightarrow>
          (case ledger_candidate env command e of
             Inl err \<Rightarrow> (txn_fail e, Inl err)
           | Inr cand \<Rightarrow>
               (case is_legal cand (ex_contract e) of
                  Inl v \<Rightarrow> (txn_fail e, Inl (LcTransaction (illegality v)))
                | Inr _ \<Rightarrow>
                    (case commit_checked env actual_parent (Some (LedgerKind command)) payload_bound e of
                       (e1, r) \<Rightarrow> (e1, map_err LcTransaction r)))))"

section \<open>Semantic artifacts\<close>

datatype semantic_error =
    SeRejected validation_record
  | SeGate gate_error
  | SeBoundary
  | SeReplay reducer_error
  | SeTransaction executor_error

record semantic_receipt =
  sr_event :: semantic_event
  sr_bound :: u64

record ('c, 's) semantic_services =
  sv_gate :: gate
  sv_authorization :: "(adoption \<Rightarrow> bool) option"
  sv_required :: "bound_fact list"
  sv_always_checked :: "bound_fact list"
  sv_store :: leaf_store
  sv_consumers :: "'c gate_consumers"
  sv_sink :: "'s ingress_sink"

record ('c, 's) lent =
  le_consumers :: 'c
  le_ingress :: ingress_txn
  le_sink :: 's

definition check_semantic_operation :: "string \<Rightarrow> 'p executor \<Rightarrow> semantic_error + unit" where
  "check_semantic_operation op e =
     res_bind (ok_or (ex_current e) SeBoundary) (\<lambda>t.
       ensure (\<not> (tx_op t \<noteq> op \<or> ex_proposed_by e = None)) SeBoundary)"

definition semantic_candidate :: "kernel_env \<Rightarrow> semantic_event \<Rightarrow> 'p executor \<Rightarrow> semantic_error + typed_state" where
  "semantic_candidate env ev e =
     res_bind (map_err (\<lambda>_. SeBoundary) (candidate_log env e (SemanticKind ev)))
       (\<lambda>log. map_err SeReplay (fold_into env (ex_typed e) log))"

definition validate_semantic_event ::
  "kernel_env \<Rightarrow> 'p accounting_port \<Rightarrow> semantic_event \<Rightarrow> budget \<Rightarrow> 'p executor \<Rightarrow>
     'p executor \<times> (semantic_error + u64)" where
  "validate_semantic_event env ops ev bu e =
     and_then (e, semantic_candidate env ev e) (\<lambda>e cand.
       let bytes = length (js_semantic_event (env_json env) ev)
       in and_then (e, ok_or (executor_port_bound ops e 0 bytes) SeBoundary) (\<lambda>e bound.
            let before = rendered_bytes (ts_semantic (ex_typed e));
                after = rendered_bytes (ts_semantic cand)
            in case validate ops bound bu (live_obligation_bytes (ts_ledger cand)) before after bytes e of
                 (e1, Inl err) \<Rightarrow> (e1, Inl (SeTransaction err))
               | (e1, Inr t) \<Rightarrow>
                   and_then (e1, ok_or (find_operation (semantic_event_operation ev)) SeBoundary) (\<lambda>e1 row.
                     if \<not> budget_fits bound bu \<or> (op_reclamation row \<and> saturating_sub before after < op_bar row)
                     then (e1, Inl SeBoundary) else (e1, Inr bound))))"

definition rendered_items :: "semantic_state \<Rightarrow> (lane \<times> bound_fact) list" where
  "rendered_items m =
     concat (map (\<lambda>a. map (\<lambda>f. (if cm_lane (sa_command a) = 1 then Constitutional else Decisional, f))
                       (ca_rendered (cm_candidate (sa_command a))))
       (filter (\<lambda>a. sa_rendered a \<and> cm_lane (sa_command a) \<le> 2) (bt_values m)))"

definition check_lane_authority ::
  "semantic_command \<Rightarrow> validation_record \<Rightarrow> leaf_store \<Rightarrow> (adoption \<Rightarrow> bool) option \<Rightarrow> semantic_error + unit" where
  "check_lane_authority command record store authorization =
     ensure (\<not> (cm_lane command \<le> 2 \<and>
        \<not> (case cm_authority command of
             None \<Rightarrow> False
           | Some a \<Rightarrow> check_authority store authorization a (cm_lane command) (ca_scope (cm_candidate command)) record)))
       SeBoundary"

definition exact_derivation :: "ingress_record list \<Rightarrow> string \<Rightarrow> semantic_error + ingress_record" where
  "exact_derivation records artifact =
     (case records of
        [r] \<Rightarrow>
          if ig_source r \<noteq> GeneratedArtifact \<or> pl_bytes (ig_payload r) \<noteq> string_bytes artifact \<or>
             ig_vault r \<noteq> None \<or> ig_spine r = None
          then Inl SeBoundary else Inr r
      | _ \<Rightarrow> Inl SeBoundary)"

text \<open>Derivation ingress: capture the artifact, commit the ingress transaction into the sink.\<close>

definition ingest_derivation ::
  "'s ingress_sink \<Rightarrow> string \<Rightarrow> string \<Rightarrow> ('c, 's) lent \<Rightarrow> ('c, 's) lent \<times> (ingress_error + ingress_record list)" where
  "ingest_derivation k source_kind artifact w =
     (case capture_derivation (le_ingress w) source_kind (string_bytes artifact) of
        Inl err \<Rightarrow> (w, Inl err)
      | Inr t \<Rightarrow>
          (case Ingress.commit k t (le_sink w) of
             (t1, s1, r) \<Rightarrow> (w\<lparr>le_ingress := t1, le_sink := s1\<rparr>, r)))"

definition run_gate ::
  "kernel_env \<Rightarrow> ('c, 's) semantic_services \<Rightarrow> candidate \<Rightarrow> bound_fact list \<Rightarrow> ('c, 's) lent \<Rightarrow>
     ('c, 's) lent \<times> (gate_error + validation_record)" where
  "run_gate env sv cand required w =
     (case gate_validate (env_candidate_digest env) (sv_gate sv) cand required (sv_always_checked sv) (sv_store sv)
             (sv_consumers sv) (le_consumers w) of
        (c, r) \<Rightarrow> (w\<lparr>le_consumers := c\<rparr>, r))"

text \<open>The part of \<open>validate_semantic\<close> that only reads the executor: operation, gate, lane authority, ingress.\<close>

definition admit_semantic ::
  "kernel_env \<Rightarrow> ('c, 's) semantic_services \<Rightarrow> semantic_command \<Rightarrow> 'p executor \<Rightarrow> ('c, 's) lent \<Rightarrow>
     ('c, 's) lent \<times> (semantic_error + semantic_event)" where
  "admit_semantic env sv command e w =
     (case check_semantic_operation (semantic_name (cm_operation command)) e of
        Inl err \<Rightarrow> (w, Inl err)
      | Inr _ \<Rightarrow>
          let s = ex_typed e;
              floor = deterministic_required (ts_ledger s) (rendered_items (ts_semantic s)) (sv_required sv)
                        (ts_policies s) (ca_scope (cm_candidate command))
          in case run_gate env sv (cm_candidate command) floor w of
               (w1, Inl err) \<Rightarrow> (w1, Inl (SeGate err))
             | (w1, Inr record) \<Rightarrow>
                 if vr_verdict record \<noteq> Pass then (w1, Inl (SeRejected record))
                 else (case check_lane_authority command record (sv_store sv) (sv_authorization sv) of
                         Inl err \<Rightarrow> (w1, Inl err)
                       | Inr _ \<Rightarrow>
                           (case ingest_derivation (sv_sink sv) (semantic_name (cm_operation command))
                                   (ca_artifact (cm_candidate command)) w1 of
                              (w2, Inl err) \<Rightarrow> (w2, Inl SeBoundary)
                            | (w2, Inr records) \<Rightarrow>
                                (w2, res_bind (exact_derivation records (ca_artifact (cm_candidate command))) (\<lambda>adm.
                                   Inr (SemanticPut (command\<lparr>cm_store_handle := pl_handle (ig_payload adm)\<rparr>) record))))))"

definition semantic_receipt_for ::
  "kernel_env \<Rightarrow> 'p accounting_port \<Rightarrow> semantic_event \<Rightarrow> budget \<Rightarrow> 'p executor \<Rightarrow>
     'p executor \<times> (semantic_error + semantic_receipt)" where
  "semantic_receipt_for env ops ev bu e =
     and_then (validate_semantic_event env ops ev bu e) (\<lambda>e1 bound.
       (e1\<lparr>ex_semantic_validation := Some (ev, bound)\<rparr>, Inr \<lparr>sr_event = ev, sr_bound = bound\<rparr>))"

definition validate_semantic ::
  "kernel_env \<Rightarrow> 'p accounting_port \<Rightarrow> ('c, 's) semantic_services \<Rightarrow> semantic_command \<Rightarrow> budget \<Rightarrow>
     'p executor \<Rightarrow> ('c, 's) lent \<Rightarrow> ('p executor \<times> (semantic_error + semantic_receipt)) \<times> ('c, 's) lent" where
  "validate_semantic env ops sv command bu e w =
     (case admit_semantic env sv command e w of
        (w1, r) \<Rightarrow> (failing (and_then (e, r) (\<lambda>e ev. semantic_receipt_for env ops ev bu e)), w1))"

fun is_put :: "semantic_event \<Rightarrow> bool" where
  "is_put (SemanticPut c v) = True"
| "is_put ev = False"

definition validate_projection ::
  "kernel_env \<Rightarrow> 'p accounting_port \<Rightarrow> semantic_event \<Rightarrow> budget \<Rightarrow> 'p executor \<Rightarrow>
     'p executor \<times> (semantic_error + semantic_receipt)" where
  "validate_projection env ops ev bu e =
     failing (if is_put ev then (e, Inl SeBoundary)
              else and_then (e, check_semantic_operation (semantic_event_operation ev) e) (\<lambda>e _.
                semantic_receipt_for env ops ev bu e))"

definition commit_semantic ::
  "kernel_env \<Rightarrow> u64 \<Rightarrow> u64 \<Rightarrow> semantic_receipt \<Rightarrow> 'p executor \<Rightarrow> 'p executor \<times> (semantic_error + commit_outcome)" where
  "commit_semantic env actual_parent latest receipt e =
     failing
       (and_then (e, check_semantic_operation (semantic_event_operation (sr_event receipt)) e) (\<lambda>e _.
          if ex_epoch e < latest then (e, Inl (SeTransaction (FencedOut latest (ex_epoch e))))
          else if ex_semantic_validation e \<noteq> Some (sr_event receipt, sr_bound receipt) then (e, Inl SeBoundary)
          else and_then (e, semantic_candidate env (sr_event receipt) e) (\<lambda>e cand.
            case is_legal cand (ex_contract e) of
              Inl v \<Rightarrow> (e, Inl (SeTransaction (illegality v)))
            | Inr _ \<Rightarrow>
                (case commit_checked env actual_parent (Some (SemanticKind (sr_event receipt))) (sr_bound receipt) e of
                   (e1, r) \<Rightarrow> (e1, map_err SeTransaction r)))))"

fun semantic_response :: "semantic_error \<Rightarrow> gate_response" where
  "semantic_response (SeRejected record) = verdict_response (vr_verdict record)"
| "semantic_response err = DeterministicEmergency"

section \<open>Branch effects\<close>

record branch_ports =
  bpo_principal_authenticated :: "source \<Rightarrow> string \<Rightarrow> bool"
  bpo_spawn_authenticated :: "spawn \<Rightarrow> bool"
  bpo_round_authenticated :: "string \<Rightarrow> branch_round \<Rightarrow> bool"

datatype branch_commit_error =
    BcBoundary
  | BcReplay reducer_error
  | BcTransaction executor_error
  | BcGate gate_error

record branch_receipt =
  rb_event :: branch_event
  rb_bound :: u64
  rb_principal :: source

fun branch_event_scope :: "branch_state \<Rightarrow> branch_event \<Rightarrow> u64 option" where
  "branch_event_scope bs (BranchOpen sp) = Some (sp_scope sp)"
| "branch_event_scope bs (BranchRound n r) = map_option (\<lambda>b. sp_scope (br_spawn b)) (bt_get bs n)"
| "branch_event_scope bs (BranchReturn n r) = map_option (\<lambda>b. sp_scope (br_spawn b)) (bt_get bs n)"
| "branch_event_scope bs (BranchAbort n) = map_option (\<lambda>b. sp_scope (br_spawn b)) (bt_get bs n)"

definition branch_scope :: "branch_event \<Rightarrow> source \<Rightarrow> 'p executor \<Rightarrow> branch_commit_error + unit" where
  "branch_scope ev prin e =
     ensure (branch_event_scope (ts_branches (ex_typed e)) ev = Some (so_scope prin) \<and>
        (case scope_state_of (ts_scopes (ex_typed e)) (so_scope prin) of Inl _ \<Rightarrow> False | Inr st \<Rightarrow> is_open st))
       BcBoundary"

fun branch_event_namespace :: "branch_event \<Rightarrow> string" where
  "branch_event_namespace (BranchOpen sp) = sp_namespace sp"
| "branch_event_namespace (BranchRound n r) = n"
| "branch_event_namespace (BranchReturn n r) = n"
| "branch_event_namespace (BranchAbort n) = n"

definition branch_authenticate :: "branch_event \<Rightarrow> source \<Rightarrow> branch_ports \<Rightarrow> branch_commit_error + unit" where
  "branch_authenticate ev prin ports =
     ensure ((case ev of BranchOpen sp \<Rightarrow> sp_scope sp = so_scope prin | _ \<Rightarrow> True) \<and>
        so_origin prin = IngressOrigin \<and> AgentAuthority \<le> so_authority prin \<and>
        bpo_principal_authenticated ports prin (branch_event_namespace ev) \<and>
        (case ev of
           BranchOpen sp \<Rightarrow> bpo_spawn_authenticated ports sp
         | BranchRound n r \<Rightarrow> bpo_round_authenticated ports n r
         | _ \<Rightarrow> True))
       BcBoundary"

definition spawn_current :: "branch_event \<Rightarrow> typed_state \<Rightarrow> bool" where
  "spawn_current ev s =
     (case ev of
        BranchOpen sp \<Rightarrow>
          sp_parent_version sp = ts_store_version s \<and>
          sp_notes sp = set (map fst (filter (\<lambda>ka. \<not> sa_rendered (snd ka)) (ts_semantic s)))
      | _ \<Rightarrow> True)"

definition branch_candidate :: "kernel_env \<Rightarrow> branch_event \<Rightarrow> 'p executor \<Rightarrow> branch_commit_error + typed_state" where
  "branch_candidate env ev e =
     res_bind (ensure (spawn_current ev (ex_typed e)) BcBoundary) (\<lambda>_.
     res_bind (map_err (\<lambda>_. BcBoundary) (candidate_log env e (BranchKind ev)))
       (\<lambda>log. map_err BcReplay (fold_into env (ex_typed e) log)))"

definition branch_current :: "branch_event \<Rightarrow> 'p executor \<Rightarrow> bool" where
  "branch_current ev e = (case ex_current e of None \<Rightarrow> False | Some t \<Rightarrow> tx_op t = branch_operation ev)"

definition branch_receipt_for ::
  "kernel_env \<Rightarrow> 'p accounting_port \<Rightarrow> branch_event \<Rightarrow> source \<Rightarrow> budget \<Rightarrow> 'p executor \<Rightarrow>
     'p executor \<times> (branch_commit_error + branch_receipt)" where
  "branch_receipt_for env ops ev prin bu e =
     (if \<not> branch_current ev e \<or> ex_proposed_by e = None then (e, Inl BcBoundary)
      else
        and_then (e, branch_candidate env ev e) (\<lambda>e cand.
        and_then (e, map_err (\<lambda>_. BcBoundary) (is_legal cand (ex_contract e))) (\<lambda>e _.
          let bytes = length (js_branch_event (env_json env) ev)
          in and_then (e, ok_or (executor_port_bound ops e 0 bytes) BcBoundary) (\<lambda>e bound.
               case validate ops bound bu 0 0 0 bytes e of
                 (e1, Inl err) \<Rightarrow> (e1, Inl (BcTransaction err))
               | (e1, Inr t) \<Rightarrow>
                   if \<not> budget_fits bound bu then (e1, Inl BcBoundary)
                   else (e1\<lparr>ex_branch_validation := Some (ev, bound)\<rparr>,
                         Inr \<lparr>rb_event = ev, rb_bound = bound, rb_principal = prin\<rparr>)))))"

fun is_return :: "branch_event \<Rightarrow> bool" where
  "is_return (BranchReturn n r) = True"
| "is_return ev = False"

definition validate_branch ::
  "kernel_env \<Rightarrow> 'p accounting_port \<Rightarrow> branch_event \<Rightarrow> source \<Rightarrow> branch_ports \<Rightarrow> budget \<Rightarrow> 'p executor \<Rightarrow>
     'p executor \<times> (branch_commit_error + branch_receipt)" where
  "validate_branch env ops ev prin ports bu e =
     failing (if is_return ev then (e, Inl BcBoundary)
              else and_then (e, branch_scope ev prin e) (\<lambda>e _.
                and_then (e, branch_authenticate ev prin ports) (\<lambda>e _.
                  branch_receipt_for env ops ev prin bu e)))"

text \<open>The part of \<open>validate_branch_return\<close> that only reads the executor.\<close>

definition admit_return ::
  "kernel_env \<Rightarrow> ('c, 's) semantic_services \<Rightarrow> string \<Rightarrow> candidate \<Rightarrow> source \<Rightarrow> branch_ports \<Rightarrow> 'p executor \<Rightarrow>
     ('c, 's) lent \<Rightarrow> ('c, 's) lent \<times> (branch_commit_error + branch_event)" where
  "admit_return env sv namespace cand prin ports e w =
     (if so_origin prin \<noteq> IngressOrigin \<or> so_authority prin < AgentAuthority \<or>
         \<not> bpo_principal_authenticated ports prin namespace \<or> ca_scope cand \<noteq> so_scope prin
      then (w, Inl BcBoundary)
      else case bt_get (ts_branches (ex_typed e)) namespace of
        None \<Rightarrow> (w, Inl BcBoundary)
      | Some b \<Rightarrow>
          if sp_scope (br_spawn b) \<noteq> ca_scope cand \<or> ca_rendered cand \<noteq> [] then (w, Inl BcBoundary)
          else (case run_gate env sv cand (sv_required sv) w of
                  (w1, Inl err) \<Rightarrow> (w1, Inl (BcGate err))
                | (w1, Inr record) \<Rightarrow>
                    if vr_verdict record \<noteq> Pass then (w1, Inl BcBoundary)
                    else (case ingest_derivation (sv_sink sv) ''branch-return'' (ca_artifact cand) w1 of
                            (w2, Inl err) \<Rightarrow> (w2, Inl BcBoundary)
                          | (w2, Inr records) \<Rightarrow>
                              (w2,
                               res_bind (map_err (\<lambda>_. BcBoundary) (exact_derivation records (ca_artifact cand))) (\<lambda>adm.
                               res_bind (map_err (\<lambda>_. BcBoundary)
                                   (branch_return_status (ts_branches (ex_typed e)) namespace
                                      (l_versions (ts_ledger (ex_typed e))))) (\<lambda>(status, revalidate).
                                 Inr (BranchReturn namespace
                                   \<lparr>rt_handle = pl_handle (ig_payload adm),
                                    rt_digest = env_hash env (string_bytes (ca_artifact cand)),
                                    rt_status = status, rt_revalidate = revalidate\<rparr>)))))))"

definition validate_branch_return ::
  "kernel_env \<Rightarrow> 'p accounting_port \<Rightarrow> ('c, 's) semantic_services \<Rightarrow> string \<Rightarrow> candidate \<Rightarrow> source \<Rightarrow> branch_ports \<Rightarrow>
     budget \<Rightarrow> 'p executor \<Rightarrow> ('c, 's) lent \<Rightarrow>
     ('p executor \<times> (branch_commit_error + branch_receipt)) \<times> ('c, 's) lent" where
  "validate_branch_return env ops sv namespace cand prin ports bu e w =
     (case admit_return env sv namespace cand prin ports e w of
        (w1, r) \<Rightarrow> (failing (and_then (e, r) (\<lambda>e ev. branch_receipt_for env ops ev prin bu e)), w1))"

definition commit_branch ::
  "kernel_env \<Rightarrow> u64 \<Rightarrow> u64 \<Rightarrow> branch_receipt \<Rightarrow> branch_ports \<Rightarrow> 'p executor \<Rightarrow>
     'p executor \<times> (branch_commit_error + commit_outcome)" where
  "commit_branch env parent latest receipt ports e =
     (case and_then (e, branch_scope (rb_event receipt) (rb_principal receipt) e) (\<lambda>e _.
           and_then (e, branch_authenticate (rb_event receipt) (rb_principal receipt) ports) (\<lambda>e _.
             if ex_epoch e < latest \<or> ex_branch_validation e \<noteq> Some (rb_event receipt, rb_bound receipt) \<or>
                \<not> branch_current (rb_event receipt) e
             then (e, Inl BcBoundary)
             else and_then (e, branch_candidate env (rb_event receipt) e) (\<lambda>e _.
               case commit_checked env parent (Some (BranchKind (rb_event receipt))) (rb_bound receipt) e of
                 (e1, r) \<Rightarrow> (e1, map_err BcTransaction r)))) of
        (e1, r) \<Rightarrow> failing (e1\<lparr>ex_branch_validation := None\<rparr>, r))"

section \<open>Security operations\<close>

record security_ports =
  spo_principal_authenticated :: "source \<Rightarrow> bool"
  spo_escalation_authorized :: "escalation \<Rightarrow> bool"
  spo_erasure_completed :: "erasure \<Rightarrow> bool"

datatype security_commit_error =
    ScBoundary
  | ScReplay reducer_error
  | ScTransaction executor_error

record security_receipt =
  rs_event :: security_event
  rs_bound :: u64

fun security_authenticated :: "security_ports \<Rightarrow> security_state \<Rightarrow> security_event \<Rightarrow> bool" where
  "security_authenticated ports ss (PinEvent p) = spo_principal_authenticated ports (pn_owner p)"
| "security_authenticated ports ss (UnpinEvent i owner) = spo_principal_authenticated ports owner"
| "security_authenticated ports ss (ExpireEvent q) = True"
| "security_authenticated ports ss (EscalatePending es) =
     (spo_principal_authenticated ports (es_operator es) \<and> spo_escalation_authorized ports es)"
| "security_authenticated ports ss (EscalateComplete i operator) =
     (spo_principal_authenticated ports operator \<and>
      (case bt_get (ss_escalations ss) i of None \<Rightarrow> False | Some es \<Rightarrow> spo_escalation_authorized ports es))"
| "security_authenticated ports ss (EraseEvent er) = spo_erasure_completed ports er"

definition authenticate_security ::
  "security_event \<Rightarrow> security_ports \<Rightarrow> 'p executor \<Rightarrow> security_commit_error + unit" where
  "authenticate_security ev ports e =
     (if (case ex_current e of None \<Rightarrow> True | Some t \<Rightarrow> tx_op t \<noteq> security_operation ev) \<or> ex_proposed_by e = None
      then Inl ScBoundary
      else ensure (security_authenticated ports (ts_security (ex_typed e)) ev) ScBoundary)"

definition security_candidate :: "kernel_env \<Rightarrow> security_event \<Rightarrow> 'p executor \<Rightarrow> security_commit_error + unit" where
  "security_candidate env ev e =
     res_bind (map_err (\<lambda>_. ScBoundary) (candidate_log env e (SecurityKind ev))) (\<lambda>log.
     res_bind (map_err ScReplay (fold_into env (ex_typed e) log)) (\<lambda>cand.
     res_bind (map_err (\<lambda>_. ScBoundary) (is_legal cand (ex_contract e))) (\<lambda>_. Inr ())))"

definition validate_security ::
  "kernel_env \<Rightarrow> 'p accounting_port \<Rightarrow> security_event \<Rightarrow> security_ports \<Rightarrow> budget \<Rightarrow> 'p executor \<Rightarrow>
     'p executor \<times> (security_commit_error + security_receipt)" where
  "validate_security env ops ev ports bu e =
     failing
       (and_then (e, authenticate_security ev ports e) (\<lambda>e _.
        and_then (e, security_candidate env ev e) (\<lambda>e _.
          let bytes = length (js_security_event (env_json env) ev)
          in and_then (e, ok_or (executor_port_bound ops e 0 bytes) ScBoundary) (\<lambda>e bound.
               case validate ops bound bu 0 0 0 bytes e of
                 (e1, Inl err) \<Rightarrow> (e1, Inl (ScTransaction err))
               | (e1, Inr t) \<Rightarrow>
                   if \<not> budget_fits bound bu then (e1, Inl ScBoundary)
                   else (e1\<lparr>ex_security_validation := Some (ev, bound)\<rparr>,
                         Inr \<lparr>rs_event = ev, rs_bound = bound\<rparr>)))))"

definition commit_security ::
  "kernel_env \<Rightarrow> u64 \<Rightarrow> u64 \<Rightarrow> security_receipt \<Rightarrow> security_ports \<Rightarrow> 'p executor \<Rightarrow>
     'p executor \<times> (security_commit_error + commit_outcome)" where
  "commit_security env parent latest receipt ports e =
     (case and_then (e, authenticate_security (rs_event receipt) ports e) (\<lambda>e _.
             if ex_epoch e < latest \<or> ex_security_validation e \<noteq> Some (rs_event receipt, rs_bound receipt)
             then (e, Inl ScBoundary)
             else and_then (e, security_candidate env (rs_event receipt) e) (\<lambda>e _.
               case commit_checked env parent (Some (SecurityKind (rs_event receipt))) (rs_bound receipt) e of
                 (e1, r) \<Rightarrow> (e1, map_err ScTransaction r))) of
        (e1, r) \<Rightarrow> failing (e1\<lparr>ex_security_validation := None\<rparr>, r))"

end
