(* ===== verification/AuditLaws.thy ===== *)
theory AuditLaws
  imports Receipts
begin

text \<open>
  Laws of the shadow replay and of the executor's writer: every operation an event can name is registered,
  a log the sequencer continues is accepted again event by event, replaying a checkpoint gives the state that
  was folded into, and the whole-log audit is exactly the legality of the checkpoints.
\<close>

section \<open>The registry is closed under the events\<close>

lemma event_names_registered:
  "list_all (\<lambda>n. find_operation n \<noteq> None)
     [''scope-open'', ''scope-close-by-event'', ''scope-close-by-declaration'', ''resegment'', ''place'', ''unplace'',
      ''pin'', ''unpin'', ''lane-policy-update'', ''migration-select'', ''admit-ingress'', ''sanitize'', ''redact'',
      ''import'', ''rule-update'', ''vocabulary-update'', ''index-rebuild'', ''store-mode'', ''quiesce-unwritable'',
      ''note'', ''read-back'', ''reopen'', ''fold'', ''compact'', ''condense'', ''regenerate'', ''flush-notes'',
      ''reclassify'', ''branch-open'', ''branch-return'', ''admit-observation'', ''branch-abort'', ''expire-pin'',
      ''escalate-pending'', ''escalate-complete'', ''admit-obligation'', ''admit-convenience'', ''demote'',
      ''discharge'', ''consolidate-obligations'', ''amend'', ''retract'', ''promote'', ''fact-invalidate'',
      ''revalidate'', ''stale-demote'', ''decay'']"
  by code_simp

lemma class_registered: "find_operation (operation_class_name cls) \<noteq> None"
  using event_names_registered by (cases cls) simp_all

lemma ledger_registered: "find_operation (ledger_operation command) \<noteq> None"
  using event_names_registered by (cases command) simp_all

lemma semantic_registered: "find_operation (semantic_event_operation ev) \<noteq> None"
proof (cases ev)
  case (SemanticPut c v)
  with event_names_registered show ?thesis by (cases "cm_operation c") simp_all
qed (use event_names_registered in simp_all)

lemma branch_registered: "find_operation (branch_operation ev) \<noteq> None"
  using event_names_registered by (cases ev) simp_all

lemma security_registered: "find_operation (security_operation ev) \<noteq> None"
  using event_names_registered by (cases ev) simp_all

lemma operation_registered: "operation_name k = Some n \<Longrightarrow> find_operation n \<noteq> None"
  using class_registered ledger_registered semantic_registered branch_registered security_registered
  by (cases k) auto

lemma audit_contracted_Inr [simp]: "audit_contracted e = Inr ()"
proof (cases "operation_name (ev_kind e)")
  case (Some n)
  from operation_registered [OF this] Some show ?thesis by (auto simp: audit_contracted_def)
qed (simp add: audit_contracted_def)

section \<open>Replay\<close>

abbreviation replay :: "kernel_env \<Rightarrow> event_log \<Rightarrow> reducer_error + typed_state" where
  "replay env \<equiv> fold_log env IDLENESS_WINDOW"

lemma fold_into_Inr: "fold_into env s log = Inr s' \<longleftrightarrow> fold_from env s log = (s', Inr ())"
  by (auto simp: fold_into_def split: prod.splits sum.splits)

lemma fold_from_hashed:
  "fold_from env s log = (s', Inr u) \<Longrightarrow> s'\<lparr>ts_state_hash := state_hash (env_json env) s'\<rparr> = s'"
proof -
  assume "fold_from env s log = (s', Inr u)"
  then obtain s1 where "s' = rehash (state_hash (env_json env) s1) s1"
    by (auto simp: fold_from_def rehash_def split: prod.splits sum.splits)
  then show ?thesis unfolding rehash_def [symmetric] by simp
qed

lemma replay_fold_into: "replay env log = fold_into env (genesis IDLENESS_WINDOW (el_store_version log)) log"
  by (auto simp: fold_log_def fold_into_def fold_from_hashed split: prod.splits sum.splits)

lemma fold_into_resume:
  assumes "fold_into env s (log_prefix log n) = Inr s1"
  shows "fold_into env s1 log = fold_into env s log"
proof -
  from assms have p: "fold_from env s (log_prefix log n) = (s1, Inr ())" by (simp add: fold_into_Inr)
  obtain a r b q where f: "fold_from env s1 log = (a, r)" "fold_from env s log = (b, q)" by fastforce
  from fold_from_resume [OF p] f have "r = q" and "is_ok q \<Longrightarrow> a = b" by simp_all
  with f show ?thesis by (cases q) (simp_all add: fold_into_def)
qed

lemma prefix_prefix [simp]: "log_prefix (log_prefix log m) n = log_prefix log (min n m)"
  by (simp add: log_prefix_def min_def)

lemma prefix_store_version [simp]: "el_store_version (log_prefix log n) = el_store_version log"
  by (simp add: log_prefix_def)

lemma prefix_events [simp]: "el_events (log_prefix log n) = take n (el_events log)"
  by (simp add: log_prefix_def)

lemma prefix_all: "length (el_events log) \<le> n \<Longrightarrow> log_prefix log n = log"
  by (simp add: log_prefix_def)

lemma replay_resume:
  "replay env (log_prefix log n) = Inr s \<Longrightarrow> fold_into env s log = replay env log"
  unfolding replay_fold_into prefix_store_version by (rule fold_into_resume)

lemma replay_prefix:
  assumes "replay env log = Inr s"
  obtains s' where "replay env (log_prefix log n) = Inr s'"
proof -
  let ?g = "genesis IDLENESS_WINDOW (el_store_version log)"
  from assms obtain s0 where "fold_events env ?g (take n (el_events log) @ drop n (el_events log)) = (s0, Inr ())"
    by (auto simp: replay_fold_into fold_into_def fold_from_def split: prod.splits sum.splits)
  then obtain s1 where "fold_events env ?g (take n (el_events log)) = (s1, Inr ())"
    unfolding fold_events_append by (auto split: prod.splits sum.splits)
  then show ?thesis by (intro that) (simp add: replay_fold_into fold_into_def fold_from_def)
qed

lemma replay_empty: "el_events log = [] \<Longrightarrow> \<exists>s. replay env log = Inr s"
  by (simp add: replay_fold_into fold_into_def fold_from_def)

section \<open>Framing\<close>

lemma base_prefix [simp]: "log_base (log_prefix log n) = log_base log"
  by (simp add: log_base_def log_prefix_def)

lemma log_append_prefix:
  assumes "n < length (el_events log)" and "fst (log_base log) < u64_modulus" and "log_ok json (log_prefix log n)"
  shows "log_append json (log_prefix log n) (el_events log ! n) = Inr l \<longleftrightarrow>
    log_ok json (log_prefix log (Suc n)) \<and> l = log_prefix log (Suc n)"
proof -
  let ?e = "el_events log ! n"
  have ev: "take (Suc n) (el_events log) = take n (el_events log) @ [?e]"
    using assms(1) by (rule take_Suc_conv_app_nth)
  have "log_ok json (log_prefix log (Suc n)) \<longleftrightarrow>
      ev_schema_version ?e = EVENT_SCHEMA_VERSION \<and> ev_store_version ?e = el_store_version log \<and>
      ev_sequence ?e = log_next_sequence (log_prefix log n) \<and> verify json ?e (head_checksum (log_prefix log n))"
    using assms(2,3)
    by (auto simp: log_ok_def ev chain_ok_append log_next_sequence_base head_checksum_base split: if_splits)
  moreover have "(log_prefix log n)\<lparr>el_events := take n (el_events log) @ [?e]\<rparr> = log_prefix log (Suc n)"
    by (simp add: log_prefix_def ev)
  ultimately show ?thesis by (auto simp: log_append_Inr)
qed

lemma audit_framing_prefix:
  assumes "log_ok (env_json env) log" and "n \<le> length (el_events log)"
  shows "audit_framing env (log_prefix log n) (drop n (el_events log)) = Inr log"
  using assms(2)
proof (induction "length (el_events log) - n" arbitrary: n)
  case (Suc k)
  then have n: "n < length (el_events log)" by simp
  have "log_append (env_json env) (log_prefix log n) (el_events log ! n) = Inr (log_prefix log (Suc n))"
    using assms(1) log_append_prefix [OF n _ log_prefix_ok [OF assms(1)]] log_prefix_ok [OF assms(1)]
    by (simp add: log_ok_def)
  with Suc.hyps(1) [of "Suc n"] Suc.hyps(2) n show ?case
    by (simp add: Cons_nth_drop_Suc [symmetric])
qed (simp add: prefix_all)

lemma audit_framing_ok: "log_ok (env_json env) log \<Longrightarrow> audit_framing env (log_prefix log 0) (el_events log) = Inr log"
  using audit_framing_prefix [of env log 0] by simp

lemma audit_tip_replayed:
  assumes "log_ok (env_json env) log" and "replay env log = Inr s"
  shows "audit_tip env log s c = audit_legal s c"
  by (simp add: audit_tip_def audit_framing_ok [OF assms(1)] assms(2))

section \<open>The whole-log audit\<close>

lemma audit_legal_Inr: "audit_legal s c = Inr u \<longleftrightarrow> is_ok (is_legal s c)"
  by (auto simp: audit_legal_def is_ok_iff)

definition checkpoint_legal :: "kernel_env \<Rightarrow> render_contract \<Rightarrow> event_log \<Rightarrow> nat \<Rightarrow> bool" where
  "checkpoint_legal env c log n \<longleftrightarrow> (\<exists>s. replay env (log_prefix log n) = Inr s \<and> is_ok (is_legal s c))"

definition auditable :: "kernel_env \<Rightarrow> render_contract \<Rightarrow> event_log \<Rightarrow> nat \<Rightarrow> bool" where
  "auditable env c log n \<longleftrightarrow>
     log_ok (env_json env) log \<and> is_ok (replay env log) \<and>
     (\<forall>i. n \<le> i \<and> i < length (el_events log) \<and> \<not> is_append (ev_kind (el_events log ! i)) \<longrightarrow>
        checkpoint_legal env c log (Suc i))"

lemma auditable_step:
  assumes "n < length (el_events log)"
  shows "auditable env c log n \<longleftrightarrow>
    (is_append (ev_kind (el_events log ! n)) \<or> checkpoint_legal env c log (Suc n)) \<and> auditable env c log (Suc n)"
  using assms unfolding auditable_def by (metis Suc_leD Suc_leI le_neq_implies_less order_refl)

lemma audit_events_prefix:
  assumes "fst (log_base log) < u64_modulus" and "n \<le> length (el_events log)"
    and "log_ok (env_json env) (log_prefix log n)" and "replay env (log_prefix log n) = Inr s"
  shows "audit_events env c (log_prefix log n) s (drop n (el_events log)) = Inr k \<longleftrightarrow>
    k = length (el_events log) \<and> auditable env c log n"
  using assms(2-)
proof (induction "length (el_events log) - n" arbitrary: n s)
  case 0
  then have "log_prefix log n = log" by (simp add: prefix_all)
  with 0 show ?case by (auto simp: auditable_def)
next
  case (Suc m)
  then have n: "n < length (el_events log)" by simp
  note drop = Cons_nth_drop_Suc [OF n, symmetric]
  show ?case
  proof (cases "log_ok (env_json env) (log_prefix log (Suc n))")
    case False
    then have "\<not> auditable env c log n" using log_prefix_ok by (auto simp: auditable_def)
    with False show ?thesis
      by (auto simp: drop log_append_prefix [OF n assms(1) Suc.prems(2)])
  next
    case ok: True
    have app: "log_append (env_json env) (log_prefix log n) (el_events log ! n) = Inr (log_prefix log (Suc n))"
      using ok by (simp add: log_append_prefix [OF n assms(1) Suc.prems(2)])
    have into: "fold_into env s (log_prefix log (Suc n)) = replay env (log_prefix log (Suc n))"
      using replay_resume [of env "log_prefix log (Suc n)" n s] Suc.prems(3) by simp
    show ?thesis
    proof (cases "replay env (log_prefix log (Suc n))")
      case (Inl err)
      then have "\<not> auditable env c log n" by (auto simp: auditable_def is_ok_iff elim: replay_prefix [of _ _ _ "Suc n"])
      with Inl show ?thesis by (simp add: drop app into)
    next
      case (Inr s')
      have "checkpoint_legal env c log (Suc n) \<longleftrightarrow> is_ok (is_legal s' c)"
        by (simp add: checkpoint_legal_def Inr)
      with Suc.hyps(1) [of "Suc n" s'] Suc.hyps(2) n ok Inr show ?thesis
        by (auto simp: drop app into auditable_step [OF n] audit_legal_Inr)
    qed
  qed
qed

lemma audit_log_iff:
  assumes "fst (log_base log) < u64_modulus"
  shows "audit_log env log c = Inr k \<longleftrightarrow> k = length (el_events log) \<and> auditable env c log 0"
proof -
  obtain s where s: "replay env (log_prefix log 0) = Inr s" using replay_empty [of "log_prefix log 0" env] by auto
  have "log_ok (env_json env) (log_prefix log 0)" using assms by (simp add: log_ok_def)
  from audit_events_prefix [OF assms _ this s, of c k] s show ?thesis
    by (simp add: audit_log_def Let_def)
qed

end
