(* ===== verification/TxnLaws.thy ===== *)
theory TxnLaws
  imports AuditLaws
begin

text \<open>
  The executor as a whole: its requests as data, the invariant every request keeps (the log is framed, replays to
  the typed state the executor holds and passes the audit), what a commit releases and what a refusal leaves alone.
\<close>

section \<open>Requests\<close>

datatype ('p, 'c, 's) request =
    BindPort 'p
  | RecalibrateMargins u64 u64
  | ArmRegion u64
  | ResetRegion
  | AdmitRegion u64
  | Propose string u64
  | ProposeAs string u64 proposer
  | Snapshot
  | Generate
  | Validate u64 budget u64 u64 u64 u64
  | CommitEffect u64 "event_kind option" u64
  | CommitFenced u64 u64 "event_kind option" u64
  | AbortTxn
  | ValidateLedger ledger_command budget
  | CommitLedger u64 u64 ledger_command ledger_ports u64
  | ValidateSemantic "('c, 's) semantic_services" semantic_command budget "('c, 's) lent"
  | ValidateProjection semantic_event budget
  | CommitSemantic u64 u64 semantic_receipt
  | ValidateBranch branch_event source branch_ports budget
  | ValidateReturn "('c, 's) semantic_services" string candidate source branch_ports budget "('c, 's) lent"
  | CommitBranch u64 u64 branch_receipt branch_ports
  | ValidateSecurity security_event security_ports budget
  | CommitSecurity u64 u64 security_receipt security_ports

datatype reply = Granted | Refused | Outcome commit_outcome

fun granted :: "'e + 'a \<Rightarrow> reply" where
  "granted (Inl err) = Refused"
| "granted (Inr x) = Granted"

fun outcome_reply :: "'e + commit_outcome \<Rightarrow> reply" where
  "outcome_reply (Inl err) = Refused"
| "outcome_reply (Inr x) = Outcome x"

fun perform :: "kernel_env \<Rightarrow> 'p accounting_port \<Rightarrow> ('p, 'c, 's) request \<Rightarrow> 'p executor \<Rightarrow> 'p executor \<times> reply" where
  "perform env ops (BindPort p) e = (bind_port p e, Granted)"
| "perform env ops (RecalibrateMargins v d) e = map_prod id granted (recalibrate_margins ops v d e)"
| "perform env ops (ArmRegion c) e = (arm_region_accounting c e, Granted)"
| "perform env ops ResetRegion e = (reset_region_accounting e, Granted)"
| "perform env ops (AdmitRegion n) e = (admit_region_units n e, Granted)"
| "perform env ops (Propose op v) e = map_prod id granted (propose op v e)"
| "perform env ops (ProposeAs op v by) e = map_prod id granted (propose_as op v by e)"
| "perform env ops Snapshot e = map_prod id granted (snapshot e)"
| "perform env ops Generate e = map_prod id granted (generate e)"
| "perform env ops (Validate b bu m pre post n) e = map_prod id granted (validate ops b bu m pre post n e)"
| "perform env ops (CommitEffect v k b) e = map_prod id outcome_reply (executor_commit env v k b e)"
| "perform env ops (CommitFenced v l k b) e = map_prod id outcome_reply (commit_fenced env v l k b e)"
| "perform env ops AbortTxn e = map_prod id granted (txn_abort e)"
| "perform env ops (ValidateLedger c bu) e = map_prod id granted (validate_ledger env ops c bu e)"
| "perform env ops (CommitLedger v l c ports b) e = map_prod id outcome_reply (commit_ledger env v l c ports b e)"
| "perform env ops (ValidateSemantic sv c bu w) e = map_prod id granted (fst (validate_semantic env ops sv c bu e w))"
| "perform env ops (ValidateProjection ev bu) e = map_prod id granted (validate_projection env ops ev bu e)"
| "perform env ops (CommitSemantic v l r) e = map_prod id outcome_reply (commit_semantic env v l r e)"
| "perform env ops (ValidateBranch ev prin ports bu) e =
     map_prod id granted (validate_branch env ops ev prin ports bu e)"
| "perform env ops (ValidateReturn sv n c prin ports bu w) e =
     map_prod id granted (fst (validate_branch_return env ops sv n c prin ports bu e w))"
| "perform env ops (CommitBranch v l r ports) e = map_prod id outcome_reply (commit_branch env v l r ports e)"
| "perform env ops (ValidateSecurity ev ports bu) e = map_prod id granted (validate_security env ops ev ports bu e)"
| "perform env ops (CommitSecurity v l r ports) e = map_prod id outcome_reply (commit_security env v l r ports e)"

definition serve :: "kernel_env \<Rightarrow> 'p accounting_port \<Rightarrow> 'p executor \<Rightarrow> ('p, 'c, 's) request list \<Rightarrow> 'p executor" where
  "serve env ops e reqs = foldl (\<lambda>e req. fst (perform env ops req e)) e reqs"

fun transcript ::
  "kernel_env \<Rightarrow> 'p accounting_port \<Rightarrow> 'p executor \<Rightarrow> ('p, 'c, 's) request list \<Rightarrow> (('p, 'c, 's) request \<times> reply) list" where
  "transcript env ops e [] = []"
| "transcript env ops e (req # reqs) =
     (case perform env ops req e of (e', rep) \<Rightarrow> (req, rep) # transcript env ops e' reqs)"

section \<open>What a request may change\<close>

text \<open>The governed part of an executor: what a reader of the session can observe of its effects.\<close>

definition governed :: "'p executor \<Rightarrow> event_log \<times> typed_state \<times> u64 option" where
  "governed e = (ex_log e, ex_typed e, ex_contract_version e)"

text \<open>The part no request ever changes.\<close>

definition fixed :: "'p executor \<Rightarrow> u64 \<times> render_contract \<times> nat" where
  "fixed e = (ex_epoch e, ex_contract e, ex_landed_phase e)"

definition region :: "'p executor \<Rightarrow> u64 \<times> u64 option" where
  "region e = (ex_region_admitted e, ex_region_ceiling e)"

definition settled :: "'p executor \<Rightarrow> bool" where
  "settled e \<longleftrightarrow> ex_state e = TxnCommitted \<or> ex_state e = TxnAborted"

text \<open>A request is harmless when it changes nothing governed, keeps the current transaction and never reopens it.\<close>

definition harmless :: "'p executor \<Rightarrow> 'p executor \<Rightarrow> bool" where
  "harmless e e' \<longleftrightarrow>
     governed e' = governed e \<and> fixed e' = fixed e \<and> region e' = region e \<and>
     ex_current e' = ex_current e \<and> (settled e \<longrightarrow> settled e')"

lemmas harmless_defs = harmless_def governed_def fixed_def region_def settled_def

lemma harmless_refl [simp]: "harmless e e"
  by (simp add: harmless_def)

lemma harmless_trans: "harmless e e1 \<Longrightarrow> harmless e1 e2 \<Longrightarrow> harmless e e2"
  by (simp add: harmless_def)

lemma harmless_fields [simp]:
  "harmless e (e'\<lparr>ex_port := p\<rparr>) \<longleftrightarrow> harmless e e'"
  "harmless e (e'\<lparr>ex_proposed_by := by\<rparr>) \<longleftrightarrow> harmless e e'"
  "harmless e (e'\<lparr>ex_ledger_validation := lv\<rparr>) \<longleftrightarrow> harmless e e'"
  "harmless e (e'\<lparr>ex_semantic_validation := sv\<rparr>) \<longleftrightarrow> harmless e e'"
  "harmless e (e'\<lparr>ex_branch_validation := bv\<rparr>) \<longleftrightarrow> harmless e e'"
  "harmless e (e'\<lparr>ex_security_validation := xv\<rparr>) \<longleftrightarrow> harmless e e'"
  by (simp_all add: harmless_defs)

lemma committed_harmless [simp]: "harmless e (e\<lparr>ex_state := TxnCommitted\<rparr>)"
  by (simp add: harmless_defs)

lemma fail_harmless [simp, intro!]: "harmless e e' \<Longrightarrow> harmless e (txn_fail e')"
  by (auto simp: harmless_defs txn_fail_def)

lemma and_then_harmless:
  assumes "harmless e (fst m)" and "\<And>s x. m = (s, Inr x) \<Longrightarrow> harmless s (fst (f s x))"
  shows "harmless e (fst (and_then m f))"
proof -
  obtain s r where m: "m = (s, r)" by (cases m)
  with assms show ?thesis by (cases r) (auto intro: harmless_trans)
qed

lemma failing_fst: "fst (failing m) = (case snd m of Inl err \<Rightarrow> txn_fail (fst m) | Inr x \<Rightarrow> fst m)"
  by (cases m; cases "snd m") auto

lemma failing_snd [simp]: "snd (failing m) = snd m"
  by (cases m; cases "snd m") auto

lemma failing_harmless [simp, intro!]: "harmless e (fst m) \<Longrightarrow> harmless e (fst (failing m))"
  by (simp add: failing_fst split: sum.splits)

lemma advance_harmless [simp]: "harmless e (fst (txn_advance to e))"
  by (auto simp: txn_advance_def harmless_defs can_transition_def)

lemma propose_governed:
  "governed (fst (propose op v e)) = governed e" "fixed (fst (propose op v e)) = fixed e"
  "region (fst (propose op v e)) = region e"
  by (simp_all add: propose_def Let_def harmless_defs)

lemma propose_as_cases:
  obtains (denied) err where "propose_as op v by e = (e, Inl err)"
  | (refused) e1 err where "propose op v e = (e1, Inl err)" and "propose_as op v by e = (e1, Inl err)"
  | (granted) e1 t where "propose op v e = (e1, Inr t)" and "propose_as op v by e = (e1\<lparr>ex_proposed_by := Some by\<rparr>, Inr t)"
proof -
  obtain e1 r where p: "propose op v e = (e1, r)" by fastforce
  show ?thesis
  proof (cases "\<exists>err. propose_as op v by e = (e, Inl err)")
    case False
    then have "propose_as op v by e = and_then (propose op v e) (\<lambda>e1 t. (e1\<lparr>ex_proposed_by := Some by\<rparr>, Inr t))"
      by (auto simp: propose_as_def split: option.splits if_splits)
    with p show ?thesis by (cases r) (simp_all add: refused granted)
  qed (use denied in blast)
qed

lemma propose_as_governed:
  "governed (fst (propose_as op v by e)) = governed e" "fixed (fst (propose_as op v by e)) = fixed e"
  "region (fst (propose_as op v by e)) = region e"
  by (rule propose_as_cases [of op v "by" e]; use propose_governed [of op v e] in \<open>simp add: governed_def fixed_def region_def\<close>)+

lemma snapshot_harmless [simp]: "harmless e (fst (snapshot e))"
  by (auto simp: snapshot_def intro!: and_then_harmless)

lemma generate_harmless [simp]: "harmless e (fst (generate e))"
  by (auto simp: generate_def intro!: and_then_harmless)

lemma validate_harmless [simp]: "harmless e (fst (validate ops b bu m pre post n e))"
  by (auto simp: validate_def Let_def intro!: and_then_harmless split: option.splits)

lemma abort_harmless [simp]: "harmless e (fst (txn_abort e))"
  by (auto simp: txn_abort_def harmless_defs can_transition_def)

lemma validate_match_harmless:
  assumes "validate ops b bu m pre post n e = (e1, r)"
  shows "harmless e e1"
  using validate_harmless [of e ops b bu m pre post n] assms by simp

lemma validate_ledger_harmless [simp]: "harmless e (fst (validate_ledger env ops c bu e))"
  by (auto simp: validate_ledger_def Let_def dest: validate_match_harmless split: sum.splits option.splits prod.splits)

lemma semantic_event_harmless [simp]: "harmless e (fst (validate_semantic_event env ops ev bu e))"
  by (auto simp: validate_semantic_event_def Let_def intro!: and_then_harmless split: sum.splits prod.splits)
    (erule validate_match_harmless)+

lemma semantic_receipt_harmless [simp]: "harmless e (fst (semantic_receipt_for env ops ev bu e))"
  by (auto simp: semantic_receipt_for_def intro!: and_then_harmless)

lemma validate_semantic_harmless [simp]: "harmless e (fst (fst (validate_semantic env ops sv c bu e w)))"
  by (auto simp: validate_semantic_def intro!: and_then_harmless split: prod.splits)

lemma validate_projection_harmless [simp]: "harmless e (fst (validate_projection env ops ev bu e))"
  by (auto simp: validate_projection_def intro!: and_then_harmless)

lemma branch_receipt_harmless [simp]: "harmless e (fst (branch_receipt_for env ops ev prin bu e))"
  by (auto simp: branch_receipt_for_def Let_def dest: validate_match_harmless
    intro!: and_then_harmless split: sum.splits prod.splits)

lemma validate_branch_harmless [simp]: "harmless e (fst (validate_branch env ops ev prin ports bu e))"
  by (auto simp: validate_branch_def intro!: and_then_harmless)

lemma validate_return_harmless [simp]:
  "harmless e (fst (fst (validate_branch_return env ops sv n c prin ports bu e w)))"
  by (auto simp: validate_branch_return_def intro!: and_then_harmless split: prod.splits)

lemma validate_security_harmless [simp]: "harmless e (fst (validate_security env ops ev ports bu e))"
  by (auto simp: validate_security_def Let_def dest: validate_match_harmless
    intro!: and_then_harmless split: sum.splits prod.splits)

lemma recalibrate_harmless [simp]: "harmless e (fst (recalibrate_margins ops v d e))"
  by (simp add: recalibrate_margins_def split: option.splits sum.splits)

section \<open>What a commit does\<close>

definition released ::
  "kernel_env \<Rightarrow> u64 \<Rightarrow> event_kind option \<Rightarrow> u64 \<Rightarrow> 'p executor \<Rightarrow> 'p executor \<Rightarrow> bool" where
  "released env parent effect bound e e' \<longleftrightarrow>
     ex_state e = TxnValidated \<and> ex_state e' = TxnCommitted \<and>
     (\<exists>t. ex_current e = Some t \<and> tx_parent_version t = parent \<and> find_operation (tx_op t) \<noteq> None) \<and>
     is_ok (is_legal (ex_typed e) (ex_contract e)) \<and> region_admits e bound = Inr () \<and>
     (\<exists>staged. stage_effect env effect e = Inr staged \<and>
        ex_log e' = fst staged \<and> ex_typed e' = snd staged) \<and>
     region e' = (saturating_add (ex_region_admitted e) bound, ex_region_ceiling e) \<and> fixed e' = fixed e \<and>
     ex_current e' = ex_current e \<and>
     ex_contract_version e' = Some (rc_version (ex_contract e))"

lemma commit_checked_cases:
  assumes "commit_checked env parent effect bound e = (e', r)"
  obtains (refused) err where "r = Inl err" and "harmless e e'"
  | (rebased) "r = Inr RebaseNoOp" and "harmless e e'" and "ex_state e = TxnValidated" and "ex_state e' = TxnCommitted"
  | (applied) "r = Inr Applied" and "released env parent effect bound e e'"
proof (cases "can_transition (ex_state e) TxnCommitted")
  case False
  with assms show ?thesis by (auto simp: commit_checked_def intro: refused)
next
  case True
  then have st: "ex_state e = TxnValidated" by (cases "ex_state e") (simp_all add: can_transition_def)
  show ?thesis
  proof (cases "ex_current e")
    case None
    with True assms show ?thesis by (auto simp: commit_checked_def current_txn_def intro: refused)
  next
    case cur: (Some t)
    show ?thesis
    proof (cases "find_operation (tx_op t)")
      case None
      with True assms cur show ?thesis by (auto simp: commit_checked_def current_txn_def current_row_def intro: refused)
    next
      case (Some row)
      with True assms cur st show ?thesis
        by (auto simp: commit_checked_def current_txn_def current_row_def apply_commit_def released_def fixed_def region_def is_ok_iff
          split: sum.splits if_splits intro: refused rebased applied)
    qed
  qed
qed

text \<open>The commit a request asks for: the parent it names, the event it releases and the bound it is charged.\<close>

fun request_commit :: "('p, 'c, 's) request \<Rightarrow> (u64 \<times> event_kind option \<times> u64) option" where
  "request_commit (CommitEffect v k b) = Some (v, k, b)"
| "request_commit (CommitFenced v l k b) = Some (v, k, b)"
| "request_commit (CommitLedger v l c ports b) = Some (v, Some (LedgerKind c), b)"
| "request_commit (CommitSemantic v l r) = Some (v, Some (SemanticKind (sr_event r)), sr_bound r)"
| "request_commit (CommitBranch v l r ports) = Some (v, Some (BranchKind (rb_event r)), rb_bound r)"
| "request_commit (CommitSecurity v l r ports) = Some (v, Some (SecurityKind (rs_event r)), rs_bound r)"
| "request_commit req = None"

text \<open>The lease a commit request is checked against, where its entry point takes the clock.\<close>

fun request_lease :: "('p, 'c, 's) request \<Rightarrow> u64 option" where
  "request_lease (CommitFenced v l k b) = Some l"
| "request_lease (CommitLedger v l c ports b) = Some l"
| "request_lease (CommitSemantic v l r) = Some l"
| "request_lease (CommitBranch v l r ports) = Some l"
| "request_lease (CommitSecurity v l r ports) = Some l"
| "request_lease req = None"

text \<open>The validation on record for an event, with the bound it was validated at; an event of no governed family
  needs none, and pins are never a generic commit.\<close>

fun vouched :: "'p executor \<Rightarrow> event_kind \<Rightarrow> u64 \<Rightarrow> bool" where
  "vouched e (LedgerKind c) b = (ex_ledger_validation e = Some (c, b))"
| "vouched e (SemanticKind ev) b = (ex_semantic_validation e = Some (ev, b))"
| "vouched e (BranchKind ev) b = (ex_branch_validation e = Some (ev, b))"
| "vouched e (SecurityKind ev) b = (ex_security_validation e = Some (ev, b))"
| "vouched e (OperationCommit cls subject argument) b = (cls \<noteq> OpPin \<and> cls \<noteq> OpUnpin)"
| "vouched e k b = True"

fun receipt_family :: "event_kind \<Rightarrow> bool" where
  "receipt_family (LedgerKind c) = True"
| "receipt_family (SemanticKind ev) = True"
| "receipt_family (BranchKind ev) = True"
| "receipt_family (SecurityKind ev) = True"
| "receipt_family k = False"

text \<open>An event of a receipt family is released under the row of its own operation, proposed by a sanctioned
  principal, and with its ports' authentication.\<close>

definition row_matches :: "'p executor \<Rightarrow> event_kind \<Rightarrow> bool" where
  "row_matches e k \<longleftrightarrow> (\<exists>t. ex_current e = Some t \<and> operation_name k = Some (tx_op t))"

fun authentic :: "('p, 'c, 's) request \<Rightarrow> 'p executor \<Rightarrow> bool" where
  "authentic (CommitLedger v l c ports b) e = ledger_authenticated ports c"
| "authentic (CommitBranch v l r ports) e =
     (branch_scope (rb_event r) (rb_principal r) e = Inr () \<and>
      branch_authenticate (rb_event r) (rb_principal r) ports = Inr ())"
| "authentic (CommitSecurity v l r ports) e = security_authenticated ports (ts_security (ex_typed e)) (rs_event r)"
| "authentic req e = True"

definition release_licensed :: "('p, 'c, 's) request \<Rightarrow> 'p executor \<Rightarrow> event_kind option \<Rightarrow> u64 \<Rightarrow> bool" where
  "release_licensed req e effect b \<longleftrightarrow>
     (\<forall>k. effect = Some k \<longrightarrow> vouched e k b \<and> (receipt_family k \<longrightarrow> row_matches e k)) \<and>
     authentic req e \<and> (\<forall>l. request_lease req = Some l \<longrightarrow> l \<le> ex_epoch e)"

definition committed ::
  "kernel_env \<Rightarrow> ('p, 'c, 's) request \<Rightarrow> 'p executor \<Rightarrow> 'p executor \<Rightarrow> reply \<Rightarrow> bool" where
  "committed env req e e' rep \<longleftrightarrow>
     (if rep = Outcome Applied
      then (\<exists>v effect b. request_commit req = Some (v, effect, b) \<and> released env v effect b e e' \<and>
              release_licensed req e effect b)
      else harmless e e')"

lemma released_fields [simp]:
  "released env v k b e (e'\<lparr>ex_branch_validation := bv\<rparr>) \<longleftrightarrow> released env v k b e e'"
  "released env v k b e (e'\<lparr>ex_security_validation := xv\<rparr>) \<longleftrightarrow> released env v k b e e'"
  by (simp_all add: released_def fixed_def region_def)

text \<open>The same, for the pair an entry point returns, with a rule per construct the entry points are made of.\<close>

definition commits ::
  "kernel_env \<Rightarrow> ('p, 'c, 's) request \<Rightarrow> 'p executor \<Rightarrow> 'p executor \<times> ('e + commit_outcome) \<Rightarrow> bool" where
  "commits env req e er \<longleftrightarrow> committed env req e (fst er) (outcome_reply (snd er))"

lemma commits_refuse [simp]: "commits env req e (e', Inl err) \<longleftrightarrow> harmless e e'"
  by (simp add: commits_def committed_def)

lemma commits_failing [intro!]: "commits env req e er \<Longrightarrow> commits env req e (failing er)"
  by (cases er; cases "snd er") (auto simp: commits_def committed_def)

lemma commits_and_then [intro!]:
  "(\<And>x. m = Inr x \<Longrightarrow> commits env req e (f e x)) \<Longrightarrow> commits env req e (and_then (e, m) f)"
  by (cases m) auto

lemma commits_map_err:
  "commits env req e er \<Longrightarrow> commits env req e (fst er, map_err g (snd er))"
  by (cases er; cases "snd er") (auto simp: commits_def)

lemma commits_checked:
  assumes "request_commit req = Some (v, effect, b)" and "release_licensed req e effect b"
  shows "commits env req e (commit_checked env v effect b e)"
proof -
  obtain e' r where c: "commit_checked env v effect b e = (e', r)" by fastforce
  then show ?thesis
    by (cases rule: commit_checked_cases) (use assms c in \<open>auto simp: commits_def committed_def\<close>)
qed

lemma commits_checked_as:
  assumes "request_commit req = Some (v, effect, b)" and "release_licensed req e effect b"
  shows "commits env req e (case commit_checked env v effect b e of (e1, r) \<Rightarrow> (e1, map_err g r))"
  using commits_map_err [OF commits_checked [OF assms]] by (simp add: case_prod_beta)

lemma commits_fields [intro!]:
  "commits env req e er \<Longrightarrow> commits env req e (case er of (e1, r) \<Rightarrow> failing (e1\<lparr>ex_branch_validation := bv\<rparr>, r))"
  "commits env req e er \<Longrightarrow> commits env req e (case er of (e1, r) \<Rightarrow> failing (e1\<lparr>ex_security_validation := xv\<rparr>, r))"
  by (cases er; cases "snd er"; auto simp: commits_def committed_def)+

lemma commit_effect_commits: "commits env (CommitEffect v effect b) e (executor_commit env v effect b e)"
proof (cases "current_phase e 8 \<or> effect_matches security_governed effect \<or> current_phase e 6 \<or>
    effect_matches semantic_governed effect \<or> current_phase e 5 \<or> effect_matches ledger_governed effect")
  case True
  then show ?thesis by (auto simp: executor_commit_def executor_commit_outcome_def)
next
  case False
  have "release_licensed (CommitEffect v effect b) e effect b"
  proof (cases effect)
    case (Some k)
    with False show ?thesis by (cases k) (auto simp: release_licensed_def effect_matches_def)
  qed (auto simp: release_licensed_def)
  with False show ?thesis
    by (auto simp: executor_commit_def executor_commit_outcome_def intro: commits_checked)
qed

lemma commit_fenced_commits: "commits env (CommitFenced v l effect b) e (commit_fenced env v l effect b e)"
  using commit_effect_commits [of env v effect b e]
  by (auto simp: commit_fenced_def commits_def committed_def release_licensed_def split: if_splits)

lemma commit_ledger_commits: "commits env (CommitLedger v l c ports b) e (commit_ledger env v l c ports b e)"
proof (cases "ex_ledger_validation e = Some (c, b) \<and> check_ledger_command l c ports e = Inr ()")
  case True
  then have "release_licensed (CommitLedger v l c ports b) e (Some (LedgerKind c)) b"
    by (auto simp: release_licensed_def check_ledger_command_def row_matches_def ledger_authenticate_def
      split: if_splits)
  with True show ?thesis by (auto simp: commit_ledger_def intro!: commits_checked_as split: sum.splits)
qed (auto simp: commit_ledger_def split: sum.splits)

lemma commit_semantic_commits: "commits env (CommitSemantic v l r) e (commit_semantic env v l r e)"
  by (auto simp: commit_semantic_def release_licensed_def check_semantic_operation_def row_matches_def
    intro!: commits_checked_as split: sum.splits)

lemma commit_branch_commits: "commits env (CommitBranch v l r ports) e (commit_branch env v l r ports e)"
  unfolding commit_branch_def
  by (intro commits_fields commits_and_then)
    (auto simp: release_licensed_def branch_current_def row_matches_def intro!: commits_checked_as split: option.splits)

lemma commit_security_commits: "commits env (CommitSecurity v l r ports) e (commit_security env v l r ports e)"
  unfolding commit_security_def
  by (intro commits_fields commits_and_then)
    (auto simp: release_licensed_def authenticate_security_def row_matches_def
      intro!: commits_checked_as split: option.splits if_splits)

lemma granted_not_applied [simp]: "granted r \<noteq> Outcome x"
  by (cases r) simp_all

lemma granted_not_refused [simp]: "granted r \<noteq> Refused \<longleftrightarrow> granted r = Granted"
  by (cases r) simp_all

lemma commits_reply:
  "commits env req e er \<Longrightarrow> map_prod id outcome_reply er = (e', rep) \<Longrightarrow> committed env req e e' rep"
  by (cases er) (simp add: commits_def)

lemma perform_committed:
  assumes "perform env ops req e = (e', rep)" and "request_commit req \<noteq> None"
  shows "committed env req e e' rep"
  using assms
  by (cases req)
    (simp_all add: commits_reply [OF commit_effect_commits] commits_reply [OF commit_fenced_commits]
      commits_reply [OF commit_ledger_commits] commits_reply [OF commit_semantic_commits]
      commits_reply [OF commit_branch_commits] commits_reply [OF commit_security_commits])

fun is_proposal :: "('p, 'c, 's) request \<Rightarrow> bool" where
  "is_proposal (Propose op v) = True"
| "is_proposal (ProposeAs op v by) = True"
| "is_proposal req = False"

fun is_region :: "('p, 'c, 's) request \<Rightarrow> bool" where
  "is_region (ArmRegion c) = True"
| "is_region ResetRegion = True"
| "is_region (AdmitRegion n) = True"
| "is_region req = False"

lemma perform_harmless:
  assumes "perform env ops req e = (e', rep)" and "request_commit req = None" and "\<not> is_proposal req" and "\<not> is_region req"
  shows "harmless e e'"
  using assms validate_semantic_harmless validate_return_harmless
  by (cases req) (auto simp: bind_port_def map_prod_def split_beta)

lemma perform_other:
  assumes "perform env ops req e = (e', rep)" and "request_commit req = None"
  shows "governed e' = governed e" and "fixed e' = fixed e" and "rep = Granted \<or> rep = Refused"
    and "\<not> is_region req \<Longrightarrow> region e' = region e"
proof -
  have h: "harmless e e' \<or> is_proposal req \<or> is_region req" using perform_harmless [OF assms] by blast
  then have "governed e' = governed e \<and> fixed e' = fixed e \<and> (\<not> is_region req \<longrightarrow> region e' = region e)"
    using assms propose_governed [of _ _ e] propose_as_governed [of _ _ _ e]
    by (cases req) (auto simp: harmless_defs arm_region_accounting_def reset_region_accounting_def admit_region_units_def map_prod_def split_beta)
  then show "governed e' = governed e" "fixed e' = fixed e"
    and "\<not> is_region req \<Longrightarrow> region e' = region e" by auto
  show "rep = Granted \<or> rep = Refused"
    using assms by (cases req) (auto simp: map_prod_def split_beta)
qed

section \<open>What the writer appends\<close>

lemma write_event_accepted:
  assumes "follows sq log" and "log_ok (env_json env) log"
  obtains ev sq' where "write_event env k (sq, log) = Inr (sq', log\<lparr>el_events := el_events log @ [ev]\<rparr>)"
    and "ev_kind ev = k" and "follows sq' (log\<lparr>el_events := el_events log @ [ev]\<rparr>)"
    and "log_ok (env_json env) (log\<lparr>el_events := el_events log @ [ev]\<rparr>)"
proof -
  let ?at = "sequencer_append_at (env_json env) sq k (el_store_version log) (sq_recorded_unix_ms sq)"
  obtain ev sq' where at: "?at = (ev, sq')" by (cases ?at)
  have base: "fst (log_base log) < u64_modulus" using assms(2) by (simp add: log_ok_def)
  from sequencer_append_accepted [OF assms(1) base at] obtain log'
    where app: "log_append (env_json env) log ev = Inr log'" and f: "follows sq' log'" by blast
  moreover from app have "log' = log\<lparr>el_events := el_events log @ [ev]\<rparr>" by (simp add: log_append_Inr)
  moreover from at have "ev_kind ev = k" by (auto simp: sequencer_append_at_def Let_def)
  ultimately show ?thesis using log_append_ok [OF assms(2) app]
    by (intro that) (simp_all add: write_event_def sequencer_append_def at)
qed

text \<open>The events an effect puts into the log: an admission into a session that has no scope yet opens it first.\<close>

definition scope_missing :: "typed_state \<Rightarrow> bool" where
  "scope_missing s \<longleftrightarrow> \<not> is_ok (scope_state_of (ts_scopes s) SESSION_SCOPE)"

definition released_kinds :: "typed_state \<Rightarrow> event_kind option \<Rightarrow> event_kind list" where
  "released_kinds s effect =
     (case effect of
        None \<Rightarrow> []
      | Some k \<Rightarrow>
          if is_admission k \<and> scope_missing s then [OperationCommit OpScopeOpen SESSION_SCOPE 0, k] else [k])"

definition kinds :: "event_log \<Rightarrow> event_kind list" where
  "kinds log = map ev_kind (el_events log)"

lemma open_session_cases:
  assumes "open_session env s k (sq, log) = Inr w" and "follows sq log" and "log_ok (env_json env) log"
  obtains (ready) "w = (sq, log)" and "released_kinds s (Some k) = [k]"
  | (opened) ev sq' where "w = (sq', log\<lparr>el_events := el_events log @ [ev]\<rparr>)"
      and "ev_kind ev = OperationCommit OpScopeOpen SESSION_SCOPE 0"
      and "follows sq' (log\<lparr>el_events := el_events log @ [ev]\<rparr>)"
      and "log_ok (env_json env) (log\<lparr>el_events := el_events log @ [ev]\<rparr>)"
      and "released_kinds s (Some k) = [OperationCommit OpScopeOpen SESSION_SCOPE 0, k]"
proof (cases "is_admission k \<and> scope_missing s")
  case True
  from write_event_accepted [OF assms(2,3), of "OperationCommit OpScopeOpen SESSION_SCOPE 0"] obtain ev sq'
    where "write_event env (OperationCommit OpScopeOpen SESSION_SCOPE 0) (sq, log) =
        Inr (sq', log\<lparr>el_events := el_events log @ [ev]\<rparr>)"
      and "ev_kind ev = OperationCommit OpScopeOpen SESSION_SCOPE 0"
      and "follows sq' (log\<lparr>el_events := el_events log @ [ev]\<rparr>)"
      and "log_ok (env_json env) (log\<lparr>el_events := el_events log @ [ev]\<rparr>)" .
  with True assms(1) show ?thesis
    by (intro opened) (auto simp: open_session_def scope_missing_def is_ok_iff released_kinds_def split: sum.splits)
next
  case False
  with assms(1) show ?thesis
    by (intro ready) (auto simp: open_session_def scope_missing_def released_kinds_def split: sum.splits if_splits)
qed

lemma append_effect_writes:
  assumes "append_effect env k e = Inr (log', s')" and "log_ok (env_json env) (ex_log e)"
  obtains es where "log' = (ex_log e)\<lparr>el_events := el_events (ex_log e) @ es\<rparr>"
    and "map ev_kind es = released_kinds (ex_typed e) (Some k)"
    and "log_ok (env_json env) log'" and "fold_into env (ex_typed e) log' = Inr s'"
proof -
  let ?sq = "sequencer_continuing (ex_log e) (ex_epoch e) WRITER_CLOCK"
  from assms(1) obtain w w' where w: "open_session env (ex_typed e) k (?sq, ex_log e) = Inr w"
    and w': "write_event env k w = Inr w'" "snd w' = log'" and fold: "fold_into env (ex_typed e) log' = Inr s'"
    by (auto simp: append_effect_def writer_for_def)
  from w follows_continuing assms(2) show ?thesis
  proof (cases rule: open_session_cases)
    case ready
    from write_event_accepted [OF follows_continuing assms(2), of k "ex_epoch e" WRITER_CLOCK] obtain ev sq'
      where "write_event env k (?sq, ex_log e) = Inr (sq', (ex_log e)\<lparr>el_events := el_events (ex_log e) @ [ev]\<rparr>)"
        and "ev_kind ev = k"
        and "log_ok (env_json env) ((ex_log e)\<lparr>el_events := el_events (ex_log e) @ [ev]\<rparr>)" .
    with ready w' fold show ?thesis by (intro that [of "[ev]"]) auto
  next
    case (opened o1 sq1)
    obtain ev sq' where
      "write_event env k w = Inr (sq', (ex_log e)\<lparr>el_events := (el_events (ex_log e) @ [o1]) @ [ev]\<rparr>)"
      and "ev_kind ev = k"
      and "log_ok (env_json env) ((ex_log e)\<lparr>el_events := (el_events (ex_log e) @ [o1]) @ [ev]\<rparr>)"
      by (rule write_event_accepted [OF opened(3,4), of k]) (simp add: opened(1))
    with opened w' fold show ?thesis by (intro that [of "[o1, ev]"]) auto
  qed
qed

section \<open>The invariant\<close>

definition executor_ok :: "kernel_env \<Rightarrow> 'p executor \<Rightarrow> bool" where
  "executor_ok env e \<longleftrightarrow>
     log_ok (env_json env) (ex_log e) \<and> replay env (ex_log e) = Inr (ex_typed e) \<and>
     auditable env (ex_contract e) (ex_log e) 0"

lemma prefix_extended:
  "n \<le> length (el_events log) \<Longrightarrow> log_prefix (log\<lparr>el_events := el_events log @ es\<rparr>) n = log_prefix log n"
  by (simp add: log_prefix_def)

lemma replay_extended:
  assumes "replay env log = Inr s"
  shows "fold_into env s (log\<lparr>el_events := el_events log @ es\<rparr>) = replay env (log\<lparr>el_events := el_events log @ es\<rparr>)"
  by (rule replay_resume [where n = "length (el_events log)"]) (simp add: prefix_extended prefix_all assms)

lemma checkpoint_extended:
  "n \<le> length (el_events log) \<Longrightarrow>
     checkpoint_legal env c (log\<lparr>el_events := el_events log @ es\<rparr>) n \<longleftrightarrow> checkpoint_legal env c log n"
  by (simp add: checkpoint_legal_def prefix_extended)

lemma auditable_extended:
  assumes "auditable env c log 0" and "log_ok (env_json env) (log\<lparr>el_events := el_events log @ es\<rparr>)"
    and "is_ok (replay env (log\<lparr>el_events := el_events log @ es\<rparr>))"
    and "\<And>i. length (el_events log) \<le> i \<Longrightarrow> i < length (el_events log) + length es \<Longrightarrow>
      checkpoint_legal env c (log\<lparr>el_events := el_events log @ es\<rparr>) (Suc i)"
  shows "auditable env c (log\<lparr>el_events := el_events log @ es\<rparr>) 0"
proof -
  have "checkpoint_legal env c (log\<lparr>el_events := el_events log @ es\<rparr>) (Suc i)"
    if "i < length (el_events log) + length es" and "\<not> is_append (ev_kind ((el_events log @ es) ! i))" for i
  proof (cases "i < length (el_events log)")
    case True
    with that(2) assms(1) show ?thesis
      by (simp add: checkpoint_extended auditable_def nth_append)
  qed (use that(1) assms(4) in simp)
  with assms(2,3) show ?thesis by (auto simp: auditable_def)
qed

lemma first_some_cong: "(\<And>x. x \<in> set xs \<Longrightarrow> f x = g x) \<Longrightarrow> first_some f xs = first_some g xs"
  by (induction xs) (auto split: option.splits)

lemma is_legal_cong:
  assumes "ts_ir s = ts_ir s'" "ts_policies s = ts_policies s'" "ts_pins s = ts_pins s'" "ts_quoting s = ts_quoting s'"
  shows "is_legal s c = is_legal s' c"
proof -
  have floor: "check_floor s c = check_floor s' c" unfolding check_floor_def assms ..
  have "snd rule s c = snd rule s' c" if "rule \<in> set RULES" for rule
    using that assms floor
    by (auto simp: RULES_def check_pairing_def check_ordering_def check_placeholder_def check_region_budget_def
      check_profile_budget_def projection_units_def check_pin_def check_quoting_def)
  then have "first_some (\<lambda>rule. snd rule s c) RULES = first_some (\<lambda>rule. snd rule s' c) RULES"
    by (rule first_some_cong)
  then show ?thesis by (simp add: is_legal_def)
qed

text \<open>Opening a scope is invisible to the legality gate.\<close>

lemma scope_open_legal:
  assumes "replay env log = Inr s" and "replay env (log\<lparr>el_events := el_events log @ [ev]\<rparr>) = Inr s1"
    and "ev_kind ev = OperationCommit OpScopeOpen subject argument"
  shows "is_legal s1 c = is_legal s c"
proof -
  from fold_log_Inr [OF assms(1)] obtain s0
    where r0: "run_steps (fold_step env) (genesis IDLENESS_WINDOW (el_store_version log)) (el_events log) = Inr s0"
      and s: "s = s0\<lparr>ts_state_hash := ts_state_hash s\<rparr>" .
  from fold_log_Inr [OF assms(2)] obtain s2
    where r2: "run_steps (fold_step env) (genesis IDLENESS_WINDOW (el_store_version log)) (el_events log @ [ev]) = Inr s2"
      and s1: "s1 = s2\<lparr>ts_state_hash := ts_state_hash s1\<rparr>" by auto
  from r0 r2 have "fold_step env s0 ev = Inr s2" by (simp add: run_steps_append)
  then have "ts_ir s2 = ts_ir s0 \<and> ts_policies s2 = ts_policies s0 \<and> ts_pins s2 = ts_pins s0 \<and> ts_quoting s2 = ts_quoting s0"
    by (auto simp: fold_step_Inr apply_event_def assms(3) scope_open_op_def commit_to_Inr)
  moreover have "is_legal s c = is_legal s0 c" by (subst s) (rule is_legal_cong; simp)
  moreover have "is_legal s1 c = is_legal s2 c" by (subst s1) (rule is_legal_cong; simp)
  ultimately show ?thesis by (metis is_legal_cong)
qed

text \<open>Staging an effect on a legal executor: the audit refuses exactly an illegal projection, and what it
  accepts keeps the invariant.\<close>

lemma append_effect_replays:
  assumes "executor_ok env e" and "append_effect env k e = Inr (log', s')"
  shows "log_ok (env_json env) log'" and "replay env log' = Inr s'"
    and "audit_tip env log' s' (ex_contract e) = audit_legal s' (ex_contract e)"
proof -
  from assms(1) have ok: "log_ok (env_json env) (ex_log e)" and rp: "replay env (ex_log e) = Inr (ex_typed e)"
    by (simp_all add: executor_ok_def)
  from append_effect_writes [OF assms(2) ok] obtain es
    where log': "log' = (ex_log e)\<lparr>el_events := el_events (ex_log e) @ es\<rparr>"
      and l: "log_ok (env_json env) log'" and f: "fold_into env (ex_typed e) log' = Inr s'" .
  from l show "log_ok (env_json env) log'" .
  from f replay_extended [OF rp, of es] show r: "replay env log' = Inr s'" by (simp add: log')
  from audit_tip_replayed [OF l r] show "audit_tip env log' s' (ex_contract e) = audit_legal s' (ex_contract e)" .
qed

lemma stage_effect_iff:
  assumes "executor_ok env e"
  shows "stage_effect env (Some k) e =
    res_bind (append_effect env k e) (\<lambda>staged.
      map_err (\<lambda>v. AuditFailed (AuditLegality v)) (res_bind (is_legal (snd staged) (ex_contract e)) (\<lambda>_. Inr staged)))"
proof (cases "append_effect env k e")
  case (Inr staged)
  then have "append_effect env k e = Inr (fst staged, snd staged)" by simp
  from append_effect_replays(3) [OF assms this] Inr show ?thesis
    by (cases "is_legal (snd staged) (ex_contract e)") (simp_all add: stage_effect_def audit_legal_def)
qed (simp add: stage_effect_def)

lemma stage_effect_ok:
  assumes ok: "executor_ok env e" and legal: "is_ok (is_legal (ex_typed e) (ex_contract e))"
    and stage: "stage_effect env effect e = Inr (log', s')"
  shows "log_ok (env_json env) log' \<and> replay env log' = Inr s' \<and> auditable env (ex_contract e) log' 0"
    and "kinds log' = kinds (ex_log e) @ released_kinds (ex_typed e) effect"
    and "effect \<noteq> None \<Longrightarrow> is_ok (is_legal s' (ex_contract e))"
proof -
  have "(log_ok (env_json env) log' \<and> replay env log' = Inr s' \<and> auditable env (ex_contract e) log' 0) \<and>
    kinds log' = kinds (ex_log e) @ released_kinds (ex_typed e) effect \<and>
    (effect \<noteq> None \<longrightarrow> is_ok (is_legal s' (ex_contract e)))"
  proof (cases effect)
    case None
    with ok stage show ?thesis by (simp add: stage_effect_def executor_ok_def released_kinds_def)
  next
    case (Some k)
    let ?log = "ex_log e" let ?c = "ex_contract e"
    from ok have l: "log_ok (env_json env) ?log" and rp: "replay env ?log = Inr (ex_typed e)"
      and au: "auditable env ?c ?log 0" by (simp_all add: executor_ok_def)
    from stage Some have app: "append_effect env k e = Inr (log', s')" and tip: "is_ok (is_legal s' ?c)"
      by (auto simp: stage_effect_iff [OF ok] is_ok_iff)
    from append_effect_writes [OF app l] obtain es where log': "log' = ?log\<lparr>el_events := el_events ?log @ es\<rparr>"
      and ks: "map ev_kind es = released_kinds (ex_typed e) (Some k)" and l': "log_ok (env_json env) log'" .
    note rp' = append_effect_replays(2) [OF ok app]
    have "checkpoint_legal env ?c log' (Suc i)"
      if i: "length (el_events ?log) \<le> i" "i < length (el_events ?log) + length es" for i
    proof (cases "Suc i = length (el_events ?log) + length es")
      case True
      then have "log_prefix log' (Suc i) = log'" by (intro prefix_all) (simp add: log')
      with rp' tip show ?thesis by (simp add: checkpoint_legal_def)
    next
      case False
      with i have "1 < length es" by linarith
      with ks obtain o1 ev where es: "es = [o1, ev]" and o1: "ev_kind o1 = OperationCommit OpScopeOpen SESSION_SCOPE 0"
        by (auto simp: released_kinds_def split: if_splits)
      with i False have "i = length (el_events ?log)" by simp
      then have p: "log_prefix log' (Suc i) = ?log\<lparr>el_events := el_events ?log @ [o1]\<rparr>"
        by (simp add: log_prefix_def log' es)
      from replay_prefix [OF rp', of "Suc i"] obtain s1 where "replay env (log_prefix log' (Suc i)) = Inr s1" .
      with scope_open_legal [OF rp _ o1, of s1 ?c] legal show ?thesis by (simp add: checkpoint_legal_def p)
    qed
    then have "auditable env ?c log' 0"
      using auditable_extended [OF au, of es] l' rp' by (simp add: log')
    moreover have "kinds log' = kinds ?log @ released_kinds (ex_typed e) (Some k)" by (simp add: kinds_def log' ks)
    ultimately show ?thesis using l' rp' tip Some by simp
  qed
  then show "log_ok (env_json env) log' \<and> replay env log' = Inr s' \<and> auditable env (ex_contract e) log' 0"
    and "kinds log' = kinds (ex_log e) @ released_kinds (ex_typed e) effect"
    and "effect \<noteq> None \<Longrightarrow> is_ok (is_legal s' (ex_contract e))" by simp_all
qed

lemma released_ok:
  assumes "executor_ok env e" and "released env v effect b e e'"
  shows "executor_ok env e'" and "kinds (ex_log e') = kinds (ex_log e) @ released_kinds (ex_typed e) effect"
    and "effect \<noteq> None \<Longrightarrow> is_ok (is_legal (ex_typed e') (ex_contract e'))"
proof -
  from assms(2) have "is_ok (is_legal (ex_typed e) (ex_contract e))"
    and "stage_effect env effect e = Inr (ex_log e', ex_typed e')" and "ex_contract e' = ex_contract e"
    by (auto simp: released_def fixed_def)
  with stage_effect_ok [OF assms(1)] show "executor_ok env e'"
    and "kinds (ex_log e') = kinds (ex_log e) @ released_kinds (ex_typed e) effect"
    and "effect \<noteq> None \<Longrightarrow> is_ok (is_legal (ex_typed e') (ex_contract e'))"
    by (simp_all add: executor_ok_def)
qed

lemma executor_ok_governed: "executor_ok env e \<Longrightarrow> governed e' = governed e \<Longrightarrow> fixed e' = fixed e \<Longrightarrow> executor_ok env e'"
  by (simp add: executor_ok_def governed_def fixed_def)

lemma perform_ok:
  assumes "executor_ok env e" and "perform env ops req e = (e', rep)"
  shows "executor_ok env e'" and "fixed e' = fixed e"
proof -
  have "executor_ok env e' \<and> fixed e' = fixed e"
  proof (cases "request_commit req = None")
    case True
    with perform_other [OF assms(2)] assms(1) show ?thesis by (auto intro: executor_ok_governed)
  next
    case False
    from perform_committed [OF assms(2) this] assms(1) show ?thesis
      by (auto simp: committed_def released_def harmless_def intro: released_ok executor_ok_governed split: if_splits)
  qed
  then show "executor_ok env e'" and "fixed e' = fixed e" by simp_all
qed

lemma serve_Cons [simp]: "serve env ops e (req # reqs) = serve env ops (fst (perform env ops req e)) reqs"
  by (simp add: serve_def)

lemma serve_Nil [simp]: "serve env ops e [] = e"
  by (simp add: serve_def)

lemma serve_ok: "executor_ok env e \<Longrightarrow> executor_ok env (serve env ops e reqs) \<and> fixed (serve env ops e reqs) = fixed e"
proof (induction reqs arbitrary: e)
  case (Cons req reqs)
  obtain e' rep where p: "perform env ops req e = (e', rep)" by fastforce
  from perform_ok [OF Cons.prems p] Cons.IH [of e'] show ?case by (simp add: p)
qed simp

lemma auditable_empty: "el_events log = [] \<Longrightarrow> fst (log_base log) < u64_modulus \<Longrightarrow> auditable env c log 0"
  using replay_empty [of log env] by (auto simp: auditable_def log_ok_def is_ok_iff)

lemma executor_new_ok: "executor_new env epoch c = Inr e \<Longrightarrow> executor_ok env e"
  by (auto simp: executor_new_def executor_ok_def log_new_def log_base_def FIRST_SEQUENCE_def Let_def log_ok_def
    intro!: auditable_empty split: sum.splits)

lemma executor_resuming_ok:
  assumes "executor_resuming env epoch n d c = Inr e" and "n < u64_modulus"
  shows "executor_ok env e"
proof -
  from assms(1) obtain e0 where e0: "executor_new env epoch c = Inr e0" and e: "e = e0\<lparr>ex_log := log_resuming V2 n d\<rparr>"
    by (auto simp: executor_resuming_def)
  from e0 have "replay env (log_new V2) = Inr (ex_typed e0)" by (auto simp: executor_new_def Let_def split: sum.splits)
  moreover have "replay env (log_resuming V2 n d) = replay env (log_new V2)"
    by (simp add: replay_fold_into fold_into_def fold_from_def log_resuming_def log_new_def)
  ultimately show ?thesis using assms(2)
    by (auto simp: executor_ok_def e log_ok_def log_resuming_def log_base_def intro!: auditable_empty)
qed

section \<open>Runs\<close>

text \<open>A proposal is one licence to release: it is spent by the commit that applies it.\<close>

definition licence :: "'p executor \<Rightarrow> nat" where
  "licence e = (if settled e \<or> ex_current e = None then 0 else 1)"

definition applications :: "(('p, 'c, 's) request \<times> reply) list \<Rightarrow> nat" where
  "applications tr = length (filter (\<lambda>(req, rep). rep = Outcome Applied) tr)"

definition proposals :: "(('p, 'c, 's) request \<times> reply) list \<Rightarrow> nat" where
  "proposals tr = length (filter (\<lambda>(req, rep). is_proposal req \<and> rep = Granted) tr)"

lemma licence_le: "licence e \<le> 1"
  by (simp add: licence_def)

lemma harmless_licence: "harmless e e' \<Longrightarrow> licence e' \<le> licence e"
  by (auto simp: harmless_def licence_def)

lemma propose_refused: "propose op v e = (e', Inl err) \<Longrightarrow> e' = e"
  by (auto simp: propose_def Let_def split: if_splits)

lemma perform_licence:
  assumes "perform env ops req e = (e', rep)"
  shows "applications [(req, rep)] + licence e' \<le> licence e + proposals [(req, rep)]"
proof (cases "request_commit req = None")
  case False
  from perform_committed [OF assms this] show ?thesis
    by (auto simp: committed_def released_def applications_def proposals_def licence_def settled_def
      dest: harmless_licence [unfolded licence_def settled_def] split: if_splits)
next
  case True
  with perform_other(3) [OF assms] have rep: "rep = Granted \<or> rep = Refused" by simp
  have "licence e' \<le> licence e" if "rep = Refused \<or> \<not> is_proposal req"
  proof (cases "is_region req \<or> is_proposal req")
    case False
    with perform_harmless [OF assms True] show ?thesis by (simp add: harmless_licence)
  next
    case t: True
    show ?thesis
    proof (cases "is_region req")
      case True
      with assms show ?thesis
        by (cases req) (auto simp: arm_region_accounting_def reset_region_accounting_def admit_region_units_def
          licence_def settled_def)
    next
      case False
      with t that have "is_proposal req" "rep = Refused" by auto
      then have "e' = e"
      proof (cases req)
        case (Propose op v)
        with assms \<open>rep = Refused\<close> show ?thesis
          by (cases "propose op v e"; cases "snd (propose op v e)") (auto dest: propose_refused)
      next
        case (ProposeAs op v "by")
        with assms \<open>rep = Refused\<close> propose_refused [of op v e] show ?thesis
          by (cases rule: propose_as_cases [of op v "by" e]) auto
      qed simp_all
      then show ?thesis by simp
    qed
  qed
  with rep licence_le [of e'] show ?thesis by (auto simp: applications_def proposals_def)
qed

lemma serve_licence:
  "applications (transcript env ops e reqs) + licence (serve env ops e reqs) \<le> licence e + proposals (transcript env ops e reqs)"
proof (induction reqs arbitrary: e)
  case (Cons req reqs)
  obtain e' rep where p: "perform env ops req e = (e', rep)" by fastforce
  from perform_licence [OF p] Cons.IH [of e'] show ?case
    by (simp add: p applications_def proposals_def split: if_splits)
qed (simp add: applications_def proposals_def)

text \<open>What the applied commits of a run were charged.\<close>

definition charges :: "(('p, 'c, 's) request \<times> reply) list \<Rightarrow> u64 list" where
  "charges tr =
     concat (map (\<lambda>(req, rep).
       if rep = Outcome Applied then (case request_commit req of None \<Rightarrow> [] | Some (v, k, b) \<Rightarrow> [b]) else []) tr)"

lemma perform_region:
  assumes "perform env ops req e = (e', rep)" and "\<not> is_region req"
  shows "ex_region_ceiling e' = ex_region_ceiling e"
    and "ex_region_admitted e' = foldl saturating_add (ex_region_admitted e) (charges [(req, rep)])"
    and "ex_region_ceiling e = Some c \<Longrightarrow> ex_region_admitted e \<le> c \<Longrightarrow> ex_region_admitted e' \<le> c"
proof -
  have "ex_region_ceiling e' = ex_region_ceiling e \<and>
    ex_region_admitted e' = foldl saturating_add (ex_region_admitted e) (charges [(req, rep)]) \<and>
    (ex_region_ceiling e = Some c \<and> ex_region_admitted e \<le> c \<longrightarrow> ex_region_admitted e' \<le> c)"
  proof (cases "request_commit req = None")
    case True
    with perform_other [OF assms(1)] assms(2) show ?thesis by (auto simp: region_def charges_def)
  next
    case False
    from perform_committed [OF assms(1) this] show ?thesis
      by (auto simp: committed_def released_def harmless_def region_def charges_def region_admits_def Let_def
        split: if_splits)
  qed
  then show "ex_region_ceiling e' = ex_region_ceiling e"
    and "ex_region_admitted e' = foldl saturating_add (ex_region_admitted e) (charges [(req, rep)])"
    and "ex_region_ceiling e = Some c \<Longrightarrow> ex_region_admitted e \<le> c \<Longrightarrow> ex_region_admitted e' \<le> c" by auto
qed

lemma charges_Cons: "charges (x # tr) = charges [x] @ charges tr"
  by (simp add: charges_def)

lemma serve_region:
  assumes "list_all (\<lambda>req. \<not> is_region req) reqs"
  shows "ex_region_ceiling (serve env ops e reqs) = ex_region_ceiling e"
    and "ex_region_admitted (serve env ops e reqs) =
      foldl saturating_add (ex_region_admitted e) (charges (transcript env ops e reqs))"
    and "ex_region_ceiling e = Some c \<Longrightarrow> ex_region_admitted e \<le> c \<Longrightarrow> ex_region_admitted (serve env ops e reqs) \<le> c"
proof -
  have "ex_region_ceiling (serve env ops e reqs) = ex_region_ceiling e \<and>
    ex_region_admitted (serve env ops e reqs) = foldl saturating_add (ex_region_admitted e) (charges (transcript env ops e reqs)) \<and>
    (ex_region_ceiling e = Some c \<and> ex_region_admitted e \<le> c \<longrightarrow> ex_region_admitted (serve env ops e reqs) \<le> c)"
    using assms
  proof (induction reqs arbitrary: e)
    case (Cons req reqs)
    obtain e' rep where p: "perform env ops req e = (e', rep)" by fastforce
    from Cons.prems have n: "\<not> is_region req" by simp
    note step = perform_region [OF p n]
    from Cons.IH [of e'] Cons.prems step show ?case by (auto simp: p charges_Cons [of "(req, rep)" "transcript env ops e' reqs"])
  qed (simp add: charges_def)
  then show "ex_region_ceiling (serve env ops e reqs) = ex_region_ceiling e"
    and "ex_region_admitted (serve env ops e reqs) =
      foldl saturating_add (ex_region_admitted e) (charges (transcript env ops e reqs))"
    and "ex_region_ceiling e = Some c \<Longrightarrow> ex_region_admitted e \<le> c \<Longrightarrow> ex_region_admitted (serve env ops e reqs) \<le> c"
    by auto
qed

section \<open>Fencing\<close>

lemma and_then_pure: "and_then (e, m) f = (case m of Inl err \<Rightarrow> (e, Inl err) | Inr x \<Rightarrow> f e x)"
  by (cases m) simp_all

lemma txn_fail_aborts [simp]: "ex_state (txn_fail e) = TxnAborted" "harmless e (txn_fail e)"
  by (auto simp: txn_fail_def harmless_defs)

lemma perform_fenced:
  assumes "request_lease req = Some l" and "ex_epoch e < l" and "perform env ops req e = (e', rep)"
  shows "rep = Refused" and "harmless e e'" and "ex_state e' = TxnAborted"
proof -
  have "rep = Refused \<and> harmless e e' \<and> ex_state e' = TxnAborted"
  proof (cases req)
    case (CommitFenced v l' k b)
    with assms show ?thesis by (auto simp: commit_fenced_def)
  next
    case (CommitLedger v l' c ports b)
    with assms show ?thesis by (auto simp: commit_ledger_def check_ledger_command_def split: if_splits)
  next
    case (CommitSemantic v l' r)
    with assms show ?thesis by (auto simp: commit_semantic_def and_then_pure split: sum.splits)
  next
    case (CommitBranch v l' r ports)
    with assms show ?thesis by (auto simp: commit_branch_def and_then_pure split: sum.splits)
  next
    case (CommitSecurity v l' r ports)
    with assms show ?thesis by (auto simp: commit_security_def and_then_pure split: sum.splits)
  qed (use assms(1) in simp_all)
  then show "rep = Refused" and "harmless e e'" and "ex_state e' = TxnAborted" by simp_all
qed

section \<open>A transaction that completes\<close>

lemma stage_effect_cong:
  "governed e' = governed e \<Longrightarrow> fixed e' = fixed e \<Longrightarrow> stage_effect env effect e' = stage_effect env effect e"
  by (simp add: governed_def fixed_def stage_effect_def append_effect_def writer_for_def split: option.splits)

definition idle :: "'p executor \<Rightarrow> bool" where
  "idle e \<longleftrightarrow> ex_state e = TxnProposed \<or> ex_state e = TxnCommitted \<or> ex_state e = TxnAborted"

text \<open>The facts a validation is judged on.\<close>

definition validation_holds :: "operation \<Rightarrow> u64 \<Rightarrow> u64 \<Rightarrow> budget \<Rightarrow> u64 \<Rightarrow> u64 \<Rightarrow> u64 \<Rightarrow> bool" where
  "validation_holds row v bound bu m pre post \<longleftrightarrow>
     condition_holds (op_precondition row)
       \<lparr>pf_parent_version = v, pf_projected = bound, pf_budget = bu, pf_phi_pre = pre, pf_phi_post = post,
        pf_bar = op_bar row, pf_emergency = op_emergency row\<rparr> \<and> feasible m bu"

lemma validate_Inr:
  "validate ops b bu m pre post n e = (e', Inr t) \<longleftrightarrow>
     \<not> ex_aborted e \<and> ex_state e = TxnGenerated \<and> e' = e\<lparr>ex_state := TxnValidated\<rparr> \<and> ex_current e = Some t \<and>
     executor_port_bound ops e 0 n = Some b \<and>
     (\<exists>row. find_operation (tx_op t) = Some row \<and> validation_holds row (tx_parent_version t) b bu m pre post)"
  by (cases "ex_state e"; cases "ex_current e"; cases "ex_port e")
    (auto simp: validate_def txn_advance_def can_transition_def current_txn_def current_row_def and_then_pure Let_def
      executor_port_bound_def validation_holds_def split: sum.splits if_splits)

lemma drive_to_validated:
  fixes e :: "'p executor" and reqs :: "('p, 'c, 's) request list"
  assumes "idle e" and "find_operation op = Some row" and "by = op_proposer row \<or> op_authority row = Some by"
    and "op_owner_phase row \<le> ex_landed_phase e" and "executor_port_bound ops e 0 n = Some bound"
    and "validation_holds row v bound bu m pre post"
    and "reqs = [ProposeAs op v by, Snapshot, Generate, Validate bound bu m pre post n]"
  shows "map snd (transcript env ops e reqs) = [Granted, Granted, Granted, Granted]"
    and "harmless ((fst (propose op v e))\<lparr>ex_proposed_by := Some by\<rparr>) (serve env ops e reqs)"
    and "ex_state (serve env ops e reqs) = TxnValidated"
proof -
  let ?e1 = "(fst (propose op v e))\<lparr>ex_proposed_by := Some by\<rparr>"
  let ?t = "\<lparr>tx_id = ex_next_id e, tx_parent_version = v, tx_op = op\<rparr>"
  have p: "propose_as op v by e = (?e1, Inr ?t)" and cur: "ex_current ?e1 = Some ?t"
    and st: "ex_state ?e1 = TxnProposed" "\<not> ex_aborted ?e1" and port: "ex_port ?e1 = ex_port e"
    and lp: "ex_landed_phase ?e1 = ex_landed_phase e"
    using assms(1-3) by (auto simp: propose_as_def propose_def idle_def Let_def)
  have s: "snapshot ?e1 = (?e1\<lparr>ex_state := TxnSnapshotted\<rparr>, Inr ?t)"
    using st cur by (simp add: snapshot_def txn_advance_def can_transition_def current_txn_def)
  have g: "generate (?e1\<lparr>ex_state := TxnSnapshotted\<rparr>) = (?e1\<lparr>ex_state := TxnGenerated\<rparr>, Inr ?t)"
    using st cur lp assms(2,4)
    by (simp add: generate_def txn_advance_def can_transition_def current_txn_def current_row_def not_less)
  have v: "validate ops bound bu m pre post n (?e1\<lparr>ex_state := TxnGenerated\<rparr>) = (?e1\<lparr>ex_state := TxnValidated\<rparr>, Inr ?t)"
    using st cur port assms(2,5,6) by (simp add: validate_Inr executor_port_bound_def)
  show "map snd (transcript env ops e reqs) = [Granted, Granted, Granted, Granted]"
    and "ex_state (serve env ops e reqs) = TxnValidated"
    by (simp_all add: assms(7) p s g v)
  show "harmless ?e1 (serve env ops e reqs)"
    using st(1) by (simp add: assms(7) p s g v harmless_defs)
qed

lemma serve_append: "serve env ops e (xs @ ys) = serve env ops (serve env ops e xs) ys"
  by (simp add: serve_def)

lemma transcript_append:
  "transcript env ops e (xs @ ys) = transcript env ops e xs @ transcript env ops (serve env ops e xs) ys"
  by (induction xs arbitrary: e) (auto split: prod.splits)

lemma transaction_completes:
  fixes e :: "'p executor" and reqs :: "('p, 'c, 's) request list"
  assumes "executor_ok env e" and "idle e" and "find_operation op = Some row"
    and "by = op_proposer row \<or> op_authority row = Some by" and "op_owner_phase row \<le> ex_landed_phase e"
    and "op_owner_phase row \<notin> {5, 6, 8}" and "executor_port_bound ops e 0 n = Some bound"
    and "validation_holds row v bound bu m pre post"
    and "reqs = [ProposeAs op v by, Snapshot, Generate, Validate bound bu m pre post n]"
    and "\<not> receipt_family k" and "\<not> security_governed k"
    and "is_ok (is_legal (ex_typed e) (ex_contract e))" and "region_admits e bound = Inr ()"
    and "append_effect env k e = Inr staged" and "is_ok (is_legal (snd staged) (ex_contract e))"
  shows "map snd (transcript env ops e (reqs @ [CommitEffect v (Some k) bound])) =
      [Granted, Granted, Granted, Granted, Outcome Applied] \<and>
    ex_log (serve env ops e (reqs @ [CommitEffect v (Some k) bound])) = fst staged \<and>
    ex_typed (serve env ops e (reqs @ [CommitEffect v (Some k) bound])) = snd staged"
proof -
  let ?e4 = "serve env ops e reqs" let ?e1 = "(fst (propose op v e))\<lparr>ex_proposed_by := Some by\<rparr>"
  note drive = drive_to_validated [OF assms(2-5,7-9), of env]
  have "governed ?e1 = governed e" "fixed ?e1 = fixed e" "region ?e1 = region e"
    using propose_governed [of op v e] by (simp_all add: governed_def fixed_def region_def)
  with drive(2) have same: "governed ?e4 = governed e" "fixed ?e4 = fixed e" "region ?e4 = region e"
    and "ex_current ?e4 = ex_current ?e1" by (simp_all add: harmless_def)
  then have cur: "ex_current ?e4 = Some \<lparr>tx_id = ex_next_id e, tx_parent_version = v, tx_op = op\<rparr>"
    using assms(2,3) by (auto simp: propose_def idle_def Let_def)
  have stage: "stage_effect env (Some k) ?e4 = Inr staged"
    using assms(14,15) by (auto simp: stage_effect_cong [OF same(1,2)] stage_effect_iff [OF assms(1)] is_ok_iff)
  have "region_admits ?e4 bound = Inr ()"
    using assms(13) same(3) by (simp add: region_admits_def region_def split: option.splits)
  moreover have "is_ok (is_legal (ex_typed ?e4) (ex_contract ?e4))" using assms(12) same by (simp add: governed_def fixed_def)
  moreover have "\<not> current_phase ?e4 8 \<and> \<not> current_phase ?e4 6 \<and> \<not> current_phase ?e4 5"
    using assms(3,6) by (simp add: current_phase_def cur)
  moreover have "\<not> effect_matches semantic_governed (Some k)" "\<not> effect_matches ledger_governed (Some k)"
    using assms(10) by (cases k; simp add: effect_matches_def)+
  ultimately have "executor_commit env v (Some k) bound ?e4 = (apply_commit bound staged ?e4, Inr Applied)"
    using drive(3) stage assms(3,11)
    by (auto simp: executor_commit_def executor_commit_outcome_def commit_checked_def current_txn_def current_row_def cur
      can_transition_def effect_matches_def is_ok_iff)
  then show ?thesis using drive(1) by (simp add: serve_append transcript_append apply_commit_def)
qed

lemma transcript_last:
  "last (map snd (transcript env ops e (reqs @ [req]))) = snd (perform env ops req (serve env ops e reqs))"
  by (simp add: transcript_append split: prod.splits)

lemma serve_governed:
  "list_all (\<lambda>req. request_commit req = None) reqs \<Longrightarrow> governed (serve env ops e reqs) = governed e"
proof (induction reqs arbitrary: e)
  case (Cons req reqs)
  obtain e' rep where p: "perform env ops req e = (e', rep)" by fastforce
  with Cons perform_other(1) [OF p] show ?case by simp
qed simp

lemma applications_pos: "Outcome Applied \<in> snd ` set tr \<Longrightarrow> 1 \<le> applications (tr' @ tr)"
  by (auto simp: applications_def Suc_le_eq filter_empty_conv)

end
