(* ===== verification/TxnProperties.thy ===== *)
theory TxnProperties
  imports TxnLaws TrustProperties StoreProperties
begin

text \<open>
  The properties of the transaction executor, over whole sequences of requests: its log always passes the audit and
  replays to the state it holds, a release is exactly what was validated, a newer lease fences every entry point,
  each proposal is spent at most once, the region is never overfilled, and a sanctioned transaction completes.
\<close>

section \<open>A concrete session\<close>

abbreviation txn_codec :: json_codec where
  "txn_codec \<equiv>
     \<lparr>js_semantic_event = (\<lambda>_. replicate 10 0), js_branch_event = (\<lambda>_. []), js_security_event = (\<lambda>_. []),
      js_ledger_command = (\<lambda>_. []), js_params = (\<lambda>_. []), js_entry = (\<lambda>_. []), js_conflicts = (\<lambda>_. []),
      js_versions = (\<lambda>_. []), js_tool_results = (\<lambda>_. []), js_branches = (\<lambda>_. []), js_security = (\<lambda>_. []),
      js_semantics = (\<lambda>_. [])\<rparr>"

abbreviation txn_env :: kernel_env where
  "txn_env \<equiv> \<lparr>env_json = txn_codec, env_hash = (\<lambda>_. ''h''), env_candidate_digest = (\<lambda>_. ''digest'')\<rparr>"

abbreviation txn_port :: bound_port where
  "txn_port \<equiv> \<lparr>bp_margins = margins_v1, bp_tool_declarations = 2, bp_governed = 100\<rparr>"

abbreviation txn_budget :: budget where
  "txn_budget \<equiv> \<lparr>bu_b = 1000, bu_r = 100, bu_h = 100\<rparr>"

abbreviation admission :: event_kind where
  "admission \<equiv> OperationCommit OpAdmitIngress 1 10"

abbreviation admit_requests :: "(bound_port, unit, context_store) request list" where
  "admit_requests \<equiv> [ProposeAs ''admit-ingress'' 1 ProposerS, Snapshot, Generate, Validate 238 txn_budget 0 0 0 10]"

definition txn_start :: "bound_port executor" where
  "txn_start =
     \<lparr>ex_epoch = 1, ex_next_id = 1, ex_state = TxnProposed, ex_current = None, ex_aborted = False,
      ex_port = Some txn_port, ex_contract = contract_generous 1, ex_log = log_new V2,
      ex_typed = (genesis IDLENESS_WINDOW V2)\<lparr>ts_state_hash := state_hash txn_codec (genesis IDLENESS_WINDOW V2)\<rparr>,
      ex_contract_version = None, ex_region_admitted = 0, ex_region_ceiling = Some 500, ex_landed_phase = 8,
      ex_branch_validation = None, ex_security_validation = None, ex_semantic_validation = None,
      ex_proposed_by = None, ex_ledger_validation = None\<rparr>"

lemma state_hash_hash [simp]: "state_hash json (s\<lparr>ts_state_hash := h\<rparr>) = state_hash json s"
  using state_hash_rehash [of json h s] by (simp add: rehash_def)

lemma replay_new: "fold_log env IDLENESS_WINDOW (log_new V2) =
    Inr ((genesis IDLENESS_WINDOW V2)\<lparr>ts_state_hash := state_hash (env_json env) (genesis IDLENESS_WINDOW V2)\<rparr>)"
  by (simp add: fold_log_def fold_from_def log_new_def)

lemma txn_start_opens:
  fixes e0 :: "bound_port executor"
  assumes "executor_new txn_env 1 (contract_generous 1) = Inr e0"
  shows "serve txn_env bound_port_ops e0 [BindPort txn_port, ArmRegion 500 :: (bound_port, 'c, 's) request] = txn_start"
  using assms by (auto simp: executor_new_def replay_new bind_port_def arm_region_accounting_def txn_start_def)

lemma txn_start_ok: "executor_ok txn_env txn_start"
proof -
  obtain e0 :: "bound_port executor" where e0: "executor_new txn_env 1 (contract_generous 1) = Inr e0"
    by (simp add: executor_new_def replay_new)
  from serve_ok [OF executor_new_ok [OF e0], of bound_port_ops "[BindPort txn_port, ArmRegion 500]"]
  show ?thesis by (simp only: txn_start_opens [OF e0])
qed

lemma empty_legal:
  assumes "ts_ir s = ir_new" and "ts_pins s = []" and "ts_quoting s = Fenced"
  shows "is_ok (is_legal s (contract_generous v))"
proof -
  have "legal s (contract_generous v)"
    using assms by (simp add: legal_def paired_def layout_ordered_def placed_regions_def within_budgets_def floors_kept_def
      pins_placed_def contract_generous_def ir_new_def region_occupancy_def region_items_def found_items_def sum64_def lane_units_def lane_placed_units_def region_all_def map_filter_simps
      region_budget_def supports_region_def items_in_lane_def)
  moreover have "distinct (ir_ids (ts_ir s))" using assms by (simp add: ir_new_def ir_ids_def)
  ultimately show ?thesis by (auto simp: is_ok_iff is_legal_Inr)
qed

lemma txn_row:
  obtains row where "find_operation ''admit-ingress'' = Some row" "op_proposer row = ProposerS" "op_owner_phase row = 2"
    "op_precondition row = FitsBound"
  by (simp add: find_operation_def REGISTRY_def)

lemma admission_stages:
  "\<exists>log s. append_effect txn_env admission txn_start = Inr (log, s) \<and>
     ts_ir s = ir_new \<and> ts_policies s = resolve_or_latest INITIAL_VERSION \<and> ts_pins s = [] \<and> ts_quoting s = Fenced"
  by (simp add: append_effect_def open_session_def writer_for_def txn_start_def genesis_def scopes_new_def scope_state_of_def
     scope_lookup_def sequencer_continuing_def sequencer_resume_def write_event_def sequencer_append_def sequencer_append_at_def
     Let_def log_append_def log_new_def log_next_sequence_def head_checksum_def FIRST_SEQUENCE_def V2_def
     fold_into_def fold_from_def is_applied_def apply_event_def scope_open_op_def commit_to_def scope_open_def
     admit_ingress_def attribute_def attribute_item_def event_identity_def is_open_def SESSION_SCOPE_def IDLENESS_WINDOW_def)

abbreviation admit_commit :: "(bound_port, unit, context_store) request" where
  "admit_commit \<equiv> CommitEffect 1 (Some admission) 238"

lemma txn_bound: "executor_port_bound bound_port_ops txn_start 0 10 = Some 238"
  by (simp add: executor_port_bound_def txn_start_def bound_port_ops_def port_version_def bp_bound_def bp_tool_surface_def
    tool_surface_def margins_v1_def saturating_add_def)

lemma txn_start_legal: "is_ok (is_legal (ex_typed txn_start) (ex_contract txn_start))"
  unfolding txn_start_def by (simp add: empty_legal genesis_def)

lemma txn_holds: "op_precondition row = FitsBound \<Longrightarrow> validation_holds row 1 238 txn_budget 0 0 0"
  by (simp add: validation_holds_def budget_fits_def commit_ceiling_def saturating_sub_def feasible_def saturating_add_def)

lemma txn_session:
  "map snd (transcript txn_env bound_port_ops txn_start (admit_requests @ [admit_commit])) =
     [Granted, Granted, Granted, Granted, Outcome Applied]"
  "kinds (ex_log (serve txn_env bound_port_ops txn_start (admit_requests @ [admit_commit]))) =
     [OperationCommit OpScopeOpen SESSION_SCOPE 0, admission]"
proof -
  obtain row where row: "find_operation ''admit-ingress'' = Some row" "op_proposer row = ProposerS" "op_owner_phase row = 2"
    "op_precondition row = FitsBound" by (rule txn_row)
  obtain log s where stage: "append_effect txn_env admission txn_start = Inr (log, s)" and "ts_ir s = ir_new" "ts_pins s = []"
    "ts_quoting s = Fenced" using admission_stages by blast
  then have legal: "is_ok (is_legal (snd (log, s)) (ex_contract txn_start))" by (simp add: txn_start_def empty_legal)
  have fin: "map snd (transcript txn_env bound_port_ops txn_start (admit_requests @ [admit_commit])) =
      [Granted, Granted, Granted, Granted, Outcome Applied] \<and>
    ex_log (serve txn_env bound_port_ops txn_start (admit_requests @ [admit_commit])) = fst (log, s) \<and>
    ex_typed (serve txn_env bound_port_ops txn_start (admit_requests @ [admit_commit])) = snd (log, s)"
    by (rule transaction_completes [OF txn_start_ok _ row(1) _ _ _ txn_bound txn_holds [OF row(4)] refl _ _ txn_start_legal _ stage legal])
      (simp_all add: row idle_def txn_start_def region_admits_def saturating_add_def)
  then show "map snd (transcript txn_env bound_port_ops txn_start (admit_requests @ [admit_commit])) =
      [Granted, Granted, Granted, Granted, Outcome Applied]" by simp
  have "log_ok (env_json txn_env) (ex_log txn_start)" using txn_start_ok by (simp add: executor_ok_def)
  from append_effect_writes [OF stage this] obtain es where "log = (ex_log txn_start)\<lparr>el_events := el_events (ex_log txn_start) @ es\<rparr>"
    and "map ev_kind es = released_kinds (ex_typed txn_start) (Some admission)" .
  then have "kinds log = [OperationCommit OpScopeOpen SESSION_SCOPE 0, admission]"
    by (simp add: kinds_def txn_start_def log_new_def released_kinds_def scope_missing_def scope_state_of_def scope_lookup_def
      genesis_def scopes_new_def)
  with fin show "kinds (ex_log (serve txn_env bound_port_ops txn_start (admit_requests @ [admit_commit]))) =
     [OperationCommit OpScopeOpen SESSION_SCOPE 0, admission]" by simp
qed

lemma txn_session_ok:
  fixes e :: "bound_port executor"
  defines "e \<equiv> serve txn_env bound_port_ops txn_start (admit_requests @ [admit_commit])"
  shows "log_ok txn_codec (ex_log e)" and "auditable txn_env (contract_generous 1) (ex_log e) 0"
proof -
  from serve_ok [OF txn_start_ok] have "executor_ok txn_env e" and "fixed e = fixed txn_start" unfolding e_def by blast+
  then show "log_ok txn_codec (ex_log e)" and "auditable txn_env (contract_generous 1) (ex_log e) 0"
    by (simp_all add: executor_ok_def fixed_def txn_start_def)
qed

section \<open>The port\<close>

interpretation bound_port: accounting bound_port_ops
  by unfold_locales (simp add: bound_port_ops_def bp_bound_def Let_def saturating_add_def)

lemma bp_bound_sum:
  "version = mg_version (bp_margins p) \<Longrightarrow>
     bp_bound p version n = min (bp_governed p + bp_tool_surface p + n + mg_commit_frame (bp_margins p)) u64_max"
  by (auto simp: bp_bound_def Let_def saturating_add_def min_def)

text \<open>A validation of a row that must fit, under the production port: everything the port charges leaves the reserve
  and the headroom free.\<close>

lemma validated_effect_fits:
  assumes "validate bound_port_ops b bu m pre post n e = (e', Inr t)" and "ex_port e = Some p"
    and "find_operation (tx_op t) = Some row" and "op_precondition row = FitsBound" and "bu_b bu < u64_max"
    and "bu_r bu + bu_h bu \<le> bu_b bu"
  shows "bp_governed p + bp_tool_surface p + n + mg_commit_frame (bp_margins p) + bu_r bu + bu_h bu \<le> bu_b bu"
proof -
  from assms(1-4) have b: "b = bp_bound p (mg_version (bp_margins p)) n" and "budget_fits b bu"
    by (auto simp: validate_Inr executor_port_bound_def bound_port_ops_def port_version_def validation_holds_def)
  from budget_fits_room [OF this(2) assms(6)] b assms(5) show ?thesis by (simp add: bp_bound_sum min_def split: if_splits)
qed

section \<open>The executor\<close>

text \<open>C9: whatever is asked of an executor, its log always passes the whole-log audit.  From a new executor, or one that
  resumes a recorded chain, any sequence of requests, granted or refused, leaves a log whose every checkpoint is
  registered, framed, replayable and legal under the session's contract, and the typed state the executor holds is
  the replay of that log.\<close>

theorem executor_log_audits:
  assumes "executor_new env epoch c = Inr e0 \<or> executor_resuming env epoch n d c = Inr e0" and "n < u64_modulus"
    and "e = serve env ops e0 reqs"
  shows "audit_log env (ex_log e) c = Inr (length (el_events (ex_log e))) \<and>
    fold_log env IDLENESS_WINDOW (ex_log e) = Inr (ex_typed e)"
proof -
  from assms(1,2) have "executor_ok env e0" by (auto intro: executor_new_ok executor_resuming_ok)
  from serve_ok [OF this, of ops reqs] have ok: "executor_ok env e" and f: "fixed e = fixed e0" by (simp_all add: assms(3))
  from assms(1) have "ex_contract e0 = c"
    by (auto simp: executor_resuming_def executor_new_def Let_def split: sum.splits)
  with f ok show ?thesis by (simp add: executor_ok_def fixed_def audit_log_iff log_ok_def)
qed

theorem executor_log_audits_witness:
  "\<exists>e0. executor_new txn_env 1 (contract_generous 1) = Inr e0 \<and>
     (\<exists>log. log = ex_log (serve txn_env bound_port_ops e0 ([BindPort txn_port, ArmRegion 500] @ admit_requests @ [admit_commit])) \<and>
        length (el_events log) = 2 \<and> audit_log txn_env log (contract_generous 1) = Inr 2)"
proof -
  obtain e0 :: "bound_port executor" where e0: "executor_new txn_env 1 (contract_generous 1) = Inr e0"
    by (simp add: executor_new_def replay_new)
  let ?reqs = "[BindPort txn_port, ArmRegion 500] @ admit_requests @ [admit_commit]"
  have "serve txn_env bound_port_ops e0 ?reqs = serve txn_env bound_port_ops txn_start (admit_requests @ [admit_commit])"
    by (simp only: serve_append [of _ _ e0] txn_start_opens [OF e0])
  with txn_session(2) have "length (el_events (ex_log (serve txn_env bound_port_ops e0 ?reqs))) = 2"
    by (metis kinds_def length_map length_Cons list.size(3) numeral_2_eq_2)
  with executor_log_audits [OF disjI1 [OF e0] _ refl, of 0 bound_port_ops ?reqs] e0 show ?thesis by auto
qed

text \<open>C13: the whole-log audit is exact.  It accepts a log, and then reports its length, exactly when the log is a framed
  chain that replays and every checkpoint after an event other than a raw append is a legal projection; the incremental
  state it carries never differs from the replay it compares it with, and no operation an event can name is missing
  from the registry.\<close>

theorem audit_is_exact:
  assumes "fst (log_base log) < u64_modulus"
  shows "audit_log env log c = Inr k \<longleftrightarrow>
    k = length (el_events log) \<and> log_ok (env_json env) log \<and> is_ok (fold_log env IDLENESS_WINDOW log) \<and>
    (\<forall>i < length (el_events log). \<not> is_append (ev_kind (el_events log ! i)) \<longrightarrow>
       (\<exists>s. fold_log env IDLENESS_WINDOW (log_prefix log (Suc i)) = Inr s \<and> is_ok (is_legal s c)))"
  using audit_log_iff [OF assms, of env c k] by (auto simp: auditable_def checkpoint_legal_def)

theorem audit_is_exact_witness:
  "\<exists>log s. length (el_events log) = 2 \<and> audit_log txn_env log (contract_generous 1) = Inr 2 \<and>
     fold_log txn_env IDLENESS_WINDOW (log_prefix log 2) = Inr s \<and> is_ok (is_legal s (contract_generous 1))"
proof -
  define log where "log = ex_log (serve txn_env bound_port_ops txn_start (admit_requests @ [admit_commit]))"
  have k: "map ev_kind (el_events log) = [OperationCommit OpScopeOpen SESSION_SCOPE 0, admission]"
    using txn_session(2) by (simp only: kinds_def log_def)
  then have n: "length (el_events log) = 2" by (metis length_map length_Cons list.size(3) numeral_2_eq_2)
  from txn_session_ok have base: "fst (log_base log) < u64_modulus" and au: "auditable txn_env (contract_generous 1) log 0"
    by (simp_all only: log_def log_ok_def)
  have a: "audit_log txn_env log (contract_generous 1) = Inr 2" using au n by (simp add: audit_log_iff [OF base])
  from k have "map ev_kind (el_events log) ! 1 = admission" by simp
  then have "\<not> is_append (ev_kind (el_events log ! 1))" using n by simp
  with audit_is_exact [OF base, of txn_env "contract_generous 1" 2] a n obtain s
    where "fold_log txn_env IDLENESS_WINDOW (log_prefix log (Suc 1)) = Inr s" "is_ok (is_legal s (contract_generous 1))"
    by (metis one_less_numeral_iff semiring_norm(76))
  with a n show ?thesis by (metis Suc_1)
qed

text \<open>C10: an effect enters the log only as it was validated.  A request that is not answered with an applied commit
  changes neither log, typed state nor committed contract version.  An applied commit moves a validated transaction
  whose parent is the one the request names, appends exactly the request's event (preceded by the opening of the
  session scope when an admission finds none) and leaves a legal projection; a ledger, branch, security or semantic
  event is released only if that very event is the one on record as validated at that bound, under the row of its own
  operation, with its ports' authentication and an unfenced lease; pins are never released generically.\<close>

theorem release_as_validated:
  assumes "executor_ok env e" and "perform env ops req e = (e', rep)"
  shows "if rep = Outcome Applied
    then \<exists>v effect b t. request_commit req = Some (v, effect, b) \<and>
      ex_state e = TxnValidated \<and> ex_state e' = TxnCommitted \<and> ex_current e = Some t \<and> tx_parent_version t = v \<and>
      map ev_kind (el_events (ex_log e')) = map ev_kind (el_events (ex_log e)) @ released_kinds (ex_typed e) effect \<and>
      (effect \<noteq> None \<longrightarrow> is_ok (is_legal (ex_typed e') (ex_contract e'))) \<and> release_licensed req e effect b
    else governed e' = governed e"
proof (cases "request_commit req = None")
  case True
  with perform_other [OF assms(2)] show ?thesis by auto
next
  case False
  show ?thesis
  proof (cases "rep = Outcome Applied")
    case True
    with perform_committed [OF assms(2) False] obtain v effect b where c: "request_commit req = Some (v, effect, b)"
      and r: "released env v effect b e e'" and l: "release_licensed req e effect b" by (auto simp: committed_def)
    from released_ok(2,3) [OF assms(1) r] r c l True show ?thesis by (auto simp: released_def kinds_def)
  next
    case f: False
    with perform_committed [OF assms(2) False] show ?thesis by (simp add: committed_def harmless_def)
  qed
qed

lemma txn_last_step:
  obtains e' where "perform txn_env bound_port_ops admit_commit (serve txn_env bound_port_ops txn_start admit_requests) =
      (e', Outcome Applied)"
    and "e' = serve txn_env bound_port_ops txn_start (admit_requests @ [admit_commit])"
proof -
  obtain e' rep where p: "perform txn_env bound_port_ops admit_commit (serve txn_env bound_port_ops txn_start admit_requests) =
      (e', rep)" by fastforce
  from txn_session(1) have "last (map snd (transcript txn_env bound_port_ops txn_start (admit_requests @ [admit_commit]))) =
      Outcome Applied" by simp
  then have "rep = Outcome Applied" unfolding transcript_last p by simp
  moreover have "e' = serve txn_env bound_port_ops txn_start (admit_requests @ [admit_commit])"
    unfolding serve_append using p by simp
  ultimately show ?thesis using that p by simp
qed

theorem release_as_validated_witness:
  "\<exists>e e'. e = serve txn_env bound_port_ops txn_start admit_requests \<and>
     perform txn_env bound_port_ops admit_commit e = (e', Outcome Applied) \<and> ex_state e = TxnValidated \<and>
     map ev_kind (el_events (ex_log e')) =
       map ev_kind (el_events (ex_log e)) @ released_kinds (ex_typed e) (Some admission)"
proof -
  obtain e' where p: "perform txn_env bound_port_ops admit_commit (serve txn_env bound_port_ops txn_start admit_requests) =
      (e', Outcome Applied)" by (rule txn_last_step)
  have "executor_ok txn_env (serve txn_env bound_port_ops txn_start admit_requests)"
    using serve_ok [OF txn_start_ok] by blast
  from release_as_validated [OF this p] p show ?thesis by auto
qed

text \<open>C11: a newer lease fences every entry point that takes the clock.  Once a lease has been acquired after the one an
  executor holds, its fenced commit and its four receipt commits are refused, release nothing, keep the region total
  and leave the transaction aborted, whatever was validated before.\<close>

theorem newer_lease_fences:
  assumes "ex_epoch e \<le> latest" and "latest < u64_max" and "acquire latest = (lease, latest')"
    and "request_lease req = Some l" and "latest' \<le> l" and "perform env ops req e = (e', rep)"
  shows "rep = Refused \<and> governed e' = governed e \<and> ex_region_admitted e' = ex_region_admitted e \<and> ex_state e' = TxnAborted"
proof -
  from assms(1-3,5) have "ex_epoch e < l" by (auto simp: acquire_def Let_def)
  from perform_fenced [OF assms(4) this assms(6)] show ?thesis by (simp add: harmless_def region_def)
qed

theorem newer_lease_fences_witness:
  "\<exists>e'. perform txn_env bound_port_ops (CommitFenced 1 2 None 238 :: (bound_port, unit, context_store) request)
      (serve txn_env bound_port_ops txn_start admit_requests) = (e', Refused) \<and>
     ex_log e' = log_new V2 \<and> ex_state e' = TxnAborted"
proof -
  let ?e = "serve txn_env bound_port_ops txn_start admit_requests"
  have "fixed ?e = fixed txn_start" using serve_ok [OF txn_start_ok] by blast
  then have e: "ex_epoch ?e = 1" by (simp add: fixed_def txn_start_def)
  have "governed ?e = governed txn_start"
    by (rule serve_governed) simp
  then have l: "ex_log ?e = log_new V2" by (simp add: governed_def txn_start_def)
  obtain e' rep where p: "perform txn_env bound_port_ops (CommitFenced 1 2 None 238 :: (bound_port, unit, context_store) request) ?e = (e', rep)"
    by fastforce
  have "rep = Refused \<and> governed e' = governed ?e \<and> ex_region_admitted e' = ex_region_admitted ?e \<and> ex_state e' = TxnAborted"
    by (rule newer_lease_fences [OF eq_refl [OF e] _ _ _ _ p, where lease = 2 and latest' = 2 and l = 2])
      (simp_all add: acquire_def)
  with p l show ?thesis by (auto simp: governed_def)
qed

text \<open>C16: each granted proposal is spent at most once.  In any sequence of requests to a new executor there are at most as
  many applied commits as granted proposals.\<close>

theorem one_release_per_proposal:
  assumes "executor_new env epoch c = Inr e0"
  shows "applications (transcript env ops e0 reqs) \<le> proposals (transcript env ops e0 reqs)"
proof -
  from assms have "licence e0 = 0" by (auto simp: executor_new_def licence_def Let_def split: sum.splits)
  with serve_licence [of env ops e0 reqs] show ?thesis by linarith
qed

theorem one_release_per_proposal_witness:
  "\<exists>e0. executor_new txn_env 1 (contract_generous 1) = Inr e0 \<and>
     1 \<le> proposals (transcript txn_env bound_port_ops e0 ([BindPort txn_port, ArmRegion 500] @ admit_requests @ [admit_commit]))"
proof -
  obtain e0 :: "bound_port executor" where e0: "executor_new txn_env 1 (contract_generous 1) = Inr e0"
    by (simp add: executor_new_def replay_new)
  let ?reqs = "[BindPort txn_port, ArmRegion 500] @ admit_requests @ [admit_commit]"
  have "transcript txn_env bound_port_ops e0 ?reqs = transcript txn_env bound_port_ops e0 [BindPort txn_port, ArmRegion 500] @
      transcript txn_env bound_port_ops txn_start (admit_requests @ [admit_commit])"
    by (simp only: transcript_append [of _ _ e0] txn_start_opens [OF e0])
  moreover have "Outcome Applied \<in> snd ` set (transcript txn_env bound_port_ops txn_start (admit_requests @ [admit_commit]))"
    using txn_session(1) by (metis list.set_intros(1) list.set_map list.set_intros(2))
  ultimately have "1 \<le> applications (transcript txn_env bound_port_ops e0 ?reqs)" by (metis applications_pos)
  with one_release_per_proposal [OF e0, of bound_port_ops ?reqs] e0 show ?thesis by (meson le_trans)
qed

text \<open>C15: an armed region is never overfilled.  While nobody re-arms, resets or tops up the region, its total after any
  sequence of requests is the saturating sum of the bounds of the applied commits, refused and rebased ones adding
  nothing, and it stays within the armed ceiling.\<close>

theorem region_never_overfilled:
  assumes "ex_region_ceiling e = Some ceiling" and "ex_region_admitted e \<le> ceiling"
    and "list_all (\<lambda>req. \<not> is_region req) reqs"
  shows "ex_region_admitted (serve env ops e reqs) =
      foldl saturating_add (ex_region_admitted e) (charges (transcript env ops e reqs)) \<and>
    ex_region_admitted (serve env ops e reqs) \<le> ceiling"
  using serve_region [OF assms(3), where env = env and ops = ops and e = e] assms(1,2) by simp

theorem region_never_overfilled_witness:
  "ex_region_admitted (serve txn_env bound_port_ops txn_start (admit_requests @ [admit_commit])) =
      foldl saturating_add 0 (charges (transcript txn_env bound_port_ops txn_start (admit_requests @ [admit_commit]))) \<and>
   ex_region_admitted (serve txn_env bound_port_ops txn_start (admit_requests @ [admit_commit])) \<le> 500"
proof -
  have "ex_region_ceiling txn_start = Some 500" "ex_region_admitted txn_start = 0" by (simp_all add: txn_start_def)
  with region_never_overfilled [of txn_start 500 "admit_requests @ [admit_commit]" txn_env bound_port_ops]
  show ?thesis by simp
qed



section \<open>Where code and comments differ\<close>

lemma snd_reply: "snd x = r \<Longrightarrow> \<exists>e. x = (e, r)"
  by (cases x) simp

text \<open>A fresh executor is in the state of a proposed transaction without having one: its first snapshot panics.\<close>

lemma fresh_snapshot_panics:
  "executor_new env epoch c = Inr e \<Longrightarrow> snd (snapshot e) = Inl (Panicked ''txn present after propose'')"
  by (auto simp: executor_new_def Let_def snapshot_def txn_advance_def can_transition_def current_txn_def split: sum.splits)

text \<open>The generic commit does not compare the event with the row that was proposed: under the row \<open>checkpoint\<close>, which has
  no fit precondition, an ingress admission is applied.\<close>

lemma row_not_compared:
  "\<exists>e' :: bound_port executor.
     perform txn_env bound_port_ops (admit_commit :: (bound_port, unit, context_store) request)
       (serve txn_env bound_port_ops txn_start
         ([ProposeAs ''checkpoint'' 1 ProposerS, Snapshot, Generate, Validate 238 txn_budget 0 0 0 10]
           :: (bound_port, unit, context_store) request list)) =
     (e', Outcome Applied)"
proof -
  obtain row where row: "find_operation ''checkpoint'' = Some row" "op_proposer row = ProposerS" "op_owner_phase row = 1"
    "op_precondition row = Always" by (simp add: find_operation_def REGISTRY_def)
  obtain log s where stage: "append_effect txn_env admission txn_start = Inr (log, s)" and "ts_ir s = ir_new" "ts_pins s = []"
    "ts_quoting s = Fenced" using admission_stages by blast
  then have legal: "is_ok (is_legal (snd (log, s)) (ex_contract txn_start))" by (simp add: txn_start_def empty_legal)
  have holds: "validation_holds row 1 238 txn_budget 0 0 0" by (simp add: validation_holds_def row feasible_def saturating_add_def)
  let ?reqs = "[ProposeAs ''checkpoint'' 1 ProposerS, Snapshot, Generate, Validate 238 txn_budget 0 0 0 10]
    :: (bound_port, unit, context_store) request list"
  have "map snd (transcript txn_env bound_port_ops txn_start (?reqs @ [admit_commit])) =
      [Granted, Granted, Granted, Granted, Outcome Applied] \<and>
    ex_log (serve txn_env bound_port_ops txn_start (?reqs @ [admit_commit])) = fst (log, s) \<and>
    ex_typed (serve txn_env bound_port_ops txn_start (?reqs @ [admit_commit])) = snd (log, s)"
    by (rule transaction_completes [OF txn_start_ok _ row(1) _ _ _ txn_bound holds refl _ _ txn_start_legal _ stage legal])
      (simp_all add: row idle_def txn_start_def region_admits_def saturating_add_def)
  then have "last (map snd (transcript txn_env bound_port_ops txn_start (?reqs @ [admit_commit]))) = Outcome Applied" by simp
  then have "snd (perform txn_env bound_port_ops admit_commit (serve txn_env bound_port_ops txn_start ?reqs)) = Outcome Applied"
    unfolding transcript_last .
  then show ?thesis by (rule snd_reply)
qed

text \<open>Under an older margin version the production port drops the governed term it is documented to reproduce, and it is
  not additive: the governed units, the tool surface and the frame are charged per call.\<close>

lemma older_version_drops_governed: "bp_bound txn_port 1 10 = 238 \<and> bp_bound txn_port 0 10 = 138"
  by (simp add: bp_bound_def bp_tool_surface_def tool_surface_def margins_v1_def saturating_add_def)

lemma bound_not_additive: "bp_bound txn_port 1 (10 + 10) < bp_bound txn_port 1 10 + bp_bound txn_port 1 10"
  by (simp add: bp_bound_def bp_tool_surface_def tool_surface_def margins_v1_def saturating_add_def)

end
