(* ===== verification/ReceiptProperties.thy ===== *)
theory ReceiptProperties
  imports TxnProperties
begin

text \<open>
  What a semantic receipt stands for, across the executor, the validation gate, the ingress transaction and the
  context store.
\<close>

section \<open>Derivation ingress\<close>

lemma transact_one_record:
  assumes "holds s ps" and "transact_one (store_sink a) s source raw v = (s', Inr r)"
  shows "pl_bytes (ig_payload r) = ig_sanitized r"
    and "pl_handle (ig_payload r) = canonical_handle (length (concat ps)) (ig_sanitized r)"
proof -
  obtain bytes segments where v: "bytes = valid_bytes v" "segments = valid_segments v" by simp
  from assms(2) v obtain s1 p where place: "place_on_spine (store_sink a) s bytes segments = (s1, Inr (p, segments))"
    and r: "pl_bytes (ig_payload r) = bytes" "ig_sanitized r = bytes" "pl_handle (ig_payload r) = sp_handle p"
    by (cases v) (auto simp: record_new_def place_on_spine_def split: prod.splits sum.splits if_splits)
  from place have "sk_append (store_sink a) s bytes = (s1, Inr p)"
    by (auto simp: place_on_spine_def split: prod.splits sum.splits if_splits)
  then have "sanitized_append s bytes = Inr (s1, sp_handle p, (sp_start p, sp_end p))"
    by (auto simp: store_sink_def sink_append_parts split: sum.splits)
  from holds_append [OF assms(1) this] r show "pl_bytes (ig_payload r) = ig_sanitized r"
    and "pl_handle (ig_payload r) = canonical_handle (length (concat ps)) (ig_sanitized r)" by simp_all
qed

lemma commit_single:
  assumes "holds s ps" and "commit (store_sink a) t s = (t', s', Inr [r])"
  shows "holds s' (ps @ [pl_bytes (ig_payload r)])"
    and "pl_handle (ig_payload r) = canonical_handle (length (concat ps)) (pl_bytes (ig_payload r))"
proof -
  let ?images = "map (\<lambda>c. admitted (it_redactor t) (cp_bytes c)) (cb_slots (it_capture t))"
  note keeps = store.commit_keeps [OF assms]
  from keeps(1) have mode: "sk_mode (store_sink a) s = ''normal''" and "[] \<notin> set ?images" by auto
  from keeps(2) [OF this] have img: "?images = [ig_sanitized r]" and h: "holds s' (ps @ ?images)" by auto
  then obtain c where c: "cb_slots (it_capture t) = [c]" by (cases "cb_slots (it_capture t)") auto
  from assms(2) mode obtain v s1 where "transact_one (store_sink a) s (cp_source c) (cp_bytes c) v = (s1, Inr r)"
    by (auto simp: commit_def store_is_admitting_def capture_drain_def Let_def c split: sum.splits prod.splits)
  from transact_one_record [OF assms(1) this] img h show "holds s' (ps @ [pl_bytes (ig_payload r)])"
    and "pl_handle (ig_payload r) = canonical_handle (length (concat ps)) (pl_bytes (ig_payload r))" by simp_all
qed

lemma ingest_exact:
  assumes "holds (le_sink w) ps" and "ingest_derivation (store_sink a) kind artifact w = (w', Inr records)"
    and "exact_derivation records artifact = Inr adm"
  shows "holds (le_sink w') (ps @ [string_bytes artifact])"
    and "pl_handle (ig_payload adm) = canonical_handle (length (concat ps)) (string_bytes artifact)"
proof -
  from assms(3) have rec: "records = [adm]" and bytes: "pl_bytes (ig_payload adm) = string_bytes artifact"
    by (auto simp: exact_derivation_def split: list.splits if_splits)
  from assms(2) rec obtain t t1 where "commit (store_sink a) t (le_sink w) = (t1, le_sink w', Inr [adm])"
    by (auto simp: ingest_derivation_def split: sum.splits prod.splits)
  from commit_single [OF assms(1) this] bytes show "holds (le_sink w') (ps @ [string_bytes artifact])"
    and "pl_handle (ig_payload adm) = canonical_handle (length (concat ps)) (string_bytes artifact)" by simp_all
qed

section \<open>Semantic receipts\<close>

definition semantic_floor :: "('c, 's) semantic_services \<Rightarrow> semantic_command \<Rightarrow> typed_state \<Rightarrow> bound_fact list" where
  "semantic_floor sv command s =
     deterministic_required (ts_ledger s) (rendered_items (ts_semantic s)) (sv_required sv) (ts_policies s)
       (ca_scope (cm_candidate command))"

lemma admit_semantic_Inr:
  assumes "admit_semantic env sv command e w = (w', Inr ev)"
  obtains w1 vr records adm where
    "run_gate env sv (cm_candidate command) (semantic_floor sv command (ex_typed e)) w = (w1, Inr vr)"
    and "vr_verdict vr = Pass"
    and "check_lane_authority command vr (sv_store sv) (sv_authorization sv) = Inr ()"
    and "ingest_derivation (sv_sink sv) (semantic_name (cm_operation command)) (ca_artifact (cm_candidate command)) w1 =
      (w', Inr records)"
    and "exact_derivation records (ca_artifact (cm_candidate command)) = Inr adm"
    and "ev = SemanticPut (command\<lparr>cm_store_handle := pl_handle (ig_payload adm)\<rparr>) vr"
  using assms
  by (auto simp: admit_semantic_def semantic_floor_def Let_def split: sum.splits prod.splits if_splits intro: that)

lemma semantic_receipt_Inr:
  assumes "semantic_receipt_for env ops ev bu e = (e', Inr rc)"
  shows "sr_event rc = ev" and "ex_semantic_validation e' = Some (sr_event rc, sr_bound rc)"
    and "ex_state e' = TxnValidated" and "budget_fits (sr_bound rc) bu"
    and "executor_port_bound ops e 0 (length (js_semantic_event (env_json env) ev)) = Some (sr_bound rc)"
proof -
  let ?n = "length (js_semantic_event (env_json env) ev)"
  from assms obtain e1 b where v: "validate_semantic_event env ops ev bu e = (e1, Inr b)"
    and e': "e' = e1\<lparr>ex_semantic_validation := Some (ev, b)\<rparr>" and rc: "rc = \<lparr>sr_event = ev, sr_bound = b\<rparr>"
    by (cases "validate_semantic_event env ops ev bu e"; cases "snd (validate_semantic_event env ops ev bu e)")
      (auto simp: semantic_receipt_for_def)
  from v have "executor_port_bound ops e 0 ?n = Some b \<and> budget_fits b bu \<and> ex_state e1 = TxnValidated"
    by (auto simp: validate_semantic_event_def and_then_pure Let_def validate_Inr split: sum.splits prod.splits if_splits)
  with e' rc show "sr_event rc = ev" "ex_semantic_validation e' = Some (sr_event rc, sr_bound rc)"
    "ex_state e' = TxnValidated" "budget_fits (sr_bound rc) bu" "executor_port_bound ops e 0 ?n = Some (sr_bound rc)"
    by simp_all
qed

text \<open>A note read back on a fresh session.\<close>

abbreviation read_services :: "(unit, context_store) semantic_services" where
  "read_services \<equiv> \<lparr>sv_gate = demo_gate, sv_authorization = None, sv_required = [], sv_always_checked = [],
     sv_store = demo_store, sv_consumers = demo_consumers, sv_sink = store_sink demo_aead\<rparr>"

abbreviation read_lent :: "(unit, context_store) lent" where
  "read_lent \<equiv> \<lparr>le_consumers = (), le_ingress = ingress_new 100 64, le_sink = store_open 0\<rparr>"

abbreviation read_command :: semantic_command where
  "read_command \<equiv> \<lparr>cm_operation = ReadBack, cm_key = ''k'', cm_sources = [], cm_lane = 3, cm_candidate = demo_candidate,
     cm_store_handle = [], cm_authority = None\<rparr>"

definition read_ready :: "bound_port executor" where
  "read_ready = txn_start\<lparr>ex_next_id := 2, ex_state := TxnGenerated,
     ex_current := Some \<lparr>tx_id = 1, tx_parent_version = 1, tx_op = ''read-back''\<rparr>, ex_proposed_by := Some ProposerM\<rparr>"

lemma read_floor: "semantic_floor read_services read_command (ex_typed read_ready) = []"
  by (simp add: semantic_floor_def read_ready_def txn_start_def genesis_def deterministic_required_def rendered_items_def
    ledger_default_def)

lemma read_gate:
  obtains vr where "gate_validate (\<lambda>_. ''digest'') demo_gate demo_candidate [] [] demo_store demo_consumers () = ((), Inr vr)"
    and "vr_verdict vr = Pass" and "vr_candidate_digest vr = ''digest''"
  by (simp add: gate_validate_def input_bounds_def demo_roots Let_def required_union_def missing_facts_def
      extract_assertions_def str_lines_def strip_cr_def is_ingress_def assertion_support_def
      MAX_GRAPH_NODES_def MAX_ARTIFACT_BYTES_def MAX_ENVELOPE_BYTES_def MAX_ASSERTIONS_def THETA_def byte_between_def)

lemma read_redact: "redact (with_budget 64) [111, 107] = Sanitized [111, 107] []"
  by code_simp

lemma read_ingest:
  obtains w' r where "ingest_derivation (store_sink demo_aead) ''read-back'' ''ok'' read_lent = (w', Inr [r])"
    and "exact_derivation [r] ''ok'' = Inr r" and "pl_handle (ig_payload r) = canonical_handle 0 (string_bytes ''ok'')"
  by (simp add: ingest_derivation_def capture_derivation_def ingress_capture_def capture_push_def ingress_new_def capture_new_def
    commit_def store_is_admitting_def store_sink_def store_open_def capture_drain_def Let_def validate_slot_def read_redact
    segment_of_total [of "[111, 107]", simplified] place_on_spine_def sink_append_def sanitized_append_def begin_state_advancing_turn_def mode_writable_def
    spine_append_def spine_new_def spine_len_def exact_derivation_def record_new_def string_bytes_def)

lemma read_candidate:
  assumes "vr_verdict vr = Pass" and "vr_candidate_digest vr = ''digest''" and "h \<noteq> []"
  obtains s where "semantic_candidate txn_env (SemanticPut (read_command\<lparr>cm_store_handle := h\<rparr>) vr) read_ready = Inr s"
    and "ts_ledger s = ledger_default"
  using assms
  by (simp add: semantic_candidate_def candidate_log_def read_ready_def writer_for_def txn_start_def genesis_def
     sequencer_continuing_def sequencer_resume_def write_event_def sequencer_append_def sequencer_append_at_def
     Let_def log_append_def log_new_def log_next_sequence_def head_checksum_def FIRST_SEQUENCE_def V2_def
     fold_into_def fold_from_def is_applied_def apply_event_def commit_to_def event_identity_def erased_put_def
     rests_on_erased_def security_default_def semantic_put_def replay_authority_def put_depth_def lossy_def MAX_GRAPH_NODES_def
     list_ex_iff bt_contains_def)

text \<open>C12: a semantic receipt is earned.  With the context store as the sink, a receipt means: the gate, run over this very
  candidate with the deterministic floor of the executor's own state, returned a passing record; a constitutional or
  decisional artifact has its lane authority checked against that record; the store's spine has grown by exactly the
  artifact's bytes, unredacted and not vaulted; and the receipt's event is the command with that record and the canonical
  handle of those bytes, on record as validated at a bound that fits the budget.\<close>

theorem semantic_receipt_earned:
  assumes "validate_semantic env ops sv command bu e w = ((e', Inr rc), w')" and "sv_sink sv = store_sink a"
    and "holds (le_sink w) ps"
  shows "\<exists>vr. sr_event rc =
        SemanticPut (command\<lparr>cm_store_handle :=
          canonical_handle (length (concat ps)) (string_bytes (ca_artifact (cm_candidate command)))\<rparr>) vr \<and>
      snd (gate_validate (env_candidate_digest env) (sv_gate sv) (cm_candidate command)
        (semantic_floor sv command (ex_typed e)) (sv_always_checked sv) (sv_store sv) (sv_consumers sv) (le_consumers w)) =
        Inr vr \<and>
      vr_verdict vr = Pass \<and>
      (cm_lane command \<le> 2 \<longrightarrow> (\<exists>la. cm_authority command = Some la \<and>
         check_authority (sv_store sv) (sv_authorization sv) la (cm_lane command) (ca_scope (cm_candidate command)) vr)) \<and>
      holds (le_sink w') (ps @ [string_bytes (ca_artifact (cm_candidate command))]) \<and>
      ex_state e' = TxnValidated \<and> ex_semantic_validation e' = Some (sr_event rc, sr_bound rc) \<and>
      budget_fits (sr_bound rc) bu"
proof -
  from assms(1) obtain ev where ad: "admit_semantic env sv command e w = (w', Inr ev)"
    and rf: "semantic_receipt_for env ops ev bu e = (e', Inr rc)"
  proof -
    obtain w1 r where a: "admit_semantic env sv command e w = (w1, r)" by fastforce
    show thesis
    proof (cases r)
      case (Inr ev)
      obtain e1 q where s: "semantic_receipt_for env ops ev bu e = (e1, q)" by fastforce
      with a Inr assms(1) show thesis by (cases q) (auto simp: validate_semantic_def intro: that)
    qed (use a assms(1) in \<open>simp add: validate_semantic_def\<close>)
  qed
  from ad obtain w1 vr records adm where
    g: "run_gate env sv (cm_candidate command) (semantic_floor sv command (ex_typed e)) w = (w1, Inr vr)"
    and p: "vr_verdict vr = Pass"
    and la: "check_lane_authority command vr (sv_store sv) (sv_authorization sv) = Inr ()"
    and i: "ingest_derivation (sv_sink sv) (semantic_name (cm_operation command)) (ca_artifact (cm_candidate command)) w1 =
      (w', Inr records)"
    and x: "exact_derivation records (ca_artifact (cm_candidate command)) = Inr adm"
    and ev: "ev = SemanticPut (command\<lparr>cm_store_handle := pl_handle (ig_payload adm)\<rparr>) vr"
    by (rule admit_semantic_Inr)
  from g have gv: "snd (gate_validate (env_candidate_digest env) (sv_gate sv) (cm_candidate command)
        (semantic_floor sv command (ex_typed e)) (sv_always_checked sv) (sv_store sv) (sv_consumers sv) (le_consumers w)) =
        Inr vr" and "le_sink w1 = le_sink w"
    by (auto simp: run_gate_def split: prod.splits)
  with assms(3) have "holds (le_sink w1) ps" by simp
  from ingest_exact [OF this i [unfolded assms(2)] x] semantic_receipt_Inr [OF rf] gv p la ev show ?thesis
    by (auto simp: check_lane_authority_def split: option.splits)
qed

theorem semantic_receipt_earned_witness:
  "\<exists>e' rc w'. validate_semantic txn_env bound_port_ops read_services read_command txn_budget read_ready read_lent =
      ((e', Inr rc), w') \<and> ex_state e' = TxnValidated \<and> holds (le_sink w') [string_bytes ''ok'']"
proof -
  obtain vr where vr: "gate_validate (\<lambda>_. ''digest'') demo_gate demo_candidate [] [] demo_store demo_consumers () = ((), Inr vr)"
    "vr_verdict vr = Pass" "vr_candidate_digest vr = ''digest''" by (rule read_gate)
  obtain w1 r where w1: "ingest_derivation (store_sink demo_aead) ''read-back'' ''ok'' read_lent = (w1, Inr [r])"
    "exact_derivation [r] ''ok'' = Inr r" "pl_handle (ig_payload r) = canonical_handle 0 (string_bytes ''ok'')"
    by (rule read_ingest)
  let ?ev = "SemanticPut (read_command\<lparr>cm_store_handle := pl_handle (ig_payload r)\<rparr>) vr"
  have "pl_handle (ig_payload r) \<noteq> []" by (simp add: w1(3) canonical_handle_def)
  from read_candidate [OF vr(2,3) this] obtain s where s: "semantic_candidate txn_env ?ev read_ready = Inr s"
    "ts_ledger s = ledger_default" .
  have gate: "run_gate txn_env read_services demo_candidate (semantic_floor read_services read_command (ex_typed read_ready)) read_lent =
      (read_lent, Inr vr)" unfolding read_floor
    by (simp only: run_gate_def kernel_env.select_convs semantic_services.select_convs lent.select_convs vr(1) prod.case lent.update_convs)
  have op: "check_semantic_operation ''read-back'' read_ready = Inr ()"
    by (simp add: check_semantic_operation_def read_ready_def)
  have ad: "admit_semantic txn_env read_services read_command read_ready read_lent = (w1, Inr ?ev)"
    using gate [unfolded semantic_floor_def] vr(2) w1 op
    by (simp add: admit_semantic_def check_lane_authority_def Let_def)
  have b: "executor_port_bound bound_port_ops read_ready 0 10 = Some 238"
    using txn_bound by (simp add: executor_port_bound_def read_ready_def)
  obtain row where row: "find_operation ''read-back'' = Some row" "op_precondition row = Always" "\<not> op_reclamation row"
    by (simp add: find_operation_def REGISTRY_def)
  have f: "live_obligation_bytes ledger_default = 0"
    by (simp add: live_obligation_bytes_def ledger_default_def sum64_def)
  have v: "\<exists>e1 t. validate bound_port_ops 238 txn_budget 0 pre post 10 read_ready = (e1, Inr t)" for pre post
    using b row by (simp add: validate_Inr validation_holds_def feasible_def saturating_add_def) (simp add: read_ready_def txn_start_def)
  have "\<exists>e1. validate_semantic_event txn_env bound_port_ops ?ev txn_budget read_ready = (e1, Inr 238)"
    using v [of "rendered_bytes (ts_semantic (ex_typed read_ready))" "rendered_bytes (ts_semantic s)"] b row f
    by (auto simp: validate_semantic_event_def s [simplified] Let_def budget_fits_def commit_ceiling_def saturating_sub_def)
  then obtain e1 where e1: "validate_semantic_event txn_env bound_port_ops ?ev txn_budget read_ready = (e1, Inr 238)" by blast
  obtain e' rc where "validate_semantic txn_env bound_port_ops read_services read_command txn_budget read_ready read_lent =
      ((e', Inr rc), w1)"
    unfolding validate_semantic_def ad prod.case and_then.simps semantic_receipt_for_def e1 by simp
  moreover have "sv_sink read_services = store_sink demo_aead" and "holds (le_sink read_lent) []" by (simp_all add: holds_open)
  moreover from semantic_receipt_earned [OF calculation] have "ex_state e' = TxnValidated \<and> holds (le_sink w1) [string_bytes ''ok'']"
    by auto
  ultimately show ?thesis by blast
qed

end
