(* ===== verification/Turns.thy ===== *)
theory Turns
  imports Text
begin

text \<open>
  The closed provider-turn protocol of \<^verbatim>\<open>src/context_gateway/protocol.rs\<close>: send intents, staged replies,
  admission with the complete set of tool intents, completions and recovery, and the validation of a
  persisted list of turns.  Every check of the reducer precedes its first mutation, so a refused command
  leaves the list as it was and \<open>turn_apply\<close> returns the new list only on success.
\<close>

section \<open>Definitions\<close>

datatype provider_class = StatelessAttested | IdempotentIdentity | AtMostOneAttempt | Unattested

definition unattended :: "provider_class \<Rightarrow> bool" where
  "unattended c \<longleftrightarrow> c = StatelessAttested \<or> c = IdempotentIdentity"

datatype turn_kind = ConversationTurn | ManagementTurn

datatype turn_status = TurnIntent | TurnPending | TurnAdmitted | TurnRejected | TurnIndeterminate

record send_intent =
  si_identity :: string
  si_branch :: string
  si_owner :: string
  si_epoch :: u64
  si_context_version :: u64
  si_request_hash :: string
  si_contract_hash :: string
  si_class :: provider_class
  si_kind :: turn_kind
  si_allowance :: u64

record execution_intent =
  xi_id :: string
  xi_tool :: string
  xi_args :: string
  xi_read_only :: bool
  xi_completion :: "(bool \<times> string) option"

record turn_record =
  tr_intent :: send_intent
  tr_status :: turn_status
  tr_response :: "byte list option"
  tr_executions :: "execution_intent list"

datatype gateway_command =
    IntentCommand send_intent
  | StageCommand string "byte list"
  | AdmitCommand string "execution_intent list"
  | RejectCommand string
  | CompleteCommand string string bool string
  | RecoverCommand string

datatype gateway_error = GwTransition | GwAllowance | GwIdentity | GwIndeterminate | GwUnsupported

text \<open>\<open>SendPermit\<close> has no constructor besides \<open>new\<close> and gives its intent up when it is consumed.\<close>

datatype send_permit = SendPermit send_intent

fun permit_consume :: "send_permit \<Rightarrow> send_intent" where
  "permit_consume (SendPermit intent) = intent"

definition is_identity :: "string \<Rightarrow> turn_record \<Rightarrow> bool" where
  "is_identity i r \<longleftrightarrow> si_identity (tr_intent r) = i"

text \<open>\<open>record(records, id)?\<close> followed by an operation on the record it found, through the reference.\<close>

definition with_turn ::
  "turn_record list \<Rightarrow> string \<Rightarrow> (turn_record \<Rightarrow> gateway_error + turn_record) \<Rightarrow> gateway_error + turn_record list"
where
  "with_turn records i f =
     res_bind (ok_or (find (is_identity i) records) GwIdentity) (\<lambda>r.
     res_bind (f r) (\<lambda>r'. Inr (update_first (is_identity i) (\<lambda>_. r') records)))"

definition is_hex_lower :: "char \<Rightarrow> bool" where
  "is_hex_lower c \<longleftrightarrow> is_digit c \<or> (97 \<le> (of_char c :: nat) \<and> (of_char c :: nat) \<le> 102)"

definition hash_valid :: "string \<Rightarrow> bool" where
  "hash_valid s \<longleftrightarrow> length s = 64 \<and> list_all is_hex_lower s"

definition turn_insert :: "turn_record list \<Rightarrow> send_intent \<Rightarrow> gateway_error + turn_record list" where
  "turn_insert records intent =
     (if si_identity intent = [] \<or> 256 < length (si_identity intent) \<or> si_owner intent = [] \<or>
         si_branch intent = [] \<or> si_epoch intent = 0 \<or> si_allowance intent = 0 \<or>
         \<not> hash_valid (si_request_hash intent) \<or> \<not> hash_valid (si_contract_hash intent) \<or>
         list_ex (is_identity (si_identity intent)) records
      then Inl GwIdentity
      else Inr (records @ [\<lparr>tr_intent = intent, tr_status = TurnIntent, tr_response = None,
                            tr_executions = []\<rparr>]))"

definition turn_stage :: "byte list \<Rightarrow> turn_record \<Rightarrow> gateway_error + turn_record" where
  "turn_stage bytes r =
     (if tr_status r \<noteq> TurnIntent then Inl GwTransition
      else if si_allowance (tr_intent r) < length bytes then Inl GwAllowance
      else Inr (r\<lparr>tr_response := Some bytes, tr_status := TurnPending\<rparr>))"

text \<open>\<open>any\<close> with the insertion into the set \<open>ids\<close> of the calls seen so far.\<close>

fun bad_executions :: "(execution_intent \<Rightarrow> bool) \<Rightarrow> string set \<Rightarrow> execution_intent list \<Rightarrow> bool" where
  "bad_executions refused ids [] = False"
| "bad_executions refused ids (c # cs) =
     (xi_id c = [] \<or> xi_tool c = [] \<or> refused c \<or> xi_id c \<in> ids \<or>
      bad_executions refused (insert (xi_id c) ids) cs)"

definition turn_admit :: "execution_intent list \<Rightarrow> turn_record \<Rightarrow> gateway_error + turn_record" where
  "turn_admit executions r =
     (if tr_status r \<noteq> TurnPending \<or> tr_response r = None then Inl GwTransition
      else if bad_executions (\<lambda>c. xi_completion c \<noteq> None) {} executions then Inl GwIdentity
      else Inr (r\<lparr>tr_executions := executions, tr_status := TurnAdmitted\<rparr>))"

definition turn_reject :: "turn_record \<Rightarrow> gateway_error + turn_record" where
  "turn_reject r =
     (if tr_status r \<noteq> TurnIntent \<and> tr_status r \<noteq> TurnPending then Inl GwTransition
      else Inr (r\<lparr>tr_response := None, tr_status := TurnRejected\<rparr>))"

definition turn_complete :: "string \<Rightarrow> bool \<Rightarrow> string \<Rightarrow> turn_record \<Rightarrow> gateway_error + turn_record" where
  "turn_complete call ok result r =
     (if tr_status r \<noteq> TurnAdmitted then Inl GwTransition
      else res_bind (ok_or (find (\<lambda>c. xi_id c = call) (tr_executions r)) GwIdentity) (\<lambda>c.
             if xi_completion c \<noteq> None then Inl GwTransition
             else Inr (r\<lparr>tr_executions :=
                     update_first (\<lambda>c. xi_id c = call) (xi_completion_update (\<lambda>_. Some (ok, result)))
                       (tr_executions r)\<rparr>)))"

definition INDETERMINATE_EXECUTION :: string where
  "INDETERMINATE_EXECUTION = ''indeterminate execution; not repeated after restart''"

definition settle_call :: "execution_intent \<Rightarrow> execution_intent" where
  "settle_call c =
     (if xi_completion c = None then c\<lparr>xi_completion := Some (False, INDETERMINATE_EXECUTION)\<rparr> else c)"

definition turn_recover :: "turn_record \<Rightarrow> turn_record" where
  "turn_recover r =
     (let r' = (if tr_status r = TurnIntent \<or> tr_status r = TurnPending
                then r\<lparr>tr_status := TurnIndeterminate, tr_response := None\<rparr> else r)
      in r'\<lparr>tr_executions := map settle_call (tr_executions r')\<rparr>)"

fun turn_apply :: "turn_record list \<Rightarrow> gateway_command \<Rightarrow> gateway_error + turn_record list" where
  "turn_apply records (IntentCommand intent) = turn_insert records intent"
| "turn_apply records (StageCommand i bytes) = with_turn records i (turn_stage bytes)"
| "turn_apply records (AdmitCommand i executions) = with_turn records i (turn_admit executions)"
| "turn_apply records (RejectCommand i) = with_turn records i turn_reject"
| "turn_apply records (CompleteCommand i call ok result) = with_turn records i (turn_complete call ok result)"
| "turn_apply records (RecoverCommand branch) =
     Inr (map (\<lambda>r. if si_branch (tr_intent r) = branch then turn_recover r else r) records)"

text \<open>One round of the loop of \<open>validate_records\<close>, after the identity has been inserted into the set.\<close>

definition validate_turn :: "turn_record \<Rightarrow> gateway_error + unit" where
  "validate_turn r =
     res_bind (ensure (hash_valid (si_request_hash (tr_intent r)) \<and> hash_valid (si_contract_hash (tr_intent r)) \<and>
                       si_epoch (tr_intent r) \<noteq> 0 \<and> si_allowance (tr_intent r) \<noteq> 0 \<and>
                       si_branch (tr_intent r) \<noteq> [] \<and> si_owner (tr_intent r) \<noteq> []) GwIdentity) (\<lambda>_.
     res_bind (ensure (if tr_status r \<in> {TurnIntent, TurnRejected, TurnIndeterminate}
                       then tr_response r = None else tr_response r \<noteq> None) GwTransition) (\<lambda>_.
     res_bind (ensure (case tr_response r of None \<Rightarrow> True
                       | Some b \<Rightarrow> length b \<le> si_allowance (tr_intent r)) GwAllowance) (\<lambda>_.
     res_bind (ensure (tr_executions r = [] \<or> tr_status r = TurnAdmitted) GwTransition) (\<lambda>_.
     ensure (\<not> bad_executions (\<lambda>_. False) {} (tr_executions r)) GwIdentity))))"

fun validate_turns :: "string set \<Rightarrow> turn_record list \<Rightarrow> gateway_error + unit" where
  "validate_turns identities [] = Inr ()"
| "validate_turns identities (r # rs) =
     res_bind (ensure (si_identity (tr_intent r) \<notin> identities) GwIdentity) (\<lambda>_.
     res_bind (validate_turn r) (\<lambda>_. validate_turns (insert (si_identity (tr_intent r)) identities) rs))"

definition validate_records :: "turn_record list \<Rightarrow> gateway_error + unit" where
  "validate_records records = validate_turns {} records"

section \<open>Validation, declaratively\<close>

lemma bad_executions_iff:
  "\<not> bad_executions refused ids cs \<longleftrightarrow>
     distinct (map xi_id cs) \<and> (\<forall>c \<in> set cs. xi_id c \<noteq> [] \<and> xi_tool c \<noteq> [] \<and> \<not> refused c \<and> xi_id c \<notin> ids)"
  by (induction cs arbitrary: ids) (auto simp: rev_image_eqI)

abbreviation turn_ok :: "turn_record \<Rightarrow> bool" where
  "turn_ok r \<equiv> validate_turn r = Inr ()"

lemma turn_ok_iff:
  "turn_ok r \<longleftrightarrow>
     hash_valid (si_request_hash (tr_intent r)) \<and> hash_valid (si_contract_hash (tr_intent r)) \<and>
     si_epoch (tr_intent r) \<noteq> 0 \<and> si_allowance (tr_intent r) \<noteq> 0 \<and> si_branch (tr_intent r) \<noteq> [] \<and>
     si_owner (tr_intent r) \<noteq> [] \<and>
     (tr_response r = None \<longleftrightarrow> tr_status r \<in> {TurnIntent, TurnRejected, TurnIndeterminate}) \<and>
     (\<forall>b. tr_response r = Some b \<longrightarrow> length b \<le> si_allowance (tr_intent r)) \<and>
     (tr_status r \<noteq> TurnAdmitted \<longrightarrow> tr_executions r = []) \<and>
     distinct (map xi_id (tr_executions r)) \<and>
     (\<forall>c \<in> set (tr_executions r). xi_id c \<noteq> [] \<and> xi_tool c \<noteq> [])"
  by (auto simp: validate_turn_def bad_executions_iff split: option.splits if_splits)

lemma validate_turns_iff:
  "validate_turns ids rs = Inr () \<longleftrightarrow>
     distinct (map (si_identity \<circ> tr_intent) rs) \<and>
     (\<forall>r \<in> set rs. turn_ok r \<and> si_identity (tr_intent r) \<notin> ids)"
  by (induction rs arbitrary: ids) (auto simp: rev_image_eqI)

lemma validate_records_iff:
  "validate_records rs = Inr () \<longleftrightarrow>
     distinct (map (si_identity \<circ> tr_intent) rs) \<and> (\<forall>r \<in> set rs. turn_ok r)"
  by (simp add: validate_records_def validate_turns_iff)

section \<open>One command\<close>

text \<open>Every command but an intent rewrites the list element by element and keeps each intent.\<close>

lemma with_turn_Inr:
  "with_turn rs i f = Inr rs' \<longleftrightarrow>
     (\<exists>r r'. find (is_identity i) rs = Some r \<and> f r = Inr r' \<and>
             rs' = update_first (is_identity i) (\<lambda>_. r') rs)"
  by (auto simp: with_turn_def)

lemma update_first_all2:
  assumes "find P xs = Some x" and "R x y" and "\<And>z. R z z"
  shows "list_all2 R xs (update_first P (\<lambda>_. y) xs)"
  using assms by (induction xs) (auto split: if_splits intro: list_all2_refl)

lemma with_turn_all2:
  assumes "with_turn rs i f = Inr rs'" and "\<And>r r'. f r = Inr r' \<Longrightarrow> R r r'" and "\<And>r. R r r"
  shows "list_all2 R rs rs'"
proof -
  from assms(1) obtain r r' where "find (is_identity i) rs = Some r" "f r = Inr r'"
    "rs' = update_first (is_identity i) (\<lambda>_. r') rs"
    by (auto simp: with_turn_Inr)
  with assms(2,3) show ?thesis by (auto intro: update_first_all2)
qed

lemmas turn_step_defs = turn_stage_def turn_admit_def turn_reject_def turn_complete_def

text \<open>A command on one turn either is an intent, which appends, or relates the turns pairwise.\<close>

lemma turn_apply_all2:
  assumes "turn_apply rs c = Inr rs'" and "\<And>intent. c \<noteq> IntentCommand intent" and "\<And>r. R r r"
    and "\<And>b r r'. turn_stage b r = Inr r' \<Longrightarrow> R r r'"
    and "\<And>xs r r'. turn_admit xs r = Inr r' \<Longrightarrow> R r r'"
    and "\<And>r r'. turn_reject r = Inr r' \<Longrightarrow> R r r'"
    and "\<And>k ok t r r'. turn_complete k ok t r = Inr r' \<Longrightarrow> R r r'"
    and "\<And>r. R r (turn_recover r)"
  shows "list_all2 R rs rs'"
  using assms by (cases c) (auto intro: with_turn_all2 simp: list_all2_map2 list_all2_same)

section \<open>Replay keeps every turn valid\<close>

abbreviation keeps_turn :: "turn_record \<Rightarrow> turn_record \<Rightarrow> bool" where
  "keeps_turn r r' \<equiv> tr_intent r' = tr_intent r \<and> (turn_ok r \<longrightarrow> turn_ok r')"

lemma stage_keeps: "turn_stage b r = Inr r' \<Longrightarrow> keeps_turn r r'"
  by (auto simp: turn_stage_def turn_ok_iff split: if_splits)

lemma admit_keeps: "turn_admit xs r = Inr r' \<Longrightarrow> keeps_turn r r'"
  by (auto simp: turn_admit_def turn_ok_iff bad_executions_iff split: if_splits)

lemma reject_keeps: "turn_reject r = Inr r' \<Longrightarrow> keeps_turn r r'"
  by (auto simp: turn_reject_def turn_ok_iff split: if_splits)

lemma update_first_member: "x \<in> set (update_first P f xs) \<Longrightarrow> x \<in> set xs \<or> (\<exists>y \<in> set xs. x = f y)"
  by (induction xs) (auto split: if_splits)

lemma complete_keeps:
  assumes "turn_complete k ok t r = Inr r'"
  shows "keeps_turn r r'"
proof -
  from assms have r': "r' = r\<lparr>tr_executions :=
      update_first (\<lambda>c. xi_id c = k) (xi_completion_update (\<lambda>_. Some (ok, t))) (tr_executions r)\<rparr>"
    and "tr_status r = TurnAdmitted"
    by (auto simp: turn_complete_def split: if_splits)
  then show ?thesis by (auto simp: turn_ok_iff dest!: update_first_member)
qed

lemma settle_call_simps [simp]: "xi_id (settle_call c) = xi_id c" "xi_tool (settle_call c) = xi_tool c"
  "xi_completion (settle_call c) \<noteq> None"
  by (auto simp: settle_call_def)

lemma map_id_settle [simp]: "map xi_id (map settle_call cs) = map xi_id cs"
  by simp

lemma recover_keeps: "keeps_turn r (turn_recover r)"
  by (auto simp: turn_recover_def turn_ok_iff Let_def comp_def)

lemma all2_keeps_valid:
  assumes "list_all2 keeps_turn rs rs'" and "validate_records rs = Inr ()"
  shows "validate_records rs' = Inr ()"
proof -
  from assms(1) have "map tr_intent rs' = map tr_intent rs \<and> ((\<forall>r \<in> set rs. turn_ok r) \<longrightarrow> (\<forall>r \<in> set rs'. turn_ok r))"
    by (induction rule: list_all2_induct) auto
  then have "map (si_identity \<circ> tr_intent) rs' = map (si_identity \<circ> tr_intent) rs"
    by (metis map_map)
  then show ?thesis using assms(2) \<open>_ \<and> _\<close> by (simp add: validate_records_iff)
qed

lemma insert_keeps_valid:
  assumes "turn_insert rs intent = Inr rs'" and "validate_records rs = Inr ()"
  shows "validate_records rs' = Inr ()"
proof -
  let ?r = "\<lparr>tr_intent = intent, tr_status = TurnIntent, tr_response = None, tr_executions = []\<rparr>"
  from assms(1) have "rs' = rs @ [?r]" and "turn_ok ?r"
    and "si_identity intent \<notin> set (map (si_identity \<circ> tr_intent) rs)"
    by (auto simp: turn_insert_def turn_ok_iff list_ex_iff is_identity_def split: if_splits)
  then show ?thesis using assms(2) by (auto simp: validate_records_iff)
qed

interpretation turns: guarded_machine turn_apply "\<lambda>rs. validate_records rs = Inr ()"
proof
  fix rs c rs'
  assume valid: "validate_records rs = Inr ()" and step: "turn_apply rs c = Inr rs'"
  show "validate_records rs' = Inr ()"
  proof (cases "\<exists>intent. c = IntentCommand intent")
    case True
    with step valid show ?thesis by (auto intro: insert_keeps_valid)
  next
    case False
    with step have "list_all2 keeps_turn rs rs'"
      by (intro turn_apply_all2 [of rs c rs'])
        (use stage_keeps admit_keeps reject_keeps complete_keeps recover_keeps in auto)
    then show ?thesis using valid by (rule all2_keeps_valid)
  qed
qed

section \<open>Turns only move forward\<close>

definition call_follows :: "execution_intent \<Rightarrow> execution_intent \<Rightarrow> bool" where
  "call_follows c c' \<longleftrightarrow>
     c' = c \<or> (xi_completion c = None \<and> (\<exists>v. c' = c\<lparr>xi_completion := Some v\<rparr>))"

definition turn_follows :: "turn_record \<Rightarrow> turn_record \<Rightarrow> bool" where
  "turn_follows r r' \<longleftrightarrow>
     tr_intent r' = tr_intent r \<and>
     (case tr_status r of
        TurnIntent \<Rightarrow> True
      | TurnPending \<Rightarrow>
          tr_status r' \<noteq> TurnIntent \<and>
          (tr_status r' \<in> {TurnPending, TurnAdmitted} \<longrightarrow> tr_response r' = tr_response r)
      | _ \<Rightarrow>
          tr_status r' = tr_status r \<and> tr_response r' = tr_response r \<and>
          list_all2 call_follows (tr_executions r) (tr_executions r'))"

lemma call_follows_refl [simp]: "call_follows c c"
  by (simp add: call_follows_def)

lemma call_follows_trans: "call_follows a b \<Longrightarrow> call_follows b c \<Longrightarrow> call_follows a c"
  by (auto simp: call_follows_def)

lemma calls_follow_refl [simp]: "list_all2 call_follows cs cs"
  by (simp add: list_all2_refl)

lemma calls_follow_trans:
  "list_all2 call_follows as bs \<Longrightarrow> list_all2 call_follows bs cs \<Longrightarrow> list_all2 call_follows as cs"
  by (rule list_all2_trans [of call_follows call_follows]) (auto intro: call_follows_trans)

lemma turn_follows_refl [simp]: "turn_follows r r"
  by (simp add: turn_follows_def split: turn_status.split)

lemma turn_follows_trans: "turn_follows a b \<Longrightarrow> turn_follows b c \<Longrightarrow> turn_follows a c"
  by (auto simp: turn_follows_def intro: calls_follow_trans split: turn_status.splits)

lemma complete_follows:
  assumes "turn_complete k ok t r = Inr r'"
  shows "turn_follows r r'"
proof -
  from assms obtain c where "tr_status r = TurnAdmitted" "find (\<lambda>c. xi_id c = k) (tr_executions r) = Some c"
    "xi_completion c = None"
    "r' = r\<lparr>tr_executions :=
      update_first (\<lambda>c. xi_id c = k) (xi_completion_update (\<lambda>_. Some (ok, t))) (tr_executions r)\<rparr>"
    by (auto simp: turn_complete_def simp del: not_None_eq split: if_splits)
  moreover have "find P cs = Some c \<Longrightarrow> xi_completion c = None \<Longrightarrow>
      list_all2 call_follows cs (update_first P (xi_completion_update (\<lambda>_. Some (ok, t))) cs)" for P cs
    by (induction cs) (auto simp: call_follows_def list_all2_refl split: if_splits)
  ultimately show ?thesis by (simp add: turn_follows_def)
qed

lemma recover_follows: "turn_follows r (turn_recover r)"
  by (auto simp: turn_follows_def turn_recover_def Let_def call_follows_def settle_call_def
      list_all2_map2 intro!: list_all2_same [THEN iffD2] split: turn_status.split)

lemma step_follows:
  assumes "turn_apply rs c = Inr rs'" and "\<And>intent. c \<noteq> IntentCommand intent"
  shows "list_all2 turn_follows rs rs'"
proof (rule turn_apply_all2 [OF assms])
  show "turn_stage b r = Inr r' \<Longrightarrow> turn_follows r r'" for b r r'
    by (auto simp: turn_stage_def turn_follows_def split: if_splits)
  show "turn_admit xs r = Inr r' \<Longrightarrow> turn_follows r r'" for xs r r'
    by (auto simp: turn_admit_def turn_follows_def split: if_splits)
  show "turn_reject r = Inr r' \<Longrightarrow> turn_follows r r'" for r r'
    by (auto simp: turn_reject_def turn_follows_def split: if_splits turn_status.splits)
qed (auto intro: complete_follows recover_follows)

text \<open>The turns of an earlier list are the first turns of a later one, each at least as far.\<close>

definition turns_follow :: "turn_record list \<Rightarrow> turn_record list \<Rightarrow> bool" where
  "turns_follow rs rs' \<longleftrightarrow> length rs \<le> length rs' \<and> list_all2 turn_follows rs (take (length rs) rs')"

lemma turns_follow_nth:
  "turns_follow rs rs' \<longleftrightarrow> length rs \<le> length rs' \<and> (\<forall>i < length rs. turn_follows (rs ! i) (rs' ! i))"
  by (auto simp: turns_follow_def list_all2_conv_all_nth)

interpretation turn_progress: monotone_machine turn_apply turns_follow
proof
  show "turns_follow rs rs" for rs by (simp add: turns_follow_nth)
  show "turns_follow rs ss \<Longrightarrow> turns_follow ss ts \<Longrightarrow> turns_follow rs ts" for rs ss ts
    by (auto simp: turns_follow_nth intro: turn_follows_trans)
  show "turns_follow rs rs'" if step: "turn_apply rs c = Inr rs'" for rs c rs'
  proof (cases "\<exists>intent. c = IntentCommand intent")
    case True
    with step show ?thesis by (auto simp: turns_follow_nth turn_insert_def nth_append split: if_splits)
  next
    case False
    with step have "list_all2 turn_follows rs rs'" by (auto intro: step_follows)
    then show ?thesis by (auto simp: turns_follow_nth list_all2_conv_all_nth)
  qed
qed

section \<open>Settled turns\<close>

definition turn_settled :: "turn_record \<Rightarrow> bool" where
  "turn_settled r \<longleftrightarrow>
     tr_status r \<notin> {TurnIntent, TurnPending} \<and> list_all (\<lambda>c. xi_completion c \<noteq> None) (tr_executions r)"

lemma recover_settles: "turn_settled (turn_recover r)"
  by (auto simp: turn_settled_def turn_recover_def Let_def list_all_iff simp del: not_None_eq)

lemma calls_settled: "list_all2 call_follows cs ds \<Longrightarrow> list_all (\<lambda>c. xi_completion c \<noteq> None) cs \<Longrightarrow> ds = cs"
  by (induction rule: list_all2_induct) (auto simp: call_follows_def)

lemma settled_is_final:
  assumes "turn_follows r r'" and "turn_settled r"
  shows "r' = r"
proof -
  from assms have "tr_intent r' = tr_intent r" "tr_status r' = tr_status r" "tr_response r' = tr_response r"
    "list_all2 call_follows (tr_executions r) (tr_executions r')"
    by (auto simp: turn_follows_def turn_settled_def split: turn_status.splits)
  moreover from this have "tr_executions r' = tr_executions r"
    using assms(2) by (auto simp: turn_settled_def intro: calls_settled)
  ultimately show ?thesis by simp
qed

lemma settled_stays:
  assumes "run_steps turn_apply rs cs = Inr rs'" and "i < length rs" and "turn_settled (rs ! i)"
  shows "i < length rs' \<and> rs' ! i = rs ! i"
  using turn_progress.run_below [OF assms(1)] assms(2,3)
  by (auto simp: turns_follow_nth intro: settled_is_final)

section \<open>Identities\<close>

abbreviation well_named :: "turn_record \<Rightarrow> bool" where
  "well_named r \<equiv> si_identity (tr_intent r) \<noteq> [] \<and> length (si_identity (tr_intent r)) \<le> 256"

interpretation turn_names: guarded_machine turn_apply "\<lambda>rs. \<forall>r \<in> set rs. well_named r"
proof
  fix rs c rs'
  assume named: "\<forall>r \<in> set rs. well_named r" and step: "turn_apply rs c = Inr rs'"
  show "\<forall>r \<in> set rs'. well_named r"
  proof (cases "\<exists>intent. c = IntentCommand intent")
    case True
    with step named show ?thesis by (auto simp: turn_insert_def split: if_splits)
  next
    case False
    with step have "list_all2 turn_follows rs rs'" by (auto intro: step_follows)
    then show ?thesis
      using named nth_mem [of _ rs] by (auto simp: list_all2_conv_all_nth in_set_conv_nth turn_follows_def)
  qed
qed

end
