(* ===== verification/SpendLaws.thy ===== *)
theory SpendLaws
  imports Spend
begin

text \<open>
  What the spend budget promises over any sequence of requests to a management plane: the account of a turn
  closes within the configured total, gate funds are spent by the gate alone, and a validation that was paid for
  at reservation is never refused for want of funds.
\<close>

section \<open>Requests\<close>

text \<open>
  \<open>CandidatePermit\<close> can be neither cloned nor built outside the budget, so a client holds exactly the permits
  that reservations gave it and not yet handed back; a request names one by its position.
\<close>

datatype plane_request =
    ReserveRequest
  | FinishRequest nat
  | CompactRequest nat string u64 quoted_envelope
  | GateRequest nat consumer string quoted_envelope
  | ExecuteRequest consumer string u64 quoted_envelope
  | ReplenishRequest u64

record 'g client =
  cl_plane :: management_plane
  cl_permits :: "candidate_permit list"
  cl_gateway :: 'g

definition sent_by :: "'g client \<Rightarrow> management_plane \<times> 'g \<times> 'r \<Rightarrow> 'g client" where
  "sent_by s out = s\<lparr>cl_plane := fst out, cl_gateway := fst (snd out)\<rparr>"

definition drop_nth :: "nat \<Rightarrow> 'a list \<Rightarrow> 'a list" where
  "drop_nth i xs = take i xs @ drop (Suc i) xs"

fun plane_serve ::
  "management_json \<Rightarrow> 'g management_gateway \<Rightarrow> 'g client \<Rightarrow> plane_request \<Rightarrow> 'g client" where
  "plane_serve json gw s ReserveRequest =
     (case plane_reserve (cl_plane s) of
        (p, Inl e) \<Rightarrow> s\<lparr>cl_plane := p\<rparr>
      | (p, Inr permit) \<Rightarrow> s\<lparr>cl_plane := p, cl_permits := cl_permits s @ [permit]\<rparr>)"
| "plane_serve json gw s (FinishRequest i) =
     (if i < length (cl_permits s)
      then s\<lparr>cl_plane := fst (plane_finish (cl_plane s) (cl_permits s ! i)), cl_permits := drop_nth i (cl_permits s)\<rparr>
      else s)"
| "plane_serve json gw s (CompactRequest i configuration bound envelope) =
     (if i < length (cl_permits s)
      then sent_by s (plane_compact json gw (cl_plane s) (cl_permits s ! i) configuration bound envelope (cl_gateway s))
      else s)"
| "plane_serve json gw s (GateRequest i c configuration envelope) =
     (if i < length (cl_permits s)
      then sent_by s (gate_call json gw (cl_plane s) (cl_permits s ! i) c configuration envelope (cl_gateway s))
      else s)"
| "plane_serve json gw s (ExecuteRequest c configuration bound envelope) =
     sent_by s (plane_execute json gw (cl_plane s) c configuration bound envelope (cl_gateway s))"
| "plane_serve json gw s (ReplenishRequest turn) = s\<lparr>cl_plane := fst (plane_replenish (cl_plane s) turn)\<rparr>"

definition plane_serve_all ::
  "management_json \<Rightarrow> 'g management_gateway \<Rightarrow> 'g client \<Rightarrow> plane_request list \<Rightarrow> 'g client" where
  "plane_serve_all json gw s reqs = foldl (plane_serve json gw) s reqs"

section \<open>Sums over an ordered map\<close>

lemma sum_insert:
  "bt_get m k = None \<Longrightarrow> sum_list (bt_values (bt_insert k v m)) = sum_list (bt_values m) + (v::nat)"
  using weigh_insert [of m k "\<lambda>v. v" "\<lambda>_. True" v] by (simp add: weigh_def)

lemma absent_adjust: "k \<notin> fst ` set m \<Longrightarrow> bt_adjust k f m = m"
  by (induction m) (auto simp: bt_adjust_def)

lemma absent_remove: "k \<notin> fst ` set m \<Longrightarrow> bt_remove k m = m"
  by (auto simp: bt_remove_def filter_id_conv rev_image_eqI)

lemma sum_adjust:
  assumes "distinct (bt_keys m)" and "bt_get m k = Some r" and "c \<le> r"
  shows "sum_list (bt_values (bt_adjust k (\<lambda>r. r - c) m)) + c = (sum_list (bt_values m) :: nat)"
  using assms
proof (induction m)
  case (Cons kv m)
  show ?case
  proof (cases "fst kv = k")
    case True
    with Cons.prems have "bt_adjust k (\<lambda>r. r - c) m = m" by (auto intro: absent_adjust)
    with True Cons.prems show ?thesis by (cases kv) (auto simp: bt_adjust_def)
  next
    case False
    with Cons show ?thesis by (cases kv) (auto simp: bt_adjust_def)
  qed
qed simp

lemma sum_remove:
  assumes "distinct (bt_keys m)" and "bt_get m k = Some r"
  shows "sum_list (bt_values (bt_remove k m)) + r = (sum_list (bt_values m) :: nat)"
  using assms
proof (induction m)
  case (Cons kv m)
  show ?case
  proof (cases "fst kv = k")
    case True
    with Cons.prems have "bt_remove k m = m" by (auto intro: absent_remove)
    with True Cons.prems show ?thesis by (cases kv) (auto simp: bt_remove_def)
  next
    case False
    with Cons show ?thesis by (cases kv) (auto simp: bt_remove_def)
  qed
qed simp

lemma keys_remove [simp]: "fst ` set (bt_remove k m) = fst ` set m - {k}"
  by (auto simp: bt_remove_def rev_image_eqI)

lemma key_set_adjust [simp]: "fst ` set (bt_adjust k f m) = fst ` set m"
  by (metis keys_adjust list.set_map)

lemma bt_contains_keys: "bt_contains m k \<longleftrightarrow> k \<in> fst ` set m"
  by (simp add: bt_contains_def map_of_eq_None_iff)

lemma bt_get_keys: "bt_get m k = None \<longleftrightarrow> k \<notin> fst ` set m"
  by (simp add: map_of_eq_None_iff)

section \<open>The account of a turn\<close>

abbreviation escrow_keys :: "spend_budget \<Rightarrow> u64 set" where
  "escrow_keys b \<equiv> fst ` set (sb_escrow b)"

definition escrowed :: "spend_budget \<Rightarrow> nat" where
  "escrowed b = sum_list (bt_values (sb_escrow b))"

definition funds :: "spend_budget \<Rightarrow> nat" where
  "funds b = sb_ordinary b + sb_safety b + sb_gate b + escrowed b"

text \<open>The candidates that are reserved and whose compaction has not been charged yet.\<close>

definition unsent :: "management_plane \<Rightarrow> nat" where
  "unsent p = card (escrow_keys (mp_spend p) - fst ` set (mp_sent_compactors p))"

definition budget_ok :: "spend_budget \<Rightarrow> bool" where
  "budget_ok b \<longleftrightarrow>
     spend_validate (sb_config b) = Inr () \<and> cfg_total (sb_config b) < u64_modulus \<and> bt_ok (sb_escrow b) \<and>
     (\<forall>k \<in> escrow_keys b. k < sb_next b) \<and>
     sb_ordinary b div cfg_candidate_cost (sb_config b) * cfg_gate_cost (sb_config b) \<le> sb_gate b"

definition plane_ok :: "management_plane \<Rightarrow> bool" where
  "plane_ok p \<longleftrightarrow>
     budget_ok (mp_spend p) \<and> bt_ok (mp_sent_compactors p) \<and>
     fst ` set (mp_sent_compactors p) \<subseteq> escrow_keys (mp_spend p) \<and>
     funds (mp_spend p) + sb_charged (mp_spend p) + cfg_candidate_cost (sb_config (mp_spend p)) * unsent p
       \<le> cfg_total (sb_config (mp_spend p))"

definition permit_of :: "spend_budget \<Rightarrow> candidate_permit \<Rightarrow> bool" where
  "permit_of b permit \<longleftrightarrow> cp_owner permit = sb_owner b \<and> cp_turn permit = sb_turn b"

definition client_ok :: "'g client \<Rightarrow> bool" where
  "client_ok s \<longleftrightarrow>
     plane_ok (cl_plane s) \<and> distinct (map cp_id (cl_permits s)) \<and>
     set (map cp_id (cl_permits s)) = escrow_keys (mp_spend (cl_plane s)) \<and>
     list_all (permit_of (mp_spend (cl_plane s))) (cl_permits s)"

lemma spend_validate_Inr:
  "spend_validate c = Inr () \<longleftrightarrow>
     cfg_safety c \<le> cfg_total c \<and> cfg_gate_only c \<le> cfg_safety c \<and> 0 < cfg_candidate_cost c \<and>
     GATE_SPEND_FLOOR \<le> cfg_gate_cost c \<and> cfg_candidate_cost c \<le> cfg_total c - cfg_safety c \<and>
     (cfg_total c - cfg_safety c) div cfg_candidate_cost c * cfg_gate_cost c < u64_modulus \<and>
     (cfg_total c - cfg_safety c) div cfg_candidate_cost c * cfg_gate_cost c \<le> cfg_gate_only c"
  by (auto simp: spend_validate_def checked_mul_def Let_def split: if_splits)

lemma plane_ok_charged: "plane_ok p \<Longrightarrow> sb_charged (mp_spend p) \<le> cfg_total (sb_config (mp_spend p))"
  by (simp add: plane_ok_def)

lemma gate_margin: "x \<le> y \<Longrightarrow> y div c * g \<le> n \<Longrightarrow> x div c * g \<le> (n::nat)"
  by (meson div_le_mono mult_le_mono1 order_trans)

text \<open>A request that only charges: the funds it takes are the funds it charges, and none of them are gate funds.\<close>

lemma charge_ok:
  assumes ok: "plane_ok p" and "spend_charge (mp_spend p) c cost = Inr b"
  shows "plane_ok (p\<lparr>mp_spend := b\<rparr>)" and "sb_escrow b = sb_escrow (mp_spend p)"
    and "sb_gate b = sb_gate (mp_spend p)" and "sb_owner b = sb_owner (mp_spend p)" and "sb_turn b = sb_turn (mp_spend p)"
    and "sb_config b = sb_config (mp_spend p)"
proof -
  let ?b = "mp_spend p" and ?o = "min cost (sb_ordinary (mp_spend p))"
  from assms(2) have b: "b = ?b\<lparr>sb_ordinary := sb_ordinary ?b - ?o, sb_safety := sb_safety ?b - (cost - ?o),
      sb_charged := add64 (sb_charged ?b) cost\<rparr>" and le: "cost - ?o \<le> sb_safety ?b"
    by (auto simp: spend_charge_def Let_def split: if_splits)
  have "cost \<le> sb_ordinary ?b + sb_safety ?b" using le by arith
  with ok have "sb_charged ?b + cost < u64_modulus" by (simp add: plane_ok_def budget_ok_def funds_def)
  moreover have "(sb_ordinary ?b - ?o) div cfg_candidate_cost (sb_config ?b) * cfg_gate_cost (sb_config ?b) \<le> sb_gate ?b"
    using ok by (auto simp: plane_ok_def budget_ok_def intro: gate_margin [of _ "sb_ordinary ?b"])
  ultimately show "plane_ok (p\<lparr>mp_spend := b\<rparr>)"
    using ok le by (auto simp: plane_ok_def budget_ok_def funds_def escrowed_def unsent_def b)
qed (use assms(2) in \<open>auto simp: spend_charge_def Let_def split: if_splits\<close>)

lemma reserve_ok:
  assumes ok: "plane_ok p" and "reserve_candidate (mp_spend p) = (b, r)"
  shows "plane_ok (p\<lparr>mp_spend := b\<rparr>)"
proof (cases "sb_ordinary (mp_spend p) < cfg_candidate_cost (sb_config (mp_spend p)) \<or>
    sb_gate (mp_spend p) < cfg_gate_cost (sb_config (mp_spend p))")
  case True
  with assms(2) have "b = mp_spend p" by (auto simp: reserve_candidate_def)
  then show ?thesis using ok by simp
next
  case False
  let ?b = "mp_spend p" and ?k = "sb_next (mp_spend p)"
  let ?cc = "cfg_candidate_cost (sb_config ?b)" and ?gc = "cfg_gate_cost (sb_config ?b)"
  let ?b1 = "?b\<lparr>sb_ordinary := sb_ordinary ?b - ?cc, sb_gate := sb_gate ?b - ?gc\<rparr>"
  from False have le: "?cc \<le> sb_ordinary ?b" "?gc \<le> sb_gate ?b" by auto
  have "0 < ?cc" using ok by (simp add: plane_ok_def budget_ok_def spend_validate_Inr)
  then have "(sb_ordinary ?b - ?cc) div ?cc * ?gc + ?gc = sb_ordinary ?b div ?cc * ?gc"
    using le(1) by (simp add: le_div_geq)
  moreover have "sb_ordinary ?b div ?cc * ?gc \<le> sb_gate ?b" using ok by (simp add: plane_ok_def budget_ok_def)
  ultimately have margin: "(sb_ordinary ?b - ?cc) div ?cc * ?gc \<le> sb_gate ?b - ?gc" by linarith
  have fresh: "?k \<notin> escrow_keys ?b" using ok by (auto simp: plane_ok_def budget_ok_def)
  then have sum: "sum_list (bt_values (bt_insert ?k ?gc (sb_escrow ?b))) = sum_list (bt_values (sb_escrow ?b)) + ?gc"
    by (intro sum_insert) (simp add: bt_get_keys)
  have "insert ?k (escrow_keys ?b) - fst ` set (mp_sent_compactors p)
      = insert ?k (escrow_keys ?b - fst ` set (mp_sent_compactors p))"
    using fresh ok by (auto simp: plane_ok_def)
  then have card: "card (insert ?k (escrow_keys ?b) - fst ` set (mp_sent_compactors p)) = Suc (unsent p)"
    using fresh by (simp add: unsent_def)
  from assms(2) False consider
      "b = ?b1"
    | "b = ?b1\<lparr>sb_next := Suc ?k, sb_escrow := bt_insert ?k ?gc (sb_escrow ?b)\<rparr>"
    by (auto simp: reserve_candidate_def Let_def checked_add_def split: if_splits)
  then show ?thesis
  proof cases
    case 1
    then show ?thesis using ok le margin
      by (auto simp: plane_ok_def budget_ok_def funds_def escrowed_def unsent_def)
  next
    case 2
    have "budget_ok b"
      using ok margin by (auto simp: plane_ok_def budget_ok_def 2 less_Suc_eq)
    moreover have "unsent (p\<lparr>mp_spend := b\<rparr>) = Suc (unsent p)" using card by (simp add: 2 unsent_def)
    moreover have "funds b + ?cc = funds ?b" using le by (simp add: 2 funds_def escrowed_def sum)
    ultimately show ?thesis using ok by (auto simp: plane_ok_def 2)
  qed
qed

lemma escrow_finish_ok:
  assumes ok: "plane_ok p" and "spend_finish (mp_spend p) permit = Inr b"
  shows "plane_ok (p\<lparr>mp_sent_compactors := bt_remove (cp_id permit) (mp_sent_compactors p), mp_spend := b\<rparr>)"
proof -
  let ?b = "mp_spend p" and ?k = "cp_id permit"
  from assms(2) obtain r where r: "bt_get (sb_escrow ?b) ?k = Some r"
    and b: "b = ?b\<lparr>sb_escrow := bt_remove ?k (sb_escrow ?b), sb_gate := add64 (sb_gate ?b) r\<rparr>"
    by (auto simp: spend_finish_def)
  have sum: "sum_list (bt_values (bt_remove ?k (sb_escrow ?b))) + r = sum_list (bt_values (sb_escrow ?b))"
    using ok r by (intro sum_remove) (auto simp: plane_ok_def budget_ok_def bt_ok_distinct)
  then have "sb_gate ?b + r < u64_modulus" using ok by (auto simp: plane_ok_def budget_ok_def funds_def escrowed_def)
  then have b': "b = ?b\<lparr>sb_escrow := bt_remove ?k (sb_escrow ?b), sb_gate := sb_gate ?b + r\<rparr>" by (simp add: b)
  let ?p = "p\<lparr>mp_sent_compactors := bt_remove ?k (mp_sent_compactors p), mp_spend := b\<rparr>"
  have "unsent ?p \<le> unsent p" unfolding unsent_def by (rule card_mono) (auto simp: b')
  then have "cfg_candidate_cost (sb_config ?b) * unsent ?p \<le> cfg_candidate_cost (sb_config ?b) * unsent p"
    by (rule mult_le_mono2)
  moreover have "funds b = funds ?b" using sum by (simp add: b' funds_def escrowed_def)
  moreover have "budget_ok b" using ok by (auto simp: plane_ok_def budget_ok_def b')
  moreover have "sb_charged b = sb_charged ?b" "sb_config b = sb_config ?b" "escrow_keys b = escrow_keys ?b - {?k}"
    by (simp_all add: b')
  moreover have "funds ?b + sb_charged ?b + cfg_candidate_cost (sb_config ?b) * unsent ?p \<le> cfg_total (sb_config ?b)"
    using ok calculation(1) unfolding plane_ok_def by linarith
  ultimately show ?thesis using ok by (auto simp: plane_ok_def)
qed

lemma compact_ok:
  assumes ok: "plane_ok p" and "charge_compactor (mp_spend p) permit cost = Inr b"
    and "\<not> bt_contains (mp_sent_compactors p) (cp_id permit)"
  shows "plane_ok (p\<lparr>mp_spend := b, mp_sent_compactors := bt_insert (cp_id permit) t (mp_sent_compactors p)\<rparr>)"
proof -
  let ?b = "mp_spend p" and ?k = "cp_id permit"
  let ?cc = "cfg_candidate_cost (sb_config (mp_spend p))"
  from assms(2) have k: "?k \<in> escrow_keys ?b" and b: "b = ?b\<lparr>sb_charged := add64 (sb_charged ?b) ?cc\<rparr>"
    by (auto simp: charge_compactor_def check_permit_def bt_contains_keys split: if_splits)
  have "?k \<in> escrow_keys ?b - fst ` set (mp_sent_compactors p)" using k assms(3) by (simp add: bt_contains_keys)
  then have n: "unsent p = Suc (card (escrow_keys ?b - insert ?k (fst ` set (mp_sent_compactors p))))"
    unfolding unsent_def by (metis Diff_insert card_Suc_Diff1 finite_Diff finite_imageI finite_set)
  then have "sb_charged ?b + ?cc < u64_modulus" using ok by (auto simp: plane_ok_def budget_ok_def)
  then show ?thesis using ok n k by (auto simp: plane_ok_def budget_ok_def funds_def escrowed_def b unsent_def)
qed

lemma gate_charge_ok:
  assumes ok: "plane_ok p" and "charge_gate (mp_spend p) permit cost = Inr b"
  shows "plane_ok (p\<lparr>mp_spend := b\<rparr>)"
proof -
  let ?b = "mp_spend p" and ?k = "cp_id permit"
  from assms(2) obtain r where r: "bt_get (sb_escrow ?b) ?k = Some r" "cost \<le> r"
    and b: "b = ?b\<lparr>sb_escrow := bt_adjust ?k (\<lambda>r. r - cost) (sb_escrow ?b),
      sb_charged := add64 (sb_charged ?b) cost\<rparr>"
    by (auto simp: charge_gate_def split: if_splits)
  have sum: "sum_list (bt_values (bt_adjust ?k (\<lambda>r. r - cost) (sb_escrow ?b))) + cost = sum_list (bt_values (sb_escrow ?b))"
    using ok r by (intro sum_adjust) (auto simp: plane_ok_def budget_ok_def bt_ok_distinct)
  then have "sb_charged ?b + cost < u64_modulus"
    using ok by (auto simp: plane_ok_def budget_ok_def funds_def escrowed_def)
  then show ?thesis using ok sum
    by (auto simp: plane_ok_def budget_ok_def funds_def escrowed_def b unsent_def)
qed

lemma replenish_ok:
  assumes ok: "plane_ok p" and "spend_replenish (mp_spend p) turn = Inr b"
  shows "plane_ok (p\<lparr>mp_spend := b\<rparr>)" and "sb_escrow (mp_spend p) = []"
proof -
  from assms(2) show "sb_escrow (mp_spend p) = []" by (auto simp: spend_replenish_def split: if_splits)
  with assms show "plane_ok (p\<lparr>mp_spend := b\<rparr>)"
    by (auto simp: spend_replenish_def plane_ok_def budget_ok_def funds_def escrowed_def unsent_def spend_validate_Inr
        split: if_splits)
qed

section \<open>Every request keeps the account\<close>

lemma plane_ok_sequence [simp]: "plane_ok (p\<lparr>mp_sequence := n\<rparr>) \<longleftrightarrow> plane_ok p"
  by (simp add: plane_ok_def unsent_def)

lemma dispatch_plane: "\<exists>n. fst (dispatch gw p c t bound envelope g) = p\<lparr>mp_sequence := n\<rparr>"
proof (cases "checked_add (mp_sequence p) 1")
  case None
  then have "fst (dispatch gw p c t bound envelope g) = p\<lparr>mp_sequence := mp_sequence p\<rparr>"
    by (simp only: dispatch_def option.case fst_conv) simp
  then show ?thesis by blast
next
  case (Some n)
  then have "fst (dispatch gw p c t bound envelope g) = p\<lparr>mp_sequence := n\<rparr>"
    by (simp only: dispatch_def Let_def option.case) (auto split: prod.split sum.split)
  then show ?thesis by blast
qed

text \<open>What the calls leave of the budget, for a client that holds permits of it.\<close>

definition same_permits :: "spend_budget \<Rightarrow> spend_budget \<Rightarrow> bool" where
  "same_permits b b' \<longleftrightarrow>
     sb_owner b' = sb_owner b \<and> sb_turn b' = sb_turn b \<and> escrow_keys b' = escrow_keys b \<and> sb_config b' = sb_config b"

lemma same_permits_of: "same_permits b b' \<Longrightarrow> permit_of b' = permit_of b"
  by (auto simp: same_permits_def permit_of_def)

lemma execute_keeps:
  assumes ok: "plane_ok p"
  shows "plane_ok (fst (plane_execute json gw p c t bound envelope g)) \<and>
    same_permits (mp_spend p) (mp_spend (fst (plane_execute json gw p c t bound envelope g)))"
proof (cases "res_bind (check_call json t bound envelope) (\<lambda>_. spend_charge (mp_spend p) c bound)")
  case (Inl e)
  then show ?thesis using ok by (simp add: plane_execute_def same_permits_def)
next
  case (Inr b)
  then have "spend_charge (mp_spend p) c bound = Inr b" by auto
  note charge = charge_ok [OF ok this]
  obtain n where "fst (plane_execute json gw p c t bound envelope g) = p\<lparr>mp_spend := b, mp_sequence := n\<rparr>"
    using dispatch_plane [of gw "p\<lparr>mp_spend := b\<rparr>" c t bound envelope g] Inr by (auto simp: plane_execute_def)
  then show ?thesis using charge by (simp add: same_permits_def)
qed

lemma compact_keeps:
  assumes ok: "plane_ok p"
  shows "plane_ok (fst (plane_compact json gw p permit t bound envelope g)) \<and>
    same_permits (mp_spend p) (mp_spend (fst (plane_compact json gw p permit t bound envelope g)))"
proof (cases "res_bind (check_call json t bound envelope) (\<lambda>_. res_bind (check_permit (mp_spend p) permit) (\<lambda>_.
    if bt_contains (mp_sent_compactors p) (cp_id permit) then Inl MgTurn
    else charge_compactor (mp_spend p) permit bound))")
  case (Inl e)
  then show ?thesis using ok by (simp add: plane_compact_def same_permits_def)
next
  case (Inr b)
  then have charge: "charge_compactor (mp_spend p) permit bound = Inr b"
    and new: "\<not> bt_contains (mp_sent_compactors p) (cp_id permit)"
    by (auto split: if_splits)
  let ?p = "p\<lparr>mp_spend := b, mp_sent_compactors := bt_insert (cp_id permit) t (mp_sent_compactors p)\<rparr>"
  obtain n where n: "fst (plane_compact json gw p permit t bound envelope g) = ?p\<lparr>mp_sequence := n\<rparr>"
    using dispatch_plane [of gw ?p Compactor t bound envelope g] Inr by (auto simp: plane_compact_def)
  have "same_permits (mp_spend p) b"
    using charge by (auto simp: charge_compactor_def same_permits_def split: if_splits)
  then show ?thesis using compact_ok [OF ok charge new, of t] n by simp
qed

lemma gate_call_keeps:
  assumes ok: "plane_ok p"
  shows "plane_ok (fst (gate_call json gw p permit c t envelope g)) \<and>
    same_permits (mp_spend p) (mp_spend (fst (gate_call json gw p permit c t envelope g)))"
proof (cases "gate_only c")
  case False
  then show ?thesis using ok by (simp add: gate_call_def same_permits_def)
next
  case True
  define charged where "charged =
      res_bind (ok_or (mj_envelope json envelope) MgBounds) (\<lambda>bytes.
      res_bind (ok_or (checked_add (length bytes) MAX_ARTIFACT_BYTES) MgBounds) (\<lambda>bound.
      res_bind (check_call json t bound envelope) (\<lambda>_.
      res_bind (charge_gate (mp_spend p) permit bound) (\<lambda>b. Inr (bound, b)))))"
  show ?thesis
  proof (cases charged)
    case (Inl e)
    then show ?thesis using ok True by (simp add: gate_call_def same_permits_def flip: charged_def)
  next
    case (Inr out)
    obtain bound b where out: "out = (bound, b)" by (cases out)
    with Inr have charge: "charge_gate (mp_spend p) permit bound = Inr b" by (auto simp: charged_def)
    obtain n where n: "fst (gate_call json gw p permit c t envelope g) = p\<lparr>mp_spend := b, mp_sequence := n\<rparr>"
      using dispatch_plane [of gw "p\<lparr>mp_spend := b\<rparr>" c t bound envelope g] Inr True
      by (auto simp: gate_call_def out simp flip: charged_def)
    from charge have "b = mp_spend p\<lparr>sb_escrow := bt_adjust (cp_id permit) (\<lambda>r. r - bound) (sb_escrow (mp_spend p)),
        sb_charged := add64 (sb_charged (mp_spend p)) bound\<rparr>"
      by (auto simp: charge_gate_def split: if_splits)
    then have "same_permits (mp_spend p) b" by (simp add: same_permits_def)
    then show ?thesis using gate_charge_ok [OF ok charge] n by simp
  qed
qed

lemma sent_by_keeps:
  assumes "client_ok s" and "plane_ok (fst out)" and "same_permits (mp_spend (cl_plane s)) (mp_spend (fst out))"
  shows "client_ok (sent_by s out)"
proof -
  have "escrow_keys (mp_spend (fst out)) = escrow_keys (mp_spend (cl_plane s))"
    using assms(3) by (simp add: same_permits_def)
  then show ?thesis using assms same_permits_of [OF assms(3)] by (simp add: client_ok_def sent_by_def)
qed

lemma reserve_keeps:
  assumes ok: "client_ok s" and "reserve_candidate (mp_spend (cl_plane s)) = (b, r)"
  shows "client_ok (s\<lparr>cl_plane := cl_plane s\<lparr>mp_spend := b\<rparr>,
    cl_permits := cl_permits s @ (case r of Inl e \<Rightarrow> [] | Inr permit \<Rightarrow> [permit])\<rparr>)"
proof -
  let ?b = "mp_spend (cl_plane s)"
  have "plane_ok (cl_plane s)" using ok by (simp add: client_ok_def)
  from reserve_ok [OF this assms(2)] have plane: "plane_ok (cl_plane s\<lparr>mp_spend := b\<rparr>)" .
  have b: "sb_owner b = sb_owner ?b \<and> sb_turn b = sb_turn ?b \<and>
      (case r of Inl e \<Rightarrow> escrow_keys b = escrow_keys ?b
       | Inr permit \<Rightarrow> permit = \<lparr>cp_owner = sb_owner ?b, cp_id = sb_next ?b, cp_turn = sb_turn ?b\<rparr> \<and>
           escrow_keys b = insert (sb_next ?b) (escrow_keys ?b))"
    using assms(2) by (auto simp: reserve_candidate_def Let_def split: if_splits option.splits)
  have fresh: "sb_next ?b \<notin> escrow_keys ?b" using ok by (auto simp: client_ok_def plane_ok_def budget_ok_def)
  have same: "permit_of b = permit_of ?b" using b by (auto simp: permit_of_def)
  show ?thesis
  proof (cases r)
    case (Inl e)
    with b ok plane same show ?thesis by (simp add: client_ok_def)
  next
    case (Inr permit)
    with b ok plane same fresh show ?thesis by (auto simp: client_ok_def permit_of_def)
  qed
qed

lemma drop_nth_mset: "i < length xs \<Longrightarrow> xs = take i xs @ xs ! i # drop (Suc i) xs"
  by (rule id_take_nth_drop)

lemma drop_nth_keys:
  assumes "distinct (map f xs)" and "i < length xs"
  shows "distinct (map f (drop_nth i xs))" and "f ` set (drop_nth i xs) = f ` set xs - {f (xs ! i)}"
proof -
  have xs: "map f xs = map f (take i xs) @ f (xs ! i) # map f (drop (Suc i) xs)"
    using arg_cong [OF drop_nth_mset [OF assms(2)], of "map f"] by simp
  show "distinct (map f (drop_nth i xs))" using assms(1) unfolding xs by (auto simp: drop_nth_def)
  have "f ` set xs = insert (f (xs ! i)) (f ` set (drop_nth i xs))"
    using arg_cong [OF xs, of set] by (auto simp: drop_nth_def)
  moreover have "f (xs ! i) \<notin> f ` set (drop_nth i xs)"
    using assms(1) unfolding xs by (auto simp: drop_nth_def)
  ultimately show "f ` set (drop_nth i xs) = f ` set xs - {f (xs ! i)}" by auto
qed

lemma finish_keeps:
  assumes ok: "client_ok s" and i: "i < length (cl_permits s)"
  shows "client_ok (s\<lparr>cl_plane := fst (plane_finish (cl_plane s) (cl_permits s ! i)),
    cl_permits := drop_nth i (cl_permits s)\<rparr>)"
proof -
  let ?b = "mp_spend (cl_plane s)" and ?permit = "cl_permits s ! i"
  have permit: "permit_of ?b ?permit" and id: "cp_id ?permit \<in> escrow_keys ?b"
    using ok i by (auto simp: client_ok_def list_all_length)
  then obtain r where "bt_get (sb_escrow ?b) (cp_id ?permit) = Some r"
    using bt_get_keys [of "sb_escrow ?b"] by blast
  then obtain b where finish: "spend_finish ?b ?permit = Inr b"
    and b: "b = ?b\<lparr>sb_escrow := bt_remove (cp_id ?permit) (sb_escrow ?b), sb_gate := add64 (sb_gate ?b) r\<rparr>"
    using permit id by (auto simp: spend_finish_def check_permit_def permit_of_def bt_contains_keys ensure_def)
  have "plane_ok (cl_plane s)" using ok by (simp add: client_ok_def)
  note plane = escrow_finish_ok [OF this finish]
  have same: "permit_of b = permit_of ?b" by (auto simp: permit_of_def b)
  have "set (drop_nth i (cl_permits s)) \<subseteq> set (cl_permits s)"
    by (auto simp: drop_nth_def dest: in_set_takeD in_set_dropD)
  then have "list_all (permit_of ?b) (drop_nth i (cl_permits s))"
    using ok by (auto simp: client_ok_def list_all_iff)
  then show ?thesis
    using ok plane finish same drop_nth_keys [of cp_id "cl_permits s" i] i
    by (simp add: client_ok_def plane_finish_def b)
qed

lemma replenish_keeps:
  assumes ok: "client_ok s"
  shows "client_ok (s\<lparr>cl_plane := fst (plane_replenish (cl_plane s) turn)\<rparr>)"
proof (cases "spend_replenish (mp_spend (cl_plane s)) turn")
  case (Inl e)
  with ok show ?thesis by (simp add: plane_replenish_def)
next
  case (Inr b)
  have "plane_ok (cl_plane s)" using ok by (simp add: client_ok_def)
  note plane = replenish_ok [OF this Inr]
  have "cl_permits s = []" using ok plane(2) by (simp add: client_ok_def)
  moreover have "sb_escrow b = []" using Inr plane(2) by (auto simp: spend_replenish_def split: if_splits)
  ultimately show ?thesis using plane(1) Inr by (simp add: client_ok_def plane_replenish_def)
qed

lemma serve_keeps:
  assumes ok: "client_ok s"
  shows "client_ok (plane_serve json gw s req)"
proof -
  have p: "plane_ok (cl_plane s)" using ok by (simp add: client_ok_def)
  show ?thesis
  proof (cases req)
    case ReserveRequest
    obtain b r where "reserve_candidate (mp_spend (cl_plane s)) = (b, r)" by (cases "reserve_candidate (mp_spend (cl_plane s))")
    with reserve_keeps [OF ok this] ReserveRequest show ?thesis by (cases r) (simp_all add: plane_reserve_def)
  next
    case (FinishRequest i)
    then show ?thesis using ok finish_keeps [OF ok] by simp
  next
    case (CompactRequest i t bound envelope)
    then show ?thesis using ok by (auto intro!: sent_by_keeps simp: compact_keeps [OF p])
  next
    case (GateRequest i c t envelope)
    then show ?thesis using ok by (auto intro!: sent_by_keeps simp: gate_call_keeps [OF p])
  next
    case (ExecuteRequest c t bound envelope)
    then show ?thesis using ok by (auto intro!: sent_by_keeps simp: execute_keeps [OF p])
  next
    case (ReplenishRequest turn)
    then show ?thesis using replenish_keeps [OF ok] by simp
  qed
qed

lemma serve_all_keeps: "client_ok s \<Longrightarrow> client_ok (plane_serve_all json gw s reqs)"
  by (induction reqs arbitrary: s) (simp_all add: plane_serve_all_def serve_keeps)

lemma new_client_ok:
  assumes "budget_new counter config turn = Inr (counter', b)" and "plane_new b epoch namespace = Inr p"
    and "cfg_total config < u64_modulus"
  shows "client_ok \<lparr>cl_plane = p, cl_permits = [], cl_gateway = g\<rparr>"
proof -
  from assms(1) have valid: "spend_validate config = Inr ()"
    and b: "b = \<lparr>sb_owner = counter, sb_config = config, sb_turn = turn,
             sb_ordinary = cfg_total config - cfg_safety config,
             sb_safety = cfg_safety config - cfg_gate_only config,
             sb_gate = cfg_gate_only config, sb_next = 1, sb_escrow = [], sb_charged = 0\<rparr>"
    by (auto simp: budget_new_def)
  from assms(2) have "mp_spend p = b" "mp_sent_compactors p = []" by (auto simp: plane_new_def split: if_splits)
  with valid assms(3) show ?thesis
    by (simp add: client_ok_def plane_ok_def budget_ok_def funds_def escrowed_def unsent_def b spend_validate_Inr)
qed

lemma serve_config:
  assumes "client_ok s"
  shows "sb_config (mp_spend (cl_plane (plane_serve json gw s req))) = sb_config (mp_spend (cl_plane s))"
proof -
  have p: "plane_ok (cl_plane s)" using assms by (simp add: client_ok_def)
  note calls = compact_keeps [OF p, unfolded same_permits_def] gate_call_keeps [OF p, unfolded same_permits_def]
    execute_keeps [OF p, unfolded same_permits_def]
  show ?thesis
    by (cases req)
      (auto simp: calls plane_reserve_def reserve_candidate_def plane_finish_def spend_finish_def plane_replenish_def
        spend_replenish_def sent_by_def Let_def split: prod.splits sum.splits option.splits if_splits)
qed

lemma serve_all_config:
  "client_ok s \<Longrightarrow> sb_config (mp_spend (cl_plane (plane_serve_all json gw s reqs))) = sb_config (mp_spend (cl_plane s))"
proof (induction reqs arbitrary: s)
  case (Cons req reqs)
  then show ?case using serve_keeps [OF Cons.prems] serve_config [OF Cons.prems] by (simp add: plane_serve_all_def)
qed (simp add: plane_serve_all_def)

text \<open>The client of a new plane, after any requests.\<close>

lemma served_client:
  assumes "budget_new counter config turn = Inr (counter', b)" and "plane_new b epoch namespace = Inr p"
    and "cfg_total config < u64_modulus"
    and s: "s = plane_serve_all json gw \<lparr>cl_plane = p, cl_permits = [], cl_gateway = g\<rparr> reqs"
  shows "client_ok s" and "sb_config (mp_spend (cl_plane s)) = config"
proof -
  note start = new_client_ok [OF assms(1-3), of g]
  from start show "client_ok s" unfolding s by (rule serve_all_keeps)
  have "sb_config (mp_spend p) = config"
    using assms(1,2) by (auto simp: budget_new_def plane_new_def split: if_splits)
  with start show "sb_config (mp_spend (cl_plane s)) = config" by (simp add: s serve_all_config)
qed

lemma gate_remaining_exact:
  assumes "plane_ok p"
  shows "gate_remaining (mp_spend p) = sb_gate (mp_spend p) + escrowed (mp_spend p)"
proof -
  have "sb_gate (mp_spend p) + escrowed (mp_spend p) < u64_modulus"
    using assms by (simp add: plane_ok_def budget_ok_def funds_def)
  then show ?thesis by (simp add: gate_remaining_def escrowed_def)
qed

lemma reserve_exhausted:
  assumes "plane_ok p"
  shows "snd (reserve_candidate (mp_spend p)) = Inl MgExhausted \<longleftrightarrow>
    sb_ordinary (mp_spend p) < cfg_candidate_cost (sb_config (mp_spend p))"
proof -
  let ?b = "mp_spend p"
  have "cfg_gate_cost (sb_config ?b) \<le> sb_gate ?b" if "cfg_candidate_cost (sb_config ?b) \<le> sb_ordinary ?b"
  proof -
    have "0 < cfg_candidate_cost (sb_config ?b)"
      and "sb_ordinary ?b div cfg_candidate_cost (sb_config ?b) * cfg_gate_cost (sb_config ?b) \<le> sb_gate ?b"
      using assms by (auto simp: plane_ok_def budget_ok_def spend_validate_Inr)
    moreover have "1 \<le> sb_ordinary ?b div cfg_candidate_cost (sb_config ?b)"
      using that \<open>0 < cfg_candidate_cost _\<close> by (simp add: Suc_le_eq div_greater_zero_iff)
    ultimately show ?thesis by (metis le_trans mult_le_mono1 nat_mult_1)
  qed
  then have "sb_ordinary ?b < cfg_candidate_cost (sb_config ?b) \<or> cfg_gate_cost (sb_config ?b) \<le> sb_gate ?b"
    by linarith
  then show ?thesis by (auto simp: reserve_candidate_def Let_def split: option.splits)
qed

lemma reserve_escrows:
  assumes "reserve_candidate b = (b', Inr permit)"
  shows "bt_get (sb_escrow b') (cp_id permit) = Some (cfg_gate_cost (sb_config b))"
    and "sb_config b' = sb_config b"
  using assms by (auto simp: reserve_candidate_def Let_def split: if_splits option.splits)

lemma mp_spend_of_update: "mp_spend (p\<lparr>mp_spend := b\<rparr>) = b"
  by simp

lemma compact_escrow:
  "sb_escrow (mp_spend (fst (plane_compact json gw p permit t bound envelope g))) = sb_escrow (mp_spend p)"
proof (cases "res_bind (check_call json t bound envelope) (\<lambda>_. res_bind (check_permit (mp_spend p) permit) (\<lambda>_.
    if bt_contains (mp_sent_compactors p) (cp_id permit) then Inl MgTurn
    else charge_compactor (mp_spend p) permit bound))")
  case (Inl e)
  then show ?thesis by (simp add: plane_compact_def)
next
  case (Inr b)
  let ?p = "p\<lparr>mp_spend := b, mp_sent_compactors := bt_insert (cp_id permit) t (mp_sent_compactors p)\<rparr>"
  obtain n where n: "fst (plane_compact json gw p permit t bound envelope g) = ?p\<lparr>mp_sequence := n\<rparr>"
    using dispatch_plane [of gw ?p Compactor t bound envelope g] Inr by (auto simp: plane_compact_def)
  from Inr have "charge_compactor (mp_spend p) permit bound = Inr b" by (auto split: if_splits)
  then have "sb_escrow b = sb_escrow (mp_spend p)" by (auto simp: charge_compactor_def split: if_splits)
  with n show ?thesis by simp
qed

end
