(* ===== verification/GateFunds.thy ===== *)
theory GateFunds
  imports SpendLaws
begin

text \<open>
  The validation gate run on the management plane.  The escrow of a reserved candidate covers the worst case of
  \<^verbatim>\<open>GATE_SPEND_FLOOR\<close>, two extractions and one scoring per assertion and page of leaves, so what the gate decides
  does not depend on the escrow beyond that floor.  The argument is a simulation between the gate run on two
  consumer states, stated once for any metered pair of consumers.
\<close>

section \<open>Two runs of the gate in step\<close>

text \<open>\<open>R n s t\<close>: the two consumer states agree for the next \<open>n\<close> calls.\<close>

locale metered_pair =
  fixes gc1 :: "'a gate_consumers" and gc2 :: "'b gate_consumers" and R :: "nat \<Rightarrow> 'a \<Rightarrow> 'b \<Rightarrow> bool"
  assumes independence: "R n s t \<Longrightarrow> gc_independence gc1 s = gc_independence gc2 t"
    and fewer: "R n s t \<Longrightarrow> m \<le> n \<Longrightarrow> R m s t"
    and required: "R (Suc n) s t \<Longrightarrow> gc_required_facts gc1 fs s = (s', r) \<Longrightarrow>
          \<exists>t'. gc_required_facts gc2 fs t = (t', r) \<and> R n s' t'"
    and assertions: "R (Suc n) s t \<Longrightarrow> gc_assertions gc1 a s = (s', r') \<Longrightarrow>
          \<exists>t'. gc_assertions gc2 a t = (t', r') \<and> R n s' t'"
    and score: "R (Suc n) s t \<Longrightarrow> gc_score gc1 a ls fs s = (s', r'') \<Longrightarrow>
          \<exists>t'. gc_score gc2 a ls fs t = (t', r'') \<and> R n s' t'"
begin

lemma pages_in_step:
  assumes "R (length pages + n) s t" and "support_pages gc1 store a contra first pages acc k s = (s', k', r)"
  shows "\<exists>t'. support_pages gc2 store a contra first pages acc k t = (t', k', r) \<and> R n s' t'"
  using assms
proof (induction pages arbitrary: first acc k s t)
  case (Cons chunk pages)
  show ?case
  proof (cases "load_leaves store chunk")
    case (Inl e)
    with Cons.prems show ?thesis by (auto intro: fewer)
  next
    case (Inr leaves)
    show ?thesis
    proof (cases "list_ex (\<lambda>l. MAX_ARTIFACT_BYTES < length (lf_sanitized l)) leaves")
      case True
      with Cons.prems Inr show ?thesis by (auto intro: fewer)
    next
      case False
      obtain s1 v where s1: "gc_score gc1 a leaves contra s = (s1, v)" by (cases "gc_score gc1 a leaves contra s")
      have "R (Suc (length pages + n)) s t" using Cons.prems(1) by simp
      from score [OF this s1] obtain t1 where t1: "gc_score gc2 a leaves contra t = (t1, v)"
        and R: "R (length pages + n) s1 t1" by blast
      note IH = Cons.IH [OF R]
      show ?thesis
      proof (cases v)
        case (Inl e)
        with Cons.prems(2) Inr False s1 t1 R show ?thesis by (auto simp: Let_def intro: fewer)
      next
        case (Inr w)
        with Cons.prems(2) \<open>load_leaves store chunk = Inr leaves\<close> False s1 t1 R IH show ?thesis
          by (auto simp: Let_def intro: fewer split: if_splits)
      qed
    qed
  qed
qed auto

lemma assertions_in_step:
  assumes "R (length todo * length (chunks (gt_leaf_cap gt) (sorted_list_of_set ids)) + n) s t"
    and "check_assertions gt gc1 store ids contra todo sups unsup k s = (s', r)"
  shows "\<exists>t'. check_assertions gt gc2 store ids contra todo sups unsup k t = (t', r) \<and> R n s' t'"
  using assms
proof (induction todo arbitrary: sups unsup k s t)
  case (Cons a todo)
  let ?pages = "chunks (gt_leaf_cap gt) (sorted_list_of_set ids)"
  obtain s1 k1 v where s1: "assertion_support gt gc1 store a ids contra k s = (s1, k1, v)"
    by (cases "assertion_support gt gc1 store a ids contra k s")
  have "R (length ?pages + (length todo * length ?pages + n)) s t" using Cons.prems(1) by (simp add: add.assoc)
  from pages_in_step [OF this s1 [unfolded assertion_support_def]] obtain t1
    where t1: "assertion_support gt gc2 store a ids contra k t = (t1, k1, v)"
      and R: "R (length todo * length ?pages + n) s1 t1"
    by (auto simp: assertion_support_def)
  show ?case
  proof (cases v)
    case (Inl e)
    with Cons.prems(2) s1 t1 R show ?thesis by (auto intro: fewer)
  next
    case (Inr w)
    with Cons.prems(2) s1 t1 Cons.IH [OF R] show ?thesis by (auto split: if_splits)
  qed
qed auto

end

section \<open>How many calls a validation makes\<close>

lemma length_chunks: "length (chunks n xs) \<le> length xs"
proof (induction n xs rule: chunks.induct)
  case (3 n x xs)
  then have "length (chunks (Suc n) (drop n xs)) \<le> length xs" by simp
  then show ?case by simp
qed simp_all

lemma walk_leaves:
  assumes "walk g stack leaves active visited = Inr out" and "card leaves \<le> MAX_GRAPH_NODES"
  shows "card out \<le> MAX_GRAPH_NODES"
  using assms
proof (induction g stack leaves active visited rule: walk.induct)
  case (2 g i exit stack leaves active visited)
  then show ?case by (auto split: if_splits)
next
  case (4 g i stack leaves active visited)
  then show ?case by (auto simp: Let_def split: if_splits option.splits)
qed simp_all

lemma roots_bounded: "provenance_roots c = Inr ids \<Longrightarrow> card ids \<le> MAX_GRAPH_NODES"
  by (auto simp: provenance_roots_def split: if_splits dest: walk_leaves)

lemma assertions_bounded: "extract_assertions gc c s = (s', Inr all) \<Longrightarrow> card all \<le> MAX_ASSERTIONS"
  by (auto simp: extract_assertions_def Let_def split: prod.splits sum.splits if_splits)

context metered_pair
begin

lemma union_in_step:
  assumes "R (Suc n) s t" and "required_union gc1 fs s = (s1, facts, u)"
  shows "\<exists>t1. required_union gc2 fs t = (t1, facts, u) \<and> R n s1 t1"
proof -
  obtain s' r where s': "gc_required_facts gc1 fs s = (s', r)" by (cases "gc_required_facts gc1 fs s")
  from required [OF assms(1) s'] obtain t' where "gc_required_facts gc2 fs t = (t', r)" "R n s' t'" by blast
  with assms(2) s' show ?thesis by (cases r) (auto simp: required_union_def split: if_splits)
qed

lemma extract_in_step:
  assumes "R (Suc n) s t" and "extract_assertions gc1 c s = (s1, r)"
  shows "\<exists>t1. extract_assertions gc2 c t = (t1, r) \<and> R n s1 t1"
proof -
  obtain s' v where s': "gc_assertions gc1 (ca_artifact c) s = (s', v)" by (cases "gc_assertions gc1 (ca_artifact c) s")
  from assertions [OF assms(1) s'] obtain t' where "gc_assertions gc2 (ca_artifact c) t = (t', v)" "R n s' t'" by blast
  with assms(2) s' show ?thesis by (cases v) (auto simp: extract_assertions_def)
qed

text \<open>From the assertions on: the scoring of every assertion against every page.\<close>

lemma scoring_in_step:
  assumes "R (MAX_ASSERTIONS * MAX_GRAPH_NODES) s t" and "card all \<le> MAX_ASSERTIONS" and "card ids \<le> MAX_GRAPH_NODES"
    and "check_assertions gt gc1 store ids contra (sorted_list_of_set all) sups unsup k s = (s', r)"
  shows "\<exists>t'. check_assertions gt gc2 store ids contra (sorted_list_of_set all) sups unsup k t = (t', r) \<and> R 0 s' t'"
proof -
  have "length (sorted_list_of_set all) * length (chunks (gt_leaf_cap gt) (sorted_list_of_set ids))
      \<le> MAX_ASSERTIONS * MAX_GRAPH_NODES"
    using assms(2,3) length_chunks [of "gt_leaf_cap gt" "sorted_list_of_set ids"]
    by (intro mult_le_mono) (simp_all add: order_trans)
  then have "R (length (sorted_list_of_set all) * length (chunks (gt_leaf_cap gt) (sorted_list_of_set ids)) + 0) s t"
    using assms(1) by (auto intro: fewer)
  then show ?thesis using assms(4) by (rule assertions_in_step)
qed

lemma validate_in_step:
  assumes R: "R (2 + MAX_ASSERTIONS * MAX_GRAPH_NODES) s t"
    and run: "gate_validate dig gt c fs always store gc1 s = (s', r)"
  shows "\<exists>t'. gate_validate dig gt c fs always store gc2 t = (t', r) \<and> R 0 s' t'"
proof -
  have ind: "gc_independence gc2 t = gc_independence gc1 s" using independence [OF R] by simp
  obtain s1 facts u where s1: "required_union gc1 fs s = (s1, facts, u)" by (cases "required_union gc1 fs s")
  obtain s2 v where s2: "extract_assertions gc1 c s1 = (s2, v)" by (cases "extract_assertions gc1 c s1")
  have "R (Suc (Suc (MAX_ASSERTIONS * MAX_GRAPH_NODES))) s t" using R by simp
  from union_in_step [OF this s1] obtain t1 where t1: "required_union gc2 fs t = (t1, facts, u)"
    and R1: "R (Suc (MAX_ASSERTIONS * MAX_GRAPH_NODES)) s1 t1" by blast
  from extract_in_step [OF R1 s2] obtain t2 where t2: "extract_assertions gc2 c t1 = (t2, v)"
    and R2: "R (MAX_ASSERTIONS * MAX_GRAPH_NODES) s2 t2" by blast
  note zero = fewer [OF R, of 0] fewer [OF R1, of 0] fewer [OF R2, of 0]
  show ?thesis
  proof (cases "provenance_roots c")
    case (Inl e)
    with run zero show ?thesis
      by (auto simp: gate_validate_def ind Let_def split: if_splits sum.splits)
  next
    case (Inr ids)
    note ids = Inr roots_bounded [OF Inr]
    show ?thesis
    proof (cases v)
      case (Inl e)
      with run s1 s2 t1 t2 ids(1) zero show ?thesis
        by (auto simp: gate_validate_def ind Let_def split: if_splits sum.splits)
    next
      case (Inr all)
      note all = assertions_bounded [OF s2 [unfolded Inr]]
      let ?contra = "filter (\<lambda>f. bf_scope f = ca_scope c) (sorted_list_of_set facts) @ always"
      obtain s3 w where s3: "check_assertions gt gc1 store ids ?contra (sorted_list_of_set all) [] [] 0 s2 = (s3, w)"
        by (cases "check_assertions gt gc1 store ids ?contra (sorted_list_of_set all) [] [] 0 s2")
      from scoring_in_step [OF R2 all ids(2) s3] obtain t3
        where "check_assertions gt gc2 store ids ?contra (sorted_list_of_set all) [] [] 0 t2 = (t3, w)" "R 0 s3 t3"
        by blast
      with run s1 s2 t1 t2 s3 ids(1) Inr zero show ?thesis
        by (auto simp: gate_validate_def ind Let_def split: if_splits sum.splits)
    qed
  qed
qed

end

section \<open>The gate's calls on the plane\<close>

definition CALL_BOUND :: nat where
  "CALL_BOUND = MAX_ENVELOPE_BYTES + MAX_ARTIFACT_BYTES"

text \<open>The plane with \<open>e\<close> more units in the escrow of candidate \<open>i\<close>.\<close>

definition top_up :: "u64 \<Rightarrow> nat \<Rightarrow> management_plane \<Rightarrow> management_plane" where
  "top_up i e p = p\<lparr>mp_spend := (mp_spend p)\<lparr>sb_escrow := bt_adjust i (\<lambda>r. r + e) (sb_escrow (mp_spend p))\<rparr>\<rparr>"

definition funded :: "candidate_permit \<Rightarrow> nat \<Rightarrow> nat \<Rightarrow> management_plane \<times> 'g \<Rightarrow> management_plane \<times> 'g \<Rightarrow> bool" where
  "funded permit e n s t \<longleftrightarrow>
     t = (top_up (cp_id permit) e (fst s), snd s) \<and> distinct (bt_keys (sb_escrow (mp_spend (fst s)))) \<and>
     (\<exists>r. bt_get (sb_escrow (mp_spend (fst s))) (cp_id permit) = Some r \<and> n * CALL_BOUND \<le> r)"

lemma top_up_simps [simp]:
  "mp_sent_compactors (top_up i e p) = mp_sent_compactors p"
  "check_permit (mp_spend (top_up i e p)) permit = check_permit (mp_spend p) permit"
  by (simp_all add: top_up_def check_permit_def)

lemma funded_fewer: "funded permit e n s t \<Longrightarrow> m \<le> n \<Longrightarrow> funded permit e m s t"
  unfolding funded_def by (meson mult_le_mono1 order_trans)

lemma bt_adjust_Cons: "bt_adjust k f ((k', v) # m) = (k', if k' = k then f v else v) # bt_adjust k f m"
  by (simp add: bt_adjust_def)

lemma adjust_adjust:
  assumes "distinct (bt_keys m)" and "bt_get m k = Some r" and "c \<le> r"
  shows "bt_adjust k (\<lambda>r. r - c) (bt_adjust k (\<lambda>r. r + e) m) = bt_adjust k (\<lambda>r. r + (e::nat)) (bt_adjust k (\<lambda>r. r - c) m)"
  using assms
proof (induction m)
  case (Cons kv m)
  show ?case
  proof (cases "fst kv = k")
    case True
    with Cons.prems have "bt_adjust k f m = m" for f by (auto intro: absent_adjust)
    with True Cons.prems show ?thesis by (cases kv) (auto simp: bt_adjust_Cons)
  next
    case False
    with Cons show ?thesis by (cases kv) (auto simp: bt_adjust_Cons)
  qed
qed (simp add: bt_adjust_def)

lemma dispatch_top_up:
  assumes "dispatch gw p c t bound envelope g = (p', g', r)"
  shows "dispatch gw (top_up i e p) c t bound envelope g = (top_up i e p', g', r)"
proof (cases "checked_add (mp_sequence p) 1")
  case None
  then have "checked_add (mp_sequence (top_up i e p)) 1 = None" by (simp only: top_up_def) simp
  with None assms show ?thesis by (simp only: dispatch_def option.case) simp
next
  case (Some n)
  then have seq: "checked_add (mp_sequence (top_up i e p)) 1 = Some n" by (simp only: top_up_def) simp
  have "call_identity ((top_up i e p)\<lparr>mp_sequence := n\<rparr>) = call_identity (p\<lparr>mp_sequence := n\<rparr>)"
    "mp_epoch (top_up i e p) = mp_epoch p" "sb_turn (mp_spend (top_up i e p)) = sb_turn (mp_spend p)"
    "(top_up i e p)\<lparr>mp_sequence := n\<rparr> = top_up i e (p\<lparr>mp_sequence := n\<rparr>)"
    by (simp_all add: call_identity_def top_up_def)
  then show ?thesis using assms
    by (simp only: dispatch_def Some seq option.case Let_def) (auto split: prod.splits sum.splits if_splits)
qed

text \<open>The bound a gate call is charged, when its envelope passes the checks.\<close>

definition quoted_bound :: "management_json \<Rightarrow> string \<Rightarrow> quoted_envelope \<Rightarrow> management_error + nat" where
  "quoted_bound json t envelope =
     res_bind (ok_or (mj_envelope json envelope) MgBounds) (\<lambda>bytes.
     res_bind (ok_or (checked_add (length bytes) MAX_ARTIFACT_BYTES) MgBounds) (\<lambda>bound.
     res_bind (check_call json t bound envelope) (\<lambda>_. Inr bound)))"

lemma res_bind_assoc: "res_bind (res_bind m f) k = res_bind m (\<lambda>x. res_bind (f x) k)"
  by (cases m) simp_all

lemma gate_call_bound:
  "gate_call json gw p permit c t envelope g =
     (if \<not> gate_only c then (p, g, Inl MgConfiguration)
      else case res_bind (quoted_bound json t envelope) (\<lambda>bound.
                res_bind (charge_gate (mp_spend p) permit bound) (\<lambda>b. Inr (bound, b))) of
             Inl e \<Rightarrow> (p, g, Inl e)
           | Inr (bound, b) \<Rightarrow> dispatch gw (p\<lparr>mp_spend := b\<rparr>) c t bound envelope g)"
  by (simp add: gate_call_def quoted_bound_def res_bind_assoc)

lemma quoted_bound_le: "quoted_bound json t envelope = Inr bound \<Longrightarrow> bound \<le> CALL_BOUND"
  by (auto simp: quoted_bound_def check_call_def CALL_BOUND_def)

abbreviation charged_escrow :: "u64 \<Rightarrow> nat \<Rightarrow> spend_budget \<Rightarrow> spend_budget" where
  "charged_escrow i cost b \<equiv>
     b\<lparr>sb_escrow := bt_adjust i (\<lambda>r. r - cost) (sb_escrow b), sb_charged := add64 (sb_charged b) cost\<rparr>"

lemma charge_gate_top_up:
  assumes "distinct (bt_keys (sb_escrow (mp_spend p)))"
    and "bt_get (sb_escrow (mp_spend p)) (cp_id permit) = Some r" and "cost \<le> r"
  shows "charge_gate (mp_spend p) permit cost =
      res_bind (check_permit (mp_spend p) permit) (\<lambda>_. Inr (charged_escrow (cp_id permit) cost (mp_spend p)))"
    and "charge_gate (mp_spend (top_up (cp_id permit) e p)) permit cost =
      res_bind (check_permit (mp_spend p) permit) (\<lambda>_.
        Inr (mp_spend (top_up (cp_id permit) e (p\<lparr>mp_spend := charged_escrow (cp_id permit) cost (mp_spend p)\<rparr>))))"
proof -
  have "check_permit (mp_spend (top_up (cp_id permit) e p)) permit = check_permit (mp_spend p) permit"
    by (simp add: check_permit_def top_up_def)
  then show "charge_gate (mp_spend (top_up (cp_id permit) e p)) permit cost =
      res_bind (check_permit (mp_spend p) permit) (\<lambda>_.
        Inr (mp_spend (top_up (cp_id permit) e (p\<lparr>mp_spend := charged_escrow (cp_id permit) cost (mp_spend p)\<rparr>))))"
    using assms adjust_adjust [OF assms, of e]
    by (cases "check_permit (mp_spend p) permit") (auto simp: charge_gate_def top_up_def intro!: spend_budget.equality)
  show "charge_gate (mp_spend p) permit cost =
      res_bind (check_permit (mp_spend p) permit) (\<lambda>_. Inr (charged_escrow (cp_id permit) cost (mp_spend p)))"
    using assms by (simp add: charge_gate_def)
qed

text \<open>A gate call of a funded candidate is charged on both planes, and sends the same.\<close>

lemma gate_call_funded:
  assumes R: "funded permit e (Suc n) s t" and run: "gate_call json gw (fst s) permit c conf envelope (snd s) = (p', g', r)"
  shows "\<exists>q'. gate_call json gw (fst t) permit c conf envelope (snd t) = (q', g', r) \<and> funded permit e n (p', g') (q', g')"
proof -
  let ?p = "fst s" and ?i = "cp_id permit"
  from R have t: "t = (top_up ?i e ?p, snd s)" and keys: "distinct (bt_keys (sb_escrow (mp_spend ?p)))"
    by (auto simp: funded_def)
  from R obtain left where left: "bt_get (sb_escrow (mp_spend ?p)) ?i = Some left" "CALL_BOUND + n * CALL_BOUND \<le> left"
    by (auto simp: funded_def)
  have still: "funded permit e n s t" using funded_fewer [OF R] by simp
  show ?thesis
  proof (cases "gate_only c \<and> (\<exists>bound. quoted_bound json conf envelope = Inr bound) \<and> check_permit (mp_spend ?p) permit = Inr ()")
    case False
    have "check_permit (mp_spend (fst t)) permit = check_permit (mp_spend ?p) permit"
      by (simp add: check_permit_def t top_up_def)
    with False run t still show ?thesis
      by (cases "quoted_bound json conf envelope"; cases "check_permit (mp_spend ?p) permit")
        (auto simp: gate_call_bound charge_gate_def split: if_splits)
  next
    case True
    then obtain bound where bound: "quoted_bound json conf envelope = Inr bound" and c: "gate_only c"
      and ok: "check_permit (mp_spend ?p) permit = Inr ()" by blast
    have le: "bound \<le> left" using quoted_bound_le [OF bound] left(2) by simp
    note charge = charge_gate_top_up(1) [OF keys left(1) le] charge_gate_top_up(2) [OF keys left(1) le, of e]
    let ?p1 = "?p\<lparr>mp_spend := charged_escrow ?i bound (mp_spend ?p)\<rparr>"
    have first: "dispatch gw ?p1 c conf bound envelope (snd s) = (p', g', r)"
      using run c bound ok charge(1) by (simp add: gate_call_bound)
    have "(top_up ?i e ?p)\<lparr>mp_spend := mp_spend (top_up ?i e ?p1)\<rparr> = top_up ?i e ?p1" by (simp add: top_up_def)
    then have "gate_call json gw (fst t) permit c conf envelope (snd t) = (top_up ?i e p', g', r)"
      using c bound ok charge(2) dispatch_top_up [OF first, of ?i e] by (simp add: gate_call_bound t)
    moreover obtain k where "p' = ?p1\<lparr>mp_sequence := k\<rparr>"
      using dispatch_plane [of gw ?p1 c conf bound envelope "snd s"] first by auto
    then have "funded permit e n (p', g') (top_up ?i e p', g')"
      using keys left quoted_bound_le [OF bound] by (simp add: funded_def)
    ultimately show ?thesis by blast
  qed
qed

lemma consumer_call_funded:
  assumes "funded (gk_permit k) e (Suc n) s t" and "gate_consumer_call json gw k c i d s = (s', r)"
  shows "\<exists>t'. gate_consumer_call json gw k c i d t = (t', r) \<and> funded (gk_permit k) e n s' t'"
proof -
  let ?conf = "if c = EntailmentScorer then gk_scorer k else gk_extractor k"
  obtain p' g' v where run: "gate_call json gw (fst s) (gk_permit k) c ?conf (envelope_new i d) (snd s) = (p', g', v)"
    by (cases "gate_call json gw (fst s) (gk_permit k) c ?conf (envelope_new i d) (snd s)")
  from gate_call_funded [OF assms(1) run] obtain q' where
    "gate_call json gw (fst t) (gk_permit k) c ?conf (envelope_new i d) (snd t) = (q', g', v)"
    "funded (gk_permit k) e n (p', g') (q', g')" by blast
  with assms(2) run show ?thesis by (auto simp: gate_consumer_call_def Let_def)
qed

lemma required_facts_in_step:
  assumes "funded (gk_permit k) e (Suc n) s t" and "gate_required_facts json gw k fs s = (s', r)"
  shows "\<exists>t'. gate_required_facts json gw k fs t = (t', r) \<and> funded (gk_permit k) e n s' t'"
proof (cases "mj_facts json fs")
  case None
  with assms funded_fewer [OF assms(1), of n] show ?thesis by (auto simp: gate_required_facts_def)
next
  case (Some d)
  obtain s1 v where run: "gate_consumer_call json gw k RequiredFactExtractor REQUIRED_PROMPT [d] s = (s1, v)"
    by (cases "gate_consumer_call json gw k RequiredFactExtractor REQUIRED_PROMPT [d] s")
  with consumer_call_funded [OF assms(1) run] assms(2) Some show ?thesis by (auto simp: gate_required_facts_def)
qed

lemma assertions_call_in_step:
  assumes "funded (gk_permit k) e (Suc n) s t" and "gate_assertions json gw k a s = (s', r)"
  shows "\<exists>t'. gate_assertions json gw k a t = (t', r) \<and> funded (gk_permit k) e n s' t'"
proof -
  obtain s1 v where run: "gate_consumer_call json gw k AssertionExtractor ASSERTION_PROMPT [a] s = (s1, v)"
    by (cases "gate_consumer_call json gw k AssertionExtractor ASSERTION_PROMPT [a] s")
  with consumer_call_funded [OF assms(1) run] assms(2) show ?thesis by (auto simp: gate_assertions_def)
qed

lemma score_call_in_step:
  assumes "funded (gk_permit k) e (Suc n) s t" and "gate_score json gw k a ls fs s = (s', r)"
  shows "\<exists>t'. gate_score json gw k a ls fs t = (t', r) \<and> funded (gk_permit k) e n s' t'"
proof (cases "\<exists>x y. mj_sources json (map (\<lambda>l. (lf_id l, lf_source l, lf_sanitized l)) ls) = Some x \<and> mj_facts json fs = Some y")
  case False
  with assms funded_fewer [OF assms(1), of n] show ?thesis by (cases t) (auto simp: gate_score_def split: option.splits)
next
  case True
  then obtain x y where xy: "mj_sources json (map (\<lambda>l. (lf_id l, lf_source l, lf_sanitized l)) ls) = Some x"
    "mj_facts json fs = Some y" by blast
  obtain s1 v where run: "gate_consumer_call json gw k EntailmentScorer SCORE_PROMPT [a, x, y] s = (s1, v)"
    by (cases "gate_consumer_call json gw k EntailmentScorer SCORE_PROMPT [a, x, y] s")
  with consumer_call_funded [OF assms(1) run] assms(2) xy show ?thesis by (auto simp: gate_score_def)
qed

lemmas consumer_calls_in_step = required_facts_in_step assertions_call_in_step score_call_in_step

interpretation funded_gate:
  metered_pair "gate_calls_consumers json gw k" "gate_calls_consumers json gw k" "funded (gk_permit k) e"
  for json gw k e
proof
  fix n and s t :: "management_plane \<times> 'a"
  assume "funded (gk_permit k) e n s t"
  then have "compactor_configuration (fst t) (gk_permit k) = compactor_configuration (fst s) (gk_permit k)"
    by (auto simp: funded_def compactor_configuration_def split: sum.split)
  then show "gc_independence (gate_calls_consumers json gw k) s = gc_independence (gate_calls_consumers json gw k) t"
    by (simp add: gate_calls_consumers_def)
qed (auto simp: gate_calls_consumers_def simp del: split_paired_Ex intro: funded_fewer consumer_calls_in_step)

text \<open>A validation from a plane whose escrow covers the floor decides and sends as it would with any more.\<close>

lemma funded_validation:
  assumes "distinct (bt_keys (sb_escrow (mp_spend p)))"
    and "bt_get (sb_escrow (mp_spend p)) (cp_id (gk_permit k)) = Some left" and "GATE_SPEND_FLOOR \<le> left"
    and run: "gate_validate dig gt c fs always store (gate_calls_consumers json gw k) (p, g) = ((p', g'), r)"
  shows "gate_validate dig gt c fs always store (gate_calls_consumers json gw k) (top_up (cp_id (gk_permit k)) e p, g)
    = ((top_up (cp_id (gk_permit k)) e p', g'), r)"
proof -
  have "funded (gk_permit k) e (2 + MAX_ASSERTIONS * MAX_GRAPH_NODES) (p, g) (top_up (cp_id (gk_permit k)) e p, g)"
    using assms(1-3) by (simp add: funded_def GATE_SPEND_FLOOR_def CALL_BOUND_def)
  from funded_gate.validate_in_step [OF this run] show ?thesis by (auto simp: funded_def)
qed

end
