(* ===== verification/ManagementProperties.thy ===== *)
theory ManagementProperties
  imports Turns GateFunds
begin

text \<open>
  The properties of the provider-turn protocol and of the management plane, with two lemmas about where the code
  falls short of its comments.
\<close>

section \<open>Provider turns\<close>

text \<open>C22: Whatever commands are replayed from the empty list of turns, the result passes the validation of persisted
  turns: identities are distinct, a reply is stored exactly while a turn is pending or admitted and never exceeds the
  allowance announced before sending, and tool calls exist only on admitted turns and have distinct names.  Every
  identity is nonempty and at most 256 bytes long, which the validation itself does not check.\<close>

theorem replayed_turns_are_valid:
  assumes "run_steps turn_apply [] cs = Inr rs"
  shows "validate_records rs = Inr () \<and>
    (\<forall>r \<in> set rs. si_identity (tr_intent r) \<noteq> [] \<and> length (si_identity (tr_intent r)) \<le> 256)"
proof
  have "validate_records [] = Inr ()" by (simp add: validate_records_def)
  then show "validate_records rs = Inr ()" using assms by (rule turns.run_keeps)
  show "\<forall>r \<in> set rs. si_identity (tr_intent r) \<noteq> [] \<and> length (si_identity (tr_intent r)) \<le> 256"
    using turn_names.run_keeps [OF _ assms] by simp
qed

abbreviation demo_intent :: "string \<Rightarrow> string \<Rightarrow> send_intent" where
  "demo_intent i b \<equiv>
     \<lparr>si_identity = i, si_branch = b, si_owner = ''o'', si_epoch = 1, si_context_version = 0,
      si_request_hash = replicate 64 CHR ''0'', si_contract_hash = replicate 64 CHR ''f'',
      si_class = AtMostOneAttempt, si_kind = ConversationTurn, si_allowance = 8\<rparr>"

abbreviation demo_call :: "string \<Rightarrow> (bool \<times> string) option \<Rightarrow> execution_intent" where
  "demo_call i v \<equiv> \<lparr>xi_id = i, xi_tool = ''replace'', xi_args = ''{}'', xi_read_only = False, xi_completion = v\<rparr>"

abbreviation demo_turn ::
  "string \<Rightarrow> string \<Rightarrow> turn_status \<Rightarrow> byte list option \<Rightarrow> execution_intent list \<Rightarrow> turn_record" where
  "demo_turn i b st reply calls \<equiv>
     \<lparr>tr_intent = demo_intent i b, tr_status = st, tr_response = reply, tr_executions = calls\<rparr>"

lemmas turn_eval = with_turn_def turn_insert_def turn_stage_def turn_admit_def turn_complete_def turn_recover_def
  settle_call_def is_identity_def hash_valid_def is_hex_lower_def is_digit_def list_all_iff

theorem replayed_turns_are_valid_witness:
  "run_steps turn_apply []
     [IntentCommand (demo_intent ''a'' ''b''), StageCommand ''a'' [1, 2], AdmitCommand ''a'' [demo_call ''c'' None],
      CompleteCommand ''a'' ''c'' True ''ok'', IntentCommand (demo_intent ''d'' ''b'')] =
     Inr [demo_turn ''a'' ''b'' TurnAdmitted (Some [1, 2]) [demo_call ''c'' (Some (True, ''ok''))],
          demo_turn ''d'' ''b'' TurnIntent None []] \<and>
   validate_records
     [demo_turn ''a'' ''b'' TurnAdmitted (Some [1, 2]) [demo_call ''c'' (Some (True, ''ok''))],
      demo_turn ''d'' ''b'' TurnIntent None []] = Inr ()"
proof -
  have run: "run_steps turn_apply []
     [IntentCommand (demo_intent ''a'' ''b''), StageCommand ''a'' [1, 2], AdmitCommand ''a'' [demo_call ''c'' None],
      CompleteCommand ''a'' ''c'' True ''ok'', IntentCommand (demo_intent ''d'' ''b'')] =
     Inr [demo_turn ''a'' ''b'' TurnAdmitted (Some [1, 2]) [demo_call ''c'' (Some (True, ''ok''))],
          demo_turn ''d'' ''b'' TurnIntent None []]"
    by (simp add: turn_eval)
  then show ?thesis using replayed_turns_are_valid [OF run] by simp
qed

text \<open>C21: Turns only move forward.  However the list grows, a turn keeps its position and its intent; a pending turn
  never becomes sendable again and its reply is admitted unchanged or dropped; an admitted, rejected or indeterminate
  turn keeps its status and its reply for ever, and of its tool calls nothing changes but a missing completion, once.\<close>

theorem turns_only_move_forward:
  assumes "run_steps turn_apply rs cs = Inr rs'" and "i < length rs"
  shows "i < length rs' \<and> tr_intent (rs' ! i) = tr_intent (rs ! i) \<and>
    (tr_status (rs ! i) = TurnPending \<longrightarrow>
       tr_status (rs' ! i) \<noteq> TurnIntent \<and>
       (tr_status (rs' ! i) \<in> {TurnPending, TurnAdmitted} \<longrightarrow> tr_response (rs' ! i) = tr_response (rs ! i))) \<and>
    (tr_status (rs ! i) \<in> {TurnAdmitted, TurnRejected, TurnIndeterminate} \<longrightarrow>
       tr_status (rs' ! i) = tr_status (rs ! i) \<and> tr_response (rs' ! i) = tr_response (rs ! i) \<and>
       list_all2 (\<lambda>c c'. c' = c \<or> (xi_completion c = None \<and> (\<exists>v. c' = c\<lparr>xi_completion := Some v\<rparr>)))
         (tr_executions (rs ! i)) (tr_executions (rs' ! i)))"
proof -
  have "turns_follow rs rs'" using assms(1) by (rule turn_progress.run_below)
  then have "i < length rs'" and "turn_follows (rs ! i) (rs' ! i)" using assms(2) by (auto simp: turns_follow_nth)
  then show ?thesis
    unfolding turn_follows_def call_follows_def [abs_def] by (cases "tr_status (rs ! i)") simp_all
qed

theorem turns_only_move_forward_witness:
  "let rs = [demo_turn ''a'' ''b'' TurnAdmitted (Some [1]) [demo_call ''c'' None, demo_call ''d'' (Some (True, ''x''))]];
       rs' = [demo_turn ''a'' ''b'' TurnAdmitted (Some [1])
                [demo_call ''c'' (Some (False, INDETERMINATE_EXECUTION)), demo_call ''d'' (Some (True, ''x''))]]
   in run_steps turn_apply rs [RecoverCommand ''b''] = Inr rs' \<and> tr_response (rs' ! 0) = tr_response (rs ! 0)"
proof -
  let ?rs = "[demo_turn ''a'' ''b'' TurnAdmitted (Some [1]) [demo_call ''c'' None, demo_call ''d'' (Some (True, ''x''))]]"
  let ?rs' = "[demo_turn ''a'' ''b'' TurnAdmitted (Some [1])
                [demo_call ''c'' (Some (False, INDETERMINATE_EXECUTION)), demo_call ''d'' (Some (True, ''x''))]]"
  have run: "run_steps turn_apply ?rs [RecoverCommand ''b''] = Inr ?rs'" by (simp add: turn_eval)
  show ?thesis using turns_only_move_forward [OF run, of 0] run by simp
qed

text \<open>C17: Recovery closes a branch.  It settles every turn of the branch: an unresolved send becomes indeterminate
  without a reply, any other turn keeps its status, and every tool call without a completion gets the indeterminate
  one; turns of other branches stay as they were.  No later command ever changes a settled turn, so no request is
  sent again and no tool call completed again after a restart.\<close>

theorem recovered_branch_is_final:
  assumes "turn_apply rs (RecoverCommand b) = Inr rs'" and "run_steps turn_apply rs' cs = Inr rs''"
    and "i < length rs"
  shows "if si_branch (tr_intent (rs ! i)) = b
     then tr_status (rs' ! i) = (if tr_status (rs ! i) \<in> {TurnIntent, TurnPending} then TurnIndeterminate
                                  else tr_status (rs ! i)) \<and>
       list_all (\<lambda>c. xi_completion c \<noteq> None) (tr_executions (rs' ! i)) \<and> rs'' ! i = rs' ! i
     else rs' ! i = rs ! i"
proof (cases "si_branch (tr_intent (rs ! i)) = b")
  case True
  with assms(1,3) have r: "rs' ! i = turn_recover (rs ! i)" and len: "i < length rs'" by auto
  have settled: "turn_settled (rs' ! i)" unfolding r by (rule recover_settles)
  then have "rs'' ! i = rs' ! i" using settled_stays [OF assms(2) len] by simp
  with True settled show ?thesis by (auto simp: r turn_settled_def turn_recover_def Let_def)
next
  case False
  with assms(1,3) show ?thesis by auto
qed

theorem recovered_branch_is_final_witness:
  "turn_apply [demo_turn ''a'' ''b'' TurnIntent None []] (RecoverCommand ''b'') =
     Inr [demo_turn ''a'' ''b'' TurnIndeterminate None []] \<and>
   run_steps turn_apply [demo_turn ''a'' ''b'' TurnIndeterminate None []] [IntentCommand (demo_intent ''n'' ''b'')] =
     Inr [demo_turn ''a'' ''b'' TurnIndeterminate None [], demo_turn ''n'' ''b'' TurnIntent None []] \<and>
   list_all (\<lambda>c. xi_completion c \<noteq> None) (tr_executions ([demo_turn ''a'' ''b'' TurnIndeterminate None []] ! 0))"
proof -
  have r: "turn_apply [demo_turn ''a'' ''b'' TurnIntent None []] (RecoverCommand ''b'') =
      Inr [demo_turn ''a'' ''b'' TurnIndeterminate None []]"
    by (simp add: turn_eval)
  have n: "run_steps turn_apply [demo_turn ''a'' ''b'' TurnIndeterminate None []] [IntentCommand (demo_intent ''n'' ''b'')] =
      Inr [demo_turn ''a'' ''b'' TurnIndeterminate None [], demo_turn ''n'' ''b'' TurnIntent None []]"
    by (simp add: turn_eval)
  show ?thesis using recovered_branch_is_final [OF r n, of 0] r n by simp
qed

text \<open>The comment on \<open>validate_records\<close> calls it as strict as replay, but it accepts a turn without an identity,
  which no replay produces.\<close>

lemma validation_weaker_than_replay:
  "validate_records [demo_turn [] ''b'' TurnIntent None []] = Inr () \<and>
   run_steps turn_apply [] cs \<noteq> Inr [demo_turn [] ''b'' TurnIntent None []]"
proof
  show "validate_records [demo_turn [] ''b'' TurnIntent None []] = Inr ()"
    by (simp add: validate_records_def validate_turn_def turn_eval)
  show "run_steps turn_apply [] cs \<noteq> Inr [demo_turn [] ''b'' TurnIntent None []]"
    using turn_names.run_keeps [of "[]" cs] by auto
qed

section \<open>The management budget\<close>


abbreviation demo_config :: spend_config where
  "demo_config \<equiv>
     \<lparr>cfg_total = GATE_SPEND_FLOOR + 1000000, cfg_safety = GATE_SPEND_FLOOR, cfg_gate_only = GATE_SPEND_FLOOR,
      cfg_candidate_cost = 1000000, cfg_gate_cost = GATE_SPEND_FLOOR\<rparr>"

abbreviation demo_budget :: spend_budget where
  "demo_budget \<equiv>
     \<lparr>sb_owner = 1, sb_config = demo_config, sb_turn = 5, sb_ordinary = 1000000, sb_safety = 0,
      sb_gate = GATE_SPEND_FLOOR, sb_next = 1, sb_escrow = [], sb_charged = 0\<rparr>"

abbreviation demo_plane :: management_plane where
  "demo_plane \<equiv>
     \<lparr>mp_spend = demo_budget, mp_epoch = 1, mp_namespace = ''ns'', mp_sequence = 0, mp_sent_compactors = []\<rparr>"

lemma floor_value: "GATE_SPEND_FLOOR = 154620002304"
  by (simp add: GATE_SPEND_FLOOR_def MAX_ASSERTIONS_def MAX_GRAPH_NODES_def MAX_ENVELOPE_BYTES_def MAX_ARTIFACT_BYTES_def)

lemma demo_new:
  "budget_new 1 demo_config 5 = Inr (2, demo_budget)" "plane_new demo_budget 1 ''ns'' = Inr demo_plane"
  "cfg_total demo_config < u64_modulus"
  by (simp_all add: budget_new_def spend_validate_def checked_mul_def floor_value plane_new_def)

text \<open>The witnesses use a serializer that writes nothing and a gateway that answers one byte.\<close>

abbreviation demo_codec :: management_json where
  "demo_codec \<equiv>
     \<lparr>mj_envelope = (\<lambda>_. Some []), mj_facts = (\<lambda>_. Some []), mj_sources = (\<lambda>_. Some []),
      mj_read_facts = (\<lambda>_. Some []), mj_read_strings = (\<lambda>_. Some []), mj_read_score = (\<lambda>_. None)\<rparr>"

abbreviation demo_gateway :: "unit management_gateway" where
  "demo_gateway \<equiv>
     \<lparr>mg_record_intent = (\<lambda>_ g. (g, Inr ())), mg_send_once = (\<lambda>_ g. (g, Inr ''x'')),
      mg_admit_response = (\<lambda>_ _ g. (g, Inr ()))\<rparr>"


text \<open>C20: A reservation is refused as exhausted exactly when the ordinary funds do not cover one candidate; gate funds
  are never the reason, whatever other consumers and earlier candidates have spent.  A reservation that succeeds puts
  the full cost of a validation, at least the floor of the worst case, into escrow.\<close>

theorem reservations_fund_validation:
  assumes "budget_new counter config turn = Inr (counter', b)" and "plane_new b epoch namespace = Inr p"
    and "cfg_total config < u64_modulus"
    and "s = plane_serve_all json gw \<lparr>cl_plane = p, cl_permits = [], cl_gateway = g\<rparr> reqs"
    and "plane_reserve (cl_plane s) = (p', r)"
  shows "(r = Inl MgExhausted \<longleftrightarrow> sb_ordinary (mp_spend (cl_plane s)) < cfg_candidate_cost config) \<and>
    (\<forall>permit. r = Inr permit \<longrightarrow>
       bt_get (sb_escrow (mp_spend p')) (cp_id permit) = Some (cfg_gate_cost config) \<and>
       GATE_SPEND_FLOOR \<le> cfg_gate_cost config)"
proof -
  note served = served_client [OF assms(1-4)]
  then have ok: "plane_ok (cl_plane s)" by (simp add: client_ok_def)
  obtain b' where b': "reserve_candidate (mp_spend (cl_plane s)) = (b', r)" "p' = (cl_plane s)\<lparr>mp_spend := b'\<rparr>"
    using assms(5) by (auto simp: plane_reserve_def split: prod.splits)
  have "GATE_SPEND_FLOOR \<le> cfg_gate_cost config"
    using ok served(2) by (auto simp: plane_ok_def budget_ok_def spend_validate_Inr)
  then show ?thesis
    using reserve_exhausted [OF ok] reserve_escrows(1) [of "mp_spend (cl_plane s)" b'] served(2) b' by auto
qed

theorem reservations_fund_validation_witness:
  "\<exists>p' permit. plane_reserve demo_plane = (p', Inr permit) \<and>
     bt_get (sb_escrow (mp_spend p')) (cp_id permit) = Some (cfg_gate_cost demo_config)"
proof -
  obtain p' permit where r: "plane_reserve demo_plane = (p', Inr permit)"
    by (simp add: plane_reserve_def reserve_candidate_def checked_add_def)
  have s: "\<lparr>cl_plane = demo_plane, cl_permits = [], cl_gateway = ()\<rparr> =
      plane_serve_all demo_codec demo_gateway \<lparr>cl_plane = demo_plane, cl_permits = [], cl_gateway = ()\<rparr> []"
    by (simp add: plane_serve_all_def)
  have "plane_reserve (cl_plane \<lparr>cl_plane = demo_plane, cl_permits = [], cl_gateway = ()\<rparr>) = (p', Inr permit)"
    using r by simp
  from reservations_fund_validation [OF demo_new s this] r show ?thesis by blast
qed

text \<open>C18: A validation that was reserved is never short of funds.  After a reservation and the compaction of its
  candidate, the gate, run through the plane's own consumers, decides the same verdict and drives the gateway through
  the same calls as it would with any larger escrow; the bigger escrow is left over in full.\<close>

theorem validation_never_underfunded:
  assumes "budget_new counter config turn = Inr (counter', b)" and "plane_new b epoch namespace = Inr p"
    and "cfg_total config < u64_modulus"
    and "s = plane_serve_all json gw \<lparr>cl_plane = p, cl_permits = [], cl_gateway = g\<rparr> reqs"
    and "plane_reserve (cl_plane s) = (p1, Inr (gk_permit k))"
    and "plane_compact json gw p1 (gk_permit k) configuration bound envelope (cl_gateway s) = (p2, g2, out)"
  shows "gate_validate dig gt c required always store (gate_calls_consumers json gw k)
      (top_up (cp_id (gk_permit k)) extra p2, g2) =
    (case gate_validate dig gt c required always store (gate_calls_consumers json gw k) (p2, g2) of
       ((p3, g3), verdict) \<Rightarrow> ((top_up (cp_id (gk_permit k)) extra p3, g3), verdict))"
proof -
  note served = served_client [OF assms(1-4)]
  then have ok: "plane_ok (cl_plane s)" by (simp add: client_ok_def)
  obtain b1 where b1: "reserve_candidate (mp_spend (cl_plane s)) = (b1, Inr (gk_permit k))" "p1 = (cl_plane s)\<lparr>mp_spend := b1\<rparr>"
    using assms(5) by (auto simp: plane_reserve_def split: prod.splits)
  have ok1: "plane_ok p1" using reserve_ok [OF ok b1(1)] b1(2) by simp
  then have ok2: "plane_ok p2" using compact_keeps [OF ok1, of json gw "gk_permit k"] assms(6) by (metis fst_conv)
  have "sb_escrow (mp_spend p2) = sb_escrow b1"
    using compact_escrow [of json gw p1 "gk_permit k"] assms(6) b1(2) by (metis fst_conv mp_spend_of_update)
  then have left: "bt_get (sb_escrow (mp_spend p2)) (cp_id (gk_permit k)) = Some (cfg_gate_cost config)"
    using reserve_escrows(1) [OF b1(1)] served(2) by simp
  have floor: "GATE_SPEND_FLOOR \<le> cfg_gate_cost config"
    using ok served(2) by (auto simp: plane_ok_def budget_ok_def spend_validate_Inr)
  have keys: "distinct (bt_keys (sb_escrow (mp_spend p2)))"
    using ok2 by (simp add: plane_ok_def budget_ok_def bt_ok_distinct)
  obtain p3 g3 verdict where
    run: "gate_validate dig gt c required always store (gate_calls_consumers json gw k) (p2, g2) = ((p3, g3), verdict)"
    by (metis surj_pair)
  show ?thesis using funded_validation [OF keys left floor run, of extra] run by simp
qed

abbreviation demo_permit :: candidate_permit where
  "demo_permit \<equiv> \<lparr>cp_owner = 1, cp_id = 1, cp_turn = 5\<rparr>"

abbreviation reserved_plane :: management_plane where
  "reserved_plane \<equiv>
     demo_plane\<lparr>mp_spend := demo_budget\<lparr>sb_ordinary := 0, sb_gate := 0, sb_next := 2,
       sb_escrow := [(1, GATE_SPEND_FLOOR)]\<rparr>\<rparr>"

abbreviation compacted_plane :: management_plane where
  "compacted_plane \<equiv>
     reserved_plane\<lparr>mp_spend := (mp_spend reserved_plane)\<lparr>sb_charged := 1000000\<rparr>,
       mp_sent_compactors := [(1, ''m'')], mp_sequence := 1\<rparr>"

abbreviation demo_gate_calls :: gate_calls where
  "demo_gate_calls \<equiv> \<lparr>gk_permit = demo_permit, gk_extractor = ''e'', gk_scorer = ''s''\<rparr>"

abbreviation demo_candidate :: candidate where
  "demo_candidate \<equiv>
     \<lparr>ca_artifact = ''a'', ca_rendered_text = ''a'', ca_rendered = [], ca_roots = [IngressPtr ''i''], ca_graph = [],
      ca_pending_notes = {}, ca_scope = 0\<rparr>"

abbreviation demo_leaves :: leaf_store where
  "demo_leaves \<equiv> (\<lambda>_. Some \<lparr>lf_id = ''i'',
     lf_source = \<lparr>so_leaf = ''i'', so_authority = UserAuthority, so_origin = IngressOrigin, so_scope = 0\<rparr>,
     lf_sanitized = ''a''\<rparr>)"

theorem validation_never_underfunded_witness:
  "plane_reserve demo_plane = (reserved_plane, Inr demo_permit) \<and>
   plane_compact demo_codec demo_gateway reserved_plane demo_permit ''m'' 65536 (envelope_new ''compact'' []) () =
     (compacted_plane, (), Inr ''x'') \<and>
   gate_validate (\<lambda>_. ''d'') \<lparr>gt_leaf_cap = 1, gt_independence = \<lparr>in_compactor = ''m'', in_scorer = ''s''\<rparr>\<rparr> demo_candidate
      [] [] demo_leaves (gate_calls_consumers demo_codec demo_gateway demo_gate_calls) (top_up 1 7 compacted_plane, ()) =
    (case gate_validate (\<lambda>_. ''d'') \<lparr>gt_leaf_cap = 1, gt_independence = \<lparr>in_compactor = ''m'', in_scorer = ''s''\<rparr>\<rparr>
        demo_candidate [] [] demo_leaves (gate_calls_consumers demo_codec demo_gateway demo_gate_calls) (compacted_plane, ()) of
       ((p3, g3), verdict) \<Rightarrow> ((top_up 1 7 p3, g3), verdict))"
proof -
  have reserve: "plane_reserve demo_plane = (reserved_plane, Inr demo_permit)"
    by (simp add: plane_reserve_def reserve_candidate_def checked_add_def)
  have compact: "plane_compact demo_codec demo_gateway reserved_plane demo_permit ''m'' 65536 (envelope_new ''compact'' []) ()
      = (compacted_plane, (), Inr ''x'')"
    by (simp add: plane_compact_def check_call_def check_permit_def charge_compactor_def dispatch_def envelope_new_def
        MAX_ARTIFACT_BYTES_def MAX_ENVELOPE_BYTES_def bt_contains_def checked_add_def ensure_def)
  let ?s = "\<lparr>cl_plane = demo_plane, cl_permits = [], cl_gateway = ()\<rparr>"
  have s: "?s = plane_serve_all demo_codec demo_gateway ?s []" by (simp add: plane_serve_all_def)
  have "plane_reserve (cl_plane ?s) = (reserved_plane, Inr (gk_permit demo_gate_calls))"
    "plane_compact demo_codec demo_gateway reserved_plane (gk_permit demo_gate_calls) ''m'' 65536
       (envelope_new ''compact'' []) (cl_gateway ?s) = (compacted_plane, (), Inr ''x'')"
    using reserve compact by simp_all
  from validation_never_underfunded [OF demo_new s this, of "\<lambda>_. ''d''"
      "\<lparr>gt_leaf_cap = 1, gt_independence = \<lparr>in_compactor = ''m'', in_scorer = ''s''\<rparr>\<rparr>" demo_candidate "[]" "[]" demo_leaves 7]
  have "gate_validate (\<lambda>_. ''d'') \<lparr>gt_leaf_cap = 1, gt_independence = \<lparr>in_compactor = ''m'', in_scorer = ''s''\<rparr>\<rparr> demo_candidate
      [] [] demo_leaves (gate_calls_consumers demo_codec demo_gateway demo_gate_calls) (top_up 1 7 compacted_plane, ()) =
    (case gate_validate (\<lambda>_. ''d'') \<lparr>gt_leaf_cap = 1, gt_independence = \<lparr>in_compactor = ''m'', in_scorer = ''s''\<rparr>\<rparr>
        demo_candidate [] [] demo_leaves (gate_calls_consumers demo_codec demo_gateway demo_gate_calls) (compacted_plane, ()) of
       ((p3, g3), verdict) \<Rightarrow> ((top_up 1 7 p3, g3), verdict))"
    by (simp only: gate_calls.simps candidate_permit.simps)
  with reserve compact show ?thesis by blast
qed

text \<open>\<open>finish_candidate\<close> forgets the sent compaction before it checks the permit: a permit of another budget with the
  same number is refused, and yet the compactor may be charged and sent a second time.\<close>

lemma foreign_permit_forgets_compaction:
  assumes "compactor_configuration p permit = Some t" and "cp_id foreign = cp_id permit"
    and "cp_owner foreign \<noteq> sb_owner (mp_spend p)"
  shows "snd (plane_finish p foreign) = Inl MgTurn \<and> compactor_configuration (fst (plane_finish p foreign)) permit = None"
  using assms
  by (auto simp: plane_finish_def spend_finish_def check_permit_def compactor_configuration_def Let_def split: sum.splits)

end
