(* ===== verification/Spec2Isabelle.thy ===== *)
theory Spec2Isabelle
  imports IrProperties LedgerProperties TrustProperties LogLaws Spine Replay Legality Migration PolicyProperties
    StoreProperties IngressProperties ReceiptProperties ManagementProperties
begin

text \<open>
  The context machinery of the coding agent \<^verbatim>\<open>llxprt-code-rs\<close>.  Its kernel, \<^verbatim>\<open>src/src/context_kernel/\<close>, keeps
  what the agent knows as an append-only log of sealed events, and every state is the deterministic fold of
  that log.  Above it the policy plane, \<^verbatim>\<open>src/src/context_policy/\<close>, decides what enters the context and when
  it is reclaimed, the ingress transaction, \<^verbatim>\<open>src/src/context_ingress/\<close>, sanitizes whatever comes in, and the
  context store, \<^verbatim>\<open>src/src/context_store/\<close>, keeps the sanitized bytes and the sealed ones.  The transaction executor,
  \<^verbatim>\<open>src/src/context_txn/\<close>, is the only writer of the log: it takes proposals, validates them against budgets, ports
  and the gate, and releases their events under a fenced lease.  The development models their components one by one
  and proves what makes them trustworthy on their own and together.

  \<^bold>\<open>Parts and theories of the kernel.\<close>  Paths are relative to \<^verbatim>\<open>src/src/context_kernel/\<close>.

  \<^item> \<open>Prelude\<close>, \<open>BTree\<close>: width-64 arithmetic, \<open>Result\<close>, vectors, \<open>BTreeMap\<close> as a key-sorted association
    list, and the two contracts every component is an instance of: \<open>guarded_machine\<close> (accepted steps keep
    an invariant) and \<open>monotone_machine\<close> (accepted steps move upwards in a preorder).
  \<^item> \<open>Canonical\<close>: \<^verbatim>\<open>canonical.rs\<close>, the byte sink, FNV-1a and the salted hash scopes, kept at 64-bit words.
    A single changed byte changes the digest, because each round of the hash is a bijection.
  \<^item> \<open>Ranges\<close>, \<open>Conversation\<close>: \<^verbatim>\<open>ir.rs\<close>, the range algebra and the conversation IR.  \<open>Lanes\<close>: \<^verbatim>\<open>lanes.rs\<close>.
    \<open>Scopes\<close>: \<^verbatim>\<open>scopes.rs\<close>.  Their properties are in \<open>IrProperties\<close>.
  \<^item> \<open>LedgerTypes\<close>, \<open>Ledger\<close>: \<^verbatim>\<open>ledger/\<close>.  \<open>LedgerLaws\<close> shows the invariant, \<open>LedgerHistory\<close> the bound on
    obligations, the reach of redactions and what history keeps; properties in \<open>LedgerProperties\<close>.
  \<^item> \<open>Security\<close>: \<^verbatim>\<open>security/state.rs\<close> and delegation; \<open>Branches\<close>: \<^verbatim>\<open>branch/\<close>; \<open>Provenance\<close>, \<open>Gate\<close>: the
    provenance walk, the validation gate and lane authority (\<^verbatim>\<open>validation/\<close>, \<^verbatim>\<open>security/authority.rs\<close>);
    \<open>Semantics\<close>: \<^verbatim>\<open>validation/state.rs\<close>.  Properties in \<open>TrustProperties\<close>.
  \<^item> \<open>Events\<close>: \<^verbatim>\<open>events.rs\<close>, sealing, the log and the sequencer; \<open>LogLaws\<close>: what a reader may conclude from
    a log.
  \<^item> \<open>Reducer\<close>: \<^verbatim>\<open>reducer.rs\<close> and \<^verbatim>\<open>reducer/security.rs\<close>.  \<open>ReducerLaws\<close>: the invariant \<open>state_ok\<close> of the
    whole typed state and the fold as a machine.  \<open>Spine\<close>: who owns which byte.  \<open>Replay\<close>: resuming from a
    prefix and refusals.
  \<^item> \<open>Legality\<close>: \<^verbatim>\<open>legality.rs\<close> and the declarative \<open>legal\<close>.  \<open>Migration\<close>: \<^verbatim>\<open>migration.rs\<close>.
  \<^item> This theory: the properties that span components.

  \<^bold>\<open>Parts and theories of the policy plane.\<close>  Paths are relative to \<^verbatim>\<open>src/src/context_policy/\<close>.

  \<^item> \<open>F64\<close>: binary64 arithmetic on bit patterns, as much of it as the plane uses.
  \<^item> \<open>Operations\<close>: the closed operation registry and the budgets of \<^verbatim>\<open>src/src/context_txn/\<close>.
  \<^item> \<open>Queues\<close>: \<^verbatim>\<open>queue.rs\<close>.  \<open>Governor\<close>: \<^verbatim>\<open>governor.rs\<close>, \<^verbatim>\<open>pressure.rs\<close>, \<^verbatim>\<open>monitor.rs\<close>.  \<open>Ladder\<close>: \<^verbatim>\<open>ladder.rs\<close>,
    \<^verbatim>\<open>progress.rs\<close>.  \<open>Epochs\<close>: \<^verbatim>\<open>cache.rs\<close>, \<^verbatim>\<open>vocabulary.rs\<close>.  \<open>Parameters\<close>: \<^verbatim>\<open>params.rs\<close>.
  \<^item> \<open>Controller\<close>: \<^verbatim>\<open>runtime.rs\<close>, which composes them, with the session's seam \<open>ingest_bulk\<close>; \<open>ControllerLaws\<close>:
    its invariant over the requests of a session.  Properties in \<open>PolicyProperties\<close>.

  \<^bold>\<open>Parts and theories of the store and of ingress.\<close>  Paths are relative to \<^verbatim>\<open>src/src/\<close>.

  \<^item> \<open>Text\<close>: decimal and hexadecimal text.  \<open>Frames\<close>: \<^verbatim>\<open>context_store/spine.rs\<close>, with a spine seen as the list of its
    payloads.  \<open>Vault\<close>: \<^verbatim>\<open>context_store/vault.rs\<close>.  \<open>Store\<close>: \<^verbatim>\<open>context_store/store.rs\<close>, \<^verbatim>\<open>erasure.rs\<close>, \<^verbatim>\<open>ops.rs\<close>.
    Properties in \<open>StoreProperties\<close>.
  \<^item> \<open>Redaction\<close>: \<^verbatim>\<open>context_ingress/redactor.rs\<close>.  \<open>Segments\<close>: \<^verbatim>\<open>segment.rs\<close>.  \<open>Ingress\<close>: \<^verbatim>\<open>capture.rs\<close> and
    \<^verbatim>\<open>ingress.rs\<close>; its locale \<open>ingress_store\<close> is the contract of the trait \<open>IngressSink\<close>, interpreted on the
    context store.  \<open>Launder\<close>: \<^verbatim>\<open>launder.rs\<close>.  \<open>Filters\<close>: \<^verbatim>\<open>filter.rs\<close>.  Properties in \<open>IngressProperties\<close>.

  \<^bold>\<open>Parts and theories of the executor.\<close>  Paths are relative to \<^verbatim>\<open>src/src/context_txn/\<close>.

  \<^item> \<open>Executor\<close>: \<^verbatim>\<open>executor.rs\<close>, \<^verbatim>\<open>audit.rs\<close>, \<^verbatim>\<open>bound_port.rs\<close>; its locale \<open>accounting\<close> is the part of the contract of
    the trait \<open>AccountingPort\<close> the production port honours, interpreted on that port in \<open>TxnProperties\<close>.
    \<open>Receipts\<close>: \<^verbatim>\<open>ledger.rs\<close>, \<^verbatim>\<open>semantic.rs\<close>, \<^verbatim>\<open>branch.rs\<close>, \<^verbatim>\<open>security.rs\<close>.
  \<^item> \<open>AuditLaws\<close>: the registry is closed under the events, and the audit is exactly the legality of the checkpoints.
    \<open>TxnLaws\<close>: the public operations as a datatype of requests, \<open>perform\<close> and \<open>serve\<close>, and the invariant
    \<open>executor_ok\<close>.  Properties in \<open>TxnProperties\<close> and, across gate, ingress and store, in \<open>ReceiptProperties\<close>.

  \<^bold>\<open>Parts and theories of the provider boundary.\<close>  Paths are relative to \<^verbatim>\<open>src/src/\<close>.

  \<^item> \<open>Turns\<close>: \<^verbatim>\<open>context_gateway/protocol.rs\<close>, the turns of a provider from intent to recovery, as an instance of both
    machine contracts.
  \<^item> \<open>Spend\<close>: \<^verbatim>\<open>context_management/\<close>, the spend budget, the plane that charges, records and sends, and the gate's
    consumers on top of it.  \<open>SpendLaws\<close>: the requests of a client that holds permits, and the account of a turn.
    \<open>GateFunds\<close>: the validation gate run on two planes in step, through the locale \<open>metered_pair\<close>, interpreted on
    the plane's own consumers.  Properties in \<open>ManagementProperties\<close>.

  \<^bold>\<open>State and operations.\<close>  A Rust struct is a record whose fields carry a short prefix (\<open>ts_\<close> for
  \<open>TypedState\<close>, \<open>el_\<close> for \<open>EventLog\<close>, \<open>l_\<close> for \<open>Ledger\<close>), an enum is a datatype, a \<open>Result\<close> is a sum with the
  error on the left.  An operation the code runs on a clone returns the new state or an error.  The
  operations of the reducer return a pair of the state they leave and their result, so that a refusal
  that mutates is visible; \<open>ir_split\<close> and the methods of the executor do the same.  A failing \<open>expect\<close> of the
  executor is the error \<open>Panicked\<close>.  A loop of the code is a recursive function named
  after its operation (\<open>stage_claims\<close>, \<open>insert_staged\<close>, \<open>slice_parts\<close>); every one is total, and the loops
  that are not structural (the provenance walk, the closure of a redaction, the loaders of the spine) come
  with their termination proofs.  No fuel appears anywhere: the only counter a loop recurses on, the work budget
  of a detector, is the code's own.

  \<^bold>\<open>Parameters.\<close>  \<open>json_codec\<close> stands for \<open>serde_json\<close> on the types whose canonical encoding embeds JSON;
  \<open>kernel_env\<close> adds SHA-256 and the digest of a candidate.  The leaf store, the models behind
  \<open>GateConsumers\<close> and the ports of the ledger, of branches and of security are records of functions, and so are an
  accounting port, the gateway behind the management plane and its serializer.  \<open>aead\<close> is the vault's cipher.  Two properties
  assume something of a parameter: that the cipher decrypts what it encrypted (\<open>sealed_until_erased\<close>) and that
  it does not refuse (\<open>commit_is_all_or_nothing\<close>).

  \<^bold>\<open>Widths.\<close>  A \<open>u64\<close> is a natural number and every addition of the code is \<open>add64\<close>, which wraps as the
  release build does.  Where a property needs that nothing wraps (the spine, exact covers, numbering
  over a whole log) the bound is a hypothesis of that property.

  \<^bold>\<open>What is shown.\<close>  Log: chained, tamper-evident, and live for its sequencer.  Fold: keeps the joint
  invariant, applies each event once, resumes from any prefix, and leaves the state alone when it
  refuses.  Spine: one owner per byte.  Erasure: nothing rests on an erased leaf.  Legality: the gate
  decides its specification and reports the first violated rule.  Migration: the crash matrix agrees
  with the fold for consistent selections and differs otherwise; visibility moves once; a build is
  adopted only on the log it was planned from.  Components: bounds and histories of the ledger, pins,
  branches, semantic artifacts, scopes and placements.  Policy: queues serve every class fairly and within
  their retries, the governor keeps its budgets and stops a session that keeps violating its rate, episodes
  end, epoch totals are exact, parameters change only as their log says, events survive a reload, and the
  controller never panics in a session.  Store: the durable spine reads back as written, loses only an
  unfinished frame in a crash and refuses edited payloads; the vault never repeats a nonce and keeps what it
  sealed until it is erased.  Ingress: secrets are overwritten, no marker reaches the spine, a commit is all or
  nothing on the store, copied tokens are refused, and the filter registry survives restarts.  Executor: after any
  sequence of requests the log passes the audit and replays to the state held; events are released only as they were
  validated, at most once per proposal, never under a fenced lease and never beyond the region; a semantic receipt
  stands for a passed gate and bytes on the spine; and a sanctioned transaction completes.  Provider boundary: turns
  only move forward, pass their own validation and are final once a branch has been recovered; the spending of a turn
  stays within its total, and a candidate that was reserved can always be validated in full.

  \<^bold>\<open>Not modelled.\<close>  \<^verbatim>\<open>security/quoting.rs\<close>, which renders into the message types of a provider library.  The
  executor's test fixtures.  The publication of render contracts (\<^verbatim>\<open>context_gateway/render.rs\<close>), which hashes the message
  types of that library.  The evaluation harnesses, sessions, the agent loop, providers, tools and the command line: orchestration, input and output around the parts modelled here.
\<close>

section \<open>A concrete kernel\<close>

text \<open>The witnesses run the kernel with constant functions for the library it calls.\<close>

abbreviation demo_json :: json_codec where
  "demo_json \<equiv>
     \<lparr>js_semantic_event = (\<lambda>_. []), js_branch_event = (\<lambda>_. []), js_security_event = (\<lambda>_. []),
      js_ledger_command = (\<lambda>_. []), js_params = (\<lambda>_. []), js_entry = (\<lambda>_. []), js_conflicts = (\<lambda>_. []),
      js_versions = (\<lambda>_. []), js_tool_results = (\<lambda>_. []), js_branches = (\<lambda>_. []), js_security = (\<lambda>_. []),
      js_semantics = (\<lambda>_. [])\<rparr>"

abbreviation demo_env :: kernel_env where
  "demo_env \<equiv> \<lparr>env_json = demo_json, env_hash = (\<lambda>_. ''h''), env_candidate_digest = (\<lambda>_. ''d'')\<rparr>"

abbreviation sealed :: "u64 \<Rightarrow> event_kind \<Rightarrow> digest \<Rightarrow> recorded_event" where
  "sealed q k previous \<equiv> seal demo_json q 0 0 V2 k previous"

abbreviation open_scope :: recorded_event where
  "open_scope \<equiv> sealed 1 (OperationCommit OpScopeOpen 2 0) GENESIS_CHECKSUM"

abbreviation first_append :: recorded_event where
  "first_append \<equiv> sealed 2 (AppendEvent UserSource [72, 105] 2 []) (ev_checksum open_scope)"

abbreviation demo_log :: event_log where
  "demo_log \<equiv> (log_new V2)\<lparr>el_events := [open_scope, first_append]\<rparr>"

lemma demo_log_appended: "run_steps (log_append demo_json) (log_new V2) [open_scope, first_append] = Inr demo_log"
  by (simp add: log_append_def log_new_def log_next_sequence_def head_checksum_def FIRST_SEQUENCE_def)

lemmas kernel_eval = fold_step_def is_applied_def apply_event_def scope_open_op_def commit_to_def scope_open_def
  scopes_new_def genesis_def apply_append_def claims_of_def attribute_def attribute_item_def namespace_watermark_def
  staged_item_def item_new_def event_identity_def scope_lookup_def is_open_def ir_eval

lemma outcome_ok:
  fixes r :: outcome
  assumes "is_ok (snd r)"
  obtains s where "r = (s, Inr ())"
  using assms that by (cases r) (auto simp: is_ok_iff)

lemma demo_log_folds: "is_ok (run_steps (fold_step demo_env) (genesis 32 V2) [open_scope, first_append])"
  by (simp add: kernel_eval)

section \<open>The log\<close>

text \<open>C5: a log built by appends holds the appended events in order, numbered consecutively from its
  first sequence, each under the log's store version, and each event's checksum commits to its
  predecessor's, the first to the genesis checksum.\<close>

theorem log_is_chained:
  assumes "run_steps (log_append json) (log_new sv) es = Inr log"
  shows "el_events log = es \<and> el_store_version log = sv \<and>
    (\<forall>i < length es. ev_sequence (es ! i) = add64 FIRST_SEQUENCE i \<and> ev_store_version (es ! i) = sv \<and>
       verify json (es ! i) (if i = 0 then GENESIS_CHECKSUM else ev_checksum (es ! (i - 1))))"
  using log_new_run [OF assms] chain_ok_nth [OF log_new_run(2) [OF assms]]
    chain_ok_sequence [OF log_new_run(2) [OF assms]]
  by (simp add: log_new_def FIRST_SEQUENCE_def)

theorem log_is_chained_witness:
  "verify demo_json first_append (ev_checksum open_scope) \<and> ev_sequence first_append = 2"
  using log_is_chained [OF demo_log_appended] by (simp add: log_new_def FIRST_SEQUENCE_def)

text \<open>C6: an edit of a recorded event that leaves its digest or its checksum in place is noticed: a log
  with one byte of one event's canonical body changed is refused when it is read back, wherever the
  event stands.\<close>

theorem tampering_noticed:
  assumes "run_steps (log_append json) (log_new sv) es = Inr log" and "i < length es"
    and "encode_body json (es ! i) = p @ b # r" and "encode_body json e' = p @ b' # r" and "b \<noteq> b'"
    and "ev_body_digest e' = ev_body_digest (es ! i) \<or> ev_checksum e' = ev_checksum (es ! i)"
  shows "\<not> is_ok (run_steps (log_append json) (log_new sv) (es[i := e']))"
proof
  assume "is_ok (run_steps (log_append json) (log_new sv) (es[i := e']))"
  then obtain log' where run: "run_steps (log_append json) (log_new sv) (es[i := e']) = Inr log'"
    by (auto simp: is_ok_iff)
  let ?previous = "if i = 0 then GENESIS_CHECKSUM else ev_checksum (es ! (i - 1))"
  have "verify json (es ! i) ?previous"
    using chain_ok_nth [OF log_new_run(2) [OF assms(1)] assms(2)] by simp
  moreover have "verify json e' ?previous"
    using chain_ok_nth [OF log_new_run(2) [OF run], of i] assms(2) by (cases i) simp_all
  ultimately show False using verify_changed_body assms(3-6) by blast
qed

theorem tampering_noticed_witness:
  "\<not> is_ok (run_steps (log_append demo_json) (log_new V2) [open_scope\<lparr>ev_epoch := 2\<rparr>, first_append])"
proof -
  let ?k = "OperationCommit OpScopeOpen 2 0"
  let ?p = "le_bytes 1 @ [0xff]"
    and ?r = "le_take 7 0 @ le_bytes 0 @ le_bytes 3 @ le_bytes V2 @ encode_kind demo_json ?k []"
  have le: "le_bytes 0 = 0 # le_take 7 0" "le_bytes 2 = 2 # le_take 7 0"
    using le_take.simps(2) [of 7 0] le_take.simps(2) [of 7 2] by (simp_all add: le_bytes_def)
  have "encode_body demo_json ([open_scope, first_append] ! 0) = ?p @ 0 # ?r"
    and "encode_body demo_json (open_scope\<lparr>ev_epoch := 2\<rparr>) = ?p @ 2 # ?r"
    by (simp_all add: encode_body_operation EVENT_SCHEMA_VERSION_def le del: encode_kind.simps)
  from tampering_noticed [OF demo_log_appended _ this] show ?thesis by simp
qed

text \<open>A sequencer that continues a log never stalls: however many events it mints, at whatever times,
  the log accepts every one of them, and ends with the minted kinds after its own events.\<close>

lemma sequencer_never_refused:
  assumes "run_steps (log_append json) (log_new sv) es = Inr log"
  shows "\<exists>log'. run_steps (log_append json) log
      (sequence_all json (sequencer_continuing log epoch ms) (el_store_version log) kts) = Inr log' \<and>
    map ev_kind (el_events log') = map ev_kind es @ map fst kts"
proof -
  have "fst (log_base log) < u64_modulus"
    using logs.run_keeps [OF log_ok_new assms] by (simp add: log_ok_def)
  from sequencer_run [OF follows_continuing this] obtain log' where
    run: "run_steps (log_append json) log
      (sequence_all json (sequencer_continuing log epoch ms) (el_store_version log) kts) = Inr log'" by blast
  moreover have "map ev_kind (el_events log') = map ev_kind es @ map fst kts"
    using log_run_events [OF run] log_new_run(1) [OF assms] by (simp add: sequence_all_kinds)
  ultimately show ?thesis by blast
qed

section \<open>The fold\<close>

lemma fold_log_run:
  "fold_log env w log =
     (case run_steps (fold_step env) (genesis w (el_store_version log)) (el_events log) of
        Inl e \<Rightarrow> Inl e
      | Inr s \<Rightarrow> Inr (rehash (state_hash (env_json env) s) s))"
proof -
  have h: "state_hash json (s\<lparr>ts_state_hash := x\<rparr>) = state_hash json s" for json s x
    using state_hash_rehash [of json x s] by (simp add: rehash_def)
  show ?thesis
    unfolding fold_events_run fold_log_def fold_from_def
    by (auto simp: rehash_def h split: prod.splits sum.splits)
qed

lemma fold_log_ok:
  "is_ok (run_steps (fold_step env) (genesis w (el_store_version log)) (el_events log)) \<Longrightarrow> is_ok (fold_log env w log)"
  by (auto simp: fold_log_run is_ok_iff)

lemma demo_fold: obtains s where "fold_log demo_env 32 demo_log = Inr s"
proof -
  have "is_ok (fold_log demo_env 32 demo_log)"
    using demo_log_folds by (intro fold_log_ok) (simp add: log_new_def)
  with that show ?thesis by (auto simp: is_ok_iff)
qed

lemma fold_log_state_ok:
  assumes "fold_log env w log = Inr s"
  shows "state_ok env s"
proof -
  from assms obtain s0 where "run_steps (fold_step env) (genesis w (el_store_version log)) (el_events log) = Inr s0"
    and s: "s = s0\<lparr>ts_state_hash := ts_state_hash s\<rparr>" by (rule fold_log_Inr)
  then have "state_ok env s0" by (intro reducer.run_keeps [OF state_ok_genesis])
  then show ?thesis by (subst s) simp
qed

text \<open>C1: every state the reducer produces from a log is well formed: the invariants of the conversation,
  the scopes, the ledger, the pins and escalations, the branches and the semantic artifacts hold
  together, the state's pins are the security component's, every item and the session belong to an
  opened scope, every lane has a policy, and the committed versions and modes are supported ones.\<close>

theorem fold_keeps_invariants:
  assumes "fold_log env w log = Inr s"
  shows "ir_ok (ts_ir s) \<and> scopes_ok (ts_scopes s) \<and> ledger_ok (ts_ledger s) \<and> security_ok (ts_security s) \<and>
    branches_ok (ts_branches s) \<and> semantics_ok (env_candidate_digest env) (ts_semantic s) \<and>
    ts_pins s = map id_new (bt_keys (ss_pins (ts_security s))) \<and>
    it_scope ` set (ir_items (ts_ir s)) \<subseteq> set (scope_ids (ts_scopes s)) \<and>
    ts_session_scope s \<in> insert 0 (set (scope_ids (ts_scopes s))) \<and> settings_ok s"
  using fold_log_state_ok [OF assms] by (simp add: state_ok_def linked_def)

theorem fold_keeps_invariants_witness: "\<exists>s. fold_log demo_env 32 demo_log = Inr s \<and> ir_ok (ts_ir s)"
proof (rule demo_fold)
  fix s assume "fold_log demo_env 32 demo_log = Inr s"
  with fold_keeps_invariants [OF this] show ?thesis by blast
qed

lemma fold_distinct:
  assumes "run_steps (fold_step env) s es = Inr s'" and "distinct (ts_applied s)"
  shows "distinct (ts_applied s')"
  using assms
proof (induction es arbitrary: s)
  case (Cons e es)
  then obtain s1 where step: "fold_step env s e = Inr s1" and rest: "run_steps (fold_step env) s1 es = Inr s'"
    by auto
  have "distinct (ts_applied s1)"
    using step Cons.prems(2)
    by (auto simp: fold_step_Inr apply_event_def identities_def untouched_def dest!: apply_kind_untouched)
  with Cons.IH [OF rest] show ?case by blast
qed simp

text \<open>The reducer applies every event of the log, each exactly once however often it is repeated, and
  the hash it reports is the hash of the state it returns.\<close>

lemma fold_applies_each_event_once:
  assumes "fold_log env w log = Inr s"
  shows "distinct (ts_applied s) \<and> set (ts_applied s) = event_identity ` set (el_events log) \<and>
    ts_state_hash s = state_hash (env_json env) s"
proof -
  from assms obtain s0 where run: "run_steps (fold_step env) (genesis w (el_store_version log)) (el_events log) = Inr s0"
    and s: "s = rehash (state_hash (env_json env) s0) s0" by (auto simp: fold_log_run split: sum.splits)
  have "distinct (ts_applied s0)" using fold_distinct [OF run] by (simp add: genesis_def)
  moreover have "set (ts_applied s0) = event_identity ` set (el_events log)"
    using fold_identities [OF run] by (simp add: identities_def genesis_def)
  ultimately show ?thesis by (simp add: s)
qed

text \<open>C2: folding a log into the state some prefix of it produced ends as folding the log from the
  beginning does: with the same error, or with the same state and hash.\<close>

theorem fold_resumes_from_prefix:
  assumes "fold_from env s (log_prefix log n) = (s1, Inr u)"
  shows "snd (fold_from env s1 log) = snd (fold_from env s log) \<and>
    (is_ok (snd (fold_from env s log)) \<longrightarrow> fst (fold_from env s1 log) = fst (fold_from env s log))"
  using fold_from_resume [OF assms] by blast

lemma fold_from_ok:
  "is_ok (run_steps (fold_step env) s (el_events log)) \<Longrightarrow> \<exists>s'. fold_from env s log = (s', Inr ())"
  by (auto simp: is_ok_iff fold_from_def fold_events_Inr [where u = "()", symmetric])

theorem fold_resumes_from_prefix_witness:
  "\<exists>s1. fold_from demo_env (genesis 32 V2) (log_prefix demo_log 1) = (s1, Inr ()) \<and>
     fst (fold_from demo_env s1 demo_log) = fst (fold_from demo_env (genesis 32 V2) demo_log)"
proof -
  have "is_ok (run_steps (fold_step demo_env) (genesis 32 V2) [open_scope])" by (simp add: kernel_eval)
  then obtain s1 where s1: "fold_from demo_env (genesis 32 V2) (log_prefix demo_log 1) = (s1, Inr ())"
    using fold_from_ok [of demo_env "genesis 32 V2" "log_prefix demo_log 1"] by (auto simp: log_prefix_def log_new_def)
  from demo_log_folds obtain s where "fold_from demo_env (genesis 32 V2) demo_log = (s, Inr ())"
    using fold_from_ok [of demo_env "genesis 32 V2" demo_log] by (auto simp: log_new_def)
  with fold_resumes_from_prefix [OF s1] s1 show ?thesis by auto
qed



section \<open>Appends\<close>

abbreviation demo_state :: typed_state where
  "demo_state \<equiv> (genesis 32 V2)\<lparr>ts_scopes := \<lparr>sr_scopes =
     [\<lparr>sc_id = 2, sc_parent = None, sc_state = Open, sc_opened_sequence = 2, sc_closed_sequence = None,
       sc_last_item_sequence = 2\<rparr>], sr_idleness_window = 32\<rparr>\<rparr>"

abbreviation demo_claims :: "segment_claim list" where
  "demo_claims \<equiv>
     [\<lparr>cl_span = \<lparr>sr_offset = 0, sr_length = 2\<rparr>, cl_class = None\<rparr>,
      \<lparr>cl_span = \<lparr>sr_offset = 2, sr_length = 3\<rparr>, cl_class = None\<rparr>]"

text \<open>C3: an append is all or nothing.  Either the state is untouched, or every claim becomes one item, in
  order, under consecutive fresh identifiers, in the named scope and not placed anywhere, its
  provenance the claimed span shifted to the end of the spine, and the spine grows by the
  sanitized bytes.\<close>

theorem append_is_all_or_nothing:
  assumes "length claims0 \<le> u64_modulus"
  shows "case apply_append s q src sanitized sc claims0 of
      (s', Inl e) \<Rightarrow> s' = s
    | (s', Inr u) \<Rightarrow>
        (\<exists>claims new. claims_of claims0 sanitized q = Inr claims \<and>
           ir_items (ts_ir s') = ir_items (ts_ir s) @ new \<and> length new = length claims \<and>
           (\<forall>i < length new. it_id (new ! i) = id_append (add64 (append_watermark s) i) \<and>
              it_id (new ! i) \<notin> set (ir_ids (ts_ir s)) \<and>
              it_scope (new ! i) = sc \<and> it_placement (new ! i) = StoreOnly \<and>
              it_provenance (new ! i) = [placed_span (ts_next_offset s) (cl_span (claims ! i))]) \<and>
           ts_next_offset s' = add64 (ts_next_offset s) (length sanitized))"
proof (rule apply_append_cases [OF assms, of s q src sanitized sc])
  fix claims s'
  assume app: "apply_append s q src sanitized sc claims0 = (s', Inr ())"
    and claims: "claims_of claims0 sanitized q = Inr claims" and landed: "appended s q src sanitized sc claims s'"
  let ?new = "staged_items s src sc (append_watermark s) 0 claims"
  have nth: "?new ! i = staged_item s src sc (append_watermark s) i (claims ! i)" if "i < length claims" for i
    using that by (simp add: staged_items_def)
  have len: "length ?new = length claims" by (simp add: staged_items_def)
  from landed have items: "ir_items (ts_ir s') = ir_items (ts_ir s) @ ?new"
    and off: "ts_next_offset s' = add64 (ts_next_offset s) (length sanitized)"
    and new: "set (map it_id ?new) \<inter> set (ir_ids (ts_ir s)) = {}" by (auto simp: appended_def)
  have fresh: "it_id (?new ! i) \<notin> set (ir_ids (ts_ir s))" if "i < length claims" for i
  proof -
    from that len have "it_id (?new ! i) \<in> set (map it_id ?new)" by simp
    with new show ?thesis by blast
  qed
  have all: "\<forall>i < length ?new. it_id (?new ! i) = id_append (add64 (append_watermark s) i) \<and>
      it_id (?new ! i) \<notin> set (ir_ids (ts_ir s)) \<and> it_scope (?new ! i) = sc \<and> it_placement (?new ! i) = StoreOnly \<and>
      it_provenance (?new ! i) = [placed_span (ts_next_offset s) (cl_span (claims ! i))]"
    using fresh by (simp add: len nth placed_span_def)
  show ?thesis unfolding app using claims items len all off by auto
qed simp

theorem append_is_all_or_nothing_witness:
  "is_ok (snd (apply_append demo_state 3 UserSource [72, 105, 33, 33, 33] 2 demo_claims)) \<and>
   length (ir_items (ts_ir (fst (apply_append demo_state 3 UserSource [72, 105, 33, 33, 33] 2 demo_claims)))) = 2"
proof -
  have ok: "is_ok (snd (apply_append demo_state 3 UserSource [72, 105, 33, 33, 33] 2 demo_claims))"
    by (simp add: kernel_eval)
  obtain s' where app: "apply_append demo_state 3 UserSource [72, 105, 33, 33, 33] 2 demo_claims = (s', Inr ())"
    using ok by (rule outcome_ok)
  have claims: "claims_of demo_claims [72, 105, 33, 33, 33] 3 = Inr demo_claims"
    by (simp add: kernel_eval)
  have none: "ir_items (ts_ir demo_state) = []" by (simp add: genesis_def ir_new_def)
  have "length demo_claims \<le> u64_modulus" by simp
  from append_is_all_or_nothing [OF this, where s = demo_state and q = 3 and src = UserSource
    and sanitized = "[72, 105, 33, 33, 33]" and sc = 2]
  have "length (ir_items (ts_ir s')) = 2" unfolding app using claims none by auto
  with ok app show ?thesis by simp
qed

text \<open>What a tool returned is evidence: every item an append of a tool result adds is in the evidential
  lane, whatever structural class its segments claim.\<close>

lemma tool_results_are_evidence:
  assumes "apply_append s q (ToolResultSource call_id tool) sanitized sc claims0 = (s', Inr u)"
  shows "\<exists>new. ir_items (ts_ir s') = ir_items (ts_ir s) @ new \<and> new \<noteq> [] \<and> (\<forall>it \<in> set new. it_lane it = Evidential)"
  using assms
proof (rule apply_append_Inr)
  fix claims assume claims: "claims_of claims0 sanitized q = Inr claims"
    and landed: "appended s q (ToolResultSource call_id tool) sanitized sc claims s'"
  let ?new = "staged_items s (ToolResultSource call_id tool) sc (append_watermark s) 0 claims"
  have "ir_items (ts_ir s') = ir_items (ts_ir s) @ ?new" using landed by (auto simp: appended_def)
  moreover have "it_lane it = Evidential" if "it \<in> set ?new" for it
    using staged_items_member [OF that] by (auto simp: claim_lane_def)
  moreover have "?new \<noteq> []" using claims by (auto simp: claims_of_def staged_items_def split: if_splits)
  ultimately show ?thesis by blast
qed

text \<open>C4: the spine has one owner per byte.  As long as the bytes of a log fit the address space and the
  recorded spans do not wrap, the provenance ranges of all items of the folded state are pairwise
  disjoint and lie below the next offset, and folding further events never drops a covered byte.\<close>

theorem spine_has_one_owner_per_byte:
  assumes "run_steps (fold_step env) (genesis w sv) es = Inr s" and "run_steps (fold_step env) s es' = Inr s'"
    and "log_bytes (es @ es') < u64_modulus" and "\<forall>e \<in> set (es @ es'). spans_fit (ev_kind e)"
  shows "disjoint_ranges (spine s') \<and> bytes_of (spine s') \<subseteq> {..< ts_next_offset s'} \<and>
    bytes_of (spine s) \<subseteq> bytes_of (spine s')"
proof -
  have bytes: "ts_next_offset (genesis w sv) + log_bytes es < u64_modulus"
    using assms(3) by (simp add: log_bytes_def genesis_def)
  have s: "spine_ok s \<and> ts_next_offset s \<le> log_bytes es"
    using fold_spine [OF spine_ok_genesis state_ok_genesis assms(1) bytes] assms(4)
      by (simp add: genesis_def)
  then have "ts_next_offset s + log_bytes es' < u64_modulus" using assms(3) by (simp add: log_bytes_def)
  with fold_spine [OF _ reducer.run_keeps [OF state_ok_genesis assms(1)] assms(2)] s assms(4)
  show ?thesis by (simp add: spine_ok_def)
qed

theorem spine_has_one_owner_per_byte_witness:
  "\<exists>s s'. run_steps (fold_step demo_env) (genesis 32 V2) [open_scope] = Inr s \<and>
     run_steps (fold_step demo_env) s [first_append] = Inr s' \<and> disjoint_ranges (spine s')"
proof -
  from demo_log_folds obtain s s' where run: "run_steps (fold_step demo_env) (genesis 32 V2) [open_scope] = Inr s"
    "run_steps (fold_step demo_env) s [first_append] = Inr s'"
    by (auto simp: is_ok_iff)
  have "log_bytes ([open_scope] @ [first_append]) < u64_modulus"
    and "\<forall>e \<in> set ([open_scope] @ [first_append]). spans_fit (ev_kind e)"
    by (simp_all add: log_bytes_def)
  from spine_has_one_owner_per_byte [OF run this] run show ?thesis by blast
qed

section \<open>Erasure\<close>

text \<open>C25: once a leaf is erased, no semantic artifact of the folded state rests on it: neither one that was
  put before the erasure nor one put after it.\<close>

theorem erased_leaves_support_nothing:
  assumes "fold_log env w log = Inr s" and "bt_get (ss_erased (ts_security s)) leaf = Some er"
    and "bt_get (ts_semantic s) k = Some a"
  shows "leaf \<notin> support_leaves (sa_validation a)"
proof
  assume "leaf \<in> support_leaves (sa_validation a)"
  moreover have ok: "state_ok env s" by (rule fold_log_state_ok [OF assms(1)])
  then have "bt_ok (ts_semantic s)" by (simp add: state_ok_def semantics_ok_def)
  ultimately have "leaf \<in> supports (ts_semantic s)" using assms(3) by (auto simp: supports_get)
  with ok assms(2) show False by (auto simp: state_ok_def linked_def erased_leaves_def)
qed

abbreviation erasing_events :: "recorded_event list" where
  "erasing_events \<equiv>
     [sealed 2 (SemanticKind (SemanticPut demo_command demo_validation)) GENESIS_CHECKSUM,
      sealed 3 (SecurityKind (EraseEvent (demo_erasure\<lparr>er_leaf := ''l''\<rparr>))) GENESIS_CHECKSUM]"

lemma erasing_folds:
  "\<exists>s a. run_steps (fold_step demo_env) (genesis 32 V2) erasing_events = Inr s \<and>
     bt_get (ss_erased (ts_security s)) ''l'' = Some (demo_erasure\<lparr>er_leaf := ''l''\<rparr>) \<and> bt_get (ts_semantic s) ''k'' = Some a"
  by (simp add: kernel_eval erased_put_def rests_on_erased_def semantic_put_def replay_authority_def
    replay_valid_def put_depth_def lossy_def MAX_GRAPH_NODES_def minimum_authority_def apply_security_def
    security_eval valid_hash_def semantic_erase_def erase_artifact_def ledger_apply_def list_all_iff hash_char_def)

theorem erased_leaves_support_nothing_witness:
  "\<exists>s a. fold_log demo_env 32 ((log_new V2)\<lparr>el_events := erasing_events\<rparr>) = Inr s \<and>
     bt_get (ts_semantic s) ''k'' = Some a \<and> ''l'' \<notin> support_leaves (sa_validation a)"
proof -
  from erasing_folds obtain s0 a where run: "run_steps (fold_step demo_env) (genesis 32 V2) erasing_events = Inr s0"
    and er: "bt_get (ss_erased (ts_security s0)) ''l'' = Some (demo_erasure\<lparr>er_leaf := ''l''\<rparr>)"
    and a: "bt_get (ts_semantic s0) ''k'' = Some a" by blast
  let ?s = "rehash (state_hash demo_json s0) s0"
  have "fold_log demo_env 32 ((log_new V2)\<lparr>el_events := erasing_events\<rparr>) = Inr ?s"
    using run by (simp add: fold_log_run log_new_def del: run_steps.simps)
  from erased_leaves_support_nothing [OF this] this er a show ?thesis by auto
qed

section \<open>Legality\<close>

text \<open>C8: on every folded state the legality gate accepts exactly the projections that satisfy the
  declarative specification: every tool call paired with its result, regions in layout order,
  placeholders only where the contract allows them, budgets respected, floors and pins kept, and the
  contract's quoting convention; the evidence it returns is bound to the contract's version.\<close>

theorem gate_accepts_exactly_the_legal:
  assumes "fold_log env w log = Inr s"
  shows "is_legal s c = Inr lc \<longleftrightarrow> legal s c \<and> lc = \<lparr>lc_contract_version = rc_version c\<rparr>"
proof (rule is_legal_Inr)
  show "distinct (ir_ids (ts_ir s))"
    using fold_log_state_ok [OF assms] by (simp add: state_ok_def ir_ok_def)
qed

theorem gate_accepts_exactly_the_legal_witness:
  "\<exists>s. fold_log demo_env 32 demo_log = Inr s \<and>
     (\<forall>lc. is_legal s (contract_generous 2) = Inr lc \<longleftrightarrow>
        legal s (contract_generous 2) \<and> lc = \<lparr>lc_contract_version = 2\<rparr>)"
proof (rule demo_fold)
  fix s assume s: "fold_log demo_env 32 demo_log = Inr s"
  from gate_accepts_exactly_the_legal [OF s, of "contract_generous 2"] s show ?thesis
    by (simp add: contract_generous_def)
qed

text \<open>A refusal of the gate names the first violated rule of the table: it carries that rule's kind,
  that rule's check produced it, and every earlier check passed.\<close>

lemma refusal_names_first_violated_rule:
  assumes "is_legal s c = Inl v"
  shows "\<exists>i < length RULES. snd (RULES ! i) s c = Some v \<and> violation_kind v = fst (RULES ! i) \<and>
    (\<forall>j < i. snd (RULES ! j) s c = None)"
  using assms by (rule is_legal_Inl) blast

section \<open>Migration\<close>

text \<open>The crash matrix and the reducer agree on the store version after a recovery, as long as every
  selection the log records names the same version: the decision read off the log is the version the
  folded state selected, and the old version when none was selected.\<close>

lemma crash_matrix_agrees_with_fold:
  assumes "run_steps (log_append json) (log_new V2) es = Inr log" and "fold_log env w log = Inr s"
    and "length es \<le> u64_modulus" and "set (selections es) \<subseteq> {v}"
  shows "decision_store_version (decide log) =
    (case ts_selected_store_version s of Some selected \<Rightarrow> selected | None \<Rightarrow> V2)"
proof -
  note log = log_new_run [OF assms(1)]
  from assms(2) obtain s0 where run: "run_steps (fold_step env) (genesis w V2) es = Inr s0"
    and s: "s = s0\<lparr>ts_state_hash := ts_state_hash s\<rparr>"
    by (rule fold_log_Inr) (simp add: log(1) log_new_def)
  have "distinct (map event_identity es)"
    by (rule chain_identities_distinct [OF log(2) _ assms(3)]) (simp add: FIRST_SEQUENCE_def)
  from fold_selected [OF run this]
  have sel: "ts_selected_store_version s = (if selections es = [] then None else Some (last (selections es)))"
    by (subst s) (simp add: identities_def genesis_def)
  have "settings_ok s" using fold_log_state_ok [OF assms(2)] by (simp add: state_ok_def)
  then have "selections es \<noteq> [] \<Longrightarrow> last (selections es) \<in> {V2, V3}" by (simp add: settings_ok_def sel)
  moreover have "selections es \<noteq> [] \<Longrightarrow> hd (selections es) = last (selections es)"
    using assms(4) hd_in_set last_in_set by blast
  moreover have "decide log = decide_from es" by (simp add: decide_def log(1) log_new_def V2_def V3_def)
  ultimately show ?thesis by (auto simp: decide_from_version sel)
qed

abbreviation select_version :: "u64 \<Rightarrow> u64 \<Rightarrow> digest \<Rightarrow> recorded_event" where
  "select_version q v previous \<equiv> sealed q (OperationCommit OpMigrationSelect v 0) previous"

abbreviation first_selection :: recorded_event where
  "first_selection \<equiv> select_version 1 V3 GENESIS_CHECKSUM"

abbreviation second_selection :: recorded_event where
  "second_selection \<equiv> select_version 2 V2 (ev_checksum first_selection)"

lemmas log_eval = log_append_def log_new_def log_next_sequence_def head_checksum_def FIRST_SEQUENCE_def

text \<open>Without that condition they disagree: the crash matrix keeps the first selection of the log and
  the reducer the last.  A log that selects version 3 and then version 2 recovers as version 3, while
  the state folded from it has version 2 selected.\<close>

lemma crash_matrix_reads_first_selection:
  "\<exists>log s. run_steps (log_append demo_json) (log_new V2) [first_selection, second_selection] = Inr log \<and>
     fold_log demo_env 32 log = Inr s \<and>
     decide log = SelectV3 1 \<and> ts_selected_store_version s = Some V2"
proof -
  let ?log = "(log_new V2)\<lparr>el_events := [first_selection, second_selection]\<rparr>"
  have log: "run_steps (log_append demo_json) (log_new V2) [first_selection, second_selection] = Inr ?log"
    by (simp add: log_eval)
  have "\<exists>s0. run_steps (fold_step demo_env) (genesis 32 V2) [first_selection, second_selection] = Inr s0 \<and>
      ts_selected_store_version s0 = Some V2"
    by (simp add: kernel_eval select_migration_def)
  then obtain s0 where run: "run_steps (fold_step demo_env) (genesis 32 V2) [first_selection, second_selection] = Inr s0"
    and v2: "ts_selected_store_version s0 = Some V2" by blast
  have "fold_log demo_env 32 ?log = Inr (rehash (state_hash demo_json s0) s0)"
    using run by (simp add: fold_log_run log_new_def del: run_steps.simps)
  moreover have "decide ?log = SelectV3 1" by (simp add: decide_def log_new_def V2_def V3_def)
  moreover have "ts_selected_store_version (rehash (state_hash demo_json s0) s0) = Some V2"
    by (simp add: rehash_def v2)
  ultimately show ?thesis using log by blast
qed

text \<open>Readers see at most one change of generation.  Starting from a committed generation, whatever
  builds land, are discarded or swapped in, the active slot always holds a committed generation, it is
  the original one until the swap and never changes after it, and at most one swap is accepted.\<close>

lemma visibility_moves_once:
  assumes "run_steps slot_step (slots_genesis sv b c) cs = Inr sp" and "run_steps slot_step sp ds = Inr sp'"
  shows "gen_scope (sp_active sp) = EventChain \<and> (\<not> sp_published sp \<longrightarrow> sp_active sp = Committed sv b c) \<and>
    (sp_published sp \<longrightarrow> sp_active sp' = sp_active sp) \<and> length (filter is_swap (cs @ ds)) \<le> 1"
proof -
  have "slots_ok (slots_genesis sv b c)" by (simp add: slots_ok_def slots_genesis_def)
  from slots.run_keeps [OF this assms(1)] have "gen_scope (sp_active sp) = EventChain" by (simp add: slots_ok_def)
  moreover have "\<not> sp_published sp \<longrightarrow> sp_active sp = Committed sv b c"
    using slots_history.run_below [OF assms(1)] by (simp add: slots_later_def slots_genesis_def)
  moreover have "sp_published sp \<longrightarrow> sp_active sp' = sp_active sp"
    using slots_history.run_below [OF assms(2)] by (auto simp: slots_later_def)
  moreover have "length (filter is_swap (cs @ ds)) \<le> 1"
    using swaps_once [OF assms(1)] swaps_once [OF assms(2)] by simp
  ultimately show ?thesis by blast
qed

text \<open>A private build is published only against the log it was planned from: the completed build of a
  plan is adopted on that log, under the plan's target version and with a checksum that verifies the
  built bytes, and is refused as soon as the log has recorded anything more.\<close>

lemma build_adopted_only_on_its_spine:
  assumes "run_steps (log_append json) log es = Inr log'" and "es \<noteq> []" and "length es < u64_modulus"
    and "log_next_sequence log < u64_modulus"
  shows "(\<exists>p. adopt (complete_with (build_start (plan_for_log target ranges log)) bytes) log = Inr p \<and>
      pu_store_version p = target \<and> \<not> pu_published p \<and> publication_verify p bytes) \<and>
    adopt (complete_with (build_start (plan_for_log target ranges log)) bytes) log' =
      Inl (SpineAdvanced (log_next_sequence log) (log_next_sequence log'))"
proof
  show "\<exists>p. adopt (complete_with (build_start (plan_for_log target ranges log)) bytes) log = Inr p \<and>
      pu_store_version p = target \<and> \<not> pu_published p \<and> publication_verify p bytes"
    by (simp add: adopt_def complete_with_def build_start_def plan_for_log_def publication_of_def publication_verify_def)
  have "log_next_sequence log' \<noteq> log_next_sequence log"
    using log_run_sequence [OF assms(1)] add64_inject [of "log_next_sequence log" "length es" 0] assms(2-4) by auto
  then show "adopt (complete_with (build_start (plan_for_log target ranges log)) bytes) log' =
      Inl (SpineAdvanced (log_next_sequence log) (log_next_sequence log'))"
    by (simp add: adopt_def complete_with_def build_start_def plan_for_log_def)
qed

end
